(* ===== verification/Prelude.thy ===== *)
theory Prelude
  imports Complex_Main "HOL-Library.AList" "HOL-Library.While_Combinator"
    "HOL-Library.Product_Lexorder" "HOL-Library.List_Lexorder" "HOL-Library.Char_ord"
    "HOL-Library.Word"
begin

text \<open>
  What the components share. Python's dictionaries are association lists in insertion order
  (\<open>dict_set\<close> keeps the position of a present key and appends an absent one, \<open>dict_del\<close> removes
  it), a counter dictionary is such a list with the default 0, \<open>pyval\<close> are the dynamically typed
  values that come out of the serialiser, \<open>heap_push\<close> and \<open>heap_pop\<close> are \<open>heapq\<close>. Floats and
  clock readings are reals: rounding is not modelled. The locale \<open>eviction\<close> is the contract of a
  loop that evicts one element at a time until a bound holds, the locale \<open>transitions\<close> that of a
  component whose operations keep an invariant.
\<close>

section \<open>Types shared by the components\<close>

type_synonym uid = string
type_synonym peer = string
type_synonym time = real
type_synonym bytes = "8 word list"
type_synonym ('k, 'v) dict = "('k \<times> 'v) list"
type_synonym counters = "(string, int) dict"

text \<open>Dynamically typed values (what msgpack and JSON decode to).\<close>

datatype pyval = PNone | PBool bool | PInt int | PFloat real | PStr string | PBytes bytes
  | PList "pyval list" | PDict "(string \<times> pyval) list"

text \<open>A tensor: the size of one element in bytes and the elements, flattened.\<close>

record tensor =
  tn_elem_size :: nat
  tn_vals :: "real list"

definition nelement :: "tensor \<Rightarrow> nat" where
  "nelement t = length (tn_vals t)"

text \<open>The exceptions the modelled code raises.\<close>

datatype error = AssertionError | ValueError | KeyError | IndexError | TypeError | RuntimeError
  | ZeroDivisionError

named_theorems dict_simps \<open>lookup after an update of a dictionary\<close>
named_theorems inv_intros \<open>preservation of the invariants of the components\<close>

section \<open>Dictionaries in insertion order\<close>

declare map_of_eq_Some_iff [simp del]
declare Some_eq_map_of_iff [simp del]

abbreviation dict_get :: "('k, 'v) dict \<Rightarrow> 'k \<Rightarrow> 'v option" where
  "dict_get d k \<equiv> map_of d k"

definition dict_set :: "'k \<Rightarrow> 'v \<Rightarrow> ('k, 'v) dict \<Rightarrow> ('k, 'v) dict" where
  "dict_set k v d = AList.update k v d"

definition dict_del :: "'k \<Rightarrow> ('k, 'v) dict \<Rightarrow> ('k, 'v) dict" where
  "dict_del k d = AList.delete k d"

abbreviation dict_has :: "('k, 'v) dict \<Rightarrow> 'k \<Rightarrow> bool" where
  "dict_has d k \<equiv> k \<in> fst ` set d"

abbreviation dict_ok :: "('k, 'v) dict \<Rightarrow> bool" where
  "dict_ok d \<equiv> distinct (map fst d)"

lemma dict_get_set [simp, dict_simps]:
  "map_of (dict_set k v d) k' = (if k' = k then Some v else map_of d k')"
  by (simp add: dict_set_def update_conv')

lemma dict_get_del [simp, dict_simps]:
  "map_of (dict_del k d) k' = (if k' = k then None else map_of d k')"
  by (simp add: dict_del_def delete_conv')

lemma dict_keys_set [simp]: "fst ` set (dict_set k v d) = insert k (fst ` set d)"
  by (simp add: dict_set_def dom_update)

lemma dict_keys_del [simp]: "fst ` set (dict_del k d) = fst ` set d - {k}"
  by (auto simp: dict_del_def AList.delete_eq)

lemma dict_ok_set [simp, intro]: "dict_ok d \<Longrightarrow> dict_ok (dict_set k v d)"
  by (simp add: dict_set_def AList.distinct_update)

lemma dict_ok_del [simp, intro]: "dict_ok d \<Longrightarrow> dict_ok (dict_del k d)"
  by (simp add: dict_del_def AList.distinct_delete)

lemma dict_has_iff: "dict_has d k \<longleftrightarrow> dict_get d k \<noteq> None"
  by (metis domIff dom_map_of_conv_image_fst)

lemma dict_set_new: "\<not> dict_has d k \<Longrightarrow> dict_set k v d = d @ [(k, v)]"
  unfolding dict_set_def by (induction d) auto

lemma dict_del_absent [simp]: "\<not> dict_has d k \<Longrightarrow> dict_del k d = d"
  unfolding dict_del_def by (induction d) (auto simp: AList.delete_eq)

lemma dict_del_Nil [simp]: "dict_del k [] = []"
  by (simp add: dict_del_def)

lemma dict_del_Cons: "dict_del k (p # d) = (if fst p = k then dict_del k d else p # dict_del k d)"
  by (auto simp: dict_del_def AList.delete_eq)

lemma dict_del_subset: "set (dict_del k d) \<subseteq> set d"
  by (auto simp: dict_del_def AList.delete_eq)

lemma dict_del_head: "dict_ok (p # d) \<Longrightarrow> dict_del (fst p) (p # d) = d"
  by (simp add: dict_del_Cons)

lemma length_dict_del:
  "dict_ok d \<Longrightarrow> length (dict_del k d) = (if dict_has d k then length d - 1 else length d)"
proof (induction d)
  case (Cons p d)
  then show ?case by (cases d) (auto simp: dict_del_Cons)
qed simp

lemma length_dict_del_le: "length (dict_del k d) \<le> length d"
  by (simp add: dict_del_def AList.delete_eq)

lemma length_dict_del_present:
  assumes "dict_ok d" and "dict_get d k = Some v"
  shows "Suc (length (dict_del k d)) = length d"
proof -
  have "dict_has d k" using assms(2) by (simp add: dict_has_iff)
  moreover from this have "d \<noteq> []" by auto
  ultimately show ?thesis using length_dict_del [OF assms(1), of k] by simp
qed

lemma length_dict_set:
  "length (dict_set k v d) = (if dict_has d k then length d else Suc (length d))"
  unfolding dict_set_def by (induction d) auto

text \<open>Sums over a dictionary, for byte accounting.\<close>

lemma sum_dict_del:
  fixes f :: "'k \<times> 'v \<Rightarrow> int"
  assumes "dict_ok d" and "dict_get d k = Some v"
  shows "sum_list (map f (dict_del k d)) = sum_list (map f d) - f (k, v)"
  using assms
proof (induction d)
  case (Cons p d)
  show ?case
  proof (cases "fst p = k")
    case True
    with Cons.prems show ?thesis by (cases p) (simp add: dict_del_Cons)
  next
    case False
    with Cons show ?thesis by (cases p) (simp add: dict_del_Cons)
  qed
qed simp

lemma member_le_sum_map:
  fixes f :: "'a \<Rightarrow> int"
  assumes "x \<in> set xs" and "\<forall>y\<in>set xs. 0 \<le> f y"
  shows "f x \<le> sum_list (map f xs)"
  using assms
proof (induction xs)
  case (Cons y ys)
  then have "0 \<le> sum_list (map f ys)" by (intro sum_list_nonneg) auto
  with Cons show ?case by auto
qed simp

section \<open>Counters\<close>

definition cget :: "counters \<Rightarrow> string \<Rightarrow> int" where
  "cget c n = (case dict_get c n of None \<Rightarrow> 0 | Some v \<Rightarrow> v)"

definition bump :: "string \<Rightarrow> int \<Rightarrow> counters \<Rightarrow> counters" where
  "bump n d c = dict_set n (cget c n + d) c"

lemma cget_bump [simp]: "cget (bump n d c) m = cget c m + (if m = n then d else 0)"
  by (simp add: bump_def cget_def)

lemma cget_Nil [simp]: "cget [] n = 0"
  by (simp add: cget_def)

section \<open>heapq\<close>

text \<open>
  A heap is kept sorted, so the root is the head: \<open>heappop\<close> returns a smallest element, and equal
  elements cannot be told apart.
\<close>

definition heap_push :: "'a::linorder \<Rightarrow> 'a list \<Rightarrow> 'a list" where
  "heap_push x h = insort x h"

fun heap_pop :: "'a list \<Rightarrow> ('a \<times> 'a list) option" where
  "heap_pop [] = None"
| "heap_pop (x # h) = Some (x, h)"

lemma heap_push_set [simp]: "set (heap_push x h) = insert x (set h)"
  by (simp add: heap_push_def set_insort_key)

lemma heap_push_sorted [simp]: "sorted (heap_push x h) = sorted h"
  by (simp add: heap_push_def sorted_insort)

lemma heap_push_length [simp]: "length (heap_push x h) = Suc (length h)"
  by (simp add: heap_push_def)

lemma heap_push_nonempty [simp]: "heap_push x h \<noteq> []"
  by (metis heap_push_length length_0_conv nat.distinct(1))

section \<open>Eviction until a bound holds\<close>

text \<open>
  The contract of \<open>while over: evict one\<close>: eviction keeps the invariant and shrinks the store.
  The loop then ends, and it ends within the bound.
\<close>

locale eviction =
  fixes over :: "'s \<Rightarrow> bool"
    and evict :: "'s \<Rightarrow> 's"
    and measure_of :: "'s \<Rightarrow> nat"
    and invar :: "'s \<Rightarrow> bool"
  assumes evict_less: "invar s \<Longrightarrow> over s \<Longrightarrow> measure_of (evict s) < measure_of s"
    and evict_invar: "invar s \<Longrightarrow> over s \<Longrightarrow> invar (evict s)"
begin

lemma loop_post: "invar s \<Longrightarrow> invar (while over evict s) \<and> \<not> over (while over evict s)"
  by (rule while_rule [where P = invar and r = "measure measure_of"])
    (auto intro: evict_less evict_invar)

lemma loop_terminates: "invar s \<Longrightarrow> \<exists>t. while_option over evict s = Some t"
  by (rule measure_while_option_Some [where P = invar and f = measure_of])
    (auto intro: evict_less evict_invar)

lemma loop_keeps:
  assumes "invar s" and "P s"
    and "\<And>t. invar t \<Longrightarrow> over t \<Longrightarrow> P t \<Longrightarrow> P (evict t)"
  shows "P (while over evict s)"
proof -
  have "invar (while over evict s) \<and> P (while over evict s)"
    by (rule while_rule [where P = "\<lambda>t. invar t \<and> P t" and r = "measure measure_of"])
      (auto intro: evict_less evict_invar assms)
  then show ?thesis by simp
qed

end

section \<open>Components as transition systems\<close>

locale transitions =
  fixes init :: "'s \<Rightarrow> bool"
    and step :: "'s \<Rightarrow> 's \<Rightarrow> bool"
    and invar :: "'s \<Rightarrow> bool"
  assumes init_invar: "init s \<Longrightarrow> invar s"
    and step_invar: "invar s \<Longrightarrow> step s t \<Longrightarrow> invar t"
begin

lemma run_invar: "invar s \<Longrightarrow> step\<^sup>*\<^sup>* s t \<Longrightarrow> invar t"
  by (erule rtranclp_induct) (auto intro: step_invar)

lemma reachable_invar: "init s \<Longrightarrow> step\<^sup>*\<^sup>* s t \<Longrightarrow> invar t"
  by (auto intro: run_invar init_invar)

end

end
