(* ===== verification/BatchMetadata.thy ===== *)
theory BatchMetadata
  imports Prelude
begin

text \<open>
  The per-microbatch metadata of \<open>core/batch_metadata.py\<close>: the record, its serialisation to a
  dictionary, and the parser with its per-field coercions. The msgpack serialiser is third-party
  code: \<open>dumps\<close> and \<open>loads\<close> are parameters. \<open>from_bytes\<close> does not check the types of \<open>tid\<close>, \<open>seq\<close>
  and \<open>shard\<close>, so these fields are dynamically typed here as well.
\<close>

definition BATCH_METADATA_VERSION :: int where
  "BATCH_METADATA_VERSION = 1"

fun as_str_or_none :: "pyval option \<Rightarrow> string option" where
  "as_str_or_none (Some (PStr s)) = Some s"
| "as_str_or_none _ = None"

definition hex_chars :: string where
  "hex_chars = ''0123456789abcdef''"

definition is_hex64 :: "string \<Rightarrow> bool" where
  "is_hex64 s \<longleftrightarrow> length s = 64 \<and> list_all (\<lambda>c. c \<in> set hex_chars) s"

fun as_manifest_or_none :: "pyval option \<Rightarrow> string option" where
  "as_manifest_or_none (Some (PStr s)) = (if is_hex64 s then Some s else None)"
| "as_manifest_or_none _ = None"

fun py_str :: "pyval \<Rightarrow> string option" where
  "py_str (PStr s) = Some s"
| "py_str _ = None"

text \<open>\<open>tuple(value) or None\<close>: the empty tuple is falsy, so an empty list becomes \<open>None\<close>.\<close>

fun as_maddrs_or_none :: "pyval option \<Rightarrow> string list option" where
  "as_maddrs_or_none (Some (PList vs)) =
     (if list_all (\<lambda>v. py_str v \<noteq> None) vs \<and> vs \<noteq> [] then Some (map (the \<circ> py_str) vs) else None)"
| "as_maddrs_or_none _ = None"

fun as_nonnegative_int_or_none :: "pyval option \<Rightarrow> int option" where
  "as_nonnegative_int_or_none (Some (PInt i)) = (if 0 \<le> i then Some i else None)"
| "as_nonnegative_int_or_none _ = None"

fun as_positive_int_or_none :: "pyval option \<Rightarrow> int option" where
  "as_positive_int_or_none (Some (PInt i)) = (if 0 < i then Some i else None)"
| "as_positive_int_or_none _ = None"

datatype batch_purpose = NORMAL

fun purpose_int :: "batch_purpose \<Rightarrow> int" where
  "purpose_int NORMAL = 0"

text \<open>\<open>BatchPurpose(v)\<close>: every value equal to 0 names the member, any other raises.\<close>

fun purpose_of :: "pyval \<Rightarrow> batch_purpose option" where
  "purpose_of (PInt i) = (if i = 0 then Some NORMAL else None)"
| "purpose_of (PBool b) = (if b then None else Some NORMAL)"
| "purpose_of (PFloat x) = (if x = 0 then Some NORMAL else None)"
| "purpose_of _ = None"

record batch_metadata =
  bm_trainer_uid :: pyval
  bm_seq :: pyval
  bm_data_shard :: pyval
  bm_purpose :: batch_purpose
  bm_trainer_peer_id :: "string option"
  bm_next_hop_uid :: "string option"
  bm_next_hop_peer_id :: "string option"
  bm_prev_hop_uid :: "string option"
  bm_prev_hop_peer_id :: "string option"
  bm_prev_hop_maddrs :: "string list option"
  bm_data_manifest :: "string option"
  bm_sample_start :: "int option"
  bm_sample_stride :: "int option"
  bm_sample_rows :: "int option"

text \<open>An optional key is emitted only when the field is set.\<close>

definition opt_item :: "string \<Rightarrow> ('a \<Rightarrow> pyval) \<Rightarrow> 'a option \<Rightarrow> (string, pyval) dict" where
  "opt_item k f v = (case v of None \<Rightarrow> [] | Some x \<Rightarrow> [(k, f x)])"

definition bm_obj :: "batch_metadata \<Rightarrow> (string, pyval) dict" where
  "bm_obj md =
     [(''v'', PInt BATCH_METADATA_VERSION), (''tid'', bm_trainer_uid md), (''seq'', bm_seq md),
      (''shard'', bm_data_shard md), (''kind'', PInt (purpose_int (bm_purpose md)))]
     @ opt_item ''nh_uid'' PStr (bm_next_hop_uid md)
     @ opt_item ''nh_pid'' PStr (bm_next_hop_peer_id md)
     @ opt_item ''tpid'' PStr (bm_trainer_peer_id md)
     @ opt_item ''ph_uid'' PStr (bm_prev_hop_uid md)
     @ opt_item ''ph_pid'' PStr (bm_prev_hop_peer_id md)
     @ opt_item ''ph_maddrs'' (\<lambda>ms. PList (map PStr ms)) (bm_prev_hop_maddrs md)
     @ opt_item ''manifest'' PStr (bm_data_manifest md)
     @ opt_item ''sample_start'' PInt (bm_sample_start md)
     @ opt_item ''sample_stride'' PInt (bm_sample_stride md)
     @ opt_item ''sample_rows'' PInt (bm_sample_rows md)"

definition bm_to_bytes :: "(pyval \<Rightarrow> bytes) \<Rightarrow> batch_metadata \<Rightarrow> bytes" where
  "bm_to_bytes dumps md = dumps (PDict (bm_obj md))"

text \<open>
  The constructor call of \<open>from_bytes\<close>: a missing \<open>tid\<close> or \<open>seq\<close> and an unknown \<open>kind\<close> raise, and
  the \<open>except\<close> clause turns that into \<open>None\<close>.
\<close>

definition bm_of_obj :: "(string, pyval) dict \<Rightarrow> batch_metadata option" where
  "bm_of_obj obj =
     (case (dict_get obj ''tid'', dict_get obj ''seq'') of
        (Some tid, Some sq) \<Rightarrow>
          (case purpose_of (case dict_get obj ''kind'' of None \<Rightarrow> PInt 0 | Some k \<Rightarrow> k) of
             None \<Rightarrow> None
           | Some p \<Rightarrow> Some
               \<lparr>bm_trainer_uid = tid, bm_seq = sq,
                bm_data_shard = (case dict_get obj ''shard'' of None \<Rightarrow> PInt (-1) | Some s \<Rightarrow> s),
                bm_purpose = p,
                bm_trainer_peer_id = as_str_or_none (dict_get obj ''tpid''),
                bm_next_hop_uid = as_str_or_none (dict_get obj ''nh_uid''),
                bm_next_hop_peer_id = as_str_or_none (dict_get obj ''nh_pid''),
                bm_prev_hop_uid = as_str_or_none (dict_get obj ''ph_uid''),
                bm_prev_hop_peer_id = as_str_or_none (dict_get obj ''ph_pid''),
                bm_prev_hop_maddrs = as_maddrs_or_none (dict_get obj ''ph_maddrs''),
                bm_data_manifest = as_manifest_or_none (dict_get obj ''manifest''),
                bm_sample_start = as_nonnegative_int_or_none (dict_get obj ''sample_start''),
                bm_sample_stride = as_positive_int_or_none (dict_get obj ''sample_stride''),
                bm_sample_rows = as_positive_int_or_none (dict_get obj ''sample_rows'')\<rparr>)
      | _ \<Rightarrow> None)"

definition bm_from_bytes :: "(bytes \<Rightarrow> pyval option) \<Rightarrow> bytes \<Rightarrow> batch_metadata option" where
  "bm_from_bytes loads raw =
     (if raw = [] then None
      else case loads raw of Some (PDict obj) \<Rightarrow> bm_of_obj obj | _ \<Rightarrow> None)"

section \<open>What the parser guarantees\<close>

definition bm_wf :: "batch_metadata \<Rightarrow> bool" where
  "bm_wf md \<longleftrightarrow>
     bm_prev_hop_maddrs md \<noteq> Some []
     \<and> (case bm_data_manifest md of None \<Rightarrow> True | Some m \<Rightarrow> is_hex64 m)
     \<and> (case bm_sample_start md of None \<Rightarrow> True | Some i \<Rightarrow> 0 \<le> i)
     \<and> (case bm_sample_stride md of None \<Rightarrow> True | Some i \<Rightarrow> 0 < i)
     \<and> (case bm_sample_rows md of None \<Rightarrow> True | Some i \<Rightarrow> 0 < i)"

lemma as_str_Some: "as_str_or_none (map_option PStr v) = v"
  by (cases v) auto

lemma as_manifest_wf: "case as_manifest_or_none v of None \<Rightarrow> True | Some m \<Rightarrow> is_hex64 m"
  by (cases v rule: as_manifest_or_none.cases) auto

lemma as_maddrs_wf: "as_maddrs_or_none v \<noteq> Some []"
  by (cases v rule: as_maddrs_or_none.cases) auto

lemma as_nonneg_wf: "case as_nonnegative_int_or_none v of None \<Rightarrow> True | Some i \<Rightarrow> 0 \<le> i"
  by (cases v rule: as_nonnegative_int_or_none.cases) auto

lemma as_pos_wf: "case as_positive_int_or_none v of None \<Rightarrow> True | Some i \<Rightarrow> 0 < i"
  by (cases v rule: as_positive_int_or_none.cases) auto

lemmas coercions_wf = as_manifest_wf as_maddrs_wf as_nonneg_wf as_pos_wf

lemma bm_of_obj_wf:
  assumes "bm_of_obj obj = Some md"
  shows "bm_wf md"
proof (cases "dict_get obj ''tid'' = None \<or> dict_get obj ''seq'' = None
    \<or> purpose_of (case dict_get obj ''kind'' of None \<Rightarrow> PInt 0 | Some k \<Rightarrow> k) = None")
  case True
  with assms show ?thesis by (auto simp: bm_of_obj_def split: option.splits)
next
  case False
  then obtain tid sq p where "dict_get obj ''tid'' = Some tid" "dict_get obj ''seq'' = Some sq"
    "purpose_of (case dict_get obj ''kind'' of None \<Rightarrow> PInt 0 | Some k \<Rightarrow> k) = Some p"
    by auto
  with assms show ?thesis
    by (simp add: bm_of_obj_def) (auto simp: bm_wf_def coercions_wf)
qed

lemma bm_from_bytes_wf: "bm_from_bytes loads raw = Some md \<Longrightarrow> bm_wf md"
  by (auto simp: bm_from_bytes_def split: if_splits option.splits pyval.splits dest: bm_of_obj_wf)

lemma map_of_opt_item:
  "map_of (opt_item k f v @ rest) k' =
     (if k' = k then (case v of None \<Rightarrow> map_of rest k | Some x \<Rightarrow> Some (f x)) else map_of rest k')"
  by (cases v) (auto simp: opt_item_def)

lemma map_of_opt_item_last:
  "map_of (opt_item k f v) k' = (if k' = k then map_option f v else None)"
  by (cases v) (auto simp: opt_item_def)

lemma as_maddrs_PList [simp]: "ms \<noteq> [] \<Longrightarrow> as_maddrs_or_none (Some (PList (map PStr ms))) = Some ms"
  by (simp add: list_all_iff comp_def)

lemma purpose_of_int [simp]: "purpose_of (PInt (purpose_int p)) = Some p"
  by (cases p) simp

lemma bm_obj_lookups:
  "dict_get (bm_obj md) ''tid'' = Some (bm_trainer_uid md)"
  "dict_get (bm_obj md) ''seq'' = Some (bm_seq md)"
  "dict_get (bm_obj md) ''shard'' = Some (bm_data_shard md)"
  "dict_get (bm_obj md) ''kind'' = Some (PInt (purpose_int (bm_purpose md)))"
  "dict_get (bm_obj md) ''nh_uid'' = map_option PStr (bm_next_hop_uid md)"
  "dict_get (bm_obj md) ''nh_pid'' = map_option PStr (bm_next_hop_peer_id md)"
  "dict_get (bm_obj md) ''tpid'' = map_option PStr (bm_trainer_peer_id md)"
  "dict_get (bm_obj md) ''ph_uid'' = map_option PStr (bm_prev_hop_uid md)"
  "dict_get (bm_obj md) ''ph_pid'' = map_option PStr (bm_prev_hop_peer_id md)"
  "dict_get (bm_obj md) ''ph_maddrs'' = map_option (\<lambda>ms. PList (map PStr ms)) (bm_prev_hop_maddrs md)"
  "dict_get (bm_obj md) ''manifest'' = map_option PStr (bm_data_manifest md)"
  "dict_get (bm_obj md) ''sample_start'' = map_option PInt (bm_sample_start md)"
  "dict_get (bm_obj md) ''sample_stride'' = map_option PInt (bm_sample_stride md)"
  "dict_get (bm_obj md) ''sample_rows'' = map_option PInt (bm_sample_rows md)"
  by (simp_all add: bm_obj_def map_of_opt_item map_of_opt_item_last map_option_case
      cong: option.case_cong del: map_of_append)

text \<open>Every field of a well-formed record is read back from its dictionary.\<close>

lemma coercions_id:
  assumes "bm_wf md"
  shows "as_maddrs_or_none (map_option (\<lambda>x. PList (map PStr x)) (bm_prev_hop_maddrs md))
      = bm_prev_hop_maddrs md"
    and "as_manifest_or_none (map_option PStr (bm_data_manifest md)) = bm_data_manifest md"
    and "as_nonnegative_int_or_none (map_option PInt (bm_sample_start md)) = bm_sample_start md"
    and "as_positive_int_or_none (map_option PInt (bm_sample_stride md)) = bm_sample_stride md"
    and "as_positive_int_or_none (map_option PInt (bm_sample_rows md)) = bm_sample_rows md"
  using assms
  by (cases "bm_prev_hop_maddrs md"; cases "bm_data_manifest md"; cases "bm_sample_start md";
      cases "bm_sample_stride md"; cases "bm_sample_rows md";
      simp add: bm_wf_def del: as_maddrs_or_none.simps(1))+

lemma bm_of_obj_obj: "bm_wf md \<Longrightarrow> bm_of_obj (bm_obj md) = Some md"
  by (simp add: bm_of_obj_def bm_obj_lookups as_str_Some coercions_id del: purpose_of.simps)

lemma bm_from_to:
  assumes "bm_wf md"
    and "loads (dumps (PDict (bm_obj md))) = Some (PDict (bm_obj md))"
    and "dumps (PDict (bm_obj md)) \<noteq> []"
  shows "bm_from_bytes loads (bm_to_bytes dumps md) = Some md"
  using assms by (simp add: bm_from_bytes_def bm_to_bytes_def bm_of_obj_obj)

section \<open>Properties\<close>

text \<open>C3. Serialising a well-formed record and parsing the bytes gives the record back, every
  optional field included, for any serialiser that round-trips the emitted dictionary.\<close>

theorem bm_roundtrip:
  assumes "bm_wf md"
    and "loads (dumps (PDict (bm_obj md))) = Some (PDict (bm_obj md))"
    and "dumps (PDict (bm_obj md)) \<noteq> []"
  shows "bm_from_bytes loads (bm_to_bytes dumps md) = Some md"
  using assms by (rule bm_from_to)

text \<open>Whatever bytes arrive, a record that parses keeps its field contracts (a manifest is 64
  hexadecimal digits, counts are positive, addresses are never the empty tuple), and the record a
  worker forwards is parsed by the next one as the same record.\<close>

theorem bm_parse_wf_and_stable:
  assumes "bm_from_bytes loads raw = Some md"
    and "loads (dumps (PDict (bm_obj md))) = Some (PDict (bm_obj md))"
    and "dumps (PDict (bm_obj md)) \<noteq> []"
  shows "bm_wf md \<and> bm_from_bytes loads (bm_to_bytes dumps md) = Some md"
  using assms bm_from_bytes_wf [OF assms(1)]
  by (simp add: bm_from_to)

definition bm_demo :: batch_metadata where
  "bm_demo = \<lparr>bm_trainer_uid = PStr ''t'', bm_seq = PInt 7, bm_data_shard = PInt (-1), bm_purpose = NORMAL,
     bm_trainer_peer_id = None, bm_next_hop_uid = Some ''tail.0.1'', bm_next_hop_peer_id = None,
     bm_prev_hop_uid = None, bm_prev_hop_peer_id = None, bm_prev_hop_maddrs = Some [''/ip4/10.0.0.1''],
     bm_data_manifest = None, bm_sample_start = Some 0, bm_sample_stride = Some 2, bm_sample_rows = Some 8\<rparr>"

lemma bm_roundtrip_witness:
  "bm_from_bytes (\<lambda>_. Some (PDict (bm_obj bm_demo))) (bm_to_bytes (\<lambda>_. [1]) bm_demo) = Some bm_demo"
  by (rule bm_roundtrip) (simp_all add: bm_demo_def bm_wf_def)

lemma bm_parse_wf_and_stable_witness:
  "bm_wf bm_demo \<and> bm_from_bytes (\<lambda>_. Some (PDict (bm_obj bm_demo))) (bm_to_bytes (\<lambda>_. [1]) bm_demo) = Some bm_demo"
proof (rule bm_parse_wf_and_stable)
  have "bm_wf bm_demo" by (simp add: bm_demo_def bm_wf_def)
  then show "bm_from_bytes (\<lambda>_. Some (PDict (bm_obj bm_demo))) [7] = Some bm_demo"
    by (simp add: bm_from_bytes_def bm_of_obj_obj)
qed simp_all

end
