(* ===== verification/ActivationCache.thy ===== *)
theory ActivationCache
  imports BatchMetadata
begin

text \<open>
  The worker-side activation cache of \<open>core/server/activation_cache.py\<close>: an insertion-ordered
  index \<open>ac_meta\<close> of byte counts and insertion times, the stored tensors \<open>ac_data\<close>, the counters
  (with the running \<open>bytes\<close>), and the operations on them. Each operation runs under the cache's
  lock, so it is one step; the clock reading of a put is its argument, because the code takes it
  before the lock. \<open>SharedMemoryStore\<close> clones on put and returns the stored tensors on get, so a
  handle is the tensors themselves. The manager process behind the dictionaries is not modelled.
\<close>

type_synonym ckey = "uid \<times> pyval \<times> pyval"

record acache =
  ac_max_entries :: int
  ac_max_bytes :: int
  ac_ttl_seconds :: time
  ac_meta :: "(ckey, int \<times> time) dict"
  ac_data :: "(ckey, tensor list) dict"
  ac_counters :: counters

definition ac_new :: "int \<Rightarrow> int \<Rightarrow> time \<Rightarrow> error + acache" where
  "ac_new max_entries max_bytes ttl =
     (if max_entries \<le> 0 then Inl ValueError
      else if max_bytes \<le> 0 then Inl ValueError
      else Inr \<lparr>ac_max_entries = max_entries, ac_max_bytes = max_bytes, ac_ttl_seconds = ttl,
                ac_meta = [], ac_data = [], ac_counters = []\<rparr>)"

definition store_nbytes :: "tensor list \<Rightarrow> int" where
  "store_nbytes ts = sum_list (map (\<lambda>t. int (tn_elem_size t) * int (nelement t)) ts)"

definition ac_key :: "(bytes \<Rightarrow> pyval option) \<Rightarrow> uid \<Rightarrow> bytes \<Rightarrow> ckey option" where
  "ac_key loads u metadata =
     (if metadata = [] then None
      else case bm_from_bytes loads metadata of
             None \<Rightarrow> None
           | Some md \<Rightarrow> Some (u, bm_trainer_uid md, bm_seq md))"

definition ac_bump :: "string \<Rightarrow> int \<Rightarrow> acache \<Rightarrow> acache" where
  "ac_bump n d s = s\<lparr>ac_counters := bump n d (ac_counters s)\<rparr>"

text \<open>The callers pass keys of \<open>ac_meta\<close> only, so the first branch is never taken.\<close>

definition ac_evict_one :: "ckey \<Rightarrow> string \<Rightarrow> acache \<Rightarrow> acache" where
  "ac_evict_one k reason s =
     (case dict_get (ac_meta s) k of
        None \<Rightarrow> s
      | Some (nb, _) \<Rightarrow>
          ac_bump reason 1 (ac_bump ''bytes'' (- nb)
            (s\<lparr>ac_meta := dict_del k (ac_meta s), ac_data := dict_del k (ac_data s)\<rparr>)))"

text \<open>The TTL sweep stops at the first live entry.\<close>

fun ac_ttl_sweep :: "time \<Rightarrow> ckey list \<Rightarrow> acache \<Rightarrow> acache" where
  "ac_ttl_sweep now [] s = s"
| "ac_ttl_sweep now (k # ks) s =
     (case dict_get (ac_meta s) k of
        None \<Rightarrow> s
      | Some (_, inserted) \<Rightarrow>
          if now - inserted < ac_ttl_seconds s then s
          else ac_ttl_sweep now ks (ac_evict_one k ''evictions_ttl'' s))"

definition ac_over :: "acache \<Rightarrow> bool" where
  "ac_over s \<longleftrightarrow> ac_meta s \<noteq> [] \<and>
     (int (length (ac_meta s)) > ac_max_entries s \<or> cget (ac_counters s) ''bytes'' > ac_max_bytes s)"

definition ac_evict_oldest :: "acache \<Rightarrow> acache" where
  "ac_evict_oldest s = ac_evict_one (fst (hd (ac_meta s))) ''evictions_fifo'' s"

definition ac_evict :: "time \<Rightarrow> acache \<Rightarrow> acache" where
  "ac_evict now s =
     (let s1 = (if ac_ttl_seconds s > 0 then ac_ttl_sweep now (map fst (ac_meta s)) s else s)
      in while ac_over ac_evict_oldest s1)"

definition ac_insert :: "ckey \<Rightarrow> tensor list \<Rightarrow> time \<Rightarrow> acache \<Rightarrow> acache" where
  "ac_insert k inputs now s =
     (let s1 = (if dict_has (ac_meta s) k then ac_evict_one k ''overwrites'' s else s);
          nb = store_nbytes inputs
      in ac_bump ''puts'' 1 (ac_bump ''bytes'' nb
           (s1\<lparr>ac_meta := dict_set k (nb, now) (ac_meta s1),
               ac_data := dict_set k inputs (ac_data s1)\<rparr>)))"

definition ac_put :: "ckey \<Rightarrow> tensor list \<Rightarrow> time \<Rightarrow> acache \<Rightarrow> acache" where
  "ac_put k inputs now s = ac_evict now (ac_insert k inputs now s)"

definition ac_pop :: "ckey \<Rightarrow> acache \<Rightarrow> tensor list option \<times> acache" where
  "ac_pop k s =
     (case dict_get (ac_meta s) k of
        None \<Rightarrow> (None, ac_bump ''misses'' 1 s)
      | Some (nb, _) \<Rightarrow>
          (let s1 = ac_bump ''bytes'' (- nb)
                 (s\<lparr>ac_meta := dict_del k (ac_meta s), ac_data := dict_del k (ac_data s)\<rparr>)
           in case dict_get (ac_data s) k of
                None \<Rightarrow> (None, ac_bump ''misses'' 1 s1)
              | Some handle \<Rightarrow> (Some handle, ac_bump ''hits'' 1 s1)))"

definition ac_record_drop :: "acache \<Rightarrow> acache" where
  "ac_record_drop s = ac_bump ''drops'' 1 s"

definition ac_counter_names :: "string list" where
  "ac_counter_names = [''puts'', ''hits'', ''misses'', ''evictions_fifo'', ''evictions_ttl'',
     ''overwrites'', ''drops'', ''bytes'']"

definition ac_stats :: "acache \<Rightarrow> (string, int) dict" where
  "ac_stats s = map (\<lambda>k. (k, cget (ac_counters s) k)) ac_counter_names
     @ [(''entries'', int (length (ac_meta s)))]"

definition ac_clear :: "acache \<Rightarrow> acache" where
  "ac_clear s = ac_bump ''bytes'' (- cget (ac_counters s) ''bytes'') (s\<lparr>ac_meta := [], ac_data := []\<rparr>)"

section \<open>The invariant\<close>

text \<open>
  Index and store hold the same keys, the byte counter is the sum over the index, and every
  recorded byte count is that of the stored tensors.
\<close>

definition meta_bytes :: "(ckey, int \<times> time) dict \<Rightarrow> int" where
  "meta_bytes m = sum_list (map (\<lambda>p. fst (snd p)) m)"

definition ac_inv :: "acache \<Rightarrow> bool" where
  "ac_inv s \<longleftrightarrow>
     0 < ac_max_entries s \<and> 0 < ac_max_bytes s
     \<and> dict_ok (ac_meta s) \<and> dict_ok (ac_data s)
     \<and> fst ` set (ac_meta s) = fst ` set (ac_data s)
     \<and> cget (ac_counters s) ''bytes'' = meta_bytes (ac_meta s)
     \<and> (\<forall>k nb t ts. dict_get (ac_meta s) k = Some (nb, t) \<longrightarrow> dict_get (ac_data s) k = Some ts
          \<longrightarrow> nb = store_nbytes ts)"

definition ac_bounded :: "acache \<Rightarrow> bool" where
  "ac_bounded s \<longleftrightarrow> int (length (ac_meta s)) \<le> ac_max_entries s
     \<and> cget (ac_counters s) ''bytes'' \<le> ac_max_bytes s"

lemma ac_bump_sel [simp]:
  "ac_meta (ac_bump n d s) = ac_meta s" "ac_data (ac_bump n d s) = ac_data s"
  "ac_max_entries (ac_bump n d s) = ac_max_entries s" "ac_max_bytes (ac_bump n d s) = ac_max_bytes s"
  "ac_ttl_seconds (ac_bump n d s) = ac_ttl_seconds s"
  "cget (ac_counters (ac_bump n d s)) m = cget (ac_counters s) m + (if m = n then d else 0)"
  by (simp_all add: ac_bump_def)

lemma store_nbytes_nonneg: "0 \<le> store_nbytes ts"
  by (auto simp: store_nbytes_def intro!: sum_list_nonneg)

lemma meta_bytes_del:
  "dict_ok m \<Longrightarrow> dict_get m k = Some (nb, t) \<Longrightarrow> meta_bytes (dict_del k m) = meta_bytes m - nb"
  using sum_dict_del [of m k "(nb, t)" "\<lambda>p. fst (snd p)"] by (simp add: meta_bytes_def)

lemma meta_bytes_append [simp]: "meta_bytes (m @ m') = meta_bytes m + meta_bytes m'"
  by (simp add: meta_bytes_def)

lemma meta_bytes_simps [simp]: "meta_bytes [] = 0" "meta_bytes (p # m) = fst (snd p) + meta_bytes m"
  by (simp_all add: meta_bytes_def)

lemma ac_evict_one_sel [simp]:
  "ac_max_entries (ac_evict_one k r s) = ac_max_entries s"
  "ac_max_bytes (ac_evict_one k r s) = ac_max_bytes s"
  "ac_ttl_seconds (ac_evict_one k r s) = ac_ttl_seconds s"
  by (simp_all add: ac_evict_one_def split: option.splits prod.splits)

lemma ac_evict_one_meta: "ac_inv s \<Longrightarrow> ac_meta (ac_evict_one k r s) = dict_del k (ac_meta s)"
  by (auto simp: ac_evict_one_def dict_has_iff split: option.splits prod.splits)

lemma ac_evict_one_data: "ac_inv s \<Longrightarrow> ac_data (ac_evict_one k r s) = dict_del k (ac_data s)"
  by (auto simp: ac_evict_one_def ac_inv_def dict_has_iff split: option.splits prod.splits)
     (metis dict_del_absent dict_has_iff)

lemma ac_evict_one_inv [inv_intros]:
  assumes inv: "ac_inv s" and r: "r \<noteq> ''bytes''"
  shows "ac_inv (ac_evict_one k r s)"
proof (cases "dict_get (ac_meta s) k")
  case None
  with inv show ?thesis by (simp add: ac_evict_one_def)
next
  case (Some p)
  then obtain nb t where p: "dict_get (ac_meta s) k = Some (nb, t)" by (cases p) auto
  have "meta_bytes (dict_del k (ac_meta s)) = meta_bytes (ac_meta s) - nb"
    using inv p by (auto simp: ac_inv_def intro: meta_bytes_del)
  with inv p r show ?thesis
    by (auto simp: ac_evict_one_def ac_inv_def)
qed

lemma ac_ttl_sweep_inv [inv_intros]: "ac_inv s \<Longrightarrow> ac_inv (ac_ttl_sweep now ks s)"
proof (induction ks arbitrary: s)
  case (Cons k ks)
  then have "ac_inv (ac_ttl_sweep now ks (ac_evict_one k ''evictions_ttl'' s))"
    by (simp add: ac_evict_one_inv)
  with Cons.prems show ?case by (simp split: option.split prod.split)
qed simp

lemma ac_ttl_sweep_sel [simp]:
  "ac_max_entries (ac_ttl_sweep now ks s) = ac_max_entries s"
  "ac_max_bytes (ac_ttl_sweep now ks s) = ac_max_bytes s"
  by (induction now ks s rule: ac_ttl_sweep.induct) (auto split: option.splits)

lemma ac_evict_oldest_inv [inv_intros]: "ac_inv s \<Longrightarrow> ac_inv (ac_evict_oldest s)"
  by (simp add: ac_evict_oldest_def ac_evict_one_inv)

lemma ac_evict_oldest_meta:
  assumes "ac_inv s" and "ac_meta s \<noteq> []"
  shows "ac_meta (ac_evict_oldest s) = tl (ac_meta s)"
proof -
  obtain p m where m: "ac_meta s = p # m" using assms(2) by (cases "ac_meta s") auto
  have "dict_ok (p # m)" using assms(1) m by (simp add: ac_inv_def)
  then show ?thesis
    using assms(1) m dict_del_head [of p m] by (simp add: ac_evict_oldest_def ac_evict_one_meta)
qed

text \<open>The eviction loop of the cache meets the contract of \<open>eviction\<close>.\<close>

interpretation ac_loop: eviction ac_over ac_evict_oldest "\<lambda>s. length (ac_meta s)" ac_inv
proof
  fix s assume "ac_inv s" and "ac_over s"
  then show "length (ac_meta (ac_evict_oldest s)) < length (ac_meta s)"
    by (cases "ac_meta s") (auto simp: ac_over_def ac_evict_oldest_meta)
qed (rule ac_evict_oldest_inv)

lemma ac_not_over:
  assumes "ac_inv s"
  shows "\<not> ac_over s \<longleftrightarrow> ac_bounded s"
  using assms by (cases "ac_meta s") (auto simp: ac_over_def ac_bounded_def ac_inv_def)

lemma ac_loop_sel [simp]:
  assumes "ac_inv s"
  shows "ac_max_entries (while ac_over ac_evict_oldest s) = ac_max_entries s"
    and "ac_max_bytes (while ac_over ac_evict_oldest s) = ac_max_bytes s"
  using assms
  by (auto intro!: ac_loop.loop_keeps [where P = "\<lambda>t. ac_max_entries t = ac_max_entries s"]
      ac_loop.loop_keeps [where P = "\<lambda>t. ac_max_bytes t = ac_max_bytes s"]
      simp: ac_evict_oldest_def)

lemma ac_evict_inv [inv_intros]: "ac_inv s \<Longrightarrow> ac_inv (ac_evict now s)"
  by (simp add: ac_evict_def Let_def ac_loop.loop_post ac_ttl_sweep_inv)

lemma ac_loop_bounded: "ac_inv s \<Longrightarrow> ac_bounded (while ac_over ac_evict_oldest s)"
  using ac_loop.loop_post [of s] ac_not_over by blast

lemma ac_evict_bounded: "ac_inv s \<Longrightarrow> ac_bounded (ac_evict now s)"
  by (simp add: ac_evict_def Let_def ac_ttl_sweep_inv ac_loop_bounded)

text \<open>After a put, the key is the newest entry, whatever was stored under it before.\<close>

lemma ac_insert_meta:
  assumes "ac_inv s"
  shows "ac_meta (ac_insert k inputs now s) = dict_del k (ac_meta s) @ [(k, (store_nbytes inputs, now))]"
  using assms by (simp add: ac_insert_def Let_def ac_evict_one_meta dict_set_new)

lemma ac_insert_data:
  assumes "ac_inv s"
  shows "dict_get (ac_data (ac_insert k inputs now s)) =
    (\<lambda>k'. if k' = k then Some inputs else dict_get (ac_data s) k')"
  using assms by (auto simp: ac_insert_def Let_def ac_evict_one_data fun_eq_iff)

lemma ac_insert_sel [simp]:
  "ac_max_entries (ac_insert k inputs now s) = ac_max_entries s"
  "ac_max_bytes (ac_insert k inputs now s) = ac_max_bytes s"
  "ac_ttl_seconds (ac_insert k inputs now s) = ac_ttl_seconds s"
  by (simp_all add: ac_insert_def Let_def)

lemma ac_insert_inv [inv_intros]:
  assumes inv: "ac_inv s"
  shows "ac_inv (ac_insert k inputs now s)"
proof -
  define s1 where "s1 = (if dict_has (ac_meta s) k then ac_evict_one k ''overwrites'' s else s)"
  have s1: "ac_inv s1" using inv by (simp add: s1_def ac_evict_one_inv)
  have fresh: "\<not> dict_has (ac_meta s1) k" using inv by (simp add: s1_def ac_evict_one_meta)
  have eq: "ac_insert k inputs now s = ac_bump ''puts'' 1 (ac_bump ''bytes'' (store_nbytes inputs)
      (s1\<lparr>ac_meta := dict_set k (store_nbytes inputs, now) (ac_meta s1),
          ac_data := dict_set k inputs (ac_data s1)\<rparr>))"
    by (simp add: ac_insert_def s1_def Let_def)
  have "meta_bytes (dict_set k (store_nbytes inputs, now) (ac_meta s1)) =
      meta_bytes (ac_meta s1) + store_nbytes inputs"
    using fresh by (simp add: dict_set_new)
  with s1 show ?thesis
    by (simp add: eq ac_inv_def)
qed

lemma ac_put_inv [inv_intros]: "ac_inv s \<Longrightarrow> ac_inv (ac_put k inputs now s)"
  by (simp add: ac_put_def ac_evict_inv ac_insert_inv)

lemma ac_put_bounded: "ac_inv s \<Longrightarrow> ac_bounded (ac_put k inputs now s)"
  by (simp add: ac_put_def ac_evict_bounded ac_insert_inv)

lemma ac_pop_hit:
  assumes "ac_inv s" and "dict_get (ac_meta s) k = Some (nb, t)"
  obtains ts where "dict_get (ac_data s) k = Some ts" and "nb = store_nbytes ts"
    and "ac_pop k s = (Some ts, ac_bump ''hits'' 1 (ac_bump ''bytes'' (- nb)
      (s\<lparr>ac_meta := dict_del k (ac_meta s), ac_data := dict_del k (ac_data s)\<rparr>)))"
proof -
  have "dict_has (ac_data s) k"
    using assms unfolding ac_inv_def by (metis dict_has_iff option.distinct(1))
  then obtain ts where ts: "dict_get (ac_data s) k = Some ts"
    unfolding dict_has_iff by auto
  moreover have "nb = store_nbytes ts"
    using assms ts unfolding ac_inv_def by blast
  ultimately show thesis
    using assms(2) by (intro that [of ts]) (simp_all add: ac_pop_def Let_def)
qed

lemma ac_pop_inv [inv_intros]:
  assumes "ac_inv s"
  shows "ac_inv (snd (ac_pop k s))"
proof (cases "dict_get (ac_meta s) k")
  case None
  with assms show ?thesis by (simp add: ac_pop_def ac_inv_def)
next
  case (Some p)
  then obtain nb t where p: "dict_get (ac_meta s) k = Some (nb, t)" by (cases p) auto
  obtain ts where "ac_pop k s = (Some ts, ac_bump ''hits'' 1 (ac_bump ''bytes'' (- nb)
      (s\<lparr>ac_meta := dict_del k (ac_meta s), ac_data := dict_del k (ac_data s)\<rparr>)))"
    using ac_pop_hit [OF assms p] by blast
  moreover have "meta_bytes (dict_del k (ac_meta s)) = meta_bytes (ac_meta s) - nb"
    using assms p by (auto simp: ac_inv_def intro: meta_bytes_del)
  ultimately show ?thesis using assms by (auto simp: ac_inv_def)
qed

lemma ac_entry_nbytes:
  assumes "ac_inv s" and "p \<in> set (ac_meta s)"
  shows "fst (snd p) = store_nbytes (the (dict_get (ac_data s) (fst p)))"
proof -
  obtain k nb t where k: "p = (k, nb, t)" by (cases p) auto
  have "dict_ok (ac_meta s)" using assms(1) by (simp add: ac_inv_def)
  then have "dict_get (ac_meta s) k = Some (nb, t)" using assms(2) k by (simp add: map_of_is_SomeI)
  then obtain ts where "dict_get (ac_data s) k = Some ts" "nb = store_nbytes ts"
    by (rule ac_pop_hit [OF assms(1)])
  then show ?thesis using k by simp
qed

lemma meta_bytes_member:
  "p \<in> set m \<Longrightarrow> \<forall>q\<in>set m. 0 \<le> fst (snd q) \<Longrightarrow> fst (snd p) \<le> meta_bytes m"
  unfolding meta_bytes_def by (rule member_le_sum_map [where f = "\<lambda>p. fst (snd p)"])

section \<open>What a put keeps\<close>

lemma ac_ttl_sweep_meta:
  assumes "ac_inv s"
  shows "ac_meta (ac_ttl_sweep now (map fst (ac_meta s)) s) =
    dropWhile (\<lambda>p. \<not> now - snd (snd p) < ac_ttl_seconds s) (ac_meta s)"
  using assms
proof (induction "ac_meta s" arbitrary: s)
  case (Cons p m)
  then have m: "ac_meta s = p # m" by simp
  obtain k nb t where p: "p = (k, nb, t)" by (cases p) auto
  have del: "ac_meta (ac_evict_one k r s) = m" for r
    using Cons.prems m p dict_del_head [of p m] by (simp add: ac_evict_one_meta ac_inv_def)
  show ?case
  proof (cases "now - t < ac_ttl_seconds s")
    case True
    then show ?thesis by (simp add: p flip: Cons.hyps(2))
  next
    case False
    have "ac_inv (ac_evict_one k ''evictions_ttl'' s)" using Cons.prems by (simp add: ac_evict_one_inv)
    from Cons.hyps(1) [OF del [symmetric] this] False show ?thesis
      by (simp add: p del flip: Cons.hyps(2))
  qed
qed simp

lemma ac_ttl_sweep_ttl [simp]: "ac_ttl_seconds (ac_ttl_sweep now ks s) = ac_ttl_seconds s"
  by (induction now ks s rule: ac_ttl_sweep.induct) (auto split: option.splits)

definition ac_within :: "acache \<Rightarrow> (ckey, int \<times> time) dict \<Rightarrow> bool" where
  "ac_within s m \<longleftrightarrow> int (length m) \<le> ac_max_entries s \<and> meta_bytes m \<le> ac_max_bytes s"

lemma ac_over_iff: "ac_inv s \<Longrightarrow> ac_over s \<longleftrightarrow> \<not> ac_within s (ac_meta s)"
  using ac_not_over [of s] by (auto simp: ac_within_def ac_bounded_def ac_inv_def)

lemma ac_within_sel:
  "ac_max_entries s' = ac_max_entries s \<Longrightarrow> ac_max_bytes s' = ac_max_bytes s \<Longrightarrow>
   ac_within s' m = ac_within s m"
  by (simp add: ac_within_def)

text \<open>The loop drops the shortest prefix after which the rest is within the bounds.\<close>

lemma ac_loop_drop:
  assumes "ac_inv s"
  shows "\<exists>n. ac_meta (while ac_over ac_evict_oldest s) = drop n (ac_meta s)
    \<and> (\<forall>m<n. \<not> ac_within s (drop m (ac_meta s)))"
proof -
  let ?P = "\<lambda>t. ac_max_entries t = ac_max_entries s \<and> ac_max_bytes t = ac_max_bytes s
    \<and> (\<exists>n. ac_meta t = drop n (ac_meta s) \<and> (\<forall>m<n. \<not> ac_within s (drop m (ac_meta s))))"
  have "?P (while ac_over ac_evict_oldest s)"
  proof (rule ac_loop.loop_keeps [OF assms])
    show "?P s" by (auto intro: exI [of _ 0])
  next
    fix t assume t: "ac_inv t" "ac_over t" and P: "?P t"
    then obtain n where n: "ac_meta t = drop n (ac_meta s)"
      "\<forall>m<n. \<not> ac_within s (drop m (ac_meta s))" by blast
    have "\<not> ac_within s (drop n (ac_meta s))"
      using t P n(1) ac_over_iff [of t] ac_within_sel [of t s] by simp
    then have "\<forall>m<Suc n. \<not> ac_within s (drop m (ac_meta s))"
      using n(2) by (simp add: less_Suc_eq)
    moreover have "ac_meta (ac_evict_oldest t) = drop (Suc n) (ac_meta s)"
      using t n(1) by (simp add: ac_evict_oldest_meta ac_over_def drop_Suc tl_drop)
    ultimately show "?P (ac_evict_oldest t)"
      using P by (auto simp: ac_evict_oldest_def)
  qed
  then show ?thesis by blast
qed

definition ac_expired :: "acache \<Rightarrow> time \<Rightarrow> ckey \<times> int \<times> time \<Rightarrow> bool" where
  "ac_expired s now p \<longleftrightarrow> ac_ttl_seconds s > 0 \<and> \<not> now - snd (snd p) < ac_ttl_seconds s"

lemma ac_evict_meta:
  assumes "ac_inv s"
  shows "\<exists>n. ac_meta (ac_evict now s) = drop n (dropWhile (ac_expired s now) (ac_meta s))
    \<and> (\<forall>m<n. \<not> ac_within s (drop m (dropWhile (ac_expired s now) (ac_meta s))))"
proof (cases "ac_ttl_seconds s > 0")
  case True
  define s1 where "s1 = ac_ttl_sweep now (map fst (ac_meta s)) s"
  have "ac_meta s1 = dropWhile (ac_expired s now) (ac_meta s)"
    using ac_ttl_sweep_meta [OF assms, of now] True by (simp add: s1_def ac_expired_def [abs_def])
  moreover have "ac_evict now s = while ac_over ac_evict_oldest s1"
    using True by (simp add: ac_evict_def s1_def)
  moreover have "ac_inv s1" using assms by (simp add: s1_def ac_ttl_sweep_inv)
  moreover have "ac_within s1 m = ac_within s m" for m
    by (rule ac_within_sel) (simp_all add: s1_def)
  ultimately show ?thesis using ac_loop_drop [of s1] by simp
next
  case False
  have "ac_expired s now = (\<lambda>p. False)" using False by (simp add: ac_expired_def fun_eq_iff)
  then have "dropWhile (ac_expired s now) (ac_meta s) = ac_meta s"
    by (metis (mono_tags) dropWhile_eq_self_iff)
  moreover have "ac_evict now s = while ac_over ac_evict_oldest s"
    using False by (simp add: ac_evict_def)
  ultimately show ?thesis using ac_loop_drop [OF assms] by simp
qed

text \<open>The entries a put chooses from, oldest first: those not expired, the new one last.\<close>

definition ac_live :: "ckey \<Rightarrow> tensor list \<Rightarrow> time \<Rightarrow> acache \<Rightarrow> (ckey, int \<times> time) dict" where
  "ac_live k inputs now s = dropWhile (ac_expired s now)
     (dict_del k (ac_meta s) @ [(k, (store_nbytes inputs, now))])"

lemma ac_put_meta:
  assumes "ac_inv s"
  shows "\<exists>n. ac_meta (ac_put k inputs now s) = drop n (ac_live k inputs now s)
    \<and> (\<forall>m<n. \<not> ac_within s (drop m (ac_live k inputs now s)))"
proof -
  let ?s = "ac_insert k inputs now s"
  have inv: "ac_inv ?s" by (rule ac_insert_inv [OF assms])
  have "ac_expired ?s now = ac_expired s now" by (simp add: ac_expired_def fun_eq_iff)
  moreover have "ac_within ?s m = ac_within s m" for m by (rule ac_within_sel) simp_all
  ultimately show ?thesis
    using ac_evict_meta [OF inv, of now]
    by (simp add: ac_put_def ac_insert_meta [OF assms] ac_live_def)
qed

text \<open>Eviction only removes stored tensors: what is left under a key is what was stored there.\<close>

lemma ac_evict_one_keeps:
  assumes "ac_inv s" and "dict_get (ac_data (ac_evict_one k r s)) k' = Some ts"
  shows "dict_get (ac_data s) k' = Some ts"
  using assms by (simp add: ac_evict_one_data split: if_splits)

lemma ac_ttl_sweep_keeps:
  "ac_inv s \<Longrightarrow> dict_get (ac_data (ac_ttl_sweep now ks s)) k' = Some ts \<Longrightarrow>
   dict_get (ac_data s) k' = Some ts"
proof (induction ks arbitrary: s)
  case (Cons k ks)
  have "ac_inv (ac_evict_one k ''evictions_ttl'' s)" using Cons.prems by (simp add: ac_evict_one_inv)
  from Cons.IH [OF this] Cons.prems show ?case
    by (simp split: option.splits prod.splits if_splits) (blast dest: ac_evict_one_keeps)
qed simp

lemma ac_loop_keeps:
  assumes "ac_inv s" and "dict_get (ac_data (while ac_over ac_evict_oldest s)) k' = Some ts"
  shows "dict_get (ac_data s) k' = Some ts"
proof -
  have "\<forall>ts. dict_get (ac_data (while ac_over ac_evict_oldest s)) k' = Some ts \<longrightarrow>
      dict_get (ac_data s) k' = Some ts"
    by (rule ac_loop.loop_keeps [OF assms(1)])
      (auto simp: ac_evict_oldest_def dest: ac_evict_one_keeps)
  with assms(2) show ?thesis by blast
qed

lemma ac_evict_keeps:
  assumes "ac_inv s" and "dict_get (ac_data (ac_evict now s)) k' = Some ts"
  shows "dict_get (ac_data s) k' = Some ts"
proof -
  let ?s1 = "if ac_ttl_seconds s > 0 then ac_ttl_sweep now (map fst (ac_meta s)) s else s"
  have "ac_inv ?s1" using assms(1) by (simp add: ac_ttl_sweep_inv)
  then have "dict_get (ac_data ?s1) k' = Some ts"
    using assms(2) unfolding ac_evict_def Let_def by (rule ac_loop_keeps)
  then show ?thesis using ac_ttl_sweep_keeps [OF assms(1)] by (auto split: if_splits)
qed

lemma ac_put_keeps:
  assumes "ac_inv s" and "dict_get (ac_data (ac_put k inputs now s)) k' = Some ts"
  shows "dict_get (ac_data s) k' = Some ts \<or> (k' = k \<and> ts = inputs)"
  using ac_evict_keeps [OF ac_insert_inv [OF assms(1)] assms(2) [unfolded ac_put_def]]
  by (auto simp: ac_insert_data [OF assms(1)] split: if_splits)

section \<open>Histories\<close>

datatype ac_op = AcPut ckey "tensor list" time | AcPop ckey | AcDrop | AcClear

fun ac_apply :: "ac_op \<Rightarrow> acache \<Rightarrow> acache" where
  "ac_apply (AcPut k inputs now) s = ac_put k inputs now s"
| "ac_apply (AcPop k) s = snd (ac_pop k s)"
| "ac_apply AcDrop s = ac_record_drop s"
| "ac_apply AcClear s = ac_clear s"

inductive ac_step :: "acache \<Rightarrow> acache \<Rightarrow> bool" where
  ac_step_op: "ac_step s (ac_apply op s)"

inductive_cases ac_stepE: "ac_step s t"

fun put_times :: "ac_op list \<Rightarrow> time list" where
  "put_times [] = []"
| "put_times (AcPut k inputs now # ops) = now # put_times ops"
| "put_times (op # ops) = put_times ops"

lemma ac_pop_bounded:
  assumes "ac_inv s" and "ac_bounded s"
  shows "ac_bounded (snd (ac_pop k s))"
proof (cases "dict_get (ac_meta s) k")
  case None
  with assms show ?thesis by (simp add: ac_pop_def ac_bounded_def)
next
  case (Some p)
  then obtain nb t where p: "dict_get (ac_meta s) k = Some (nb, t)" by (cases p) auto
  obtain ts where "nb = store_nbytes ts" "ac_pop k s = (Some ts, ac_bump ''hits'' 1 (ac_bump ''bytes'' (- nb)
      (s\<lparr>ac_meta := dict_del k (ac_meta s), ac_data := dict_del k (ac_data s)\<rparr>)))"
    using ac_pop_hit [OF assms(1) p] by blast
  then show ?thesis
    using assms(2) store_nbytes_nonneg [of ts] length_dict_del_le [of k "ac_meta s"]
    by (simp add: ac_bounded_def)
qed

lemma ac_record_drop_inv [inv_intros]: "ac_inv s \<Longrightarrow> ac_inv (ac_record_drop s)"
  by (simp add: ac_record_drop_def ac_inv_def)

lemma ac_clear_inv [inv_intros]: "ac_inv s \<Longrightarrow> ac_inv (ac_clear s)"
  by (simp add: ac_clear_def ac_inv_def)

lemma ac_apply_inv [inv_intros]: "ac_inv s \<Longrightarrow> ac_inv (ac_apply op s)"
  by (cases op) (simp_all add: inv_intros)

lemma ac_apply_bounded: "ac_inv s \<Longrightarrow> ac_bounded s \<Longrightarrow> ac_bounded (ac_apply op s)"
proof (cases op)
  case AcClear
  assume "ac_inv s"
  then show ?thesis by (simp add: AcClear ac_clear_def ac_inv_def ac_bounded_def)
next
  case AcDrop
  assume "ac_bounded s"
  then show ?thesis by (simp add: AcDrop ac_record_drop_def ac_bounded_def)
qed (simp_all add: ac_put_bounded ac_pop_bounded)

interpretation ac_sys: transitions "\<lambda>s. \<exists>e b t. ac_new e b t = Inr s" ac_step "\<lambda>s. ac_inv s \<and> ac_bounded s"
proof
  fix s assume "\<exists>e b t. ac_new e b t = Inr s"
  then show "ac_inv s \<and> ac_bounded s"
    by (auto simp: ac_new_def ac_inv_def ac_bounded_def split: if_splits)
qed (auto elim!: ac_stepE intro: ac_apply_inv ac_apply_bounded)

text \<open>Where every put went: the entries still held and the four ways out.\<close>

definition ac_out :: "acache \<Rightarrow> int" where
  "ac_out s = cget (ac_counters s) ''hits'' + cget (ac_counters s) ''evictions_fifo''
     + cget (ac_counters s) ''evictions_ttl'' + cget (ac_counters s) ''overwrites''"

definition ac_balance :: "acache \<Rightarrow> int" where
  "ac_balance s = cget (ac_counters s) ''puts'' - ac_out s - int (length (ac_meta s))"

lemma ac_evict_one_balance:
  assumes "ac_inv s" and "r \<in> {''evictions_fifo'', ''evictions_ttl'', ''overwrites''}"
  shows "ac_balance (ac_evict_one k r s) = ac_balance s"
proof (cases "dict_get (ac_meta s) k")
  case None
  then show ?thesis by (simp add: ac_evict_one_def)
next
  case (Some p)
  then obtain nb t where p: "dict_get (ac_meta s) k = Some (nb, t)" by (cases p) auto
  have "Suc (length (dict_del k (ac_meta s))) = length (ac_meta s)"
    using assms(1) p by (intro length_dict_del_present) (simp_all add: ac_inv_def)
  then show ?thesis
    using assms(2) p by (auto simp: ac_evict_one_def ac_balance_def ac_out_def)
qed

lemma ac_ttl_sweep_balance: "ac_inv s \<Longrightarrow> ac_balance (ac_ttl_sweep now ks s) = ac_balance s"
proof (induction ks arbitrary: s)
  case (Cons k ks)
  have "ac_inv (ac_evict_one k ''evictions_ttl'' s)" using Cons.prems by (simp add: ac_evict_one_inv)
  from Cons.IH [OF this] Cons.prems show ?case
    by (simp add: ac_evict_one_balance split: option.split prod.split)
qed simp

lemma ac_evict_balance:
  assumes "ac_inv s"
  shows "ac_balance (ac_evict now s) = ac_balance s"
proof -
  have loop: "ac_balance (while ac_over ac_evict_oldest t) = ac_balance t" if "ac_inv t" for t
    by (rule ac_loop.loop_keeps [OF that])
      (simp_all add: ac_evict_oldest_def ac_evict_one_balance)
  show ?thesis
    using assms by (simp add: ac_evict_def Let_def loop ac_ttl_sweep_inv ac_ttl_sweep_balance)
qed

lemma ac_insert_balance:
  assumes "ac_inv s"
  shows "ac_balance (ac_insert k inputs now s) = ac_balance s"
proof -
  define s1 where "s1 = (if dict_has (ac_meta s) k then ac_evict_one k ''overwrites'' s else s)"
  have fresh: "\<not> dict_has (ac_meta s1) k" using assms by (simp add: s1_def ac_evict_one_meta)
  have "ac_balance (ac_insert k inputs now s) = ac_balance s1"
    using fresh by (simp add: ac_insert_def s1_def [symmetric] Let_def ac_balance_def ac_out_def
        length_dict_set)
  also have "\<dots> = ac_balance s" using assms by (simp add: s1_def ac_evict_one_balance)
  finally show ?thesis .
qed

lemma ac_pop_balance:
  assumes "ac_inv s"
  shows "ac_balance (snd (ac_pop k s)) = ac_balance s"
proof (cases "dict_get (ac_meta s) k")
  case None
  then show ?thesis by (simp add: ac_pop_def ac_balance_def ac_out_def)
next
  case (Some p)
  then obtain nb t where p: "dict_get (ac_meta s) k = Some (nb, t)" by (cases p) auto
  obtain ts where "ac_pop k s = (Some ts, ac_bump ''hits'' 1 (ac_bump ''bytes'' (- nb)
      (s\<lparr>ac_meta := dict_del k (ac_meta s), ac_data := dict_del k (ac_data s)\<rparr>)))"
    using ac_pop_hit [OF assms p] by blast
  moreover have "Suc (length (dict_del k (ac_meta s))) = length (ac_meta s)"
    using assms p by (intro length_dict_del_present) (simp_all add: ac_inv_def)
  ultimately show ?thesis by (auto simp: ac_balance_def ac_out_def)
qed

lemma ac_apply_balance: "ac_inv s \<Longrightarrow> op \<noteq> AcClear \<Longrightarrow> ac_balance (ac_apply op s) = ac_balance s"
  by (cases op) (simp_all add: ac_put_def ac_evict_balance ac_insert_balance ac_insert_inv
      ac_pop_balance ac_record_drop_def, simp add: ac_balance_def ac_out_def)

lemma ac_run_inv [inv_intros]: "ac_inv s \<Longrightarrow> ac_inv (fold ac_apply ops s)"
  by (induction ops arbitrary: s) (simp_all add: ac_apply_inv)

lemma ac_run_balance:
  "ac_inv s \<Longrightarrow> AcClear \<notin> set ops \<Longrightarrow> ac_balance (fold ac_apply ops s) = ac_balance s"
  by (induction ops arbitrary: s) (auto simp: ac_apply_inv ac_apply_balance)

lemma ac_new_inv: "ac_new e b t = Inr s \<Longrightarrow> ac_inv s"
  by (auto simp: ac_new_def ac_inv_def split: if_splits)

section \<open>Expiry\<close>

definition ac_times :: "acache \<Rightarrow> time list" where
  "ac_times s = map (\<lambda>p. snd (snd p)) (ac_meta s)"

text \<open>Entries in the order of their insertion times, none of them after \<open>now\<close>.\<close>

definition ac_timely :: "time \<Rightarrow> acache \<Rightarrow> bool" where
  "ac_timely now s \<longleftrightarrow> sorted (ac_times s) \<and> (\<forall>t\<in>set (ac_times s). t \<le> now)"

lemma ac_timely_sub:
  assumes "ac_timely now s" and "ac_meta s' = filter P (ac_meta s)"
  shows "ac_timely now s'"
  using assms sorted_filter [of "\<lambda>p. snd (snd p)" "ac_meta s" P]
  by (auto simp: ac_timely_def ac_times_def)

lemma ac_timely_mono: "ac_timely now s \<Longrightarrow> now \<le> now' \<Longrightarrow> ac_timely now' s"
  by (fastforce simp: ac_timely_def)

lemma sorted_drop_dropWhile: "sorted xs \<Longrightarrow> sorted (drop n (dropWhile P xs))"
  by (simp add: sorted_wrt_drop sorted_dropWhile)

lemma ac_put_timely:
  assumes "ac_inv s" and "ac_timely now s"
  shows "ac_timely now (ac_put k inputs now s)"
proof -
  obtain n where n: "ac_meta (ac_put k inputs now s) = drop n (ac_live k inputs now s)"
    using ac_put_meta [OF assms(1)] by blast
  let ?m = "dict_del k (ac_meta s)"
  have times: "sorted (map (\<lambda>p. snd (snd p)) ?m)" "\<forall>p\<in>set ?m. snd (snd p) \<le> now"
    using assms(2) sorted_filter [of "\<lambda>p. snd (snd p)" "ac_meta s"] dict_del_subset [of k "ac_meta s"]
    by (auto simp: ac_timely_def ac_times_def dict_del_def AList.delete_eq)
  then have "sorted (map (\<lambda>p. snd (snd p)) (?m @ [(k, (store_nbytes inputs, now))]))"
    by (auto simp: sorted_append)
  then have "sorted (map (\<lambda>p. snd (snd p)) (ac_live k inputs now s))"
    unfolding ac_live_def dropWhile_eq_drop drop_map [symmetric] by (rule sorted_wrt_drop)
  then have "sorted (ac_times (ac_put k inputs now s))"
    by (simp add: ac_times_def n sorted_wrt_drop flip: drop_map)
  moreover have "t \<le> now" if "t \<in> set (ac_times (ac_put k inputs now s))" for t
    using that times(2) unfolding ac_times_def n ac_live_def
    by (auto dest!: in_set_dropD set_dropWhileD)
  ultimately show ?thesis by (simp add: ac_timely_def)
qed

lemma sorted_dropWhile_expired:
  assumes "sorted (map f xs)" and "x \<in> set (dropWhile (\<lambda>p. \<not> now - f p < ttl) xs)"
  shows "now - f x < (ttl :: real)"
  using assms by (induction xs) (auto split: if_splits)

text \<open>With the entries in time order, no entry older than the TTL survives a put.\<close>

lemma ac_put_fresh:
  assumes "ac_inv s" and "ac_timely now s" and "ac_ttl_seconds s > 0"
    and "t \<in> set (ac_times (ac_put k inputs now s))"
  shows "now - t < ac_ttl_seconds s"
proof -
  obtain n where n: "ac_meta (ac_put k inputs now s) = drop n (ac_live k inputs now s)"
    using ac_put_meta [OF assms(1)] by blast
  let ?m = "dict_del k (ac_meta s)"
  have "sorted (map (\<lambda>p. snd (snd p)) ?m)" "\<forall>p\<in>set ?m. snd (snd p) \<le> now"
    using assms(2) sorted_filter [of "\<lambda>p. snd (snd p)" "ac_meta s"] dict_del_subset [of k "ac_meta s"]
    by (auto simp: ac_timely_def ac_times_def dict_del_def AList.delete_eq)
  then have sorted: "sorted (map (\<lambda>p. snd (snd p)) (?m @ [(k, (store_nbytes inputs, now))]))"
    by (auto simp: sorted_append)
  obtain p where p: "p \<in> set (ac_live k inputs now s)" "t = snd (snd p)"
    using assms(4) by (auto simp: ac_times_def n dest: in_set_dropD)
  then show ?thesis
    using sorted_dropWhile_expired [OF sorted, of p now "ac_ttl_seconds s"] assms(3)
    by (simp add: ac_live_def ac_expired_def [abs_def])
qed

lemma ac_apply_sel [simp]:
  assumes "ac_inv s"
  shows "ac_max_entries (ac_apply op s) = ac_max_entries s"
    and "ac_max_bytes (ac_apply op s) = ac_max_bytes s"
    and "ac_ttl_seconds (ac_apply op s) = ac_ttl_seconds s"
proof -
  have ttl: "ac_ttl_seconds (while ac_over ac_evict_oldest t) = ac_ttl_seconds t" if "ac_inv t" for t
    by (rule ac_loop.loop_keeps [OF that]) (simp_all add: ac_evict_oldest_def)
  show "ac_max_entries (ac_apply op s) = ac_max_entries s"
    and "ac_max_bytes (ac_apply op s) = ac_max_bytes s"
    and "ac_ttl_seconds (ac_apply op s) = ac_ttl_seconds s"
    using assms by (cases op; simp add: ac_put_def ac_evict_def Let_def ac_loop_sel ttl ac_ttl_sweep_inv
        ac_insert_inv ac_pop_def ac_record_drop_def ac_clear_def split: option.split prod.split)+
qed

lemma ac_put_times_mono:
  assumes "ac_inv s" and "ac_timely now s" and "now \<le> now'"
    and that: "\<And>k i t. op = AcPut k i t \<Longrightarrow> now \<le> t \<and> t \<le> now'"
  shows "ac_timely now' (ac_apply op s)"
proof (cases op)
  case (AcPut k i t)
  have t: "now \<le> t" "t \<le> now'" using that AcPut by blast+
  have "ac_timely t s" using ac_timely_mono assms(2) t(1) by blast
  then have "ac_timely t (ac_put k i t s)" by (rule ac_put_timely [OF assms(1)])
  then show ?thesis using t(2) AcPut by (auto intro: ac_timely_mono)
next
  case (AcPop k)
  have "\<exists>P. ac_meta (ac_apply op s) = filter P (ac_meta s)"
    unfolding AcPop ac_apply.simps ac_pop_def Let_def dict_del_def AList.delete_eq
    by (auto split: option.split intro: exI [of _ "\<lambda>_. True"])
  then show ?thesis using ac_timely_mono ac_timely_sub assms(2,3) by blast
next
  case AcDrop
  then show ?thesis using ac_timely_mono [OF assms(2,3)]
    by (simp add: ac_record_drop_def ac_timely_def ac_times_def)
next
  case AcClear
  then show ?thesis by (simp add: ac_clear_def ac_timely_def ac_times_def)
qed

lemma ac_run_timely:
  assumes "ac_inv s" and "ac_timely t0 s" and "sorted (t0 # put_times ops @ [now])"
  shows "ac_timely now (fold ac_apply ops s)"
  using assms
proof (induction ops arbitrary: s t0)
  case Nil
  then show ?case using ac_timely_mono [of t0 s now] by simp
next
  case (Cons op ops)
  define t1 where "t1 = (case op of AcPut k i t \<Rightarrow> t | _ \<Rightarrow> t0)"
  have "ac_timely t1 (ac_apply op s)"
    using Cons.prems by (intro ac_put_times_mono [of s t0 t1]) (auto simp: t1_def split: ac_op.split)
  moreover have "sorted (t1 # put_times ops @ [now])"
    using Cons.prems(3) by (cases op) (auto simp: t1_def)
  ultimately show ?case
    using Cons.IH [of "ac_apply op s" t1] Cons.prems(1) by (simp add: ac_apply_inv)
qed

section \<open>Properties\<close>

text \<open>C1. In every state reached from a new cache, the number of entries and the bytes are within
  the configured bounds, and the byte counter is the number of bytes of the stored tensors.\<close>

theorem ac_always_bounded:
  assumes "ac_new max_entries max_bytes ttl = Inr s0" and "ac_step\<^sup>*\<^sup>* s0 s"
  shows "int (length (ac_meta s)) \<le> max_entries \<and> cget (ac_counters s) ''bytes'' \<le> max_bytes
    \<and> cget (ac_counters s) ''bytes'' = sum_list (map (\<lambda>p. store_nbytes (the (dict_get (ac_data s) (fst p)))) (ac_meta s))"
proof -
  have inv: "ac_inv s" "ac_bounded s"
    using ac_sys.reachable_invar [of s0 s] assms by blast+
  from assms(2) have "ac_inv s \<and> ac_max_entries s = max_entries \<and> ac_max_bytes s = max_bytes"
  proof (induction rule: rtranclp_induct)
    case base
    then show ?case using ac_new_inv [OF assms(1)] assms(1) by (auto simp: ac_new_def split: if_splits)
  next
    case (step y z)
    then show ?case by (auto elim!: ac_stepE simp: ac_apply_inv)
  qed
  moreover have "\<forall>p\<in>set (ac_meta s). fst (snd p) = store_nbytes (the (dict_get (ac_data s) (fst p)))"
    using ac_entry_nbytes [OF inv(1)] by blast
  then have "meta_bytes (ac_meta s) = sum_list (map (\<lambda>p. store_nbytes (the (dict_get (ac_data s) (fst p)))) (ac_meta s))"
    unfolding meta_bytes_def by (simp cong: map_cong)
  ultimately show ?thesis using inv by (simp add: ac_bounded_def ac_inv_def)
qed

text \<open>A put keeps every live entry it can: what remains is the unexpired entries with the
  new one last, less the shortest prefix (the oldest entries) that brings the rest within the
  bounds on entries and bytes.\<close>

theorem ac_put_evicts_oldest_first:
  assumes "ac_inv s"
  shows "\<exists>n. ac_meta (ac_put k inputs now s) = drop n (ac_live k inputs now s)
    \<and> ac_within s (drop n (ac_live k inputs now s))
    \<and> (\<forall>m<n. \<not> ac_within s (drop m (ac_live k inputs now s)))"
proof -
  obtain n where n: "ac_meta (ac_put k inputs now s) = drop n (ac_live k inputs now s)"
    "\<forall>m<n. \<not> ac_within s (drop m (ac_live k inputs now s))"
    using ac_put_meta [OF assms] by blast
  have "ac_inv (ac_put k inputs now s)" and "ac_bounded (ac_put k inputs now s)"
    by (simp_all add: assms ac_put_inv ac_put_bounded)
  moreover have "ac_max_entries (ac_put k inputs now s) = ac_max_entries s"
    "ac_max_bytes (ac_put k inputs now s) = ac_max_bytes s"
    using ac_apply_sel [OF assms, of "AcPut k inputs now"] by simp_all
  ultimately have "ac_within s (ac_meta (ac_put k inputs now s))"
    by (simp add: ac_within_def ac_bounded_def ac_inv_def)
  with n show ?thesis by auto
qed

text \<open>C2. A pop after the put of the same microbatch returns exactly the tensors put, whatever
  was stored before, unless they alone exceed the byte bound, when it misses; a second pop of the
  same microbatch misses in either case.\<close>

theorem ac_pop_after_put:
  assumes "ac_inv s"
  shows "fst (ac_pop k (ac_put k inputs now s)) =
      (if store_nbytes inputs \<le> ac_max_bytes s then Some inputs else None)
    \<and> fst (ac_pop k (snd (ac_pop k (ac_put k inputs now s)))) = None"
proof -
  let ?t = "ac_put k inputs now s" and ?new = "(k, (store_nbytes inputs, now))"
  have inv: "ac_inv ?t" by (simp add: assms ac_put_inv)
  have live: "\<exists>pre. ac_live k inputs now s = pre @ [?new] \<and> \<not> dict_has pre k"
  proof -
    have "\<not> ac_expired s now ?new" by (simp add: ac_expired_def)
    then have "ac_live k inputs now s = dropWhile (ac_expired s now) (dict_del k (ac_meta s)) @ [?new]"
      unfolding ac_live_def by (simp add: dropWhile_append)
    moreover have "\<not> dict_has (dropWhile (ac_expired s now) (dict_del k (ac_meta s))) k"
      by (metis dict_keys_del Diff_iff image_mono insertI1 set_dropWhileD subset_eq)
    ultimately show ?thesis by blast
  qed
  then obtain pre where pre: "ac_live k inputs now s = pre @ [?new]" "\<not> dict_has pre k" by blast
  obtain n where n: "ac_meta ?t = drop n (pre @ [?new])"
    and min: "\<forall>m<n. \<not> ac_within s (drop m (pre @ [?new]))"
    using ac_put_meta [OF assms, of k inputs now] by (auto simp: pre)
  show ?thesis
  proof (cases "store_nbytes inputs \<le> ac_max_bytes s")
    case True
    then have "ac_within s (drop (length pre) (pre @ [?new]))"
      using assms by (simp add: ac_within_def ac_inv_def)
    then have "n \<le> length pre" using min by (meson not_le_imp_less)
    moreover have "dict_get (drop n pre) k = None"
      using pre(2) dict_has_iff [of k "drop n pre"] by (force dest: in_set_dropD)
    ultimately have "dict_get (ac_meta ?t) k = Some (store_nbytes inputs, now)"
      by (simp add: n map_add_def)
    then obtain ts where ts: "dict_get (ac_data ?t) k = Some ts"
      and pop: "ac_pop k ?t = (Some ts, ac_bump ''hits'' 1 (ac_bump ''bytes'' (- store_nbytes inputs)
        (?t\<lparr>ac_meta := dict_del k (ac_meta ?t), ac_data := dict_del k (ac_data ?t)\<rparr>)))"
      using ac_pop_hit [OF inv] by metis
    have "ts = inputs"
      using ac_evict_keeps [OF ac_insert_inv [OF assms] ts [unfolded ac_put_def]]
      by (simp add: ac_insert_data [OF assms])
    then show ?thesis using True pop by (simp add: ac_pop_def)
  next
    case False
    have "ac_meta ?t = []"
    proof (rule ccontr)
      assume "ac_meta ?t \<noteq> []"
      then have "?new \<in> set (ac_meta ?t)" using n by (cases "n \<le> length pre") auto
      then have "store_nbytes inputs \<le> meta_bytes (ac_meta ?t)"
        using meta_bytes_member [of ?new "ac_meta ?t"] ac_entry_nbytes [OF inv] store_nbytes_nonneg
        by simp
      moreover have "meta_bytes (ac_meta ?t) \<le> ac_max_bytes s"
        using ac_put_bounded [OF assms, of k inputs now] inv ac_apply_sel [OF assms, of "AcPut k inputs now"]
        by (simp add: ac_bounded_def ac_inv_def)
      ultimately show False using False by simp
    qed
    then show ?thesis using False by (simp add: ac_pop_def)
  qed
qed

text \<open>No cached activation is lost unaccounted for: as long as the cache is not cleared, the
  number of puts is the number of hits, evictions (by bound, by age, by overwriting) and entries
  still held.\<close>

theorem ac_puts_accounted:
  assumes "ac_new max_entries max_bytes ttl = Inr s0" and "AcClear \<notin> set ops"
  defines "s \<equiv> fold ac_apply ops s0"
  shows "cget (ac_counters s) ''puts'' = cget (ac_counters s) ''hits''
    + cget (ac_counters s) ''evictions_fifo'' + cget (ac_counters s) ''evictions_ttl''
    + cget (ac_counters s) ''overwrites'' + int (length (ac_meta s))"
proof -
  have "ac_balance s = ac_balance s0"
    unfolding s_def by (rule ac_run_balance) (use assms ac_new_inv in auto)
  also have "\<dots> = 0" using assms(1) by (auto simp: ac_new_def ac_balance_def ac_out_def split: if_splits)
  finally show ?thesis by (simp add: ac_balance_def ac_out_def)
qed

text \<open>If the puts take the lock in the order of their clock readings, then after a put no
  entry is older than the time to live.\<close>

theorem ac_put_leaves_no_expired:
  assumes "ac_new max_entries max_bytes ttl = Inr s0" and "ttl > 0"
    and "sorted (put_times ops @ [now])"
    and "(k', nb, t) \<in> set (ac_meta (ac_put k inputs now (fold ac_apply ops s0)))"
  shows "now - t < ttl"
proof -
  let ?s = "fold ac_apply ops s0"
  have inv: "ac_inv s0" using ac_new_inv assms(1) by blast
  have keeps: "ac_ttl_seconds (fold ac_apply os s') = ac_ttl_seconds s'" if "ac_inv s'" for os s'
    using that by (induction os arbitrary: s') (simp_all add: ac_apply_inv)
  have ttl: "ac_ttl_seconds ?s = ttl"
    using keeps [OF inv] assms(1) by (auto simp: ac_new_def split: if_splits)
  let ?t0 = "hd (put_times ops @ [now])"
  have "ac_timely ?t0 s0" using assms(1) by (auto simp: ac_new_def ac_timely_def ac_times_def split: if_splits)
  moreover have "sorted (?t0 # put_times ops @ [now])"
    using assms(3) by (cases "put_times ops") auto
  ultimately have "ac_timely now ?s" by (intro ac_run_timely [OF inv]) auto
  moreover have "t \<in> set (ac_times (ac_put k inputs now ?s))"
    using assms(4) by (force simp: ac_times_def)
  ultimately show ?thesis
    using ac_put_fresh [of ?s now t k inputs] inv assms(2) ttl by (simp add: ac_run_inv)
qed

text \<open>Without that order the sweep misses expired entries: the clock is read before the lock is
  taken, a put that read 5 enters before one that read 0, and at 12 with a time to live of 10
  the sweep stops at the entry of time 5, so the one of age 12 stays.\<close>

theorem ac_unordered_puts_keep_expired:
  "\<exists>s0 a b c. ac_new 8 100 10 = Inr s0
    \<and> map snd (ac_meta (ac_put c [] 12 (ac_put b [] 0 (ac_put a [] 5 s0)))) = [(0, 5), (0, 0), (0, 12)]"
proof -
  let ?k = "\<lambda>n. (''u'', PStr ''t'', PInt n)"
  let ?s = "\<lambda>m d c. \<lparr>ac_max_entries = 8, ac_max_bytes = 100, ac_ttl_seconds = 10,
    ac_meta = m, ac_data = d, ac_counters = c\<rparr>"
  have stop: "while ac_over ac_evict_oldest s = s" if "\<not> ac_over s" for s
    using that by (simp add: while_unfold)
  note defs = ac_put_def ac_evict_def ac_insert_def ac_bump_def bump_def store_nbytes_def dict_set_def
    ac_over_def cget_def stop
  have 1: "ac_put (?k 1) [] 5 (?s [] [] []) =
      ?s [(?k 1, 0, 5)] [(?k 1, [])] [(''bytes'', 0), (''puts'', 1)]"
    by (simp add: defs)
  have 2: "ac_put (?k 2) [] 0 (?s [(?k 1, 0, 5)] [(?k 1, [])] [(''bytes'', 0), (''puts'', 1)]) =
      ?s [(?k 1, 0, 5), (?k 2, 0, 0)] [(?k 1, []), (?k 2, [])] [(''bytes'', 0), (''puts'', 2)]"
    by (simp add: defs)
  have 3: "map snd (ac_meta (ac_put (?k 3) []  12 (?s [(?k 1, 0, 5), (?k 2, 0, 0)]
      [(?k 1, []), (?k 2, [])] [(''bytes'', 0), (''puts'', 2)]))) = [(0, 5), (0, 0), (0, 12)]"
    by (simp add: defs)
  have "ac_new 8 100 10 = Inr (?s [] [] [])" by (simp add: ac_new_def)
  with 1 2 3 show ?thesis by metis
qed

section \<open>Witnesses\<close>

definition ac_demo :: acache where
  "ac_demo = \<lparr>ac_max_entries = 2, ac_max_bytes = 100, ac_ttl_seconds = 0,
     ac_meta = [], ac_data = [], ac_counters = []\<rparr>"

definition ac_demo_key :: "int \<Rightarrow> ckey" where
  "ac_demo_key n = (''layer.0'', PStr ''trainer'', PInt n)"

definition ac_demo_tensors :: "tensor list" where
  "ac_demo_tensors = [\<lparr>tn_elem_size = 4, tn_vals = [1, 2, 3]\<rparr>]"

lemma ac_demo_new: "ac_new 2 100 0 = Inr ac_demo"
  by (simp add: ac_new_def ac_demo_def)

lemma ac_demo_inv: "ac_inv ac_demo"
  by (rule ac_new_inv [OF ac_demo_new])

lemma ac_always_bounded_witness:
  "int (length (ac_meta (ac_put (ac_demo_key 1) ac_demo_tensors 3 ac_demo))) \<le> 2"
proof -
  have "ac_step ac_demo (ac_put (ac_demo_key 1) ac_demo_tensors 3 ac_demo)"
    using ac_step_op [of ac_demo "AcPut (ac_demo_key 1) ac_demo_tensors 3"] by simp
  then have "ac_step\<^sup>*\<^sup>* ac_demo (ac_put (ac_demo_key 1) ac_demo_tensors 3 ac_demo)"
    by (rule r_into_rtranclp)
  from ac_always_bounded [OF ac_demo_new this] show ?thesis by blast
qed

lemma ac_put_evicts_oldest_first_witness:
  "\<exists>n. ac_meta (ac_put (ac_demo_key 1) ac_demo_tensors 3 ac_demo)
    = drop n (ac_live (ac_demo_key 1) ac_demo_tensors 3 ac_demo)"
  using ac_put_evicts_oldest_first [OF ac_demo_inv, of "ac_demo_key 1" ac_demo_tensors 3] by blast

lemma ac_pop_after_put_witness:
  "fst (ac_pop (ac_demo_key 1) (ac_put (ac_demo_key 1) ac_demo_tensors 3 ac_demo)) = Some ac_demo_tensors"
proof -
  have "store_nbytes ac_demo_tensors \<le> ac_max_bytes ac_demo"
    by (simp add: store_nbytes_def ac_demo_tensors_def ac_demo_def nelement_def)
  then show ?thesis
    using ac_pop_after_put [OF ac_demo_inv, of "ac_demo_key 1" ac_demo_tensors 3] by simp
qed

lemma ac_puts_accounted_witness:
  "cget (ac_counters (fold ac_apply [AcPut (ac_demo_key 1) ac_demo_tensors 3, AcPop (ac_demo_key 1)] ac_demo)) ''puts''
   = cget (ac_counters (fold ac_apply [AcPut (ac_demo_key 1) ac_demo_tensors 3, AcPop (ac_demo_key 1)] ac_demo)) ''hits''
    + cget (ac_counters (fold ac_apply [AcPut (ac_demo_key 1) ac_demo_tensors 3, AcPop (ac_demo_key 1)] ac_demo)) ''evictions_fifo''
    + cget (ac_counters (fold ac_apply [AcPut (ac_demo_key 1) ac_demo_tensors 3, AcPop (ac_demo_key 1)] ac_demo)) ''evictions_ttl''
    + cget (ac_counters (fold ac_apply [AcPut (ac_demo_key 1) ac_demo_tensors 3, AcPop (ac_demo_key 1)] ac_demo)) ''overwrites''
    + int (length (ac_meta (fold ac_apply [AcPut (ac_demo_key 1) ac_demo_tensors 3, AcPop (ac_demo_key 1)] ac_demo)))"
  by (rule ac_puts_accounted [OF ac_demo_new]) simp

lemma ac_put_leaves_no_expired_witness:
  "\<exists>s0. (ac_demo_key 1, 0, 12) \<in> set (ac_meta (ac_put (ac_demo_key 1) [] 12 (fold ac_apply [AcDrop] s0)))
    \<and> (12::real) - 12 < 10"
proof -
  define s0 :: acache where "s0 = \<lparr>ac_max_entries = 8, ac_max_bytes = 100, ac_ttl_seconds = 10,
    ac_meta = [], ac_data = [], ac_counters = []\<rparr>"
  have s0: "ac_new 8 100 10 = Inr s0" by (simp add: ac_new_def s0_def)
  let ?k = "ac_demo_key 1"
  have "while ac_over ac_evict_oldest s = s" if "\<not> ac_over s" for s
    using that by (simp add: while_unfold)
  then have "(?k, 0, 12) \<in> set (ac_meta (ac_put ?k [] 12 (fold ac_apply [AcDrop] s0)))"
    by (simp add: s0_def ac_put_def ac_evict_def ac_insert_def ac_bump_def bump_def
        store_nbytes_def dict_set_def ac_over_def cget_def ac_record_drop_def ac_demo_key_def)
  from ac_put_leaves_no_expired [OF s0 _ _ this] this show ?thesis by auto
qed

end
