(* ===== verification/TimedStorage.thy ===== *)
theory TimedStorage
  imports Prelude
begin

text \<open>
  The expiring dictionary of \<open>hivemind/utils/timed_storage.py\<close>: the values with their expiration
  times (\<open>ts_data\<close>), a heap of (expiration, key) entries that may hold stale entries (\<open>ts_heap\<close>,
  kept sorted), and the entry that counts for each key (\<open>ts_kth\<close>). An operation takes the clock
  reading as an argument; the code reads the clock anew in each iteration of \<open>_remove_outdated\<close>, here
  it stands still during one operation.
\<close>

section \<open>State and operations\<close>

record ('k, 'v) tstore =
  ts_maxsize :: "nat option"
  ts_data :: "('k, 'v \<times> time) dict"
  ts_heap :: "(time \<times> 'k) list"
  ts_kth :: "('k, time \<times> 'k) dict"
  ts_frozen :: bool

text \<open>\<open>maxsize or float("inf")\<close>: a \<open>maxsize\<close> of 0 means no bound.\<close>

definition ts_new :: "nat option \<Rightarrow> ('k, 'v) tstore" where
  "ts_new maxsize = \<lparr>ts_maxsize = (if maxsize = Some 0 then None else maxsize),
     ts_data = [], ts_heap = [], ts_kth = [], ts_frozen = False\<rparr>"

definition ts_full :: "('k, 'v) tstore \<Rightarrow> bool" where
  "ts_full s = (case ts_maxsize s of None \<Rightarrow> False | Some m \<Rightarrow> length (ts_data s) > m)"

definition ts_outdated :: "time \<Rightarrow> ('k, 'v) tstore \<Rightarrow> bool" where
  "ts_outdated now s = (\<not> ts_frozen s \<and>
     (case ts_heap s of [] \<Rightarrow> False | e # _ \<Rightarrow> fst e < now \<or> ts_full s))"

definition ts_pop_one :: "('k, 'v) tstore \<Rightarrow> ('k, 'v) tstore" where
  "ts_pop_one s = (case heap_pop (ts_heap s) of
      None \<Rightarrow> s
    | Some (e, h) \<Rightarrow>
        if dict_get (ts_kth s) (snd e) = Some e
        then s\<lparr>ts_heap := h, ts_data := dict_del (snd e) (ts_data s), ts_kth := dict_del (snd e) (ts_kth s)\<rparr>
        else s\<lparr>ts_heap := h\<rparr>)"

definition ts_remove_outdated :: "time \<Rightarrow> ('k, 'v) tstore \<Rightarrow> ('k, 'v) tstore" where
  "ts_remove_outdated now = while (ts_outdated now) ts_pop_one"

definition ts_store :: "time \<Rightarrow> 'k::linorder \<Rightarrow> 'v \<Rightarrow> time \<Rightarrow> ('k, 'v) tstore \<Rightarrow> bool \<times> ('k, 'v) tstore" where
  "ts_store now k v expiration s =
     (if expiration < now \<and> \<not> ts_frozen s then (False, s)
      else let s1 = s\<lparr>ts_kth := dict_set k (expiration, k) (ts_kth s),
                      ts_heap := heap_push (expiration, k) (ts_heap s)\<rparr>
           in case dict_get (ts_data s) k of
                Some (_, old) \<Rightarrow>
                  if old < expiration then (True, s1\<lparr>ts_data := dict_set k (v, expiration) (ts_data s)\<rparr>)
                  else (False, s1)
              | None \<Rightarrow>
                  (True, ts_remove_outdated now (s1\<lparr>ts_data := dict_set k (v, expiration) (ts_data s)\<rparr>)))"

definition ts_get :: "time \<Rightarrow> 'k \<Rightarrow> ('k, 'v) tstore \<Rightarrow> ('v \<times> time) option \<times> ('k, 'v) tstore" where
  "ts_get now k s = (let s1 = ts_remove_outdated now s in (dict_get (ts_data s1) k, s1))"

definition ts_items :: "time \<Rightarrow> ('k, 'v) tstore \<Rightarrow> ('k \<times> 'v \<times> time) list \<times> ('k, 'v) tstore" where
  "ts_items now s = (let s1 = ts_remove_outdated now s in (ts_data s1, s1))"

fun ts_skip_ghosts :: "('k, time \<times> 'k) dict \<Rightarrow> (time \<times> 'k) list \<Rightarrow> error + (time \<times> 'k) list" where
  "ts_skip_ghosts kth [] = Inl IndexError"
| "ts_skip_ghosts kth (e # h) =
     (if dict_get kth (snd e) \<noteq> Some e then ts_skip_ghosts kth h else Inr (e # h))"

definition ts_top :: "time \<Rightarrow> ('k, 'v) tstore \<Rightarrow> error + ('k \<times> 'v \<times> time) option \<times> ('k, 'v) tstore" where
  "ts_top now s =
     (let s1 = ts_remove_outdated now s
      in if ts_data s1 = [] then Inr (None, s1)
         else case ts_skip_ghosts (ts_kth s1) (ts_heap s1) of
                Inl err \<Rightarrow> Inl err
              | Inr h \<Rightarrow>
                  (case dict_get (ts_data s1) (snd (hd h)) of
                     None \<Rightarrow> Inl KeyError
                   | Some ve \<Rightarrow> Inr (Some (snd (hd h), ve), s1\<lparr>ts_heap := h\<rparr>)))"

definition ts_clear :: "('k, 'v) tstore \<Rightarrow> ('k, 'v) tstore" where
  "ts_clear s = s\<lparr>ts_data := [], ts_kth := [], ts_heap := []\<rparr>"

definition ts_contains :: "time \<Rightarrow> 'k \<Rightarrow> ('k, 'v) tstore \<Rightarrow> bool \<times> ('k, 'v) tstore" where
  "ts_contains now k s = (let s1 = ts_remove_outdated now s in (dict_has (ts_data s1) k, s1))"

definition ts_len :: "time \<Rightarrow> ('k, 'v) tstore \<Rightarrow> nat \<times> ('k, 'v) tstore" where
  "ts_len now s = (let s1 = ts_remove_outdated now s in (length (ts_data s1), s1))"

definition ts_delitem :: "'k \<Rightarrow> ('k, 'v) tstore \<Rightarrow> ('k, 'v) tstore" where
  "ts_delitem k s =
     (if dict_has (ts_kth s) k
      then s\<lparr>ts_data := dict_del k (ts_data s), ts_kth := dict_del k (ts_kth s)\<rparr> else s)"

definition ts_bool :: "('k, 'v) tstore \<Rightarrow> bool" where
  "ts_bool s \<longleftrightarrow> ts_data s \<noteq> []"

text \<open>The context manager: the body runs frozen, the flag is restored even if it raises.\<close>

definition ts_freeze :: "(('k, 'v) tstore \<Rightarrow> 'a \<times> ('k, 'v) tstore) \<Rightarrow> ('k, 'v) tstore \<Rightarrow> 'a \<times> ('k, 'v) tstore" where
  "ts_freeze body s = (let (r, s1) = body (s\<lparr>ts_frozen := True\<rparr>) in (r, s1\<lparr>ts_frozen := ts_frozen s\<rparr>))"

section \<open>The invariant\<close>

text \<open>
  The same keys in both dictionaries; the entry that counts for a key is in the heap and is not
  later than the expiration of the value.
\<close>

definition ts_inv :: "('k::linorder, 'v) tstore \<Rightarrow> bool" where
  "ts_inv s \<longleftrightarrow> sorted (ts_heap s) \<and> dict_ok (ts_data s) \<and> dict_ok (ts_kth s)
     \<and> fst ` set (ts_data s) = fst ` set (ts_kth s)
     \<and> (\<forall>k e. dict_get (ts_kth s) k = Some e \<longrightarrow> snd e = k \<and> e \<in> set (ts_heap s))
     \<and> (\<forall>k v x e. dict_get (ts_data s) k = Some (v, x) \<longrightarrow> dict_get (ts_kth s) k = Some e \<longrightarrow> fst e \<le> x)"

text \<open>What the store is for a client: the values, with the time up to which they are served.\<close>

definition ts_life :: "('k, 'v) tstore \<Rightarrow> 'k \<Rightarrow> time option" where
  "ts_life s k = map_option fst (dict_get (ts_kth s) k)"

lemma ts_new_inv: "ts_inv (ts_new m)"
  by (simp add: ts_new_def ts_inv_def)

lemma ts_inv_dom: "ts_inv s \<Longrightarrow> dict_get (ts_data s) k = None \<longleftrightarrow> dict_get (ts_kth s) k = None"
  unfolding ts_inv_def by (metis dict_has_iff)

lemma ts_pop_one_inv [inv_intros]:
  assumes "ts_inv s"
  shows "ts_inv (ts_pop_one s)"
proof (cases "ts_heap s")
  case Nil
  with assms show ?thesis by (simp add: ts_pop_one_def)
next
  case (Cons e h)
  have kth: "\<And>k d. dict_get (ts_kth s) k = Some d \<Longrightarrow> snd d = k \<and> (d = e \<or> d \<in> set h)"
    using assms Cons unfolding ts_inv_def by (metis set_ConsD)
  show ?thesis
  proof (cases "dict_get (ts_kth s) (snd e) = Some e")
    case True
    have "d \<in> set h" if "dict_get (ts_kth s) k = Some d" "k \<noteq> snd e" for k d
      using kth [OF that(1)] that(2) by auto
    with True assms Cons show ?thesis
      by (simp add: ts_pop_one_def ts_inv_def)
  next
    case False
    have "d \<in> set h" if "dict_get (ts_kth s) k = Some d" for k d
      using kth [OF that] that False by auto
    with False assms Cons show ?thesis
      by (simp add: ts_pop_one_def ts_inv_def)
  qed
qed

interpretation ts_loop: eviction "ts_outdated now" ts_pop_one "\<lambda>s. length (ts_heap s)" ts_inv for now
proof
  fix s :: "('k::linorder, 'v) tstore" assume "ts_inv s" and "ts_outdated now s"
  then show "length (ts_heap (ts_pop_one s)) < length (ts_heap s)"
    by (cases "ts_heap s") (auto simp: ts_outdated_def ts_pop_one_def)
qed (rule ts_pop_one_inv)

lemma ts_remove_outdated_inv [inv_intros]: "ts_inv s \<Longrightarrow> ts_inv (ts_remove_outdated now s)"
  unfolding ts_remove_outdated_def using ts_loop.loop_post by blast

lemma ts_store_inv [inv_intros]:
  assumes "ts_inv s"
  shows "ts_inv (snd (ts_store now k v x s))"
proof -
  let ?s1 = "s\<lparr>ts_kth := dict_set k (x, k) (ts_kth s), ts_heap := heap_push (x, k) (ts_heap s)\<rparr>"
  have same: "ts_inv (?s1\<lparr>ts_data := dict_set k (v, x) (ts_data s)\<rparr>)"
    using assms by (simp add: ts_inv_def) 
  have "ts_inv ?s1" if "dict_get (ts_data s) k = Some (w, y)" "x \<le> y" for w y
  proof -
    have "dict_has (ts_kth s) k" using assms that ts_inv_dom dict_has_iff by (metis option.distinct(1))
    then have "insert k (fst ` set (ts_kth s)) = fst ` set (ts_kth s)" by blast
    with assms that show ?thesis by (simp add: ts_inv_def)
  qed
  with same assms show ?thesis
    by (simp add: ts_store_def Let_def ts_remove_outdated_inv split: option.split prod.split)
qed

lemma ts_delitem_inv [inv_intros]: "ts_inv s \<Longrightarrow> ts_inv (ts_delitem k s)"
  by (simp add: ts_delitem_def ts_inv_def)

lemma ts_clear_inv [inv_intros]: "ts_inv (ts_clear s)"
  by (simp add: ts_clear_def ts_inv_def)

section \<open>What the sweep removes\<close>

lemma ts_pop_one_sel [simp]:
  "ts_frozen (ts_pop_one s) = ts_frozen s" "ts_maxsize (ts_pop_one s) = ts_maxsize s"
  by (simp_all add: ts_pop_one_def split: option.split prod.split)

lemma ts_remove_outdated_sel [simp]:
  assumes "ts_inv s"
  shows "ts_frozen (ts_remove_outdated now s) = ts_frozen s"
    and "ts_maxsize (ts_remove_outdated now s) = ts_maxsize s"
  unfolding ts_remove_outdated_def
  by (rule ts_loop.loop_keeps [OF assms]; simp)+

lemma ts_remove_outdated_frozen: "ts_frozen s \<Longrightarrow> ts_remove_outdated now s = s"
  by (simp add: ts_remove_outdated_def while_unfold ts_outdated_def)

lemma ts_swept:
  assumes "ts_inv s" and "\<not> ts_frozen s"
  shows "dict_get (ts_kth (ts_remove_outdated now s)) k = Some e \<Longrightarrow> now \<le> fst e"
    and "\<not> ts_full (ts_remove_outdated now s)"
proof -
  let ?t = "ts_remove_outdated now s"
  have inv: "ts_inv ?t" and stop: "\<not> ts_outdated now ?t" and "\<not> ts_frozen ?t"
    using ts_loop.loop_post [OF assms(1), of now] assms by (simp_all add: ts_remove_outdated_def [symmetric])
  show "now \<le> fst e" if e: "dict_get (ts_kth ?t) k = Some e"
  proof -
    have "e \<in> set (ts_heap ?t)" and sorted: "sorted (ts_heap ?t)"
      using inv e unfolding ts_inv_def by blast+
    then obtain r h where h: "ts_heap ?t = r # h" by (cases "ts_heap ?t") auto
    have "now \<le> fst r" using stop h \<open>\<not> ts_frozen ?t\<close> by (auto simp: ts_outdated_def)
    moreover have "r \<le> e" using sorted \<open>e \<in> set (ts_heap ?t)\<close> h by auto
    ultimately show ?thesis by (auto simp: less_eq_prod_def)
  qed
  show "\<not> ts_full ?t"
  proof (cases "ts_heap ?t")
    case Nil
    have "ts_kth ?t = []"
    proof (rule ccontr)
      assume "ts_kth ?t \<noteq> []"
      then obtain k e where "dict_get (ts_kth ?t) k = Some e"
        by (metis list.set_intros(1) neq_Nil_conv dict_has_iff image_eqI not_Some_eq)
      then show False using inv Nil unfolding ts_inv_def by (metis empty_iff list.set(1))
    qed
    then have "ts_data ?t = []" using inv by (simp add: ts_inv_def)
    then show ?thesis by (simp add: ts_full_def split: option.split)
  next
    case (Cons r h)
    then show ?thesis using stop \<open>\<not> ts_frozen ?t\<close> by (simp add: ts_outdated_def)
  qed
qed

text \<open>Without pressure on the size, the sweep removes a key exactly when its time has passed.\<close>

definition ts_gone :: "time \<Rightarrow> ('k, 'v) tstore \<Rightarrow> 'k \<Rightarrow> bool" where
  "ts_gone now s k = (\<not> ts_frozen s \<and> (case ts_life s k of None \<Rightarrow> False | Some x \<Rightarrow> x < now))"

lemma ts_sweep_keeps:
  assumes inv: "ts_inv s" and "\<not> ts_full s" and "\<not> ts_gone now s k"
  shows "dict_get (ts_data (ts_remove_outdated now s)) k = dict_get (ts_data s) k
    \<and> dict_get (ts_kth (ts_remove_outdated now s)) k = dict_get (ts_kth s) k"
proof -
  let ?P = "\<lambda>t. ts_frozen t = ts_frozen s \<and> ts_maxsize t = ts_maxsize s
    \<and> length (ts_data t) \<le> length (ts_data s)
    \<and> dict_get (ts_data t) k = dict_get (ts_data s) k \<and> dict_get (ts_kth t) k = dict_get (ts_kth s) k"
  have "?P (ts_remove_outdated now s)"
    unfolding ts_remove_outdated_def
  proof (rule ts_loop.loop_keeps [OF inv])
    show "?P s" by simp
  next
    fix t assume t: "ts_inv t" "ts_outdated now t" and P: "?P t"
    then obtain e h where h: "ts_heap t = e # h" by (auto simp: ts_outdated_def split: list.splits)
    have "\<not> ts_full t" using P assms(2) by (auto simp: ts_full_def split: option.splits)
    then have now: "fst e < now" "\<not> ts_frozen s" using t(2) h P by (auto simp: ts_outdated_def)
    have k: "dict_get (ts_kth t) k \<noteq> Some e"
    proof
      assume "dict_get (ts_kth t) k = Some e"
      with P have "dict_get (ts_kth s) k = Some e" by simp
      with assms(3) now show False by (simp add: ts_gone_def ts_life_def)
    qed
    have len: "length (dict_del (snd e) (ts_data t)) \<le> length (ts_data s)"
      using P length_dict_del_le [of "snd e" "ts_data t"] by simp
    show "?P (ts_pop_one t)"
    proof (cases "dict_get (ts_kth t) (snd e) = Some e")
      case True
      then have "k \<noteq> snd e" using k by blast
      with True P h len show ?thesis by (simp add: ts_pop_one_def)
    next
      case False
      with P h show ?thesis by (simp add: ts_pop_one_def)
    qed
  qed
  then show ?thesis by simp
qed

lemma ts_pop_one_kth:
  "dict_get (ts_kth (ts_pop_one t)) k = None \<or> dict_get (ts_kth (ts_pop_one t)) k = dict_get (ts_kth t) k"
  by (simp add: ts_pop_one_def split: option.split prod.split)

lemma ts_sweep_removes:
  fixes s :: "('a::linorder, 'b) tstore"
  assumes "ts_inv s" and "ts_gone now s k"
  shows "dict_get (ts_data (ts_remove_outdated now s)) k = None"
proof -
  let ?P = "\<lambda>t. dict_get (ts_kth t) k = None \<or> dict_get (ts_kth t) k = dict_get (ts_kth s) k"
  have "?P (ts_remove_outdated now s)"
    unfolding ts_remove_outdated_def
  proof (rule ts_loop.loop_keeps [OF assms(1)])
    fix t :: "('a, 'b) tstore" assume "?P t"
    then show "?P (ts_pop_one t)" using ts_pop_one_kth [of t k] by argo
  qed simp
  moreover have "dict_get (ts_kth (ts_remove_outdated now s)) k \<noteq> dict_get (ts_kth s) k"
    using ts_swept(1) [OF assms(1), of now k] assms(2)
    by (fastforce simp: ts_gone_def ts_life_def split: option.splits)
  ultimately show ?thesis
    using ts_inv_dom [OF ts_remove_outdated_inv [OF assms(1)], of now k] by blast
qed

text \<open>Looking a key up, in terms of the values and their lives only.\<close>

lemma ts_get_spec:
  assumes "ts_inv s" and "\<not> ts_full s"
  shows "fst (ts_get now k s) = (if ts_gone now s k then None else dict_get (ts_data s) k)"
  using assms by (simp add: ts_get_def Let_def ts_sweep_removes ts_sweep_keeps)

lemma ts_get_inv [inv_intros]: "ts_inv s \<Longrightarrow> ts_inv (snd (ts_get now k s))"
  by (simp add: ts_get_def Let_def ts_remove_outdated_inv)

section \<open>The storage as an expiring map\<close>

text \<open>
  The contract a client of an unbounded storage relies on: looking up one key changes no lookup,
  and deleting a key removes just that key.
\<close>

locale expiring_map =
  fixes ok :: "'s \<Rightarrow> bool"
    and look :: "'s \<Rightarrow> 'k \<Rightarrow> 'v option"
    and touch :: "'k \<Rightarrow> 's \<Rightarrow> 's"
    and drop :: "'k \<Rightarrow> 's \<Rightarrow> 's"
  assumes touch_ok: "ok s \<Longrightarrow> ok (touch k s)"
    and drop_ok: "ok s \<Longrightarrow> ok (drop k s)"
    and look_touch: "ok s \<Longrightarrow> look (touch k' s) k = look s k"
    and look_drop: "ok s \<Longrightarrow> look (drop k' s) k = (if k = k' then None else look s k)"
begin

lemma touches_ok: "ok s \<Longrightarrow> ok (fold touch ks s)"
  by (induction ks arbitrary: s) (simp_all add: touch_ok)

lemma look_touches: "ok s \<Longrightarrow> look (fold touch ks s) k = look s k"
  by (induction ks arbitrary: s) (simp_all add: touch_ok look_touch)

lemma look_touch_drop: "ok s \<Longrightarrow> look (drop k (touch k s)) k' = (if k' = k then None else look s k')"
  by (simp add: look_drop touch_ok look_touch)

end

definition ts_plain :: "('k::linorder, 'v) tstore \<Rightarrow> bool" where
  "ts_plain s \<longleftrightarrow> ts_inv s \<and> \<not> ts_frozen s \<and> ts_maxsize s = None"

definition ts_look :: "time \<Rightarrow> ('k::linorder, 'v) tstore \<Rightarrow> 'k \<Rightarrow> ('v \<times> time) option" where
  "ts_look now s k = fst (ts_get now k s)"

lemma ts_plain_new: "ts_plain (ts_new None)"
  using ts_new_inv [of None] by (simp add: ts_plain_def) (simp add: ts_new_def)

lemma ts_plain_clear: "ts_plain s \<Longrightarrow> ts_plain (ts_clear s)"
  using ts_clear_inv [of s] by (simp add: ts_plain_def) (simp add: ts_clear_def)

lemma ts_plain_not_full: "ts_plain s \<Longrightarrow> \<not> ts_full s"
  by (simp add: ts_plain_def ts_full_def)

lemma ts_look_eq: "ts_plain s \<Longrightarrow> ts_look now s k = (if ts_gone now s k then None else dict_get (ts_data s) k)"
  unfolding ts_look_def by (rule ts_get_spec) (auto simp: ts_plain_not_full, simp add: ts_plain_def)

lemma ts_plain_sweep: "ts_plain s \<Longrightarrow> ts_plain (ts_remove_outdated now s)"
  by (simp add: ts_plain_def ts_remove_outdated_inv)

lemma ts_look_sweep:
  assumes "ts_plain s"
  shows "ts_look now (ts_remove_outdated now s) k = ts_look now s k"
proof -
  let ?t = "ts_remove_outdated now s"
  have t: "ts_plain ?t" and inv: "ts_inv s" and "\<not> ts_full s"
    using assms ts_plain_sweep ts_plain_not_full by (auto simp: ts_plain_def)
  show ?thesis
  proof (cases "ts_gone now s k")
    case True
    then show ?thesis
      using ts_sweep_removes [OF inv True] by (simp add: ts_look_eq t assms)
  next
    case False
    from ts_sweep_keeps [OF inv \<open>\<not> ts_full s\<close> this]
    have "dict_get (ts_data ?t) k = dict_get (ts_data s) k" "dict_get (ts_kth ?t) k = dict_get (ts_kth s) k"
      by blast+
    moreover from this(2) have "ts_gone now ?t k = ts_gone now s k"
      using inv by (simp add: ts_gone_def ts_life_def)
    ultimately show ?thesis by (simp add: ts_look_eq t assms)
  qed
qed

lemma ts_plain_del: "ts_plain s \<Longrightarrow> ts_plain (ts_delitem k s)"
  using ts_delitem_inv [of s k] by (auto simp: ts_plain_def ts_delitem_def)

lemma ts_look_del:
  assumes "ts_plain s"
  shows "ts_look now (ts_delitem k' s) k = (if k = k' then None else ts_look now s k)"
proof -
  have "dict_get (ts_data (ts_delitem k' s)) k = (if k = k' then None else dict_get (ts_data s) k)"
    using assms ts_inv_dom [of s k'] by (auto simp: ts_plain_def ts_delitem_def dict_has_iff)
  moreover have "k \<noteq> k' \<Longrightarrow> ts_gone now (ts_delitem k' s) k = ts_gone now s k"
    by (simp add: ts_gone_def ts_life_def ts_delitem_def)
  ultimately show ?thesis using assms ts_plain_del [OF assms] by (cases "k = k'") (simp_all add: ts_look_eq)
qed

text \<open>The storage model keeps this contract at every clock reading.\<close>

interpretation ts_map: expiring_map ts_plain "ts_look now" "\<lambda>k s. snd (ts_get now k s)" ts_delitem for now
proof
  fix s :: "('k::linorder, 'v) tstore" and k k' assume s: "ts_plain s"
  show "ts_plain (snd (ts_get now k s))" and "ts_look now (snd (ts_get now k' s)) k = ts_look now s k"
    using s by (simp_all add: ts_get_def Let_def ts_plain_sweep ts_look_sweep)
qed (simp_all add: ts_plain_del ts_look_del)

lemma ts_plain_store:
  assumes "ts_plain s"
  shows "ts_plain (snd (ts_store now k v x s))"
proof -
  let ?s1 = "s\<lparr>ts_kth := dict_set k (x, k) (ts_kth s), ts_heap := heap_push (x, k) (ts_heap s),
    ts_data := dict_set k (v, x) (ts_data s)\<rparr>"
  have "ts_inv ?s1" using assms by (simp add: ts_plain_def ts_inv_def)
  then have "ts_plain (ts_remove_outdated now ?s1)"
    using assms by (intro ts_plain_sweep) (simp add: ts_plain_def)
  then show ?thesis
    using assms ts_store_inv [of s now k v x] by (auto simp: ts_plain_def ts_store_def Let_def split: option.split)
qed

text \<open>The keys after a store: none but the stored one is new.\<close>

lemma ts_sweep_keys:
  assumes "ts_inv s"
  shows "fst ` set (ts_data (ts_remove_outdated now s)) \<subseteq> fst ` set (ts_data s)"
  unfolding ts_remove_outdated_def
  by (rule ts_loop.loop_keeps [OF assms]) (auto simp: ts_pop_one_def split: option.splits prod.splits if_splits)

lemma ts_store_keys:
  assumes "ts_plain s"
  shows "fst ` set (ts_data (snd (ts_store now k v x s))) \<subseteq> insert k (fst ` set (ts_data s))"
proof -
  let ?s1 = "s\<lparr>ts_kth := dict_set k (x, k) (ts_kth s), ts_heap := heap_push (x, k) (ts_heap s),
    ts_data := dict_set k (v, x) (ts_data s)\<rparr>"
  have "ts_inv ?s1" using assms(1) by (simp add: ts_plain_def ts_inv_def)
  from ts_sweep_keys [OF this, where now = now]
  have sweep: "fst ` set (ts_data (ts_remove_outdated now ?s1)) \<subseteq> insert k (fst ` set (ts_data s))" by simp
  consider "x < now \<and> \<not> ts_frozen s" | w y where "\<not> (x < now \<and> \<not> ts_frozen s)" "dict_get (ts_data s) k = Some (w, y)"
    | "\<not> (x < now \<and> \<not> ts_frozen s)" "dict_get (ts_data s) k = None"
    by (cases "dict_get (ts_data s) k") auto
  then show ?thesis
  proof cases
    case 1
    then show ?thesis by (auto simp: ts_store_def)
  next
    case 2
    then have "y < x \<Longrightarrow> ?thesis" "\<not> y < x \<Longrightarrow> ?thesis"
      by (simp_all add: ts_store_def Let_def subset_insertI)
    then show ?thesis by blast
  next
    case 3
    then have "snd (ts_store now k v x s) = ts_remove_outdated now ?s1" by (auto simp: ts_store_def Let_def)
    then show ?thesis using sweep by simp
  qed
qed

lemma ts_delitem_keys: "ts_inv s \<Longrightarrow> fst ` set (ts_data (ts_delitem k s)) = fst ` set (ts_data s) - {k}"
  by (cases "dict_has (ts_kth s) k") (simp_all add: ts_delitem_def ts_inv_def)

section \<open>The earliest entry\<close>

text \<open>Skipping ghosts succeeds as soon as one entry counts, and stops at the first that does.\<close>

lemma ts_skip_ghosts_Inr:
  assumes "e \<in> set h" and "dict_get kth (snd e) = Some e" and "sorted h"
  shows "\<exists>r h'. ts_skip_ghosts kth h = Inr (r # h') \<and> set (r # h') \<subseteq> set h \<and> sorted (r # h')
    \<and> dict_get kth (snd r) = Some r
    \<and> (\<forall>d \<in> set h. dict_get kth (snd d) = Some d \<longrightarrow> d \<in> set (r # h') \<and> r \<le> d)"
  using assms
proof (induction h)
  case (Cons a h)
  show ?case
  proof (cases "dict_get kth (snd a) = Some a")
    case True
    then show ?thesis using Cons.prems(3) by auto
  next
    case False
    with Cons have "\<exists>r h'. ts_skip_ghosts kth h = Inr (r # h') \<and> set (r # h') \<subseteq> set h \<and> sorted (r # h')
      \<and> dict_get kth (snd r) = Some r
      \<and> (\<forall>d \<in> set h. dict_get kth (snd d) = Some d \<longrightarrow> d \<in> set (r # h') \<and> r \<le> d)"
      by (metis set_ConsD sorted_simps(2))
    then obtain r h' where r: "ts_skip_ghosts kth h = Inr (r # h')" "set (r # h') \<subseteq> set h" "sorted (r # h')"
      "dict_get kth (snd r) = Some r"
      "\<forall>d \<in> set h. dict_get kth (snd d) = Some d \<longrightarrow> d \<in> set (r # h') \<and> r \<le> d" by blast
    have "ts_skip_ghosts kth (a # h) = Inr (r # h')" using False r(1) by simp
    moreover have "set (r # h') \<subseteq> set (a # h)" using r(2) by auto
    moreover have "\<forall>d \<in> set (a # h). dict_get kth (snd d) = Some d \<longrightarrow> d \<in> set (r # h') \<and> r \<le> d"
      using r(5) False by (metis set_ConsD)
    ultimately show ?thesis using r(3,4) by blast
  qed
qed simp

lemma ts_top_spec:
  fixes s :: "('k::linorder, 'v) tstore"
  assumes "ts_inv s"
    and s1_def: "s1 = ts_remove_outdated now s"
  shows "(ts_data s1 = [] \<and> ts_top now s = Inr (None, s1))
    \<or> (\<exists>k v x l s2. ts_top now s = Inr (Some (k, v, x), s2) \<and> ts_inv s2
        \<and> ts_data s2 = ts_data s1 \<and> ts_kth s2 = ts_kth s1 \<and> ts_frozen s2 = ts_frozen s1 \<and> ts_maxsize s2 = ts_maxsize s1
        \<and> dict_get (ts_data s1) k = Some (v, x) \<and> ts_life s1 k = Some l
        \<and> (\<forall>k' l'. ts_life s1 k' = Some l' \<longrightarrow> l \<le> l'))"
proof (cases "ts_data s1 = []")
  case True
  then show ?thesis by (simp add: ts_top_def s1_def Let_def)
next
  case False
  have inv: "ts_inv s1" unfolding s1_def by (rule ts_remove_outdated_inv [OF assms(1)])
  then have counts: "e \<in> set (ts_heap s1)" "snd e = k'" if "dict_get (ts_kth s1) k' = Some e" for k' e
    using that unfolding ts_inv_def by blast+
  obtain p d where "ts_data s1 = p # d" using False by (cases "ts_data s1") auto
  then have "dict_get (ts_data s1) (fst p) \<noteq> None" by (cases p) simp
  then obtain e where e: "dict_get (ts_kth s1) (fst p) = Some e"
    using ts_inv_dom [OF inv, of "fst p"] by (cases "dict_get (ts_kth s1) (fst p)") auto
  have "sorted (ts_heap s1)" using inv by (simp add: ts_inv_def)
  with counts [OF e] e obtain r h' where r: "ts_skip_ghosts (ts_kth s1) (ts_heap s1) = Inr (r # h')"
    "set (r # h') \<subseteq> set (ts_heap s1)" "sorted (r # h')" "dict_get (ts_kth s1) (snd r) = Some r"
    "\<forall>d \<in> set (ts_heap s1). dict_get (ts_kth s1) (snd d) = Some d \<longrightarrow> d \<in> set (r # h') \<and> r \<le> d"
    using ts_skip_ghosts_Inr [of e "ts_heap s1" "ts_kth s1"] by auto
  obtain v x where v: "dict_get (ts_data s1) (snd r) = Some (v, x)"
    using r(4) ts_inv_dom [OF inv, of "snd r"] by auto
  have least: "fst r \<le> l'" if "ts_life s1 k' = Some l'" for k' l'
  proof -
    obtain d where d: "dict_get (ts_kth s1) k' = Some d" "fst d = l'"
      using \<open>ts_life s1 k' = Some l'\<close> by (auto simp: ts_life_def)
    then have "r \<le> d" using counts [OF d(1)] r(5) by auto
    then show ?thesis using d(2) by (auto simp: less_eq_prod_def)
  qed
  have "ts_inv (s1\<lparr>ts_heap := r # h'\<rparr>)"
    using inv r(3,5) counts unfolding ts_inv_def by (auto simp del: set_simps sorted_simps)
  moreover have "ts_top now s = Inr (Some (snd r, v, x), s1\<lparr>ts_heap := r # h'\<rparr>)"
    using False r(1) v by (simp add: ts_top_def s1_def [symmetric] Let_def)
  ultimately show ?thesis using v r(4) least
    by (intro disjI2 exI [of _ "snd r"] exI [of _ v] exI [of _ x] exI [of _ "fst r"]
        exI [of _ "s1\<lparr>ts_heap := r # h'\<rparr>"]) (auto simp: ts_life_def)
qed

section \<open>Histories\<close>

inductive ts_step :: "('k::linorder, 'v) tstore \<Rightarrow> ('k, 'v) tstore \<Rightarrow> bool" where
  ts_step_store: "ts_step s (snd (ts_store now k v x s))"
| ts_step_get: "ts_step s (snd (ts_get now k s))"
| ts_step_top: "ts_top now s = Inr (r, t) \<Longrightarrow> ts_step s t"
| ts_step_del: "ts_step s (ts_delitem k s)"
| ts_step_clear: "ts_step s (ts_clear s)"

inductive_cases ts_stepE: "ts_step s t"

text \<open>The state outside \<open>freeze\<close>: the invariant and the bound on the size.\<close>

definition ts_ok :: "('k::linorder, 'v) tstore \<Rightarrow> bool" where
  "ts_ok s \<longleftrightarrow> ts_inv s \<and> \<not> ts_frozen s \<and> \<not> ts_full s"

lemma ts_full_cong: "ts_data t = ts_data u \<Longrightarrow> ts_maxsize t = ts_maxsize u \<Longrightarrow> ts_full t = ts_full u"
  by (simp add: ts_full_def split: option.split)

lemma ts_ok_sweep [inv_intros]: "ts_inv s \<Longrightarrow> \<not> ts_frozen s \<Longrightarrow> ts_ok (ts_remove_outdated now s)"
  by (simp add: ts_ok_def ts_swept(2) ts_remove_outdated_inv)

lemma ts_ok_store [inv_intros]:
  assumes "ts_ok s"
  shows "ts_ok (snd (ts_store now k v x s))"
proof (cases "dict_get (ts_data s) k")
  case None
  let ?s1 = "s\<lparr>ts_kth := dict_set k (x, k) (ts_kth s), ts_heap := heap_push (x, k) (ts_heap s),
    ts_data := dict_set k (v, x) (ts_data s)\<rparr>"
  have "ts_inv ?s1" using assms by (simp add: ts_ok_def ts_inv_def)
  then have "ts_ok (ts_remove_outdated now ?s1)" using assms by (intro ts_ok_sweep) (simp_all add: ts_ok_def)
  then show ?thesis using assms None by (simp add: ts_store_def Let_def)
next
  case (Some p)
  then have "dict_has (ts_data s) k" by (simp add: dict_has_iff)
  then show ?thesis
    using assms Some ts_store_inv [of s now k v x]
    by (auto simp: ts_ok_def ts_store_def Let_def ts_full_def length_dict_set split: option.splits prod.splits)
qed

lemma ts_ok_get [inv_intros]: "ts_ok s \<Longrightarrow> ts_ok (snd (ts_get now k s))"
  using ts_ok_sweep [of s now] by (simp add: ts_get_def Let_def) (simp add: ts_ok_def)

lemma ts_ok_top [inv_intros]:
  assumes "ts_ok s" and "ts_top now s = Inr (r, t)"
  shows "ts_ok t"
proof -
  have "ts_ok (ts_remove_outdated now s)" using assms(1) by (intro ts_ok_sweep) (simp_all add: ts_ok_def)
  moreover have "t = ts_remove_outdated now s \<or> (ts_inv t \<and> ts_data t = ts_data (ts_remove_outdated now s)
      \<and> ts_frozen t = ts_frozen (ts_remove_outdated now s) \<and> ts_maxsize t = ts_maxsize (ts_remove_outdated now s))"
    using ts_top_spec [of s "ts_remove_outdated now s" now] assms by (auto simp: ts_ok_def)
  ultimately show ?thesis using ts_full_cong [of t "ts_remove_outdated now s"] unfolding ts_ok_def by metis
qed

lemma ts_ok_del [inv_intros]: "ts_ok s \<Longrightarrow> ts_ok (ts_delitem k s)"
  using length_dict_del_le [of k "ts_data s"] ts_delitem_inv [of s k]
  by (auto simp: ts_ok_def ts_delitem_def ts_full_def split: option.splits)

lemma ts_ok_clear [inv_intros]: "ts_ok s \<Longrightarrow> ts_ok (ts_clear s)"
  using ts_clear_inv [of s]
  by (auto simp: ts_ok_def ts_clear_def ts_full_def split: option.splits)

lemma ts_ok_step: "ts_step s t \<Longrightarrow> ts_ok s \<Longrightarrow> ts_ok t"
  by (induction rule: ts_step.induct) (auto intro: inv_intros)

interpretation ts_sys: transitions "\<lambda>s. \<exists>m. s = ts_new m" ts_step ts_ok
proof
  fix s :: "('k::linorder, 'v) tstore" assume "\<exists>m. s = ts_new m"
  then show "ts_ok s"
    using ts_new_inv by (auto simp: ts_ok_def ts_new_def ts_full_def split: option.split)
qed (rule ts_ok_step)

section \<open>Properties\<close>


text \<open>\<open>top\<close> never raises: neither the scan over leftover heap entries runs off the heap nor is
  the key it finds missing. It answers \<open>None\<close> exactly when no item is left, and otherwise an item
  whose time comes no later than that of any other.\<close>

theorem ts_top_total:
  fixes s :: "('k::linorder, 'v) tstore"
  assumes "ts_step\<^sup>*\<^sup>* (ts_new m) s"
  shows "\<exists>r t. ts_top now s = Inr (r, t) \<and> (r = None \<longleftrightarrow> ts_data t = [])
    \<and> (\<forall>k v x. r = Some (k, v, x) \<longrightarrow> dict_get (ts_data t) k = Some (v, x)
        \<and> (\<exists>l. ts_life t k = Some l \<and> (\<forall>k' l'. ts_life t k' = Some l' \<longrightarrow> l \<le> l')))"
proof -
  have "ts_inv s" using ts_sys.reachable_invar [of "ts_new m" s] assms by (auto simp: ts_ok_def)
  from ts_top_spec [OF this refl, of now] show ?thesis
    by (auto simp: ts_life_def)
qed

text \<open>A store that reports success is served with its value and expiration at every later time
  up to the expiration, provided the storage has room for the key; one that is rejected for a
  newer value leaves that value in place.\<close>

theorem ts_get_after_store:
  fixes s :: "('k::linorder, 'v) tstore"
  assumes "ts_step\<^sup>*\<^sup>* (ts_new m) s"
    and "dict_has (ts_data s) k \<or> ts_maxsize s = None \<or> (\<exists>n. ts_maxsize s = Some n \<and> length (ts_data s) < n)"
    and "now' \<le> x"
  shows "(fst (ts_store now k v x s) \<longrightarrow>
      fst (ts_get now' k (snd (ts_store now k v x s))) = Some (v, x))
    \<and> (\<not> fst (ts_store now k v x s) \<longrightarrow>
      dict_get (ts_data (snd (ts_store now k v x s))) k = dict_get (ts_data s) k)"
proof -
  have ok: "ts_ok s" using ts_sys.reachable_invar [of "ts_new m" s] assms(1) by auto
  let ?s1 = "s\<lparr>ts_kth := dict_set k (x, k) (ts_kth s), ts_heap := heap_push (x, k) (ts_heap s),
    ts_data := dict_set k (v, x) (ts_data s)\<rparr>"
  have inv1: "ts_inv ?s1" using ok by (simp add: ts_ok_def ts_inv_def)
  have room: "\<not> ts_full ?s1"
    using ok assms(2) by (auto simp: ts_ok_def ts_full_def length_dict_set split: option.splits)
  have get: "fst (ts_get now' k t) = Some (v, x)"
    if "ts_inv t" "\<not> ts_full t" "dict_get (ts_data t) k = Some (v, x)" "dict_get (ts_kth t) k = Some (x, k)" for t
    using that assms(3) by (simp add: ts_get_spec ts_gone_def ts_life_def)
  show ?thesis
  proof (cases "dict_get (ts_data s) k")
    case (Some p)
    then show ?thesis
      using get [OF inv1 room] by (auto simp: ts_store_def Let_def split: prod.splits)
  next
    case None
    show ?thesis
    proof (cases "x < now")
      case True
      then show ?thesis using ok by (simp add: ts_store_def ts_ok_def)
    next
      case False
      then have "\<not> ts_gone now ?s1 k" by (simp add: ts_gone_def ts_life_def)
      from ts_sweep_keeps [OF inv1 room this]
      have "dict_get (ts_data (ts_remove_outdated now ?s1)) k = Some (v, x)"
        "dict_get (ts_kth (ts_remove_outdated now ?s1)) k = Some (x, k)" by simp_all
      moreover have "\<not> ts_full (ts_remove_outdated now ?s1)"
        using ok ts_swept(2) [OF inv1] by (simp add: ts_ok_def)
      ultimately have "fst (ts_get now' k (ts_remove_outdated now ?s1)) = Some (v, x)"
        using ts_remove_outdated_inv [OF inv1] by (intro get)
      then show ?thesis using None False by (simp add: ts_store_def Let_def)
    qed
  qed
qed

text \<open>A rejected store is not without effect: it replaces the heap entry of the key by the
  earlier time, so the kept value is dropped at that time, before its own expiration.\<close>

theorem ts_rejected_store_shortens_life:
  fixes s :: "('k::linorder, 'v) tstore"
  assumes "ts_step\<^sup>*\<^sup>* (ts_new m) s" and "dict_get (ts_data s) k = Some (w, y)"
    and "now \<le> x" and "x < later" and "later \<le> y"
  shows "\<not> fst (ts_store now k v x s) \<and> fst (ts_get later k (snd (ts_store now k v x s))) = None"
proof -
  have ok: "ts_ok s" using ts_sys.reachable_invar [of "ts_new m" s] assms(1) by auto
  let ?t = "s\<lparr>ts_kth := dict_set k (x, k) (ts_kth s), ts_heap := heap_push (x, k) (ts_heap s)\<rparr>"
  have store: "ts_store now k v x s = (False, ?t)"
    using assms(2-5) by (simp add: ts_store_def Let_def)
  have "ts_inv ?t" using ts_store_inv [of s now k v x] ok by (simp add: store ts_ok_def)
  moreover have "ts_gone later ?t k" using assms(4) ok by (simp add: ts_gone_def ts_life_def ts_ok_def)
  ultimately show ?thesis by (simp add: store ts_get_def Let_def ts_sweep_removes)
qed

section \<open>Witnesses\<close>

definition ts_demo :: "(nat, nat) tstore" where
  "ts_demo = snd (ts_store 1 7 70 10 (ts_new (Some 2)))"

lemma ts_demo_reached: "ts_step\<^sup>*\<^sup>* (ts_new (Some 2)) ts_demo"
  unfolding ts_demo_def by (rule r_into_rtranclp) (rule ts_step_store)

lemma ts_demo_eq: "ts_demo = \<lparr>ts_maxsize = Some 2, ts_data = [(7, (70, 10))], ts_heap = [(10, 7)],
    ts_kth = [(7, (10, 7))], ts_frozen = False\<rparr>"
  by (simp add: ts_demo_def ts_store_def ts_new_def dict_set_def heap_push_def ts_remove_outdated_def
      while_unfold ts_outdated_def ts_full_def)


lemma ts_top_total_witness: "\<exists>r t. ts_top 5 ts_demo = Inr (r, t)"
  using ts_top_total [OF ts_demo_reached, of 5] by blast

lemma ts_get_after_store_witness:
  "fst (ts_get 6 8 (snd (ts_store 5 8 80 9 ts_demo))) = Some (80, 9)"
proof -
  have "fst (ts_store 5 8 80 9 ts_demo)" by (simp add: ts_store_def ts_demo_eq Let_def)
  moreover have "(6::real) \<le> 9" by simp
  ultimately show ?thesis
    using ts_get_after_store [OF ts_demo_reached, of 8 6 9 5 80] by (simp add: ts_demo_eq)
qed

lemma ts_rejected_store_shortens_life_witness:
  "fst (ts_get 4 7 ts_demo) = Some (70, 10) \<and> fst (ts_get 4 7 (snd (ts_store 2 7 71 3 ts_demo))) = None"
proof -
  have "fst (ts_get 4 7 ts_demo) = Some (70, 10)"
    by (simp add: ts_get_def ts_demo_eq ts_remove_outdated_def while_unfold ts_outdated_def ts_full_def)
  moreover have "dict_get (ts_data ts_demo) 7 = Some (70, 10)" by (simp add: ts_demo_eq)
  ultimately show ?thesis
    using ts_rejected_store_shortens_life [OF ts_demo_reached, of 7 70 10 2 3 4 71] by simp
qed

end
