(* ===== verification/PerformanceEMA.thy ===== *)
theory PerformanceEMA
  imports Prelude
begin

text \<open>
  The running throughput estimate of \<open>hivemind/utils/performance_ema.py\<close>: an exponential moving
  average of seconds per sample, corrected for its start at 0. A failed assertion and a division by
  zero are errors; a clock reading is an argument.
\<close>

record ema =
  em_alpha :: real
  em_eps :: real
  em_num_updates :: nat
  em_seconds_per_sample :: real
  em_samples_per_second :: real
  em_timestamp :: time
  em_paused :: bool

definition ema_new :: "real \<Rightarrow> real \<Rightarrow> bool \<Rightarrow> time \<Rightarrow> ema" where
  "ema_new alpha eps paused now =
     \<lparr>em_alpha = alpha, em_eps = eps, em_num_updates = 0, em_seconds_per_sample = 0,
      em_samples_per_second = eps, em_timestamp = now, em_paused = paused\<rparr>"

text \<open>The arithmetic of an update, once the interval is known.\<close>

definition ema_register :: "real \<Rightarrow> real \<Rightarrow> ema \<Rightarrow> error + ema" where
  "ema_register task_size interval s =
     (let e = em_alpha s * interval / task_size + (1 - em_alpha s) * em_seconds_per_sample s;
          n = em_num_updates s + 1;
          d = 1 - (1 - em_alpha s) ^ n
      in if d = 0 then Inl ZeroDivisionError
         else if max (e / d) (em_eps s) = 0 then Inl ZeroDivisionError
         else Inr (s\<lparr>em_seconds_per_sample := e, em_num_updates := n,
                     em_samples_per_second := 1 / max (e / d) (em_eps s)\<rparr>))"

definition ema_update :: "real \<Rightarrow> real option \<Rightarrow> time \<Rightarrow> ema \<Rightarrow> error + ema" where
  "ema_update task_size interval now s =
     (if \<not> 0 < task_size then Inl AssertionError
      else if \<not> em_paused s then
        ema_register task_size (case interval of None \<Rightarrow> now - em_timestamp s | Some i \<Rightarrow> i)
          (s\<lparr>em_timestamp := now\<rparr>)
      else case interval of None \<Rightarrow> Inl AssertionError | Some i \<Rightarrow> ema_register task_size i s)"

definition ema_reset_timer :: "time \<Rightarrow> ema \<Rightarrow> ema" where
  "ema_reset_timer now s = s\<lparr>em_timestamp := now\<rparr>"

text \<open>The context manager \<open>pause\<close>; the clock is read when the body is left.\<close>

definition ema_pause :: "(ema \<Rightarrow> ema) \<Rightarrow> time \<Rightarrow> ema \<Rightarrow> ema" where
  "ema_pause body now s =
     ema_reset_timer now ((body (s\<lparr>em_paused := True\<rparr>))\<lparr>em_paused := em_paused s\<rparr>)"

text \<open>The update at the end of \<open>update_threadsafe\<close>: entered at \<open>start\<close>, left at \<open>now\<close>.\<close>

definition ema_update_threadsafe :: "real \<Rightarrow> time \<Rightarrow> time \<Rightarrow> ema \<Rightarrow> error + ema" where
  "ema_update_threadsafe task_size start now s =
     ema_update task_size (Some (now - max start (em_timestamp s))) now s"

fun ema_updates :: "(real \<times> real) list \<Rightarrow> time \<Rightarrow> ema \<Rightarrow> error + ema" where
  "ema_updates [] now s = Inr s"
| "ema_updates ((task_size, interval) # us) now s =
     (case ema_update task_size (Some interval) now s of
        Inl err \<Rightarrow> Inl err
      | Inr s1 \<Rightarrow> ema_updates us now s1)"

section \<open>The corrected average\<close>

text \<open>The bias of the average after n updates, and the invariant on the average.\<close>

definition ema_weight :: "ema \<Rightarrow> real" where
  "ema_weight s = 1 - (1 - em_alpha s) ^ em_num_updates s"

definition ema_ok :: "ema \<Rightarrow> bool" where
  "ema_ok s \<longleftrightarrow> 0 < em_alpha s \<and> em_alpha s \<le> 1 \<and> 0 < em_eps s"

definition ema_within :: "real \<Rightarrow> real \<Rightarrow> ema \<Rightarrow> bool" where
  "ema_within lo hi s \<longleftrightarrow> lo * ema_weight s \<le> em_seconds_per_sample s
     \<and> em_seconds_per_sample s \<le> hi * ema_weight s"

lemma ema_weight_pos:
  assumes "0 < a" and "a \<le> (1::real)"
  shows "0 < 1 - (1 - a) ^ Suc n"
proof -
  have "(1 - a) ^ Suc n \<le> 1 - a"
    using power_decreasing [of 1 "Suc n" "1 - a"] assms by simp
  with assms show ?thesis by linarith
qed

lemma ema_register_Inr:
  assumes "ema_ok s"
  obtains t where "ema_register task_size interval s = Inr t"
    and "em_alpha t = em_alpha s" and "em_eps t = em_eps s" and "em_paused t = em_paused s"
    and "em_num_updates t = Suc (em_num_updates s)"
    and "em_seconds_per_sample t = em_alpha s * (interval / task_size) + (1 - em_alpha s) * em_seconds_per_sample s"
    and "em_samples_per_second t = 1 / max (em_seconds_per_sample t / ema_weight t) (em_eps t)"
proof -
  have "0 < 1 - (1 - em_alpha s) ^ Suc (em_num_updates s)"
    using assms ema_weight_pos unfolding ema_ok_def by blast
  moreover have "max x (em_eps s) \<noteq> 0" for x using assms by (auto simp: ema_ok_def)
  ultimately show thesis
    by (intro that [of "the (case ema_register task_size interval s of Inr t \<Rightarrow> Some t)"])
      (simp_all add: ema_register_def Let_def ema_weight_def)
qed

lemma ema_average_within:
  assumes "0 < a" and "a \<le> (1::real)" and "lo \<le> r" and "r \<le> hi"
    and "lo * (1 - q) \<le> e" and "e \<le> hi * (1 - q)"
  shows "lo * (1 - (1 - a) * q) \<le> a * r + (1 - a) * e \<and> a * r + (1 - a) * e \<le> hi * (1 - (1 - a) * q)"
proof -
  have "a * lo \<le> a * r" "a * r \<le> a * hi" using assms by (simp_all add: mult_left_mono)
  moreover have "(1 - a) * (lo * (1 - q)) \<le> (1 - a) * e" "(1 - a) * e \<le> (1 - a) * (hi * (1 - q))"
    using assms by (simp_all add: mult_left_mono)
  ultimately show ?thesis by (simp add: algebra_simps)
qed

lemma ema_update_Inr:
  assumes "ema_ok s" and "0 < task_size" and "ema_within lo hi s"
    and "lo \<le> interval / task_size" and "interval / task_size \<le> hi"
  obtains t where "ema_update task_size (Some interval) now s = Inr t"
    and "ema_ok t" and "ema_within lo hi t" and "em_eps t = em_eps s"
    and "em_num_updates t = Suc (em_num_updates s)"
    and "em_samples_per_second t = 1 / max (em_seconds_per_sample t / ema_weight t) (em_eps t)"
proof -
  let ?s = "if em_paused s then s else s\<lparr>em_timestamp := now\<rparr>"
  have ok: "ema_ok ?s" using assms(1) by (simp add: ema_ok_def)
  obtain t where t: "ema_register task_size interval ?s = Inr t"
    "em_alpha t = em_alpha ?s" "em_eps t = em_eps ?s" "em_num_updates t = Suc (em_num_updates ?s)"
    "em_seconds_per_sample t = em_alpha ?s * (interval / task_size) + (1 - em_alpha ?s) * em_seconds_per_sample ?s"
    "em_samples_per_second t = 1 / max (em_seconds_per_sample t / ema_weight t) (em_eps t)"
    by (rule ema_register_Inr [OF ok])
  have "lo * (1 - (1 - em_alpha s) * (1 - em_alpha s) ^ em_num_updates s) \<le> em_seconds_per_sample t
      \<and> em_seconds_per_sample t \<le> hi * (1 - (1 - em_alpha s) * (1 - em_alpha s) ^ em_num_updates s)"
    using ema_average_within [of "em_alpha s" lo "interval / task_size" hi
        "(1 - em_alpha s) ^ em_num_updates s" "em_seconds_per_sample s"] assms t(5)
    by (simp add: ema_ok_def ema_within_def ema_weight_def)
  moreover have "ema_weight t = 1 - (1 - em_alpha s) * (1 - em_alpha s) ^ em_num_updates s"
    using t(2,4) by (simp add: ema_weight_def)
  ultimately have "ema_within lo hi t" by (simp add: ema_within_def)
  moreover have "ema_update task_size (Some interval) now s = Inr t"
    using t(1) assms(2) by (simp add: ema_update_def split: if_splits)
  ultimately show thesis
    using assms(1) t by (intro that [of t]) (simp_all add: ema_ok_def)
qed

text \<open>A run of updates never fails, and the estimate stays within the rates it was fed.\<close>

lemma ema_updates_within:
  assumes "ema_ok s" and "ema_within lo hi s"
    and "\<forall>(w, i) \<in> set us. 0 < w \<and> lo \<le> i / w \<and> i / w \<le> hi"
    and "us \<noteq> [] \<or> em_samples_per_second s = 1 / max (em_seconds_per_sample s / ema_weight s) (em_eps s)"
  shows "\<exists>t. ema_updates us now s = Inr t \<and> ema_ok t \<and> ema_within lo hi t \<and> em_eps t = em_eps s
    \<and> em_num_updates t = em_num_updates s + length us
    \<and> em_samples_per_second t = 1 / max (em_seconds_per_sample t / ema_weight t) (em_eps t)"
  using assms
proof (induction us arbitrary: s)
  case (Cons u us)
  obtain w i where u: "u = (w, i)" by (cases u)
  obtain t where "ema_update w (Some i) now s = Inr t" "ema_ok t" "ema_within lo hi t" "em_eps t = em_eps s"
    "em_num_updates t = Suc (em_num_updates s)"
    "em_samples_per_second t = 1 / max (em_seconds_per_sample t / ema_weight t) (em_eps t)"
    using ema_update_Inr [of s w lo hi i now] Cons.prems u by auto
  with Cons.IH [of t] Cons.prems u show ?case by auto
qed simp

section \<open>Properties\<close>

text \<open>After any non-empty run of updates whose seconds per sample lie between \<open>lo\<close> and \<open>hi\<close>, no
  update raises and the estimate is between the throughputs \<open>1/hi\<close> and \<open>1/lo\<close> (capped at \<open>1/eps\<close>): the
  correction removes the bias of the start at 0 completely, so a constant rate is reported exactly.\<close>

theorem ema_estimate_within_rates:
  assumes "0 < alpha" and "alpha \<le> 1" and "0 < eps" and "us \<noteq> []"
    and "\<forall>(w, i) \<in> set us. 0 < w \<and> lo \<le> i / w \<and> i / w \<le> hi"
  shows "\<exists>t. ema_updates us now (ema_new alpha eps paused start) = Inr t
    \<and> em_num_updates t = length us
    \<and> 1 / max hi eps \<le> em_samples_per_second t \<and> em_samples_per_second t \<le> 1 / max lo eps"
proof -
  let ?s = "ema_new alpha eps paused start"
  have "ema_ok ?s" "ema_within lo hi ?s"
    using assms by (simp_all add: ema_ok_def ema_within_def ema_weight_def ema_new_def)
  then obtain t where t: "ema_updates us now ?s = Inr t" "ema_ok t" "ema_within lo hi t" "em_eps t = eps"
    "em_num_updates t = length us"
    "em_samples_per_second t = 1 / max (em_seconds_per_sample t / ema_weight t) eps"
    using ema_updates_within [of ?s lo hi us now] assms by (auto simp: ema_new_def)
  have "0 < ema_weight t"
    using t(2,5) assms(4) ema_weight_pos [of "em_alpha t" "length us - 1"]
    by (simp add: ema_weight_def ema_ok_def)
  then have "lo \<le> em_seconds_per_sample t / ema_weight t" "em_seconds_per_sample t / ema_weight t \<le> hi"
    using t(3) by (simp_all add: ema_within_def field_simps)
  then have "1 / max hi eps \<le> em_samples_per_second t" "em_samples_per_second t \<le> 1 / max lo eps"
    unfolding t(6) using assms(3) by (auto intro!: divide_left_mono)
  with t(1,5) show ?thesis by blast
qed

lemma ema_estimate_within_rates_witness:
  "\<exists>t. ema_updates [(2, 4), (1, 2)] 0 (ema_new (1/10) (1/1000) True 0) = Inr t
    \<and> 1 / 2 \<le> em_samples_per_second t \<and> em_samples_per_second t \<le> 1 / 2"
  using ema_estimate_within_rates [of "1/10" "1/1000" "[(2, 4), (1, 2)]" 2 2 0 True 0] by auto

end
