(* ===== verification/PyText.thy ===== *)
theory PyText
  imports Prelude
begin

text \<open>
  The text operations of Python the program uses: \<open>int()\<close> on a string and \<open>str()\<close> of an int, substring
  search from the right, splitting at a delimiter. Only ASCII digits and blanks are modelled.
\<close>

section \<open>Integers as text\<close>

definition is_digit :: "char \<Rightarrow> bool" where
  "is_digit c \<longleftrightarrow> c \<in> set ''0123456789''"

definition digit_val :: "char \<Rightarrow> int" where
  "digit_val c = int (of_char c) - 48"

definition digit_char :: "nat \<Rightarrow> char" where
  "digit_char d = char_of (48 + d)"

definition is_blank :: "char \<Rightarrow> bool" where
  "is_blank c \<longleftrightarrow> c = CHR '' '' \<or> (9 \<le> (of_char c :: nat) \<and> (of_char c :: nat) \<le> 13)"

definition py_strip :: "string \<Rightarrow> string" where
  "py_strip s = rev (dropWhile is_blank (rev (dropWhile is_blank s)))"

text \<open>Digits, with single underscores allowed between them.\<close>

fun digits_from :: "int \<Rightarrow> string \<Rightarrow> int option" where
  "digits_from acc [] = Some acc"
| "digits_from acc (c # cs) =
     (if is_digit c then digits_from (acc * 10 + digit_val c) cs
      else if c = CHR ''_'' then
        (case cs of d # ds \<Rightarrow> if is_digit d then digits_from (acc * 10 + digit_val d) ds else None | [] \<Rightarrow> None)
      else None)"

fun py_unsigned :: "string \<Rightarrow> int option" where
  "py_unsigned [] = None"
| "py_unsigned (c # cs) = (if is_digit c then digits_from (digit_val c) cs else None)"

text \<open>\<open>int(s)\<close>; \<open>None\<close> is the \<open>ValueError\<close>.\<close>

definition py_int :: "string \<Rightarrow> int option" where
  "py_int s = (case py_strip s of
     [] \<Rightarrow> None
   | c # cs \<Rightarrow> if c = CHR ''-'' then map_option uminus (py_unsigned cs)
               else if c = CHR ''+'' then py_unsigned cs
               else py_unsigned (c # cs))"

fun nat_str :: "nat \<Rightarrow> string" where
  "nat_str n = (if n < 10 then [digit_char n] else nat_str (n div 10) @ [digit_char (n mod 10)])"

declare nat_str.simps [simp del]

definition int_str :: "int \<Rightarrow> string" where
  "int_str i = (if i < 0 then CHR ''-'' # nat_str (nat (- i)) else nat_str (nat i))"

lemma digit_char_digit: "d < 10 \<Longrightarrow> is_digit (digit_char d) \<and> digit_val (digit_char d) = int d"
proof -
  assume "d < 10"
  then have "d \<in> {0, 1, 2, 3, 4, 5, 6, 7, 8, 9}" by auto
  then show ?thesis
    by (elim insertE; simp add: digit_char_def digit_val_def is_digit_def; code_simp?)
qed

lemma nat_str_digits: "list_all is_digit (nat_str n) \<and> nat_str n \<noteq> []"
proof (induction n rule: nat_str.induct)
  case (1 n)
  show ?case
  proof (cases "n < 10")
    case True
    then show ?thesis by (simp add: nat_str.simps [of n] digit_char_digit)
  next
    case False
    with 1 show ?thesis
      using digit_char_digit [of "n mod 10"] by (simp add: nat_str.simps [of n])
  qed
qed

lemma digits_from_digits:
  "list_all is_digit cs \<Longrightarrow> digits_from acc cs = Some (foldl (\<lambda>a c. a * 10 + digit_val c) acc cs)"
  by (induction cs arbitrary: acc) auto

lemma nat_str_val: "foldl (\<lambda>a c. a * 10 + digit_val c) 0 (nat_str n) = int n"
proof (induction n rule: nat_str.induct)
  case (1 n)
  show ?case
  proof (cases "n < 10")
    case True
    then show ?thesis by (simp add: nat_str.simps [of n] digit_char_digit)
  next
    case False
    have "int (n div 10) * 10 + int (n mod 10) = int n"
      by (metis div_mult_mod_eq of_nat_add of_nat_mult of_nat_numeral)
    with 1 False show ?thesis
      using digit_char_digit [of "n mod 10"] by (simp add: nat_str.simps [of n])
  qed
qed

lemma py_unsigned_nat_str: "py_unsigned (nat_str n) = Some (int n)"
proof (cases "nat_str n")
  case Nil
  then show ?thesis using nat_str_digits [of n] by simp
next
  case (Cons c cs)
  then show ?thesis
    using nat_str_digits [of n] nat_str_val [of n] by (simp add: digits_from_digits)
qed

lemma digit_not: "is_digit c \<Longrightarrow> \<not> is_blank c \<and> c \<noteq> CHR ''-'' \<and> c \<noteq> CHR ''+'' \<and> c \<noteq> CHR ''_'' \<and> c \<noteq> CHR ''g'' \<and> c \<noteq> CHR ''.''"
  by (auto simp: is_digit_def is_blank_def)

lemma dropWhile_none: "list_all (\<lambda>c. \<not> P c) s \<Longrightarrow> dropWhile P s = s"
  by (cases s) auto

lemma py_strip_no_blank: "list_all (\<lambda>c. \<not> is_blank c) s \<Longrightarrow> py_strip s = s"
  by (simp add: py_strip_def dropWhile_none)

lemma int_str_chars: "list_all (\<lambda>c. is_digit c \<or> c = CHR ''-'') (int_str i)"
  using nat_str_digits [of "nat (- i)"] nat_str_digits [of "nat i"]
  by (auto simp: int_str_def list_all_iff)

text \<open>Printing an integer and reading it gives it back.\<close>

lemma py_int_str: "py_int (int_str i) = Some i"
proof -
  have "list_all (\<lambda>c. \<not> is_blank c) (int_str i)"
  proof -
    have "\<not> is_blank CHR ''-''" by (simp add: is_blank_def)
    then show ?thesis using int_str_chars [of i] digit_not unfolding list_all_iff by metis
  qed
  then have strip: "py_strip (int_str i) = int_str i" by (rule py_strip_no_blank)
  show ?thesis
  proof (cases "i < 0")
    case True
    then show ?thesis by (simp add: py_int_def strip) (simp add: int_str_def py_unsigned_nat_str)
  next
    case False
    obtain c cs where c: "nat_str (nat i) = c # cs" "is_digit c"
      using nat_str_digits [of "nat i"] by (cases "nat_str (nat i)") auto
    have "int_str i = c # cs" using False c(1) by (simp add: int_str_def)
    moreover have "py_unsigned (c # cs) = Some i" using py_unsigned_nat_str [of "nat i"] c(1) False by simp
    ultimately show ?thesis using digit_not [OF c(2)] unfolding py_int_def strip by simp
  qed
qed

section \<open>Searching and splitting\<close>

definition starts_at :: "string \<Rightarrow> string \<Rightarrow> nat \<Rightarrow> bool" where
  "starts_at pat s i \<longleftrightarrow> take (length pat) (drop i s) = pat"

text \<open>\<open>s.rfind(pat)\<close> for a non-empty pattern; \<open>None\<close> is -1.\<close>

definition rfind :: "string \<Rightarrow> string \<Rightarrow> nat option" where
  "rfind pat s = (let is = filter (starts_at pat s) [0..<length s] in if is = [] then None else Some (last is))"

text \<open>\<open>s.split(d)\<close> for a single character.\<close>

fun py_split :: "char \<Rightarrow> string \<Rightarrow> string list" where
  "py_split d [] = [[]]"
| "py_split d (c # cs) =
     (if c = d then [] # py_split d cs
      else case py_split d cs of [] \<Rightarrow> [[c]] | w # ws \<Rightarrow> (c # w) # ws)"

lemma py_split_nonempty [simp]: "py_split d s \<noteq> []"
  by (induction s) (auto split: list.split)

lemma rfind_unique:
  assumes "starts_at pat s i" and "i < length s"
    and "\<And>j. j < length s \<Longrightarrow> starts_at pat s j \<Longrightarrow> j \<le> i"
  shows "rfind pat s = Some i"
proof -
  let ?is = "filter (starts_at pat s) [0..<length s]"
  have mem: "i \<in> set ?is" using assms(1,2) by simp
  then have ne: "?is \<noteq> []" by (metis empty_iff list.set(1))
  have "sorted ?is" by (simp add: sorted_wrt_filter)
  then have "sorted (butlast ?is @ [last ?is])" using ne by simp
  moreover have "i \<in> set (butlast ?is @ [last ?is])" using mem ne by (metis append_butlast_last_id)
  ultimately have "i \<le> last ?is" by (auto simp: sorted_append)
  moreover have "last ?is \<le> i" using last_in_set [OF ne] assms(3) by auto
  ultimately show ?thesis using ne by (simp add: rfind_def)
qed

lemma rfind_None: "(\<And>j. j < length s \<Longrightarrow> \<not> starts_at pat s j) \<Longrightarrow> rfind pat s = None"
  by (simp add: rfind_def filter_empty_conv)

lemma starts_at_nth:
  assumes "starts_at pat s i" and "k < length pat"
  shows "i + k < length s \<and> s ! (i + k) = pat ! k"
proof -
  have "length (take (length pat) (drop i s)) = length pat" using assms(1) by (simp add: starts_at_def)
  then have "length pat \<le> length s - i" by simp
  then show ?thesis
    using assms nth_take [of k "length pat" "drop i s"] by (simp add: starts_at_def)
qed

end
