(* ===== verification/ExpertRecords.thy ===== *)
theory ExpertRecords
  imports PyText
begin

text \<open>
  The records under which experts are announced, \<open>core/server/dht_handler.py\<close> with the uid grammar of
  \<open>hivemind/moe/expert_uid.py\<close> and the ghost phases of \<open>types.py\<close>: the text of an expert value and its
  parser, the choice of the freshest leaf entry, the records one declaration writes and the lookup.
  Base58 is third-party code: \<open>to58\<close> and \<open>from58\<close> are parameters. The DHT itself is not modelled, a
  lookup takes what it found as an argument.
\<close>

datatype ghost_phase = OFF | PHASE1 | PHASE2

section \<open>Expert uids\<close>

definition is_coordinate :: "string \<Rightarrow> bool" where
  "is_coordinate w \<longleftrightarrow> w = ''0'' \<or> (w \<noteq> [] \<and> list_all is_digit w \<and> hd w \<noteq> CHR ''0'')"

definition is_valid_uid :: "string \<Rightarrow> bool" where
  "is_valid_uid u = (case py_split CHR ''.'' u of
     w # c # cs \<Rightarrow> w \<noteq> [] \<and> list_all is_coordinate (c # cs)
   | _ \<Rightarrow> False)"

text \<open>\<open>split_uid\<close>: the part up to and with the last delimiter, and the last coordinate.\<close>

definition rstrip_dots :: "string \<Rightarrow> string" where
  "rstrip_dots s = rev (dropWhile (\<lambda>c. c = CHR ''.'') (rev s))"

definition split_uid :: "string \<Rightarrow> (string \<times> int) option" where
  "split_uid s = (let t = rstrip_dots s in
     case rfind ''.'' t of
       None \<Rightarrow> None
     | Some i \<Rightarrow> map_option (\<lambda>n. (take (Suc i) t, n)) (py_int (drop (Suc i) t)))"

section \<open>The text of an expert value\<close>

definition ghost1_suffix :: string where "ghost1_suffix = ''_ghost1_''"
definition ghost2_suffix :: string where "ghost2_suffix = ''_ghost2_''"

definition epoch_str :: "int option \<Rightarrow> string" where
  "epoch_str e = (case e of None \<Rightarrow> ''None'' | Some i \<Rightarrow> int_str i)"

definition format_expert_dht_value :: "('p \<Rightarrow> string) \<Rightarrow> 'p \<Rightarrow> ghost_phase \<Rightarrow> int option \<Rightarrow> string" where
  "format_expert_dht_value to58 peer_id phase epoch =
     (case phase of
        PHASE1 \<Rightarrow> to58 peer_id @ ghost1_suffix @ epoch_str epoch
      | PHASE2 \<Rightarrow> to58 peer_id @ ghost2_suffix @ epoch_str epoch
      | OFF \<Rightarrow> to58 peer_id)"

definition parse_with ::
  "(string \<Rightarrow> 'p option) \<Rightarrow> string \<Rightarrow> ghost_phase \<Rightarrow> string \<Rightarrow> nat \<Rightarrow> ('p \<times> ghost_phase \<times> int option) option" where
  "parse_with from58 suffix phase v idx =
     (case (from58 (take idx v), py_int (drop (idx + length suffix) v)) of
        (Some p, Some n) \<Rightarrow> Some (p, phase, Some n)
      | _ \<Rightarrow> None)"

text \<open>\<open>None\<close> is the \<open>ValueError\<close> of a malformed peer id or epoch.\<close>

definition parse_expert_dht_value ::
  "(string \<Rightarrow> 'p option) \<Rightarrow> string \<Rightarrow> ('p \<times> ghost_phase \<times> int option) option" where
  "parse_expert_dht_value from58 v =
     (case rfind ghost1_suffix v of
        Some idx \<Rightarrow> parse_with from58 ghost1_suffix PHASE1 v idx
      | None \<Rightarrow>
          (case rfind ghost2_suffix v of
             Some idx \<Rightarrow> parse_with from58 ghost2_suffix PHASE2 v idx
           | None \<Rightarrow> map_option (\<lambda>p. (p, OFF, None)) (from58 v)))"

section \<open>Leaf records\<close>

text \<open>A value of the DHT: a string, a dictionary of subkeys to entries, or anything else.\<close>

datatype dht_value = LStr string | LDict "(string \<times> (string option \<times> time) option) list" | LOther

definition fresher :: "string \<times> time \<Rightarrow> string \<times> time \<Rightarrow> string \<times> time" where
  "fresher best item = (if snd item > snd best then item else best)"

text \<open>An item of the dictionary is a candidate if it is a \<open>ValueWithExpiration\<close> of a string.\<close>

definition leaf_candidates :: "(string \<times> (string option \<times> time) option) list \<Rightarrow> (string \<times> time) list" where
  "leaf_candidates d = concat (map (\<lambda>(_, item). case item of Some (Some v, x) \<Rightarrow> [(v, x)] | _ \<Rightarrow> []) d)"

definition extract_leaf_record :: "(dht_value \<times> time) option \<Rightarrow> (string \<times> time) option" where
  "extract_leaf_record record =
     (case record of
        None \<Rightarrow> None
      | Some (LStr v, x) \<Rightarrow> Some (v, x)
      | Some (LDict d, _) \<Rightarrow>
          (case leaf_candidates d of [] \<Rightarrow> None | c # cs \<Rightarrow> Some (foldl fresher c cs))
      | Some (LOther, _) \<Rightarrow> None)"

record 'p expert_info =
  ei_uid :: uid
  ei_peer_id :: 'p
  ei_ghost_phase :: ghost_phase
  ei_ghost_phase_start_epoch :: "int option"

text \<open>One uid of \<open>_get_experts\<close>: a malformed value raises (\<open>Inl\<close>), a missing one is \<open>None\<close>.\<close>

definition get_expert ::
  "(string \<Rightarrow> 'p option) \<Rightarrow> uid \<Rightarrow> (dht_value \<times> time) option \<Rightarrow> error + 'p expert_info option" where
  "get_expert from58 u found =
     (case extract_leaf_record found of
        None \<Rightarrow> Inr None
      | Some (v, _) \<Rightarrow>
          (case parse_expert_dht_value from58 v of
             None \<Rightarrow> Inl ValueError
           | Some (p, phase, epoch) \<Rightarrow>
               Inr (Some \<lparr>ei_uid = u, ei_peer_id = p, ei_ghost_phase = phase, ei_ghost_phase_start_epoch = epoch\<rparr>)))"

fun get_experts :: "(string \<Rightarrow> 'p option) \<Rightarrow> (uid \<Rightarrow> (dht_value \<times> time) option) \<Rightarrow> uid list
    \<Rightarrow> error + 'p expert_info option list" where
  "get_experts from58 found [] = Inr []"
| "get_experts from58 found (u # us) =
     (case get_expert from58 u (found u) of
        Inl err \<Rightarrow> Inl err
      | Inr i \<Rightarrow> (case get_experts from58 found us of Inl err \<Rightarrow> Inl err | Inr is \<Rightarrow> Inr (i # is)))"

section \<open>Declaring experts\<close>

definition prefix_subkey :: "int \<Rightarrow> string \<Rightarrow> string" where
  "prefix_subkey coordinate owner = int_str coordinate @ '':'' @ owner"

text \<open>The records of one uid: its leaf, and one entry under each proper prefix.\<close>

datatype declared = Leaf string | Under uid string

fun declare_prefixes ::
  "nat \<Rightarrow> string \<Rightarrow> string \<Rightarrow> uid \<Rightarrow> string \<Rightarrow> ((string \<times> string) \<times> declared) list option" where
  "declare_prefixes 0 prefix owner u v = Some []"
| "declare_prefixes (Suc n) prefix owner u v =
     (case split_uid prefix of
        None \<Rightarrow> None
      | Some (p, coord) \<Rightarrow>
          map_option (\<lambda>rest. ((p, prefix_subkey coord owner), Under u v) # rest) (declare_prefixes n p owner u v))"

definition declare_expert ::
  "('p \<Rightarrow> string) \<Rightarrow> 'p \<Rightarrow> string \<Rightarrow> uid \<Rightarrow> ghost_phase \<Rightarrow> int option
     \<Rightarrow> error + ((string \<times> string) \<times> declared) list" where
  "declare_expert to58 peer_id owner u phase epoch =
     (if \<not> is_valid_uid u then Inl AssertionError
      else let v = format_expert_dht_value to58 peer_id phase epoch;
               prefix = (if count_list u CHR ''.'' > 1 then u else u @ ''.-1'')
           in case declare_prefixes (count_list prefix CHR ''.'' - 1) prefix owner u v of
                None \<Rightarrow> Inl ValueError
              | Some ps \<Rightarrow> Inr (((u, owner), Leaf v) # ps))"

section \<open>Reading back what was written\<close>

text \<open>Where a ghost suffix can occur: at an underscore that is followed by a g.\<close>

lemma ghost_occurrence:
  assumes "starts_at pat s j" and "pat = CHR ''_'' # CHR ''g'' # rest"
  shows "Suc j < length s \<and> s ! j = CHR ''_'' \<and> s ! Suc j = CHR ''g''"
  using starts_at_nth [OF assms(1), of 0] starts_at_nth [OF assms(1), of 1] assms(2) by simp

lemma ghost_position:
  assumes "CHR ''_'' \<notin> set base" and "CHR ''_'' \<notin> set e" and "CHR ''g'' \<notin> set e"
    and s: "s = base @ [CHR ''_'', CHR ''g'', CHR ''h'', CHR ''o'', CHR ''s'', CHR ''t'', d, CHR ''_''] @ e"
    and "d \<noteq> CHR ''_''" and "Suc j < length s" and "s ! j = CHR ''_''" and "s ! Suc j = CHR ''g''"
  shows "j = length base"
proof (rule ccontr)
  assume j: "j \<noteq> length base"
  have "\<not> j < length base"
  proof
    assume "j < length base"
    then have "base ! j = CHR ''_''" using assms(7) by (simp add: s nth_append)
    with \<open>j < length base\<close> assms(1) show False by (metis nth_mem)
  qed
  define k where "k = j - length base"
  then have k: "j = length base + k" "0 < k" using j \<open>\<not> j < length base\<close> by simp_all
  show False
  proof (cases "k \<ge> 8")
    case True
    define m where "m = k - 8"
    let ?pre = "base @ [CHR ''_'', CHR ''g'', CHR ''h'', CHR ''o'', CHR ''s'', CHR ''t'', d, CHR ''_'']"
    have j: "j = length ?pre + m" and s': "s = ?pre @ e" using True k(1) s by (simp_all add: m_def)
    have "s ! j = e ! m" unfolding s' j by (rule nth_append_length_plus)
    moreover have "m < length e" using assms(6) unfolding s' j by simp
    ultimately show False using assms(2,7) nth_mem by metis
  next
    case False
    show False
    proof (cases "k = 7")
      case True
      then have "e ! 0 = CHR ''g''" "0 < length e"
        using assms(6,8) k(1) by (auto simp: s nth_append)
      then show False using assms(3) nth_mem by metis
    next
      case False
      then have "k \<in> {1, 2, 3, 4, 5, 6}" using \<open>\<not> k \<ge> 8\<close> k(2) by auto
      then show False
        using assms(5,7) k(1) by (auto simp: s nth_append nth_Cons')
    qed
  qed
qed

lemma int_str_plain: "CHR ''_'' \<notin> set (int_str i) \<and> CHR ''g'' \<notin> set (int_str i)"
  using int_str_chars [of i] digit_not unfolding list_all_iff by force

lemma rfind_ghost:
  assumes "CHR ''_'' \<notin> set base" and "suf = CHR ''_'' # CHR ''g'' # CHR ''h'' # CHR ''o'' # CHR ''s'' # CHR ''t'' # d # [CHR ''_'']"
    and "d \<noteq> CHR ''_''"
  shows "rfind suf (base @ suf @ int_str i) = Some (length base)"
proof (rule rfind_unique)
  fix j assume "starts_at suf (base @ suf @ int_str i) j"
  then have "Suc j < length (base @ suf @ int_str i) \<and> (base @ suf @ int_str i) ! j = CHR ''_''
      \<and> (base @ suf @ int_str i) ! Suc j = CHR ''g''"
    by (rule ghost_occurrence) (rule assms(2))
  then show "j \<le> length base"
    using ghost_position [OF assms(1), of "int_str i" "base @ suf @ int_str i" d j] int_str_plain assms(2,3)
    by simp
qed (simp_all add: starts_at_def assms(2))

lemma rfind_other_ghost:
  assumes "CHR ''_'' \<notin> set base"
  shows "rfind ghost1_suffix (base @ ghost2_suffix @ int_str i) = None"
proof (rule rfind_None)
  fix j
  let ?s = "base @ ghost2_suffix @ int_str i"
  show "\<not> starts_at ghost1_suffix ?s j"
  proof
    assume st: "starts_at ghost1_suffix ?s j"
    then have "Suc j < length ?s \<and> ?s ! j = CHR ''_'' \<and> ?s ! Suc j = CHR ''g''"
      by (rule ghost_occurrence) (simp add: ghost1_suffix_def)
    then have "j = length base"
      using ghost_position [OF assms, of "int_str i" ?s "CHR ''2''" j] int_str_plain
      by (simp add: ghost2_suffix_def)
    moreover have "?s ! (j + 6) = CHR ''1''"
      using starts_at_nth [OF st, of 6] by (simp add: ghost1_suffix_def)
    ultimately show False by (simp add: nth_append ghost2_suffix_def)
  qed
qed

lemma rfind_no_underscore:
  assumes "CHR ''_'' \<notin> set s" and "pat = CHR ''_'' # CHR ''g'' # rest"
  shows "rfind pat s = None"
proof (rule rfind_None)
  fix j
  show "\<not> starts_at pat s j"
    using ghost_occurrence [of pat s j rest] assms by (metis nth_mem Suc_lessD)
qed

lemma parse_format:
  assumes "from58 (to58 p) = Some p" and "CHR ''_'' \<notin> set (to58 p)" and "phase \<noteq> OFF \<longrightarrow> epoch \<noteq> None"
  shows "parse_expert_dht_value from58 (format_expert_dht_value to58 p phase epoch)
    = Some (p, phase, if phase = OFF then None else epoch)"
proof (cases phase)
  case OFF
  then show ?thesis
    using assms(1) rfind_no_underscore [OF assms(2), of ghost1_suffix] rfind_no_underscore [OF assms(2), of ghost2_suffix]
    by (simp add: parse_expert_dht_value_def format_expert_dht_value_def ghost1_suffix_def ghost2_suffix_def)
next
  case PHASE1
  then obtain i where i: "epoch = Some i" using assms(3) by auto
  have "rfind ghost1_suffix (to58 p @ ghost1_suffix @ int_str i) = Some (length (to58 p))"
    by (rule rfind_ghost [OF assms(2), of _ "CHR ''1''"]) (simp_all add: ghost1_suffix_def)
  then show ?thesis
    using PHASE1 i assms(1)
    by (simp add: parse_expert_dht_value_def format_expert_dht_value_def epoch_str_def parse_with_def py_int_str)
next
  case PHASE2
  then obtain i where i: "epoch = Some i" using assms(3) by auto
  have "rfind ghost2_suffix (to58 p @ ghost2_suffix @ int_str i) = Some (length (to58 p))"
    by (rule rfind_ghost [OF assms(2), of _ "CHR ''2''"]) (simp_all add: ghost2_suffix_def)
  then show ?thesis
    using PHASE2 i assms(1) rfind_other_ghost [OF assms(2), of i]
    by (simp add: parse_expert_dht_value_def format_expert_dht_value_def epoch_str_def parse_with_def py_int_str)
qed

section \<open>Properties\<close>

text \<open>C8. What a worker announces is what a reader learns: the leaf a declaration writes, found under
  the uid with any subkey, yields the same uid, peer, ghost phase and start epoch, provided base58
  round-trips and has no underscore and a ghost phase comes with its epoch.\<close>

theorem declare_then_lookup:
  assumes "from58 (to58 p) = Some p" and "CHR ''_'' \<notin> set (to58 p)" and "phase \<noteq> OFF \<longrightarrow> epoch \<noteq> None"
    and "declare_expert to58 p owner u phase epoch = Inr records"
  shows "\<exists>v. ((u, owner), Leaf v) \<in> set records
    \<and> get_expert from58 u (Some (LDict [(owner, Some (Some v, expiration))], expiration'))
      = Inr (Some \<lparr>ei_uid = u, ei_peer_id = p, ei_ghost_phase = phase,
          ei_ghost_phase_start_epoch = (if phase = OFF then None else epoch)\<rparr>)"
proof -
  have "((u, owner), Leaf (format_expert_dht_value to58 p phase epoch)) \<in> set records"
    using assms(4) by (auto simp: declare_expert_def Let_def split: if_splits option.splits)
  then show ?thesis
    using parse_format [of from58 to58 p phase epoch] assms(1-3)
    by (intro exI [of _ "format_expert_dht_value to58 p phase epoch"])
      (simp add: get_expert_def extract_leaf_record_def leaf_candidates_def)
qed

text \<open>A ghost phase announced without its start epoch is written as the text None, which the
  reader rejects: the lookup of that expert raises.\<close>

theorem ghost_without_epoch_unreadable:
  assumes "CHR ''_'' \<notin> set (to58 p)"
  shows "get_expert from58 u
    (Some (LStr (format_expert_dht_value to58 p PHASE1 None), expiration)) = Inl ValueError"
proof -
  let ?v = "to58 p @ ghost1_suffix @ ''None''"
  have "rfind ghost1_suffix ?v = Some (length (to58 p))"
  proof (rule rfind_unique)
    fix j assume "starts_at ghost1_suffix ?v j"
    then have "Suc j < length ?v \<and> ?v ! j = CHR ''_'' \<and> ?v ! Suc j = CHR ''g''"
      by (rule ghost_occurrence) (simp add: ghost1_suffix_def)
    then show "j \<le> length (to58 p)"
      using ghost_position [OF assms, of "''None''" ?v "CHR ''1''" j] by (simp add: ghost1_suffix_def)
  qed (simp_all add: starts_at_def ghost1_suffix_def)
  moreover have "py_int ''None'' = None"
    by (simp add: py_int_def py_strip_def is_blank_def is_digit_def)
  ultimately show ?thesis
    by (simp add: get_expert_def extract_leaf_record_def format_expert_dht_value_def epoch_str_def
        parse_expert_dht_value_def parse_with_def split: option.split)
qed

lemma foldl_fresher:
  "foldl fresher c cs \<in> set (c # cs) \<and> (\<forall>d \<in> set (c # cs). snd d \<le> snd (foldl fresher c cs))"
proof (induction cs arbitrary: c)
  case (Cons d cs)
  have "fresher c d \<in> {c, d}" "snd c \<le> snd (fresher c d)" "snd d \<le> snd (fresher c d)"
    by (simp_all add: fresher_def)
  moreover have "snd (fresher c d) \<le> snd (foldl fresher (fresher c d) cs)"
    using Cons [of "fresher c d"] by (metis list.set_intros(1))
  ultimately show ?case using Cons [of "fresher c d"] by (auto intro: order_trans)
qed simp

text \<open>The freshest entry wins: the leaf record chosen from a dictionary is one of its string
  entries, and no other string entry expires later.\<close>

theorem leaf_is_freshest:
  assumes "(k, Some (Some w, y)) \<in> set d"
  shows "\<exists>v x. extract_leaf_record (Some (LDict d, expiration)) = Some (v, x) \<and> y \<le> x
    \<and> (\<exists>k'. (k', Some (Some v, x)) \<in> set d)"
proof -
  have mem: "(v, x) \<in> set (leaf_candidates d) \<longleftrightarrow> (\<exists>k. (k, Some (Some v, x)) \<in> set d)" for v x
    by (induction d) (auto simp: leaf_candidates_def split: option.splits)
  then have "(w, y) \<in> set (leaf_candidates d)" using assms by blast
  then obtain c cs where cs: "leaf_candidates d = c # cs" by (cases "leaf_candidates d") auto
  then show ?thesis
    using foldl_fresher [of c cs] mem \<open>(w, y) \<in> set (leaf_candidates d)\<close>
    by (cases "foldl fresher c cs") (force simp: extract_leaf_record_def)
qed

section \<open>Witnesses\<close>

lemma declare_then_lookup_witness:
  "\<exists>v. get_expert (\<lambda>s. Some s) ''head.0.3'' (Some (LDict [(''o'', Some (Some v, 9))], 9))
    = Inr (Some \<lparr>ei_uid = ''head.0.3'', ei_peer_id = ''Qm1'', ei_ghost_phase = PHASE2, ei_ghost_phase_start_epoch = Some 42\<rparr>)"
proof -
  have "py_split CHR ''.'' ''head.0.3'' = [''head'', ''0'', ''3'']" by simp
  then have "is_valid_uid ''head.0.3''" by (simp add: is_valid_uid_def is_coordinate_def is_digit_def)
  moreover have "split_uid ''head.0.3'' = Some (''head.0.'', 3)" by code_simp
  ultimately obtain records where
    "declare_expert (\<lambda>p. p) ''Qm1'' ''o'' ''head.0.3'' PHASE2 (Some 42) = Inr records"
    by (simp add: declare_expert_def Let_def numeral_2_eq_2)
  from declare_then_lookup [OF _ _ _ this, of "\<lambda>s. Some s" 9 9] show ?thesis by auto
qed

lemma ghost_without_epoch_unreadable_witness:
  "get_expert (\<lambda>s. Some s) ''head.0.3''
    (Some (LStr (format_expert_dht_value (\<lambda>p. p) ''Qm1'' PHASE1 None), 5)) = Inl ValueError"
  by (rule ghost_without_epoch_unreadable) simp

lemma leaf_is_freshest_witness:
  "\<exists>v x. extract_leaf_record (Some (LDict [(''a'', Some (Some ''p'', 1)), (''b'', Some (Some ''q'', 2))], 5)) = Some (v, x)
    \<and> 2 \<le> x"
  using leaf_is_freshest [of "''b''" "''q''" 2 "[(''a'', Some (Some ''p'', 1)), (''b'', Some (Some ''q'', 2))]" 5]
  by fastforce

end
