(* ===== verification/ExpertBalancer.thy ===== *)
theory ExpertBalancer
  imports TimedStorage PerformanceEMA ExpertRecords
begin

text \<open>
  The load balancer over the experts of one stage, \<open>core/server/expert_balancer.py\<close>: the known and
  the banned experts (two expiring storages), their throughput estimates, the warm-up table, a heap
  of (runtime, random tie-breaker, uid) entries that may hold stale ones, and the entry that counts
  for each uid. A section under the balancer's lock is one step; the clock reading (\<open>now\<close>), the
  performance counter (\<open>start\<close>) and \<open>random.random()\<close> (\<open>rnd\<close>) are arguments. Waiting for the update
  thread is the outcome \<open>Retry\<close>, what the DHT answered is an argument of the refresh.
\<close>

section \<open>State\<close>

type_synonym qentry = "real \<times> real \<times> uid"

record ebconfig =
  eb_initial_throughput :: real
  eb_alpha :: real
  eb_eps :: real
  eb_ban_expiration :: time
  eb_max_experts :: "nat option"
  eb_min_experts :: nat
  eb_refresh_experts_period :: time
  eb_trainer_rank :: nat
  eb_warmup_batches :: int
  eb_warmup_penalty_multiplier :: real
  eb_update_period :: time
  eb_verification_arguments :: "(string, pyval) dict"

record balancer =
  eb_cfg :: ebconfig
  eb_experts :: "(uid, peer) tstore"
  eb_blacklist :: "(uid, peer option) tstore"
  eb_throughputs :: "(uid, ema) dict"
  eb_warming_up :: "(uid, peer \<times> int \<times> real) dict"
  eb_queue :: "qentry list"
  eb_uid_to_queue :: "(uid, qentry) dict"
  eb_global_batch_counter :: int
  eb_selected_experts :: "(uid \<times> peer \<times> time) list"
  eb_last_full_refresh :: time
  eb_update_trigger :: bool
  eb_update_finished :: bool
  eb_last_update :: time
  eb_is_alive :: bool

definition eb_new :: "ebconfig \<Rightarrow> time \<Rightarrow> balancer" where
  "eb_new cfg now = \<lparr>eb_cfg = cfg, eb_experts = ts_new None, eb_blacklist = ts_new None,
     eb_throughputs = [], eb_warming_up = [], eb_queue = [], eb_uid_to_queue = [],
     eb_global_batch_counter = 0, eb_selected_experts = [],
     eb_last_full_refresh = now - eb_refresh_experts_period cfg,
     eb_update_trigger = False, eb_update_finished = False, eb_last_update = now, eb_is_alive = True\<rparr>"

record reservation =
  rs_uid :: uid
  rs_peer_id :: peer
  rs_task_size :: real
  rs_started_at :: time

text \<open>What one pass of a selection loop ends with.\<close>

datatype 'a grant = Granted 'a | NoneLeft | Retry

section \<open>Adding, evicting and banning experts\<close>

definition eb_ensure_single_uid_entry :: "uid \<Rightarrow> peer \<Rightarrow> balancer \<Rightarrow> balancer" where
  "eb_ensure_single_uid_entry u new_endpoint s =
     (case dict_get (eb_warming_up s) u of
        None \<Rightarrow> s
      | Some (stored_endpoint, _, _) \<Rightarrow>
          if stored_endpoint \<noteq> new_endpoint then s\<lparr>eb_warming_up := dict_del u (eb_warming_up s)\<rparr> else s)"

text \<open>\<open>model_args\<close>: the model arguments the expert reports, \<open>None\<close> when it cannot be reached.\<close>

definition eb_verify_expert :: "(uid \<Rightarrow> (string, pyval) dict option) \<Rightarrow> uid \<Rightarrow> balancer \<Rightarrow> bool" where
  "eb_verify_expert model_args u s =
     (if eb_verification_arguments (eb_cfg s) = [] then True
      else case model_args u of
             None \<Rightarrow> False
           | Some args \<Rightarrow> list_all (\<lambda>(key, expected). dict_get args key = Some expected)
               (eb_verification_arguments (eb_cfg s)))"

definition eb_max_runtime :: "qentry list \<Rightarrow> real" where
  "eb_max_runtime q = (if q = [] then 0 else Max (set (map fst q)))"

definition eb_add_expert :: "time \<Rightarrow> real \<Rightarrow> uid \<Rightarrow> peer \<Rightarrow> time \<Rightarrow> balancer \<Rightarrow> balancer" where
  "eb_add_expert now rnd u endpoint expiration s =
     (let s1 = s\<lparr>eb_experts := snd (ts_store now u endpoint expiration (eb_experts s))\<rparr>
      in if dict_has (eb_uid_to_queue s1) u then s1
         else
           let s2 = eb_ensure_single_uid_entry u endpoint s1;
               (placement, s3) =
                 (case dict_get (eb_warming_up s2) u of
                    Some (_, _, last_runtime) \<Rightarrow> (last_runtime, s2)
                  | None \<Rightarrow>
                      (let p = eb_max_runtime (eb_queue s2)
                       in (p, s2\<lparr>eb_warming_up :=
                              dict_set u (endpoint, eb_global_batch_counter s2, p) (eb_warming_up s2)\<rparr>)));
               entry = (placement, rnd, u)
           in s3\<lparr>eb_throughputs :=
                   dict_set u (ema_new (eb_alpha (eb_cfg s)) (eb_eps (eb_cfg s)) True now) (eb_throughputs s3),
                 eb_queue := heap_push entry (eb_queue s3),
                 eb_uid_to_queue := dict_set u entry (eb_uid_to_queue s3)\<rparr>)"

definition eb_evict_expert :: "uid \<Rightarrow> balancer \<Rightarrow> balancer" where
  "eb_evict_expert u s =
     (if \<not> dict_has (eb_uid_to_queue s) u then s
      else s\<lparr>eb_experts := ts_delitem u (eb_experts s),
             eb_uid_to_queue := dict_del u (eb_uid_to_queue s),
             eb_throughputs := dict_del u (eb_throughputs s)\<rparr>)"

definition eb_ban_expert :: "time \<Rightarrow> uid \<Rightarrow> time option \<Rightarrow> bool \<Rightarrow> balancer \<Rightarrow> balancer" where
  "eb_ban_expert now u ban_duration only_if_present s =
     (let duration = (case ban_duration of None \<Rightarrow> eb_ban_expiration (eb_cfg s) | Some d \<Rightarrow> d);
          (maybe_expert, experts) = ts_get now u (eb_experts s);
          s1 = s\<lparr>eb_experts := experts\<rparr>
      in if maybe_expert = None \<and> only_if_present then s1
         else
           let s2 = (if maybe_expert = None then s1 else s1\<lparr>eb_experts := ts_delitem u (eb_experts s1)\<rparr>);
               endpoint = map_option fst maybe_expert
           in s2\<lparr>eb_blacklist := snd (ts_store now u endpoint (now + duration) (eb_blacklist s2)),
                 eb_uid_to_queue := dict_del u (eb_uid_to_queue s2),
                 eb_throughputs := dict_del u (eb_throughputs s2)\<rparr>)"

definition eb_short_ban :: "time \<Rightarrow> uid \<Rightarrow> balancer \<Rightarrow> balancer" where
  "eb_short_ban now u s = eb_ban_expert now u (Some (eb_update_period (eb_cfg s) * 2)) True s"

definition eb_is_warming_up :: "uid \<Rightarrow> balancer \<Rightarrow> bool" where
  "eb_is_warming_up u s =
     (case dict_get (eb_warming_up s) u of
        None \<Rightarrow> False
      | Some (_, join_batch, _) \<Rightarrow>
          if join_batch = -1 then False
          else eb_global_batch_counter s - join_batch < eb_warmup_batches (eb_cfg s))"

definition eb_update_last_runtime :: "uid \<Rightarrow> real \<Rightarrow> balancer \<Rightarrow> balancer" where
  "eb_update_last_runtime u runtime s =
     (case dict_get (eb_warming_up s) u of
        None \<Rightarrow> s
      | Some (endpoint, join_batch, _) \<Rightarrow>
          s\<lparr>eb_warming_up := dict_set u (endpoint, join_batch, runtime) (eb_warming_up s)\<rparr>)"

text \<open>The blacklist entry if the expert is still banned, after lifting a ban of another endpoint.\<close>

definition eb_check_and_unban :: "time \<Rightarrow> uid \<Rightarrow> peer \<Rightarrow> balancer \<Rightarrow> (peer option \<times> time) option \<times> balancer" where
  "eb_check_and_unban now u endpoint s =
     (let (maybe_banned, bl) = ts_get now u (eb_blacklist s); s1 = s\<lparr>eb_blacklist := bl\<rparr>
      in case maybe_banned of
           Some (value, _) \<Rightarrow>
             if value \<noteq> Some endpoint then (None, s1\<lparr>eb_blacklist := ts_delitem u (eb_blacklist s1)\<rparr>)
             else (maybe_banned, s1)
         | None \<Rightarrow> (None, s1))"

section \<open>Reservations\<close>

definition eb_expected_time_taken :: "uid \<Rightarrow> real \<Rightarrow> balancer \<Rightarrow> error + real" where
  "eb_expected_time_taken u task_size s =
     (case dict_get (eb_throughputs s) u of
        None \<Rightarrow> Inl KeyError
      | Some t \<Rightarrow>
          if em_num_updates t \<noteq> 0 \<and> em_samples_per_second t = 0 then Inl ZeroDivisionError
          else
            let base = (if em_num_updates t \<noteq> 0 then task_size / em_samples_per_second t
                        else eb_initial_throughput (eb_cfg s) * task_size)
            in Inr (if eb_is_warming_up u s then base * eb_warmup_penalty_multiplier (eb_cfg s) else base))"

definition eb_reserve_queue_entry ::
  "time \<Rightarrow> real \<Rightarrow> uid \<Rightarrow> peer \<Rightarrow> real \<Rightarrow> real \<Rightarrow> balancer \<Rightarrow> error + reservation \<times> balancer" where
  "eb_reserve_queue_entry start rnd u endpoint current_runtime task_size s =
     (case eb_expected_time_taken u task_size s of
        Inl err \<Rightarrow> Inl err
      | Inr t \<Rightarrow>
          let new_runtime = current_runtime + t; entry = (new_runtime, rnd, u)
          in Inr (\<lparr>rs_uid = u, rs_peer_id = endpoint, rs_task_size = task_size, rs_started_at = start\<rparr>,
               eb_update_last_runtime u new_runtime
                 (s\<lparr>eb_queue := heap_push entry (eb_queue s),
                    eb_uid_to_queue := dict_set u entry (eb_uid_to_queue s)\<rparr>)))"

definition eb_push_back :: "qentry list \<Rightarrow> balancer \<Rightarrow> balancer" where
  "eb_push_back skipped s = s\<lparr>eb_queue := fold heap_push skipped (eb_queue s)\<rparr>"

text \<open>The inner loop of \<open>reserve_another_expert\<close>, popping the queue from the least runtime up.\<close>

fun eb_reserve_scan ::
  "time \<Rightarrow> time \<Rightarrow> real \<Rightarrow> real \<Rightarrow> uid set \<Rightarrow> qentry list \<Rightarrow> qentry list \<Rightarrow> balancer
     \<Rightarrow> error + reservation grant \<times> balancer" where
  "eb_reserve_scan now start rnd task_size exclude skipped [] s =
     Inr (if skipped = [] then Retry else NoneLeft, eb_push_back skipped (s\<lparr>eb_queue := []\<rparr>))"
| "eb_reserve_scan now start rnd task_size exclude skipped (e # q) s =
     (let u = snd (snd e);
          (maybe_endpoint, experts) = ts_get now u (eb_experts s);
          s1 = s\<lparr>eb_queue := q, eb_experts := experts\<rparr>
      in case maybe_endpoint of
           None \<Rightarrow> eb_reserve_scan now start rnd task_size exclude skipped q
               (s1\<lparr>eb_uid_to_queue := dict_del u (eb_uid_to_queue s1),
                   eb_throughputs := dict_del u (eb_throughputs s1)\<rparr>)
         | Some (endpoint, _) \<Rightarrow>
             if dict_get (eb_uid_to_queue s1) u \<noteq> Some e then
               eb_reserve_scan now start rnd task_size exclude skipped q s1
             else if u \<in> exclude then
               eb_reserve_scan now start rnd task_size exclude (skipped @ [e]) q s1
             else
               case eb_reserve_queue_entry start rnd u endpoint (fst e) task_size s1 of
                 Inl err \<Rightarrow> Inl err
               | Inr (r, s2) \<Rightarrow> Inr (Granted r, eb_push_back skipped s2))"

text \<open>
  One pass of \<open>reserve_another_expert\<close>. Where the code would wait for the update thread (\<open>block\<close>) the
  outcome is \<open>Retry\<close>; with \<open>block=False\<close> it is \<open>NoneLeft\<close>. Both wake the update thread.
\<close>

definition eb_reserve_another ::
  "time \<Rightarrow> time \<Rightarrow> real \<Rightarrow> real \<Rightarrow> uid set \<Rightarrow> bool \<Rightarrow> balancer \<Rightarrow> error + reservation grant \<times> balancer" where
  "eb_reserve_another now start rnd task_size exclude block s =
     (case eb_reserve_scan now start rnd task_size exclude [] (eb_queue s) s of
        Inl err \<Rightarrow> Inl err
      | Inr (Retry, s1) \<Rightarrow>
          Inr (if block then Retry else NoneLeft,
               s1\<lparr>eb_update_trigger := True,
                  eb_update_finished := (if block then False else eb_update_finished s1)\<rparr>)
      | Inr (g, s1) \<Rightarrow> Inr (g, s1))"

definition eb_reserve_specific ::
  "time \<Rightarrow> time \<Rightarrow> real \<Rightarrow> uid \<Rightarrow> real \<Rightarrow> bool \<Rightarrow> balancer \<Rightarrow> error + reservation option \<times> balancer" where
  "eb_reserve_specific now start rnd target task_size strict s =
     (let (maybe_endpoint, experts) = ts_get now target (eb_experts s); s1 = s\<lparr>eb_experts := experts\<rparr>
      in case (maybe_endpoint, dict_get (eb_uid_to_queue s1) target) of
           (Some (endpoint, _), Some entry) \<Rightarrow>
             (case eb_reserve_queue_entry start rnd target endpoint (fst entry) task_size s1 of
                Inl err \<Rightarrow> Inl err
              | Inr (r, s2) \<Rightarrow> Inr (Some r, s2))
         | _ \<Rightarrow> if strict then Inl RuntimeError else Inr (None, s1))"

section \<open>Outcomes\<close>

definition eb_mark_successful_batch :: "uid \<Rightarrow> balancer \<Rightarrow> balancer" where
  "eb_mark_successful_batch u s =
     (let s1 = s\<lparr>eb_global_batch_counter := eb_global_batch_counter s + 1\<rparr>
      in case dict_get (eb_warming_up s1) u of
           None \<Rightarrow> s1
         | Some (endpoint, join_batch, last_runtime) \<Rightarrow>
             if join_batch \<ge> 0
                \<and> eb_global_batch_counter s1 - join_batch \<ge> eb_warmup_batches (eb_cfg s1)
             then s1\<lparr>eb_warming_up := dict_set u (endpoint, -1, last_runtime) (eb_warming_up s1)\<rparr>
             else s1)"

definition eb_settle_reservation :: "time \<Rightarrow> reservation \<Rightarrow> bool \<Rightarrow> balancer \<Rightarrow> error + balancer" where
  "eb_settle_reservation now r success s =
     (if \<not> success then Inr s
      else case dict_get (eb_throughputs s) (rs_uid r) of
             None \<Rightarrow> Inr s
           | Some t \<Rightarrow>
               (case ema_update (rs_task_size r) (Some (max (now - rs_started_at r) (1 / 10 ^ 9))) now t of
                  Inl err \<Rightarrow> Inl err
                | Inr t1 \<Rightarrow> Inr (eb_mark_successful_batch (rs_uid r)
                    (s\<lparr>eb_throughputs := dict_set (rs_uid r) t1 (eb_throughputs s)\<rparr>))))"

text \<open>
  The selection of \<open>use_another_expert\<close>. It ends with the uid and the endpoint to call, or waits for
  the update thread when the queue runs empty.
\<close>

fun eb_use_scan ::
  "time \<Rightarrow> real \<Rightarrow> real \<Rightarrow> qentry list \<Rightarrow> balancer \<Rightarrow> error + (uid \<times> peer) grant \<times> balancer" where
  "eb_use_scan now rnd task_size [] s =
     Inr (Retry, s\<lparr>eb_queue := [], eb_update_trigger := True, eb_update_finished := False\<rparr>)"
| "eb_use_scan now rnd task_size (e # q) s =
     (let u = snd (snd e);
          (maybe_endpoint, experts) = ts_get now u (eb_experts s);
          s1 = s\<lparr>eb_queue := q, eb_experts := experts\<rparr>;
          s2 = (if maybe_endpoint = None
                then s1\<lparr>eb_uid_to_queue := dict_del u (eb_uid_to_queue s1),
                        eb_throughputs := dict_del u (eb_throughputs s1)\<rparr>
                else s1)
      in if dict_get (eb_uid_to_queue s2) u \<noteq> Some e then eb_use_scan now rnd task_size q s2
         else
           case eb_expected_time_taken u task_size s2 of
             Inl err \<Rightarrow> Inl err
           | Inr t \<Rightarrow>
               let new_runtime = fst e + t; entry = (new_runtime, rnd, u);
                   s3 = eb_update_last_runtime u new_runtime
                     (s2\<lparr>eb_queue := heap_push entry (eb_queue s2),
                         eb_uid_to_queue := dict_set u entry (eb_uid_to_queue s2)\<rparr>)
               in case maybe_endpoint of
                    None \<Rightarrow> Inl RuntimeError
                  | Some (endpoint, _) \<Rightarrow> Inr (Granted (u, endpoint), s3))"

definition eb_use_another_select ::
  "time \<Rightarrow> real \<Rightarrow> real \<Rightarrow> balancer \<Rightarrow> error + (uid \<times> peer) grant \<times> balancer" where
  "eb_use_another_select now rnd task_size s = eb_use_scan now rnd task_size (eb_queue s) s"

text \<open>The pinned selection; \<open>Inr (None, _)\<close> is the fallback to \<open>use_another_expert\<close>.\<close>

definition eb_use_specific_select ::
  "time \<Rightarrow> real \<Rightarrow> uid \<Rightarrow> real \<Rightarrow> bool \<Rightarrow> balancer \<Rightarrow> error + (uid \<times> peer) option \<times> balancer" where
  "eb_use_specific_select now rnd target task_size strict s =
     (let (maybe_endpoint, experts) = ts_get now target (eb_experts s); s1 = s\<lparr>eb_experts := experts\<rparr>
      in case (maybe_endpoint, dict_get (eb_uid_to_queue s1) target) of
           (Some (endpoint, _), Some current) \<Rightarrow>
             (case eb_expected_time_taken target task_size s1 of
                Inl err \<Rightarrow> Inl err
              | Inr t \<Rightarrow>
                  let new_runtime = fst current + t; entry = (new_runtime, rnd, target)
                  in Inr (Some (target, endpoint),
                       eb_update_last_runtime target new_runtime
                         (s1\<lparr>eb_queue := heap_push entry (eb_queue s1),
                             eb_uid_to_queue := dict_set target entry (eb_uid_to_queue s1)\<rparr>)))
         | _ \<Rightarrow> if strict then Inl RuntimeError else Inr (None, s1))"

text \<open>How the body of the context manager ends, and what the \<open>except\<close> clauses do with it.\<close>

datatype use_outcome = UseOk | UseDeadline | UseRpcError | UseP2PError | UseConnectionError | UseOtherError

definition eb_finish_use :: "time \<Rightarrow> time \<Rightarrow> uid \<Rightarrow> real \<Rightarrow> use_outcome \<Rightarrow> balancer \<Rightarrow> bool \<times> balancer" where
  "eb_finish_use start now u task_size res s =
     (case res of
        UseOk \<Rightarrow>
          (case dict_get (eb_throughputs s) u of
             None \<Rightarrow> (False, s)
           | Some t \<Rightarrow>
               let s1 = eb_mark_successful_batch u s
               in case ema_update_threadsafe task_size start now t of
                    Inl err \<Rightarrow> (False, s1)
                  | Inr t1 \<Rightarrow> (True, s1\<lparr>eb_throughputs := dict_set u t1 (eb_throughputs s1)\<rparr>))
      | UseDeadline \<Rightarrow> (False, s)
      | UseRpcError \<Rightarrow> (False, eb_ban_expert now u None False s)
      | UseP2PError \<Rightarrow> (False, eb_ban_expert now u (Some (eb_update_period (eb_cfg s) * 2)) False s)
      | UseConnectionError \<Rightarrow> (False, eb_ban_expert now u None False s)
      | UseOtherError \<Rightarrow> (False, s))"

section \<open>Views\<close>

definition eb_snapshot_experts :: "time \<Rightarrow> balancer \<Rightarrow> (uid \<times> peer) list \<times> balancer" where
  "eb_snapshot_experts now s =
     (let (items, experts) = ts_items now (eb_experts s); s1 = s\<lparr>eb_experts := experts\<rparr>
      in (map (\<lambda>(u, v, _). (u, v)) (filter (\<lambda>(u, _). dict_has (eb_uid_to_queue s1) u) items), s1))"

definition eb_better :: "(uid, qentry) dict \<Rightarrow> (real \<times> uid \<times> peer) option \<Rightarrow> uid \<times> peer \<times> time
    \<Rightarrow> (real \<times> uid \<times> peer) option" where
  "eb_better u2q best item =
     (case dict_get u2q (fst item) of
        None \<Rightarrow> best
      | Some entry \<Rightarrow>
          if best = None \<or> fst entry < fst (the best) then Some (fst entry, fst item, fst (snd item)) else best)"

definition eb_peek_least_loaded :: "time \<Rightarrow> balancer \<Rightarrow> (uid \<times> peer) option \<times> balancer" where
  "eb_peek_least_loaded now s =
     (let (items, experts) = ts_items now (eb_experts s); s1 = s\<lparr>eb_experts := experts\<rparr>
      in (map_option snd (foldl (eb_better (eb_uid_to_queue s1)) None items), s1))"

definition eb_shutdown :: "balancer \<Rightarrow> balancer" where
  "eb_shutdown s = s\<lparr>eb_is_alive := False, eb_update_finished := False, eb_update_trigger := True\<rparr>"

section \<open>One round of the update thread\<close>

text \<open>
  What the DHT answered: for a selected uid its peer, phase and expiration, and for the whole stage
  the entries, \<open>None\<close> for a malformed one. \<open>model_args\<close> is what the verification call would return.
\<close>

type_synonym uid_answer = "(peer \<times> ghost_phase \<times> time) option"
type_synonym stage_answer = "(uid \<times> peer \<times> ghost_phase \<times> time) option list"

text \<open>
  The treatment of one announced expert, shared by both refreshes: lift or keep its ban, verify it.
  \<open>Some\<close> when it is to be added.
\<close>

definition eb_admit ::
  "time \<Rightarrow> (uid \<Rightarrow> (string, pyval) dict option) \<Rightarrow> uid \<Rightarrow> peer \<Rightarrow> time \<Rightarrow> balancer
     \<Rightarrow> (uid \<times> peer \<times> time) option \<times> balancer" where
  "eb_admit now model_args u endpoint expiration s =
     (let (maybe_banned, s1) = eb_check_and_unban now u endpoint s
      in if (case maybe_banned of None \<Rightarrow> True | Some (_, banned_until) \<Rightarrow> expiration > banned_until) then
           if \<not> eb_verify_expert model_args u s1
           then (None, s1\<lparr>eb_blacklist := snd (ts_store now u (Some endpoint)
                   (now + eb_ban_expiration (eb_cfg s1)) (eb_blacklist s1))\<rparr>)
           else (Some (u, endpoint, expiration), s1)
         else (None, s1))"

fun eb_subset_refresh ::
  "time \<Rightarrow> (uid \<Rightarrow> real) \<Rightarrow> (uid \<Rightarrow> (string, pyval) dict option) \<Rightarrow> (uid \<Rightarrow> uid_answer)
     \<Rightarrow> uid list \<Rightarrow> balancer \<Rightarrow> balancer" where
  "eb_subset_refresh now rnd model_args answer [] s = s"
| "eb_subset_refresh now rnd model_args answer (u # us) s =
     eb_subset_refresh now rnd model_args answer us
       (case answer u of
          None \<Rightarrow> eb_evict_expert u s
        | Some (endpoint, phase, expiration) \<Rightarrow>
            if phase = PHASE1 then s
            else case eb_admit now model_args u endpoint expiration s of
                   (None, s1) \<Rightarrow> s1
                 | (Some _, s1) \<Rightarrow> eb_add_expert now (rnd u) u endpoint expiration s1)"

fun eb_collect ::
  "time \<Rightarrow> (uid \<Rightarrow> (string, pyval) dict option) \<Rightarrow> stage_answer \<Rightarrow> balancer
     \<Rightarrow> (uid \<times> peer \<times> time) list \<times> balancer" where
  "eb_collect now model_args [] s = ([], s)"
| "eb_collect now model_args (None # es) s = eb_collect now model_args es s"
| "eb_collect now model_args (Some (u, endpoint, phase, expiration) # es) s =
     (if phase = PHASE1 then eb_collect now model_args es s
      else let (found, s1) = eb_admit now model_args u endpoint expiration s;
               (rest, s2) = eb_collect now model_args es s1
           in (case found of None \<Rightarrow> rest | Some x \<Rightarrow> x # rest, s2))"

text \<open>The window of \<open>max_experts\<close> experts this trainer starts from, wrapping around the end.\<close>

definition eb_uid_index :: "uid \<Rightarrow> int option" where
  "eb_uid_index u = py_int (last (py_split CHR ''.'' u))"

definition eb_window :: "nat \<Rightarrow> nat \<Rightarrow> 'a list \<Rightarrow> 'a list" where
  "eb_window rank m xs =
     (let off = (rank * m) mod length xs
      in if off + m \<le> length xs then take m (drop off xs)
         else drop off xs @ take (m - (length xs - off)) xs)"

definition eb_select_window ::
  "nat \<Rightarrow> nat \<Rightarrow> (uid \<times> peer \<times> time) list \<Rightarrow> error + (uid \<times> peer \<times> time) list" where
  "eb_select_window rank m all_experts =
     (if list_all (\<lambda>x. eb_uid_index (fst x) \<noteq> None) all_experts
      then Inr (eb_window rank m (sort_key (\<lambda>x. the (eb_uid_index (fst x))) all_experts))
      else Inl ValueError)"

definition eb_add_all :: "time \<Rightarrow> (uid \<Rightarrow> real) \<Rightarrow> (uid \<times> peer \<times> time) list \<Rightarrow> balancer \<Rightarrow> balancer" where
  "eb_add_all now rnd xs s = fold (\<lambda>(u, endpoint, expiration). eb_add_expert now (rnd u) u endpoint expiration) xs s"

definition eb_full_refresh ::
  "time \<Rightarrow> (uid \<Rightarrow> real) \<Rightarrow> (uid \<Rightarrow> (string, pyval) dict option) \<Rightarrow> stage_answer option \<Rightarrow> balancer
     \<Rightarrow> error + balancer" where
  "eb_full_refresh now rnd model_args response s =
     (case response of
        None \<Rightarrow> Inr s
      | Some es \<Rightarrow>
          let (all_experts, s1) = eb_collect now model_args es s
          in case eb_max_experts (eb_cfg s) of
               Some m \<Rightarrow>
                 if m \<noteq> 0 \<and> length all_experts > m then
                   (case eb_select_window (eb_trainer_rank (eb_cfg s)) m all_experts of
                      Inl err \<Rightarrow> Inl err
                    | Inr selected \<Rightarrow>
                        Inr ((eb_add_all now rnd selected
                          (s1\<lparr>eb_selected_experts := selected, eb_experts := ts_clear (eb_experts s1),
                              eb_uid_to_queue := [], eb_queue := []\<rparr>))\<lparr>eb_last_full_refresh := now\<rparr>))
                 else Inr ((eb_add_all now rnd all_experts s1)\<lparr>eb_last_full_refresh := now\<rparr>)
             | None \<Rightarrow> Inr ((eb_add_all now rnd all_experts s1)\<lparr>eb_last_full_refresh := now\<rparr>))"

definition eb_refresh_expired :: "time \<Rightarrow> balancer \<Rightarrow> bool" where
  "eb_refresh_expired now s \<longleftrightarrow> now - eb_last_full_refresh s \<ge> eb_refresh_experts_period (eb_cfg s)"

definition eb_subset_phase ::
  "time \<Rightarrow> (uid \<Rightarrow> real) \<Rightarrow> (uid \<Rightarrow> (string, pyval) dict option) \<Rightarrow> (uid \<Rightarrow> uid_answer) \<Rightarrow> balancer \<Rightarrow> balancer" where
  "eb_subset_phase now rnd model_args answer s =
     (let s0 = s\<lparr>eb_update_trigger := False\<rparr>
      in if eb_selected_experts s0 \<noteq> [] \<and> \<not> eb_refresh_expired now s0
         then eb_subset_refresh now rnd model_args answer (map fst (eb_selected_experts s0)) s0 else s0)"

definition eb_update_round ::
  "time \<Rightarrow> (uid \<Rightarrow> real) \<Rightarrow> (uid \<Rightarrow> real) \<Rightarrow> (uid \<Rightarrow> (string, pyval) dict option)
     \<Rightarrow> (uid \<Rightarrow> uid_answer) \<Rightarrow> stage_answer option \<Rightarrow> balancer \<Rightarrow> error + balancer" where
  "eb_update_round now rnd rnd' model_args answer response s =
     (let s1 = eb_subset_phase now rnd model_args answer s;
          (n, experts) = ts_len now (eb_experts s1);
          s2 = s1\<lparr>eb_experts := experts\<rparr>;
          full = (eb_max_experts (eb_cfg s) = None \<or> eb_refresh_expired now s \<or> n < eb_min_experts (eb_cfg s))
      in case (if full then eb_full_refresh now rnd' model_args response s2 else Inr s2) of
           Inl err \<Rightarrow> Inl err
         | Inr s3 \<Rightarrow> Inr (s3\<lparr>eb_last_update := now, eb_update_finished := True\<rparr>))"

end
