(* ===== verification/BalancerFacts.thy ===== *)
theory BalancerFacts
  imports ExpertBalancer
begin

text \<open>
  The invariant of the balancer and its preservation, and the outcome of the selection loops. The
  entry that counts for a uid is on the heap, agrees with the warm-up table on the runtime and has
  a throughput estimate, and every known expert has such an entry.
\<close>

section \<open>The invariant\<close>

definition ema_good :: "ema \<Rightarrow> bool" where
  "ema_good t \<longleftrightarrow> ema_ok t \<and> 0 < em_samples_per_second t"

text \<open>\<open>sk\<close> are entries taken off the heap that will be pushed back.\<close>

definition eb_entry_ok :: "qentry list \<Rightarrow> balancer \<Rightarrow> uid \<Rightarrow> qentry \<Rightarrow> bool" where
  "eb_entry_ok sk s u e \<longleftrightarrow> snd (snd e) = u \<and> (e \<in> set (eb_queue s) \<or> e \<in> set sk)
     \<and> dict_get (eb_throughputs s) u \<noteq> None
     \<and> (\<exists>ep jb. dict_get (eb_warming_up s) u = Some (ep, jb, fst e))"

definition eb_cfg_ok :: "ebconfig \<Rightarrow> bool" where
  "eb_cfg_ok c \<longleftrightarrow> 0 < eb_alpha c \<and> eb_alpha c \<le> 1 \<and> 0 < eb_eps c"

definition eb_inv_with :: "qentry list \<Rightarrow> balancer \<Rightarrow> bool" where
  "eb_inv_with sk s \<longleftrightarrow> eb_cfg_ok (eb_cfg s)
     \<and> ts_plain (eb_experts s) \<and> ts_plain (eb_blacklist s) \<and> sorted (eb_queue s)
     \<and> (\<forall>u e. dict_get (eb_uid_to_queue s) u = Some e \<longrightarrow> eb_entry_ok sk s u e)
     \<and> (\<forall>u t. dict_get (eb_throughputs s) u = Some t \<longrightarrow> ema_good t)
     \<and> fst ` set (ts_data (eb_experts s)) \<subseteq> fst ` set (eb_uid_to_queue s)"

abbreviation eb_inv :: "balancer \<Rightarrow> bool" where
  "eb_inv \<equiv> eb_inv_with []"

text \<open>The endpoint a live expert is called at.\<close>

definition eb_endpoint :: "time \<Rightarrow> balancer \<Rightarrow> uid \<Rightarrow> peer option" where
  "eb_endpoint now s u = map_option fst (ts_look now (eb_experts s) u)"

lemma eb_inv_withD:
  assumes "eb_inv_with sk s"
  shows "eb_cfg_ok (eb_cfg s)" and "ts_plain (eb_experts s)" and "ts_plain (eb_blacklist s)"
    and "sorted (eb_queue s)"
    and "dict_get (eb_uid_to_queue s) u = Some e \<Longrightarrow> eb_entry_ok sk s u e"
    and "dict_get (eb_throughputs s) u = Some t \<Longrightarrow> ema_good t"
    and "fst ` set (ts_data (eb_experts s)) \<subseteq> fst ` set (eb_uid_to_queue s)"
  using assms unfolding eb_inv_with_def by blast+

lemma eb_new_inv: "eb_cfg_ok cfg \<Longrightarrow> eb_inv (eb_new cfg now)"
  by (simp add: eb_new_def eb_inv_with_def ts_plain_new) (simp add: ts_new_def)

text \<open>A live expert has an entry.\<close>

lemma eb_live_entry:
  assumes "eb_inv_with sk s" and "eb_endpoint now s u \<noteq> None"
  shows "dict_get (eb_uid_to_queue s) u \<noteq> None"
proof -
  have "ts_plain (eb_experts s)" by (rule eb_inv_withD(2) [OF assms(1)])
  then have "dict_get (ts_data (eb_experts s)) u \<noteq> None"
    using assms(2) by (auto simp: eb_endpoint_def ts_look_eq split: if_splits)
  then have "dict_has (ts_data (eb_experts s)) u" by (simp add: dict_has_iff)
  then have "dict_has (eb_uid_to_queue s) u" using eb_inv_withD(7) [OF assms(1)] by blast
  then show ?thesis by (simp add: dict_has_iff)
qed

lemma eb_endpoint_touch:
  assumes "ts_plain (eb_experts s)" and "eb_experts t = snd (ts_get now v (eb_experts s))"
  shows "eb_endpoint now t u = eb_endpoint now s u"
  using ts_map.look_touch [OF assms(1), of now v u] assms(2) by (simp add: eb_endpoint_def)

text \<open>Looking an expert up keeps the invariant.\<close>

lemma eb_touch_keys:
  assumes "ts_plain (eb_experts s)"
  shows "fst ` set (ts_data (snd (ts_get now v (eb_experts s)))) \<subseteq> fst ` set (ts_data (eb_experts s))"
  using assms ts_sweep_keys [of "eb_experts s" now] by (simp add: ts_get_def Let_def ts_plain_def)

lemma eb_touch_inv [inv_intros]:
  assumes "eb_inv_with sk s"
  shows "eb_inv_with sk (s\<lparr>eb_experts := snd (ts_get now v (eb_experts s))\<rparr>)"
proof -
  have plain: "ts_plain (eb_experts s)" by (rule eb_inv_withD(2) [OF assms])
  have "fst ` set (ts_data (snd (ts_get now v (eb_experts s)))) \<subseteq> fst ` set (eb_uid_to_queue s)"
    using eb_touch_keys [OF plain] eb_inv_withD(7) [OF assms] by (rule order_trans)
  then show ?thesis
    using assms ts_map.touch_ok [OF plain] by (simp add: eb_inv_with_def eb_entry_ok_def)
qed

text \<open>Taking the first entry off the heap into the hand.\<close>

lemma eb_pop_inv:
  assumes "eb_inv_with sk s" and "eb_queue s = e # q"
  shows "eb_inv_with (sk @ [e]) (s\<lparr>eb_queue := q\<rparr>)"
proof -
  have "eb_entry_ok (sk @ [e]) (s\<lparr>eb_queue := q\<rparr>) u d" if "eb_entry_ok sk s u d" for u d
    using that assms(2) by (auto simp: eb_entry_ok_def)
  then show ?thesis using assms by (simp add: eb_inv_with_def)
qed

text \<open>Dropping an entry in the hand that does not count, or whose uid is forgotten.\<close>

lemma eb_drop_stale_inv:
  assumes "eb_inv_with (sk @ [e]) s"
    and "dict_get (eb_uid_to_queue s) (snd (snd e)) = Some e \<longrightarrow> e \<in> set (eb_queue s)"
  shows "eb_inv_with sk s"
proof -
  have "eb_entry_ok sk s u d" if "dict_get (eb_uid_to_queue s) u = Some d" for u d
  proof -
    have ok: "eb_entry_ok (sk @ [e]) s u d" using eb_inv_withD(5) [OF assms(1) that] .
    then have "d = e \<longrightarrow> d \<in> set (eb_queue s)" using assms(2) that unfolding eb_entry_ok_def by blast
    with ok show ?thesis by (auto simp: eb_entry_ok_def)
  qed
  then show ?thesis using assms(1) by (simp add: eb_inv_with_def)
qed

lemma eb_forget_inv [inv_intros]:
  assumes "eb_inv_with sk s" and "\<not> dict_has (ts_data (eb_experts s)) u"
  shows "eb_inv_with sk (s\<lparr>eb_uid_to_queue := dict_del u (eb_uid_to_queue s),
    eb_throughputs := dict_del u (eb_throughputs s)\<rparr>)"
  using assms unfolding eb_inv_with_def eb_entry_ok_def by auto

lemma eb_look_None_gone:
  assumes "ts_plain (eb_experts s)" and "fst (ts_get now u (eb_experts s)) = None"
  shows "\<not> dict_has (ts_data (snd (ts_get now u (eb_experts s)))) u"
  using assms(2) by (simp add: ts_get_def Let_def dict_has_iff)

lemma fold_heap_push_set [simp]: "set (fold heap_push xs h) = set xs \<union> set h"
  by (induction xs arbitrary: h) auto

lemma fold_heap_push_sorted [simp]: "sorted (fold heap_push xs h) = sorted h"
  by (induction xs arbitrary: h) auto

lemma eb_push_back_inv:
  assumes "eb_inv_with sk s"
  shows "eb_inv (eb_push_back sk s)"
proof -
  have "eb_entry_ok [] (eb_push_back sk s) u d" if "eb_entry_ok sk s u d" for u d
    using that by (auto simp: eb_entry_ok_def eb_push_back_def)
  then show ?thesis using assms by (simp add: eb_inv_with_def) (simp add: eb_push_back_def)
qed

section \<open>Charging an expert\<close>

lemma eb_expected_Inr:
  assumes "eb_inv_with sk s" and "dict_get (eb_uid_to_queue s) u = Some e"
  shows "\<exists>d. eb_expected_time_taken u task_size s = Inr d"
proof -
  have "dict_get (eb_throughputs s) u \<noteq> None"
    using eb_inv_withD(5) [OF assms] by (simp add: eb_entry_ok_def)
  then obtain t where t: "dict_get (eb_throughputs s) u = Some t" by blast
  then have "em_samples_per_second t \<noteq> 0" using eb_inv_withD(6) [OF assms(1) t] by (simp add: ema_good_def)
  with t show ?thesis by (simp add: eb_expected_time_taken_def Let_def)
qed

definition eb_charge :: "real \<Rightarrow> uid \<Rightarrow> real \<Rightarrow> balancer \<Rightarrow> balancer" where
  "eb_charge rnd u runtime s = eb_update_last_runtime u runtime
     (s\<lparr>eb_queue := heap_push (runtime, rnd, u) (eb_queue s),
        eb_uid_to_queue := dict_set u (runtime, rnd, u) (eb_uid_to_queue s)\<rparr>)"

lemma eb_reserve_queue_entry_eq:
  "eb_expected_time_taken u task_size s = Inr d \<Longrightarrow>
   eb_reserve_queue_entry start rnd u endpoint rt task_size s =
     Inr (\<lparr>rs_uid = u, rs_peer_id = endpoint, rs_task_size = task_size, rs_started_at = start\<rparr>, eb_charge rnd u (rt + d) s)"
  by (simp add: eb_reserve_queue_entry_def eb_charge_def Let_def)

lemma eb_charge_sel [simp]:
  "eb_experts (eb_charge rnd u rt s) = eb_experts s" "eb_blacklist (eb_charge rnd u rt s) = eb_blacklist s"
  "eb_throughputs (eb_charge rnd u rt s) = eb_throughputs s" "eb_cfg (eb_charge rnd u rt s) = eb_cfg s"
  "eb_queue (eb_charge rnd u rt s) = heap_push (rt, rnd, u) (eb_queue s)"
  "eb_uid_to_queue (eb_charge rnd u rt s) = dict_set u (rt, rnd, u) (eb_uid_to_queue s)"
  "eb_global_batch_counter (eb_charge rnd u rt s) = eb_global_batch_counter s"
  by (simp_all add: eb_charge_def eb_update_last_runtime_def split: option.split prod.split)

lemma eb_charge_inv [inv_intros]:
  assumes inv: "eb_inv_with sk s" and e: "dict_get (eb_uid_to_queue s) u = Some e"
  shows "eb_inv_with sk (eb_charge rnd u rt s)"
proof -
  have u: "eb_entry_ok sk s u e" by (rule eb_inv_withD(5) [OF inv e])
  then obtain ep jb where w: "dict_get (eb_warming_up s) u = Some (ep, jb, fst e)"
    by (auto simp: eb_entry_ok_def)
  have warm: "eb_warming_up (eb_charge rnd u rt s) = dict_set u (ep, jb, rt) (eb_warming_up s)"
    by (simp add: eb_charge_def eb_update_last_runtime_def w)
  have "eb_entry_ok sk (eb_charge rnd u rt s) v d"
    if "dict_get (dict_set u (rt, rnd, u) (eb_uid_to_queue s)) v = Some d" for v d
  proof (cases "v = u")
    case True
    then show ?thesis using that u by (auto simp: eb_entry_ok_def warm)
  next
    case False
    then have "eb_entry_ok sk s v d" using that by (auto intro: eb_inv_withD(5) [OF inv])
    then show ?thesis using False by (auto simp: eb_entry_ok_def warm)
  qed
  moreover have "fst ` set (ts_data (eb_experts s)) \<subseteq> insert u (fst ` set (eb_uid_to_queue s))"
    using eb_inv_withD(7) [OF inv] by blast
  ultimately show ?thesis using inv by (simp add: eb_inv_with_def)
qed

section \<open>The selection loop\<close>

text \<open>What can be granted: an entry that counts, of a live expert that is not excluded.\<close>

definition eb_offer :: "time \<Rightarrow> uid set \<Rightarrow> balancer \<Rightarrow> uid \<Rightarrow> qentry \<Rightarrow> bool" where
  "eb_offer now exclude s u e \<longleftrightarrow>
     dict_get (eb_uid_to_queue s) u = Some e \<and> eb_endpoint now s u \<noteq> None \<and> u \<notin> exclude"

text \<open>A pass of the loop that grants nothing changes nothing for the live experts.\<close>

definition eb_same :: "time \<Rightarrow> balancer \<Rightarrow> balancer \<Rightarrow> bool" where
  "eb_same now s t \<longleftrightarrow> eb_endpoint now t = eb_endpoint now s
     \<and> (\<forall>u. eb_endpoint now s u \<noteq> None \<longrightarrow>
          dict_get (eb_uid_to_queue t) u = dict_get (eb_uid_to_queue s) u
          \<and> dict_get (eb_throughputs t) u = dict_get (eb_throughputs s) u)
     \<and> eb_warming_up t = eb_warming_up s \<and> eb_cfg t = eb_cfg s
     \<and> eb_global_batch_counter t = eb_global_batch_counter s"

lemma eb_same_offer: "eb_same now s t \<Longrightarrow> eb_offer now exclude t = eb_offer now exclude s"
  unfolding eb_same_def eb_offer_def by (intro ext) metis

lemma eb_same_expected:
  "eb_same now s t \<Longrightarrow> eb_endpoint now s u \<noteq> None \<Longrightarrow>
   eb_expected_time_taken u task_size t = eb_expected_time_taken u task_size s"
  by (simp add: eb_same_def eb_expected_time_taken_def eb_is_warming_up_def Let_def
      split: option.split prod.split)

definition eb_granted ::
  "time \<Rightarrow> time \<Rightarrow> real \<Rightarrow> real \<Rightarrow> uid set \<Rightarrow> balancer \<Rightarrow> reservation \<Rightarrow> balancer \<Rightarrow> bool" where
  "eb_granted now start rnd task_size exclude s r t \<longleftrightarrow>
     (\<exists>e d. eb_offer now exclude s (rs_uid r) e \<and> (\<forall>u' e'. eb_offer now exclude s u' e' \<longrightarrow> e \<le> e')
        \<and> eb_endpoint now s (rs_uid r) = Some (rs_peer_id r)
        \<and> rs_task_size r = task_size \<and> rs_started_at r = start
        \<and> eb_expected_time_taken (rs_uid r) task_size s = Inr d
        \<and> dict_get (eb_uid_to_queue t) (rs_uid r) = Some (fst e + d, rnd, rs_uid r))"

definition eb_selected ::
  "time \<Rightarrow> time \<Rightarrow> real \<Rightarrow> real \<Rightarrow> uid set \<Rightarrow> balancer \<Rightarrow> reservation grant \<Rightarrow> balancer \<Rightarrow> bool" where
  "eb_selected now start rnd task_size exclude s g t \<longleftrightarrow>
     (case g of
        Granted r \<Rightarrow> eb_granted now start rnd task_size exclude s r t
      | _ \<Rightarrow> \<forall>u e. \<not> eb_offer now exclude s u e)"

lemma eb_selected_same:
  assumes "eb_same now s s'" and "eb_selected now start rnd task_size exclude s' g t"
  shows "eb_selected now start rnd task_size exclude s g t"
proof (cases g)
  case (Granted r)
  then have g: "eb_granted now start rnd task_size exclude s' r t"
    using assms(2) by (simp add: eb_selected_def)
  have "eb_endpoint now s' = eb_endpoint now s" using assms(1) by (simp add: eb_same_def)
  then have "eb_granted now start rnd task_size exclude s r t"
    using g eb_same_expected [OF assms(1), of "rs_uid r" task_size]
    unfolding eb_granted_def eb_same_offer [OF assms(1)] by (metis option.distinct(1))
  then show ?thesis by (simp add: eb_selected_def Granted)
qed (use assms(2) eb_same_offer [OF assms(1)] in \<open>simp_all add: eb_selected_def\<close>)

lemma eb_same_refl: "eb_same now s s"
  by (simp add: eb_same_def)

lemma eb_look_up:
  assumes "eb_inv_with sk s"
  shows "eb_endpoint now s u = map_option fst (fst (ts_get now u (eb_experts s)))"
  by (simp add: eb_endpoint_def ts_look_def)

lemma eb_reserve_scan_spec:
  assumes "eb_inv_with sk s" and "eb_queue s = q" and "\<forall>e\<in>set sk. snd (snd e) \<in> exclude"
  shows "\<exists>g t. eb_reserve_scan now start rnd task_size exclude sk q s = Inr (g, t) \<and> eb_inv t
    \<and> eb_selected now start rnd task_size exclude s g t"
  using assms
proof (induction q arbitrary: sk s)
  case Nil
  have "\<not> eb_offer now exclude s u e" for u e
  proof
    assume o: "eb_offer now exclude s u e"
    then have "eb_entry_ok sk s u e" using eb_inv_withD(5) [OF Nil.prems(1)] by (simp add: eb_offer_def)
    then show False using Nil.prems(2,3) o by (auto simp: eb_entry_ok_def eb_offer_def)
  qed
  moreover have "s\<lparr>eb_queue := []\<rparr> = s" using Nil.prems(2) by simp
  ultimately show ?case
    using eb_push_back_inv [OF Nil.prems(1)] by (simp add: eb_selected_def)
next
  case (Cons e q)
  let ?u = "snd (snd e)"
  let ?s1 = "s\<lparr>eb_queue := q, eb_experts := snd (ts_get now ?u (eb_experts s))\<rparr>"
  have plain: "ts_plain (eb_experts s)" by (rule eb_inv_withD(2) [OF Cons.prems(1)])
  have inv1: "eb_inv_with (sk @ [e]) ?s1"
    using eb_touch_inv [OF eb_pop_inv [OF Cons.prems(1,2)], of now ?u] by simp
  have end1: "eb_endpoint now ?s1 = eb_endpoint now s"
    by (intro ext eb_endpoint_touch [OF plain]) simp
  then have same1: "eb_same now s ?s1" by (simp add: eb_same_def)
  show ?case
  proof (cases "fst (ts_get now ?u (eb_experts s))")
    case None
    let ?s2 = "?s1\<lparr>eb_uid_to_queue := dict_del ?u (eb_uid_to_queue s), eb_throughputs := dict_del ?u (eb_throughputs s)\<rparr>"
    have "\<not> dict_has (ts_data (eb_experts ?s1)) ?u" using eb_look_None_gone [OF plain None] by simp
    from eb_forget_inv [OF inv1 this] have "eb_inv_with (sk @ [e]) ?s2" by simp
    then have inv2: "eb_inv_with sk ?s2" by (rule eb_drop_stale_inv) simp
    have "eb_endpoint now ?s2 = eb_endpoint now ?s1" by (simp add: eb_endpoint_def fun_eq_iff)
    moreover have "eb_endpoint now s ?u = None" using None by (simp add: eb_look_up [OF Cons.prems(1)])
    ultimately have same2: "eb_same now s ?s2" using end1 by (auto simp: eb_same_def)
    obtain g t where "eb_reserve_scan now start rnd task_size exclude sk q ?s2 = Inr (g, t)" "eb_inv t"
      "eb_selected now start rnd task_size exclude ?s2 g t"
      using Cons.IH [OF inv2 _ Cons.prems(3)] by auto
    then show ?thesis
      using None eb_selected_same [OF same2] by (simp add: Let_def case_prod_unfold)
  next
    case (Some p)
    then obtain ep x where p: "fst (ts_get now ?u (eb_experts s)) = Some (ep, x)" by (cases p) auto
    then have live: "eb_endpoint now s ?u = Some ep" by (simp add: eb_look_up [OF Cons.prems(1)])
    consider "dict_get (eb_uid_to_queue s) ?u \<noteq> Some e"
      | "dict_get (eb_uid_to_queue s) ?u = Some e" "?u \<in> exclude"
      | "dict_get (eb_uid_to_queue s) ?u = Some e" "?u \<notin> exclude" by blast
    then show ?thesis
    proof cases
      case 1
      have inv2: "eb_inv_with sk ?s1" by (rule eb_drop_stale_inv [OF inv1]) (use 1 in simp)
      obtain g t where "eb_reserve_scan now start rnd task_size exclude sk q ?s1 = Inr (g, t)" "eb_inv t"
        "eb_selected now start rnd task_size exclude ?s1 g t"
        using Cons.IH [OF inv2 _ Cons.prems(3)] by auto
      then show ?thesis
        using p 1 eb_selected_same [OF same1] by (simp add: Let_def case_prod_unfold)
    next
      case 2
      then have "\<forall>d\<in>set (sk @ [e]). snd (snd d) \<in> exclude" using Cons.prems(3) by auto
      then obtain g t where "eb_reserve_scan now start rnd task_size exclude (sk @ [e]) q ?s1 = Inr (g, t)" "eb_inv t"
        "eb_selected now start rnd task_size exclude ?s1 g t"
        using Cons.IH [OF inv1] by auto
      then show ?thesis
        using p 2 eb_selected_same [OF same1] by (simp add: Let_def case_prod_unfold)
    next
      case 3
      obtain d where d: "eb_expected_time_taken ?u task_size ?s1 = Inr d"
        using eb_expected_Inr [OF inv1, of ?u e] 3(1) by auto
      then have d': "eb_expected_time_taken ?u task_size s = Inr d"
        using eb_same_expected [OF same1, of ?u] live by simp
      let ?t = "eb_push_back sk (eb_charge rnd ?u (fst e + d) ?s1)"
      let ?r = "\<lparr>rs_uid = ?u, rs_peer_id = ep, rs_task_size = task_size, rs_started_at = start\<rparr>"
      have "eb_inv_with (sk @ [e]) (eb_charge rnd ?u (fst e + d) ?s1)"
        using eb_charge_inv [OF inv1, of ?u e] 3(1) by simp
      then have "eb_inv_with sk (eb_charge rnd ?u (fst e + d) ?s1)"
        by (rule eb_drop_stale_inv) auto
      then have "eb_inv ?t" by (rule eb_push_back_inv)
      moreover have "e \<le> e'" if "eb_offer now exclude s u' e'" for u' e'
      proof -
        have "eb_entry_ok sk s u' e'" using that eb_inv_withD(5) [OF Cons.prems(1)] by (simp add: eb_offer_def)
        then have "e' \<in> set (e # q)" using that Cons.prems(2,3) by (auto simp: eb_entry_ok_def eb_offer_def)
        moreover have "sorted (e # q)" using eb_inv_withD(4) [OF Cons.prems(1)] Cons.prems(2) by simp
        ultimately show ?thesis by auto
      qed
      then have "eb_granted now start rnd task_size exclude s ?r ?t"
        using 3 live d' by (auto simp: eb_granted_def eb_offer_def eb_push_back_def intro!: exI [of _ e])
      ultimately show ?thesis
        using p 3 d by (simp add: Let_def case_prod_unfold eb_reserve_queue_entry_eq eb_selected_def)
    qed
  qed
qed

text \<open>The selection of \<open>use_another_expert\<close> is that of a blocking reservation that excludes no one.\<close>

definition eb_as_use :: "error + reservation grant \<times> balancer \<Rightarrow> error + (uid \<times> peer) grant \<times> balancer" where
  "eb_as_use r = (case r of
     Inl err \<Rightarrow> Inl err
   | Inr (Granted r, t) \<Rightarrow> Inr (Granted (rs_uid r, rs_peer_id r), t)
   | Inr (_, t) \<Rightarrow> Inr (Retry, t\<lparr>eb_update_trigger := True, eb_update_finished := False\<rparr>))"

lemma eb_push_back_Nil [simp]: "eb_push_back [] s = s"
  by (simp add: eb_push_back_def)

lemma eb_use_scan_eq:
  "eb_use_scan now rnd task_size q s = eb_as_use (eb_reserve_scan now start rnd task_size {} [] q s)"
proof (induction q arbitrary: s)
  case Nil
  show ?case by (simp add: eb_as_use_def)
next
  case (Cons e q)
  show ?case
  proof (cases "fst (ts_get now (snd (snd e)) (eb_experts s))")
    case None
    then show ?thesis using Cons.IH by (simp add: Let_def case_prod_unfold)
  next
    case (Some p)
    then obtain ep x where p: "fst (ts_get now (snd (snd e)) (eb_experts s)) = Some (ep, x)" by (cases p) auto
    let ?s1 = "s\<lparr>eb_queue := q, eb_experts := snd (ts_get now (snd (snd e)) (eb_experts s))\<rparr>"
    show ?thesis
    proof (cases "dict_get (eb_uid_to_queue s) (snd (snd e)) = Some e")
      case False
      then show ?thesis using Cons.IH p by (simp add: Let_def case_prod_unfold)
    next
      case True
      then show ?thesis using p
        by (cases "eb_expected_time_taken (snd (snd e)) task_size ?s1")
          (simp_all add: Let_def case_prod_unfold eb_reserve_queue_entry_def eb_as_use_def)
    qed
  qed
qed

section \<open>Every operation keeps the invariant\<close>

lemma ema_new_good: "eb_cfg_ok c \<Longrightarrow> ema_good (ema_new (eb_alpha c) (eb_eps c) paused now)"
  by (simp add: ema_good_def ema_ok_def ema_new_def eb_cfg_ok_def)

lemma ema_register_good:
  assumes "ema_good s" and "ema_register w i s = Inr t"
  shows "ema_good t"
proof -
  have ok: "ema_ok s" using assms(1) by (simp add: ema_good_def)
  obtain t' where "ema_register w i s = Inr t'" "em_alpha t' = em_alpha s" "em_eps t' = em_eps s"
    "em_samples_per_second t' = 1 / max (em_seconds_per_sample t' / ema_weight t') (em_eps t')"
    by (rule ema_register_Inr [OF ok, of w i]) blast
  moreover have "0 < max x (em_eps s)" for x using ok by (simp add: ema_ok_def less_max_iff_disj)
  ultimately show ?thesis using assms(2) ok by (simp add: ema_good_def ema_ok_def)
qed

lemma ema_update_good:
  assumes "ema_good s" and "ema_update w i now s = Inr t"
  shows "ema_good t"
proof -
  have "ema_good (s\<lparr>em_timestamp := now\<rparr>)" using assms(1) by (simp add: ema_good_def ema_ok_def)
  then show ?thesis
    using assms(2) ema_register_good assms(1) by (auto simp: ema_update_def split: if_splits option.splits)
qed

text \<open>A new expert is placed at its last known runtime, or behind the busiest one.\<close>

definition eb_placement :: "uid \<Rightarrow> peer \<Rightarrow> balancer \<Rightarrow> real" where
  "eb_placement u ep s = (case dict_get (eb_warming_up s) u of
      Some (ep', _, r) \<Rightarrow> if ep' = ep then r else eb_max_runtime (eb_queue s)
    | None \<Rightarrow> eb_max_runtime (eb_queue s))"

lemma eb_add_expert_new:
  assumes "\<not> dict_has (eb_uid_to_queue s) u" and p_def: "p = eb_placement u ep s"
  shows "\<exists>w. eb_add_expert now rnd u ep x s = s\<lparr>eb_experts := snd (ts_store now u ep x (eb_experts s)),
      eb_warming_up := w, eb_queue := heap_push (p, rnd, u) (eb_queue s),
      eb_uid_to_queue := dict_set u (p, rnd, u) (eb_uid_to_queue s),
      eb_throughputs := dict_set u (ema_new (eb_alpha (eb_cfg s)) (eb_eps (eb_cfg s)) True now) (eb_throughputs s)\<rparr>
    \<and> (\<exists>jb. dict_get w u = Some (ep, jb, p)) \<and> (\<forall>v. v \<noteq> u \<longrightarrow> dict_get w v = dict_get (eb_warming_up s) v)"
proof -
  consider "dict_get (eb_warming_up s) u = None"
    | jb r where "dict_get (eb_warming_up s) u = Some (ep, jb, r)"
    | ep' jb r where "dict_get (eb_warming_up s) u = Some (ep', jb, r)" "ep' \<noteq> ep"
    by (cases "dict_get (eb_warming_up s) u") (simp, metis prod_cases3)
  then show ?thesis
  proof cases
    case 1
    let ?w = "dict_set u (ep, eb_global_batch_counter s, p) (eb_warming_up s)"
    show ?thesis using 1 assms(1)
      by (intro exI [of _ ?w]) (simp add: p_def eb_add_expert_def Let_def eb_placement_def eb_ensure_single_uid_entry_def)
  next
    case 2
    then show ?thesis using assms(1)
      by (intro exI [of _ "eb_warming_up s"])
        (simp add: p_def eb_add_expert_def Let_def eb_placement_def eb_ensure_single_uid_entry_def)
  next
    case 3
    let ?w = "dict_set u (ep, eb_global_batch_counter s, p) (dict_del u (eb_warming_up s))"
    show ?thesis using 3 assms(1)
      by (intro exI [of _ ?w]) (simp add: p_def eb_add_expert_def Let_def eb_placement_def eb_ensure_single_uid_entry_def)
  qed
qed

lemma eb_add_expert_inv [inv_intros]:
  assumes inv: "eb_inv s"
  shows "eb_inv (eb_add_expert now rnd u ep x s)"
proof -
  let ?ex = "snd (ts_store now u ep x (eb_experts s))"
  have plain: "ts_plain ?ex" by (rule ts_plain_store [OF eb_inv_withD(2) [OF inv]])
  have keys: "fst ` set (ts_data ?ex) \<subseteq> insert u (fst ` set (eb_uid_to_queue s))"
    using ts_store_keys [OF eb_inv_withD(2) [OF inv], of now u ep x] eb_inv_withD(7) [OF inv] by blast
  show ?thesis
  proof (cases "dict_has (eb_uid_to_queue s) u")
    case True
    then have "fst ` set (ts_data ?ex) \<subseteq> fst ` set (eb_uid_to_queue s)" using keys by blast
    then have "eb_inv (s\<lparr>eb_experts := ?ex\<rparr>)"
      using inv plain by (simp add: eb_inv_with_def eb_entry_ok_def)
    then show ?thesis using True by (simp add: eb_add_expert_def)
  next
    case False
    let ?p = "eb_placement u ep s"
    obtain w where t: "eb_add_expert now rnd u ep x s = s\<lparr>eb_experts := ?ex,
        eb_warming_up := w, eb_queue := heap_push (?p, rnd, u) (eb_queue s),
        eb_uid_to_queue := dict_set u (?p, rnd, u) (eb_uid_to_queue s),
        eb_throughputs := dict_set u (ema_new (eb_alpha (eb_cfg s)) (eb_eps (eb_cfg s)) True now) (eb_throughputs s)\<rparr>"
      (is "_ = ?t") and w: "\<exists>jb. dict_get w u = Some (ep, jb, ?p)"
      "\<forall>v. v \<noteq> u \<longrightarrow> dict_get w v = dict_get (eb_warming_up s) v"
      using eb_add_expert_new [OF False refl, of now rnd ep x] by blast
    have "eb_entry_ok [] ?t v d" if "dict_get (dict_set u (?p, rnd, u) (eb_uid_to_queue s)) v = Some d" for v d
    proof (cases "v = u")
      case True
      then show ?thesis using that w(1) by (auto simp: eb_entry_ok_def)
    next
      case v: False
      then have "eb_entry_ok [] s v d" using that by (auto intro: eb_inv_withD(5) [OF inv])
      then show ?thesis using v w(2) by (auto simp: eb_entry_ok_def)
    qed
    moreover have "ema_good w" if "dict_get (dict_set u (ema_new (eb_alpha (eb_cfg s)) (eb_eps (eb_cfg s)) True now)
        (eb_throughputs s)) v = Some w" for v w
      using that ema_new_good [OF eb_inv_withD(1) [OF inv]] eb_inv_withD(6) [OF inv]
      by (auto split: if_splits)
    ultimately have "eb_inv ?t"
      using inv plain keys by (simp add: eb_inv_with_def)
    then show ?thesis by (simp only: t)
  qed
qed

lemma eb_remove_inv:
  assumes inv: "eb_inv s" and "ts_plain ex" and "ts_plain bl"
    and "fst ` set (ts_data ex) \<subseteq> fst ` set (eb_uid_to_queue s) - {u}"
  shows "eb_inv (s\<lparr>eb_experts := ex, eb_blacklist := bl, eb_uid_to_queue := dict_del u (eb_uid_to_queue s),
    eb_throughputs := dict_del u (eb_throughputs s)\<rparr>)" (is "eb_inv ?t")
proof -
  have "eb_entry_ok [] ?t v d" if "dict_get (dict_del u (eb_uid_to_queue s)) v = Some d" for v d
    using that eb_inv_withD(5) [OF inv, of v d] by (auto simp: eb_entry_ok_def split: if_splits)
  moreover have "ema_good w" if "dict_get (dict_del u (eb_throughputs s)) v = Some w" for v w
    using that eb_inv_withD(6) [OF inv, of v w] by (auto split: if_splits)
  ultimately show ?thesis
    using eb_inv_withD(1,4) [OF inv] assms(2-) by (simp add: eb_inv_with_def)
qed

lemma eb_evict_expert_inv [inv_intros]:
  assumes "eb_inv s"
  shows "eb_inv (eb_evict_expert u s)"
proof -
  have plain: "ts_plain (eb_experts s)" by (rule eb_inv_withD(2) [OF assms])
  then have "fst ` set (ts_data (ts_delitem u (eb_experts s))) \<subseteq> fst ` set (eb_uid_to_queue s) - {u}"
    using ts_delitem_keys [of "eb_experts s" u] eb_inv_withD(7) [OF assms] unfolding ts_plain_def by blast
  from eb_remove_inv [OF assms ts_plain_del [OF plain] eb_inv_withD(3) [OF assms] this]
  show ?thesis using assms by (simp add: eb_evict_expert_def)
qed

text \<open>A ban, whatever it finds, leaves the uid without an entry and unknown.\<close>

lemma eb_ban_expert_eq:
  assumes inv: "eb_inv s" and "fst (ts_get now u (eb_experts s)) \<noteq> None \<or> \<not> p"
  shows "\<exists>ex bl. eb_ban_expert now u dur p s = s\<lparr>eb_experts := ex, eb_blacklist := bl,
      eb_uid_to_queue := dict_del u (eb_uid_to_queue s), eb_throughputs := dict_del u (eb_throughputs s)\<rparr>
    \<and> ts_plain ex \<and> ts_plain bl
    \<and> fst ` set (ts_data ex) \<subseteq> fst ` set (eb_uid_to_queue s) - {u}"
proof -
  let ?ex = "snd (ts_get now u (eb_experts s))"
  have plain: "ts_plain (eb_experts s)" "ts_plain ?ex"
    using eb_inv_withD(2) [OF inv] ts_map.touch_ok by blast+
  note bl = ts_plain_store [OF eb_inv_withD(3) [OF inv]]
  have keys: "fst ` set (ts_data ?ex) \<subseteq> fst ` set (eb_uid_to_queue s)"
    using eb_touch_keys [OF plain(1)] eb_inv_withD(7) [OF inv] by (rule order_trans)
  show ?thesis
  proof (cases "fst (ts_get now u (eb_experts s))")
    case None
    have "u \<notin> fst ` set (ts_data ?ex)" using eb_look_None_gone [OF plain(1) None] .
    then have "fst ` set (ts_data ?ex) \<subseteq> fst ` set (eb_uid_to_queue s) - {u}" using keys by blast
    then show ?thesis using None assms(2) plain(2) bl
      by (intro exI [of _ ?ex] exI conjI) (simp_all add: eb_ban_expert_def Let_def case_prod_unfold)
  next
    case (Some r)
    have "fst ` set (ts_data (ts_delitem u ?ex)) \<subseteq> fst ` set (eb_uid_to_queue s) - {u}"
      using ts_delitem_keys [of ?ex u] keys plain(2) unfolding ts_plain_def by blast
    then show ?thesis using Some ts_plain_del [OF plain(2)] bl
      by (intro exI [of _ "ts_delitem u ?ex"] exI conjI) (simp_all add: eb_ban_expert_def Let_def case_prod_unfold)
  qed
qed

lemma eb_ban_expert_inv [inv_intros]:
  assumes inv: "eb_inv s"
  shows "eb_inv (eb_ban_expert now u dur p s)"
proof (cases "fst (ts_get now u (eb_experts s)) \<noteq> None \<or> \<not> p")
  case True
  from eb_ban_expert_eq [OF inv this] show ?thesis using eb_remove_inv [OF inv] by metis
next
  case False
  then show ?thesis
    using eb_touch_inv [OF inv] by (simp add: eb_ban_expert_def Let_def case_prod_unfold)
qed

lemma eb_mark_successful_eq:
  "\<exists>w. eb_mark_successful_batch u s =
      s\<lparr>eb_global_batch_counter := eb_global_batch_counter s + 1, eb_warming_up := w\<rparr>
    \<and> (\<forall>v ep jb r. dict_get (eb_warming_up s) v = Some (ep, jb, r) \<longrightarrow> (\<exists>jb'. dict_get w v = Some (ep, jb', r)))"
proof (cases "dict_get (eb_warming_up s) u")
  case None
  then show ?thesis
    by (intro exI [of _ "eb_warming_up s"]) (auto simp: eb_mark_successful_batch_def Let_def)
next
  case (Some q)
  then obtain ep jb r where q: "dict_get (eb_warming_up s) u = Some (ep, jb, r)" by (cases q) auto
  show ?thesis
  proof (cases "jb \<ge> 0 \<and> eb_global_batch_counter s + 1 - jb \<ge> eb_warmup_batches (eb_cfg s)")
    case True
    then show ?thesis using q
      by (intro exI [of _ "dict_set u (ep, -1, r) (eb_warming_up s)"])
        (simp add: eb_mark_successful_batch_def Let_def)
  next
    case False
    then show ?thesis using q
      by (intro exI [of _ "eb_warming_up s"]) (auto simp: eb_mark_successful_batch_def Let_def)
  qed
qed

lemma eb_mark_successful_inv [inv_intros]:
  assumes "eb_inv s"
  shows "eb_inv (eb_mark_successful_batch u s)"
proof -
  obtain w where w: "eb_mark_successful_batch u s =
      s\<lparr>eb_global_batch_counter := eb_global_batch_counter s + 1, eb_warming_up := w\<rparr>" (is "_ = ?t")
    "\<forall>v ep jb r. dict_get (eb_warming_up s) v = Some (ep, jb, r) \<longrightarrow> (\<exists>jb'. dict_get w v = Some (ep, jb', r))"
    using eb_mark_successful_eq [of u s] by blast
  have "eb_entry_ok [] ?t v d" if en: "eb_entry_ok [] s v d" for v d
  proof -
    obtain ep jb where "dict_get (eb_warming_up s) v = Some (ep, jb, fst d)"
      using en unfolding eb_entry_ok_def by blast
    then have "\<exists>jb'. dict_get w v = Some (ep, jb', fst d)" using w(2) by blast
    with en show ?thesis by (auto simp: eb_entry_ok_def)
  qed
  then have "eb_inv ?t" using assms by (simp add: eb_inv_with_def)
  then show ?thesis by (simp only: w(1))
qed

lemma eb_set_throughput_inv [inv_intros]:
  assumes "eb_inv s" and "ema_good t"
  shows "eb_inv (s\<lparr>eb_throughputs := dict_set u t (eb_throughputs s)\<rparr>)"
  using assms by (auto simp: eb_inv_with_def eb_entry_ok_def)

end
