(* ===== verification/LocalRouter.thy ===== *)
theory LocalRouter
  imports BalancerFacts
begin

text \<open>
  The per-process next-hop router of \<open>core/server/w2w_local_router.py\<close>: the order of the stages, the
  membership snapshot and the receipt mailbox the handler processes share, and the router with its
  balancer and its leases (reservations waiting for a receipt). Clock readings are arguments; the
  answer of the store is an argument, \<open>None\<close> when it had no payload.
\<close>

section \<open>Stages\<close>

definition stage_names :: "nat \<Rightarrow> error + string list" where
  "stage_names n = (if n < 2 then Inl AssertionError
     else Inr ([''head''] @ map (\<lambda>i. ''body'' @ nat_str (i + 1)) [0..<n - 2] @ [''tail'']))"

fun index_of :: "'a \<Rightarrow> 'a list \<Rightarrow> nat option" where
  "index_of x [] = None"
| "index_of x (y # ys) = (if x = y then Some 0 else map_option Suc (index_of x ys))"

definition successor_stage_prefix :: "uid \<Rightarrow> nat \<Rightarrow> error + string option" where
  "successor_stage_prefix own_uid n =
     (case stage_names n of
        Inl err \<Rightarrow> Inl err
      | Inr names \<Rightarrow>
          (case index_of (hd (py_split CHR ''.'' own_uid)) names of
             None \<Rightarrow> Inl ValueError
           | Some i \<Rightarrow> Inr (if i = length names - 1 then None else Some (names ! (i + 1) @ ''.''))))"

section \<open>Membership\<close>

record membership =
  mb_version :: int
  mb_members :: "(uid \<times> peer \<times> time) list"

definition mb_empty :: membership where
  "mb_empty = \<lparr>mb_version = 0, mb_members = []\<rparr>"

definition mb_publish :: "(uid \<times> peer \<times> time) list \<Rightarrow> membership \<Rightarrow> membership" where
  "mb_publish members m = \<lparr>mb_version = mb_version m + 1, mb_members = members\<rparr>"

definition mb_snapshot :: "membership \<Rightarrow> int \<times> (uid \<times> peer \<times> time) list" where
  "mb_snapshot m = (mb_version m, mb_members m)"

text \<open>One record of the stage key: a uid and a value text with an expiration, \<open>None\<close> if malformed.\<close>

definition member_of :: "(string \<Rightarrow> 'p option) \<Rightarrow> ('p \<Rightarrow> peer) \<Rightarrow> ((uid \<times> string) \<times> time) option
    \<Rightarrow> (uid \<times> peer \<times> time) option" where
  "member_of from58 to58 r =
     (case r of
        None \<Rightarrow> None
      | Some ((u, value), expiration) \<Rightarrow>
          (case parse_expert_dht_value from58 value of
             None \<Rightarrow> None
           | Some (p, phase, _) \<Rightarrow> if phase = PHASE1 then None else Some (u, to58 p, expiration)))"

definition fetch_stage_members :: "(string \<Rightarrow> 'p option) \<Rightarrow> ('p \<Rightarrow> peer)
    \<Rightarrow> ((uid \<times> string) \<times> time) option list option \<Rightarrow> (uid \<times> peer \<times> time) list option" where
  "fetch_stage_members from58 to58 response =
     map_option (\<lambda>rs. List.map_filter (member_of from58 to58) rs) response"

definition mb_refresh_once :: "(string \<Rightarrow> 'p option) \<Rightarrow> ('p \<Rightarrow> peer)
    \<Rightarrow> ((uid \<times> string) \<times> time) option list option \<Rightarrow> membership \<Rightarrow> membership" where
  "mb_refresh_once from58 to58 response m =
     (case fetch_stage_members from58 to58 response of None \<Rightarrow> m | Some members \<Rightarrow> mb_publish members m)"

definition join_order_data_rank :: "(string \<Rightarrow> 'p option) \<Rightarrow> ('p \<Rightarrow> peer) \<Rightarrow> uid
    \<Rightarrow> ((uid \<times> string) \<times> time) option list option \<Rightarrow> nat" where
  "join_order_data_rank from58 to58 own_uid response =
     length (filter (\<lambda>(u, _, _). u \<noteq> own_uid)
       (case fetch_stage_members from58 to58 response of None \<Rightarrow> [] | Some ms \<Rightarrow> ms))"

section \<open>The receipt mailbox\<close>

text \<open>The origin of a microbatch is the \<open>trainer_uid\<close> of its metadata, which is dynamically typed.\<close>

type_synonym lease_key = "pyval \<times> int \<times> uid"

record mailbox =
  mx_receipts :: "(lease_key, time) dict"
  mx_last_gc :: time

definition mailbox_gc_period :: time where
  "mailbox_gc_period = 30"

definition mx_post :: "time \<Rightarrow> pyval \<Rightarrow> int \<Rightarrow> uid \<Rightarrow> mailbox \<Rightarrow> mailbox" where
  "mx_post now trainer_uid sq u m = m\<lparr>mx_receipts := dict_set (trainer_uid, sq, u) now (mx_receipts m)\<rparr>"

definition mx_take :: "lease_key \<Rightarrow> mailbox \<Rightarrow> time option \<times> mailbox" where
  "mx_take k m = (dict_get (mx_receipts m) k, m\<lparr>mx_receipts := dict_del k (mx_receipts m)\<rparr>)"

definition mx_discard :: "lease_key \<Rightarrow> mailbox \<Rightarrow> mailbox" where
  "mx_discard k m = m\<lparr>mx_receipts := dict_del k (mx_receipts m)\<rparr>"

definition mx_gc :: "time \<Rightarrow> time \<Rightarrow> mailbox \<Rightarrow> mailbox" where
  "mx_gc now max_age m =
     (if now - mx_last_gc m < mailbox_gc_period then m
      else m\<lparr>mx_last_gc := now, mx_receipts := filter (\<lambda>(_, arrival). \<not> now - arrival > max_age) (mx_receipts m)\<rparr>)"

section \<open>The router\<close>

record router =
  rt_balancer :: balancer
  rt_leases :: "(lease_key, reservation \<times> time \<times> time) dict"
  rt_lease_ttl :: time
  rt_seen_version :: int
  rt_counters :: counters

definition rt_new :: "ebconfig \<Rightarrow> time \<Rightarrow> time \<Rightarrow> router" where
  "rt_new cfg ttl now = \<lparr>rt_balancer = eb_new cfg now, rt_leases = [], rt_lease_ttl = ttl,
     rt_seen_version = -1, rt_counters = []\<rparr>"

definition rt_bump :: "string \<Rightarrow> router \<Rightarrow> router" where
  "rt_bump n r = r\<lparr>rt_counters := bump n 1 (rt_counters r)\<rparr>"

definition rt_settle :: "time \<Rightarrow> reservation \<Rightarrow> real \<Rightarrow> router \<Rightarrow> error + router" where
  "rt_settle now rs interval r =
     (case dict_get (eb_throughputs (rt_balancer r)) (rs_uid rs) of
        None \<Rightarrow> Inr r
      | Some t \<Rightarrow>
          (case ema_update (rs_task_size rs) (Some interval) now t of
             Inl err \<Rightarrow> Inl err
           | Inr t1 \<Rightarrow> Inr (r\<lparr>rt_balancer := eb_mark_successful_batch (rs_uid rs)
               ((rt_balancer r)\<lparr>eb_throughputs := dict_set (rs_uid rs) t1 (eb_throughputs (rt_balancer r))\<rparr>)\<rparr>)))"

text \<open>The loop of \<open>_poll_receipts\<close> over the leases that were open when it started.\<close>

fun rt_poll_loop :: "time \<Rightarrow> (lease_key \<times> reservation \<times> time \<times> time) list \<Rightarrow> router \<Rightarrow> mailbox
    \<Rightarrow> error + router \<times> mailbox" where
  "rt_poll_loop now [] r m = Inr (r, m)"
| "rt_poll_loop now ((k, rs, reserved_at, deadline) # ls) r m =
     (let (receipt, m1) = mx_take k m
      in case receipt of
           Some arrival \<Rightarrow>
             (case rt_settle now rs (max (arrival - reserved_at) (1 / 10 ^ 9))
                  (r\<lparr>rt_leases := dict_del k (rt_leases r)\<rparr>) of
                Inl err \<Rightarrow> Inl err
              | Inr r1 \<Rightarrow> rt_poll_loop now ls (rt_bump ''settled'' r1) m1)
         | None \<Rightarrow>
             if deadline \<le> now
             then rt_poll_loop now ls (rt_bump ''expired_leases'' (r\<lparr>rt_leases := dict_del k (rt_leases r)\<rparr>)) m1
             else rt_poll_loop now ls r m1)"

definition rt_poll_receipts :: "time \<Rightarrow> router \<Rightarrow> mailbox \<Rightarrow> error + router \<times> mailbox" where
  "rt_poll_receipts now r m = rt_poll_loop now (rt_leases r) r m"

definition rt_admit_member :: "time \<Rightarrow> (uid \<Rightarrow> real) \<Rightarrow> uid \<times> peer \<times> time \<Rightarrow> balancer \<Rightarrow> balancer" where
  "rt_admit_member now rnd member b =
     (case member of (u, endpoint, expiration) \<Rightarrow>
        let (maybe_banned, b1) = eb_check_and_unban now u endpoint b
        in if (case maybe_banned of None \<Rightarrow> True | Some (_, banned_until) \<Rightarrow> expiration > banned_until)
           then eb_add_expert now (rnd u) u endpoint expiration b1 else b1)"

definition rt_sync_membership :: "time \<Rightarrow> (uid \<Rightarrow> real) \<Rightarrow> membership \<Rightarrow> router \<Rightarrow> router" where
  "rt_sync_membership now rnd mem r =
     (let (version, members) = mb_snapshot mem
      in if version = rt_seen_version r then r
         else
           let live = fst ` set members;
               gone = filter (\<lambda>u. u \<notin> live) (map fst (eb_uid_to_queue (rt_balancer r)))
           in r\<lparr>rt_seen_version := version,
                rt_balancer := fold (rt_admit_member now rnd) members
                  (fold eb_evict_expert gone (rt_balancer r))\<rparr>)"

datatype resolve_result = Hop uid peer | Drop string | Terminus

definition rt_resolve :: "time \<Rightarrow> time \<Rightarrow> (uid \<Rightarrow> real) \<Rightarrow> real \<Rightarrow> pyval \<Rightarrow> int \<Rightarrow> real \<Rightarrow> uid set
    \<Rightarrow> membership \<Rightarrow> router \<Rightarrow> mailbox \<Rightarrow> error + resolve_result \<times> router \<times> mailbox" where
  "rt_resolve now start rnd rnd' origin_uid sq task_size exclude mem r m =
     (case rt_poll_receipts now (rt_sync_membership now rnd mem r) m of
        Inl err \<Rightarrow> Inl err
      | Inr (r1, m1) \<Rightarrow>
          (case eb_reserve_another now start rnd' task_size exclude False (rt_balancer r1) of
             Inl err \<Rightarrow> Inl err
           | Inr (Granted rs, b) \<Rightarrow>
               Inr (Hop (rs_uid rs) (rs_peer_id rs),
                    rt_bump ''resolves''
                      (r1\<lparr>rt_balancer := b,
                          rt_leases := dict_set (origin_uid, sq, rs_uid rs)
                            (rs, now, now + rt_lease_ttl r1) (rt_leases r1)\<rparr>), m1)
           | Inr (_, b) \<Rightarrow> Inr (Drop ''no eligible next worker'', rt_bump ''drops'' (r1\<lparr>rt_balancer := b\<rparr>), m1)))"

definition rt_fail :: "time \<Rightarrow> pyval \<Rightarrow> int \<Rightarrow> uid \<Rightarrow> string \<Rightarrow> router \<Rightarrow> mailbox \<Rightarrow> error + router \<times> mailbox" where
  "rt_fail now origin_uid sq u reason r m =
     (let k = (origin_uid, sq, u);
          r1 = r\<lparr>rt_leases := dict_del k (rt_leases r)\<rparr>;
          m1 = mx_discard k m
      in case (case dict_get (rt_leases r) k of
                 None \<Rightarrow> Inr (rt_balancer r1)
               | Some (rs, _, _) \<Rightarrow> eb_settle_reservation now rs False (rt_balancer r1)) of
           Inl err \<Rightarrow> Inl err
         | Inr b \<Rightarrow>
             Inr (rt_bump ''failed'' (r1\<lparr>rt_balancer := (if reason \<noteq> ''busy'' then eb_short_ban now u b else b)\<rparr>), m1))"

definition rt_stats :: "time \<Rightarrow> router \<Rightarrow> mailbox \<Rightarrow> error + (string, int) dict \<times> router \<times> mailbox" where
  "rt_stats now r m =
     (case rt_poll_receipts now r m of
        Inl err \<Rightarrow> Inl err
      | Inr (r1, m1) \<Rightarrow>
          Inr (dict_set ''open_leases'' (int (length (rt_leases r1))) (rt_counters r1), r1, m1))"

end
