(* ===== verification/W2WMessages.thy ===== *)
theory W2WMessages
  imports BatchMetadata PyText
begin

text \<open>
  The messages of the worker-to-worker protocol (\<open>core/server/w2w_dataplane.py\<close>): push, resolve,
  report and receipt, as the dictionaries that go through msgpack (parameters \<open>dumps\<close>, \<open>loads\<close>), with
  the servicers that read them back and apply defaults and coercions. Python's \<open>str\<close> of a value that
  is not a string and \<open>float\<close> of a text are parameters (\<open>shw\<close>, \<open>flt\<close>).
\<close>

section \<open>Coercions\<close>

definition py_trunc :: "real \<Rightarrow> int" where
  "py_trunc x = (if x < 0 then \<lceil>x\<rceil> else \<lfloor>x\<rfloor>)"

fun py_to_int :: "pyval \<Rightarrow> error + int" where
  "py_to_int (PInt i) = Inr i"
| "py_to_int (PBool b) = Inr (of_bool b)"
| "py_to_int (PFloat x) = Inr (py_trunc x)"
| "py_to_int (PStr s) = (case py_int s of None \<Rightarrow> Inl ValueError | Some i \<Rightarrow> Inr i)"
| "py_to_int (PBytes bs) = (case py_int (map (\<lambda>b. char_of (unat b)) bs) of None \<Rightarrow> Inl ValueError | Some i \<Rightarrow> Inr i)"
| "py_to_int _ = Inl TypeError"

fun py_to_float :: "(pyval \<Rightarrow> real option) \<Rightarrow> pyval \<Rightarrow> error + real" where
  "py_to_float flt (PFloat x) = Inr x"
| "py_to_float flt (PInt i) = Inr (real_of_int i)"
| "py_to_float flt (PBool b) = Inr (of_bool b)"
| "py_to_float flt (PStr s) = (case flt (PStr s) of None \<Rightarrow> Inl ValueError | Some x \<Rightarrow> Inr x)"
| "py_to_float flt (PBytes b) = (case flt (PBytes b) of None \<Rightarrow> Inl ValueError | Some x \<Rightarrow> Inr x)"
| "py_to_float flt _ = Inl TypeError"

fun py_to_str :: "(pyval \<Rightarrow> string) \<Rightarrow> pyval \<Rightarrow> string" where
  "py_to_str shw (PStr s) = s"
| "py_to_str shw v = shw v"

definition opt_str :: "string option \<Rightarrow> pyval" where
  "opt_str s = (case s of None \<Rightarrow> PNone | Some x \<Rightarrow> PStr x)"

definition get_or :: "(string, pyval) dict \<Rightarrow> string \<Rightarrow> pyval \<Rightarrow> pyval" where
  "get_or obj k d = (case dict_get obj k of None \<Rightarrow> d | Some v \<Rightarrow> v)"

section \<open>Statuses, hops and results\<close>

datatype push_status = ACCEPTED | BUSY | DROP

fun push_code :: "push_status \<Rightarrow> int" where
  "push_code ACCEPTED = 0"
| "push_code BUSY = 1"
| "push_code DROP = 2"

definition push_of_code :: "int \<Rightarrow> push_status option" where
  "push_of_code i = (if i = 0 then Some ACCEPTED else if i = 1 then Some BUSY else if i = 2 then Some DROP else None)"

fun push_name :: "push_status \<Rightarrow> string" where
  "push_name ACCEPTED = ''accepted''"
| "push_name BUSY = ''busy''"
| "push_name DROP = ''drop''"

datatype report_kind = RK_ACCEPTED | RK_LOSS | RK_BWD_PROGRESS | RK_DONE | RK_DROPPED

fun report_code :: "report_kind \<Rightarrow> int" where
  "report_code RK_ACCEPTED = 0"
| "report_code RK_LOSS = 1"
| "report_code RK_BWD_PROGRESS = 2"
| "report_code RK_DONE = 3"
| "report_code RK_DROPPED = 4"

definition report_of_code :: "int \<Rightarrow> report_kind option" where
  "report_of_code i = (if i = 0 then Some RK_ACCEPTED else if i = 1 then Some RK_LOSS
     else if i = 2 then Some RK_BWD_PROGRESS else if i = 3 then Some RK_DONE
     else if i = 4 then Some RK_DROPPED else None)"

record w2w_hop =
  hp_uid :: uid
  hp_peer_id :: peer
  hp_maddrs :: "string list"

record w2w_reply =
  rp_status :: pyval
  rp_hop :: "w2w_hop option"
  rp_reason :: string

definition W2W_TERMINUS :: string where "W2W_TERMINUS = ''terminus''"
definition W2W_DROP :: string where "W2W_DROP = ''drop''"

definition unpack_msg :: "(bytes \<Rightarrow> pyval option) \<Rightarrow> bytes \<Rightarrow> (string, pyval) dict" where
  "unpack_msg loads raw =
     (if raw = [] then [] else case loads raw of Some (PDict obj) \<Rightarrow> obj | _ \<Rightarrow> [])"

section \<open>Push\<close>

definition push_response_obj :: "push_status \<Rightarrow> string \<Rightarrow> pyval" where
  "push_response_obj status reason = PDict [(''status'', PInt (push_code status)), (''reason'', PStr reason)]"

definition build_push_response :: "(pyval \<Rightarrow> bytes) \<Rightarrow> push_status \<Rightarrow> string \<Rightarrow> bytes" where
  "build_push_response dumps status reason = dumps (push_response_obj status reason)"

definition parse_push_response :: "(bytes \<Rightarrow> pyval option) \<Rightarrow> bytes \<Rightarrow> push_status \<times> string" where
  "parse_push_response loads raw =
     (let obj = unpack_msg loads raw
      in (case py_to_int (get_or obj ''status'' (PInt (push_code ACCEPTED))) of
            Inl _ \<Rightarrow> DROP
          | Inr i \<Rightarrow> (case push_of_code i of None \<Rightarrow> DROP | Some s \<Rightarrow> s),
          case get_or obj ''reason'' (PStr []) of PStr r \<Rightarrow> r | _ \<Rightarrow> []))"

section \<open>Resolve\<close>

definition resolve_request_obj ::
  "pyval \<Rightarrow> int \<Rightarrow> uid \<Rightarrow> real \<Rightarrow> uid option \<Rightarrow> string option \<Rightarrow> pyval" where
  "resolve_request_obj trainer_uid sq current_uid task_size failed_uid failed_reason =
     PDict [(''trainer_uid'', trainer_uid), (''seq'', PInt sq), (''current_uid'', PStr current_uid),
       (''task_size'', PFloat task_size), (''failed_uid'', opt_str failed_uid),
       (''failed_reason'', opt_str failed_reason)]"

definition build_resolve_request ::
  "(pyval \<Rightarrow> bytes) \<Rightarrow> pyval \<Rightarrow> int \<Rightarrow> uid \<Rightarrow> real \<Rightarrow> uid option \<Rightarrow> string option \<Rightarrow> bytes" where
  "build_resolve_request dumps trainer_uid sq current_uid task_size failed_uid failed_reason =
     dumps (resolve_request_obj trainer_uid sq current_uid task_size failed_uid failed_reason)"

record resolve_call =
  rc_trainer_uid :: string
  rc_seq :: int
  rc_current_uid :: string
  rc_task_size :: real
  rc_failed_uid :: "string option"
  rc_failed_reason :: "string option"

text \<open>What \<open>rpc_resolve_next_hop\<close> passes on; \<open>int\<close> and \<open>float\<close> may raise.\<close>

definition parse_resolve_request ::
  "(bytes \<Rightarrow> pyval option) \<Rightarrow> (pyval \<Rightarrow> string) \<Rightarrow> (pyval \<Rightarrow> real option) \<Rightarrow> uid \<Rightarrow> bytes \<Rightarrow> error + resolve_call" where
  "parse_resolve_request loads shw flt request_uid raw =
     (let obj = unpack_msg loads raw
      in case py_to_int (get_or obj ''seq'' (PInt (-1))) of
           Inl err \<Rightarrow> Inl err
         | Inr sq \<Rightarrow>
             (case py_to_float flt (get_or obj ''task_size'' (PFloat 1)) of
                Inl err \<Rightarrow> Inl err
              | Inr w \<Rightarrow> Inr
                  \<lparr>rc_trainer_uid = py_to_str shw (get_or obj ''trainer_uid'' (PStr request_uid)), rc_seq = sq,
                   rc_current_uid = py_to_str shw (get_or obj ''current_uid'' (PStr [])), rc_task_size = w,
                   rc_failed_uid = as_str_or_none (dict_get obj ''failed_uid''),
                   rc_failed_reason = as_str_or_none (dict_get obj ''failed_reason'')\<rparr>))"

definition resolve_response_obj :: "w2w_reply \<Rightarrow> pyval" where
  "resolve_response_obj r =
     PDict ([(''status'', rp_status r), (''reason'', PStr (rp_reason r))]
       @ (case rp_hop r of
            None \<Rightarrow> []
          | Some h \<Rightarrow> [(''uid'', PStr (hp_uid h)), (''peer_id'', PStr (hp_peer_id h)),
              (''maddrs'', PList (map PStr (hp_maddrs h)))]))"

definition build_resolve_response :: "(pyval \<Rightarrow> bytes) \<Rightarrow> w2w_reply \<Rightarrow> bytes" where
  "build_resolve_response dumps r = dumps (resolve_response_obj r)"

fun strs_or_empty :: "pyval option \<Rightarrow> string list" where
  "strs_or_empty (Some (PList vs)) = (if list_all (\<lambda>v. py_str v \<noteq> None) vs then map (the \<circ> py_str) vs else [])"
| "strs_or_empty _ = []"

definition parse_resolve_response ::
  "(bytes \<Rightarrow> pyval option) \<Rightarrow> (pyval \<Rightarrow> string) \<Rightarrow> bytes \<Rightarrow> w2w_reply" where
  "parse_resolve_response loads shw raw =
     (let obj = unpack_msg loads raw;
          status = get_or obj ''status'' (PStr W2W_DROP);
          reason = py_to_str shw (get_or obj ''reason'' (PStr []));
          drop_reply = \<lparr>rp_status = PStr W2W_DROP, rp_hop = None, rp_reason = reason\<rparr>
      in if status = PStr ''hop'' then
           (case (dict_get obj ''uid'', dict_get obj ''peer_id'') of
              (Some (PStr u), Some (PStr p)) \<Rightarrow>
                \<lparr>rp_status = PStr ''hop'',
                 rp_hop = Some \<lparr>hp_uid = u, hp_peer_id = p, hp_maddrs = strs_or_empty (dict_get obj ''maddrs'')\<rparr>,
                 rp_reason = []\<rparr>
            | _ \<Rightarrow> drop_reply)
         else if status = PStr W2W_TERMINUS then
           \<lparr>rp_status = PStr W2W_TERMINUS, rp_hop = None, rp_reason = reason\<rparr>
         else drop_reply)"

section \<open>Reports and receipts\<close>

definition opt_float :: "real option \<Rightarrow> pyval" where
  "opt_float x = (case x of None \<Rightarrow> PNone | Some r \<Rightarrow> PFloat r)"

definition report_request_obj ::
  "pyval \<Rightarrow> int \<Rightarrow> report_kind \<Rightarrow> uid \<Rightarrow> uid option \<Rightarrow> real option \<Rightarrow> string option \<Rightarrow> pyval" where
  "report_request_obj trainer_uid sq kind u prev_uid loss reason =
     PDict [(''trainer_uid'', trainer_uid), (''seq'', PInt sq), (''kind'', PInt (report_code kind)),
       (''uid'', PStr u), (''prev_uid'', opt_str prev_uid), (''loss'', opt_float loss), (''reason'', opt_str reason)]"

definition build_report_request ::
  "(pyval \<Rightarrow> bytes) \<Rightarrow> pyval \<Rightarrow> int \<Rightarrow> report_kind \<Rightarrow> uid \<Rightarrow> uid option \<Rightarrow> real option \<Rightarrow> string option \<Rightarrow> bytes" where
  "build_report_request dumps trainer_uid sq kind u prev_uid loss reason =
     dumps (report_request_obj trainer_uid sq kind u prev_uid loss reason)"

record report_call =
  pc_trainer_uid :: string
  pc_seq :: int
  pc_kind :: report_kind
  pc_uid :: string
  pc_prev_uid :: "string option"
  pc_loss :: "real option"
  pc_reason :: "string option"

fun as_number_or_none :: "pyval option \<Rightarrow> real option" where
  "as_number_or_none (Some (PFloat x)) = Some x"
| "as_number_or_none (Some (PInt i)) = Some (real_of_int i)"
| "as_number_or_none (Some (PBool b)) = Some (of_bool b)"
| "as_number_or_none _ = None"

definition parse_report_request ::
  "(bytes \<Rightarrow> pyval option) \<Rightarrow> (pyval \<Rightarrow> string) \<Rightarrow> uid \<Rightarrow> bytes \<Rightarrow> error + report_call" where
  "parse_report_request loads shw request_uid raw =
     (let obj = unpack_msg loads raw;
          kind = (case py_to_int (get_or obj ''kind'' (PInt (report_code RK_DROPPED))) of
                    Inl _ \<Rightarrow> RK_DROPPED
                  | Inr i \<Rightarrow> (case report_of_code i of None \<Rightarrow> RK_DROPPED | Some k \<Rightarrow> k))
      in case py_to_int (get_or obj ''seq'' (PInt (-1))) of
           Inl err \<Rightarrow> Inl err
         | Inr sq \<Rightarrow> Inr
             \<lparr>pc_trainer_uid = py_to_str shw (get_or obj ''trainer_uid'' (PStr request_uid)), pc_seq = sq,
              pc_kind = kind, pc_uid = py_to_str shw (get_or obj ''uid'' (PStr [])),
              pc_prev_uid = as_str_or_none (dict_get obj ''prev_uid''),
              pc_loss = as_number_or_none (dict_get obj ''loss''),
              pc_reason = as_str_or_none (dict_get obj ''reason'')\<rparr>)"

definition receipt_request_obj :: "pyval \<Rightarrow> int \<Rightarrow> uid \<Rightarrow> pyval" where
  "receipt_request_obj trainer_uid sq u = PDict [(''trainer_uid'', trainer_uid), (''seq'', PInt sq), (''uid'', PStr u)]"

definition build_receipt_request :: "(pyval \<Rightarrow> bytes) \<Rightarrow> pyval \<Rightarrow> int \<Rightarrow> uid \<Rightarrow> bytes" where
  "build_receipt_request dumps trainer_uid sq u = dumps (receipt_request_obj trainer_uid sq u)"

definition parse_receipt_request ::
  "(bytes \<Rightarrow> pyval option) \<Rightarrow> (pyval \<Rightarrow> string) \<Rightarrow> uid \<Rightarrow> bytes \<Rightarrow> error + string \<times> int \<times> uid" where
  "parse_receipt_request loads shw request_uid raw =
     (let obj = unpack_msg loads raw
      in case py_to_int (get_or obj ''seq'' (PInt (-1))) of
           Inl err \<Rightarrow> Inl err
         | Inr sq \<Rightarrow> Inr (py_to_str shw (get_or obj ''trainer_uid'' (PStr [])), sq,
             py_to_str shw (get_or obj ''uid'' (PStr request_uid))))"

section \<open>Properties\<close>

lemma push_of_code_code [simp]: "push_of_code (push_code s) = Some s"
  by (cases s) (simp_all add: push_of_code_def)

lemma report_of_code_code [simp]: "report_of_code (report_code k) = Some k"
  by (cases k) (simp_all add: report_of_code_def)

lemma as_str_opt_str [simp]: "as_str_or_none (Some (opt_str s)) = s"
  by (cases s) (simp_all add: opt_str_def)

lemma as_number_opt_float [simp]: "as_number_or_none (Some (opt_float x)) = x"
  by (cases x) (simp_all add: opt_float_def)

lemma strs_or_empty_PStr [simp]: "strs_or_empty (Some (PList (map PStr xs))) = xs"
  by (simp add: list_all_iff) (simp add: o_def)

declare strs_or_empty.simps [simp del]

definition reply_wf :: "w2w_reply \<Rightarrow> bool" where
  "reply_wf r \<longleftrightarrow> (rp_status r = PStr ''hop'' \<and> rp_hop r \<noteq> None \<and> rp_reason r = [])
     \<or> ((rp_status r = PStr W2W_TERMINUS \<or> rp_status r = PStr W2W_DROP) \<and> rp_hop r = None)"

lemma parse_resolve_response_wf: "reply_wf (parse_resolve_response loads shw raw)"
  by (auto simp: reply_wf_def parse_resolve_response_def Let_def split: option.split pyval.split)

text \<open>What the serialiser is relied on for: it restores the given value from a text that is not empty.\<close>

definition packs :: "(pyval \<Rightarrow> bytes) \<Rightarrow> (bytes \<Rightarrow> pyval option) \<Rightarrow> pyval \<Rightarrow> bool" where
  "packs dumps loads v \<longleftrightarrow> dumps v \<noteq> [] \<and> loads (dumps v) = Some v"

lemma unpack_msg_packs: "packs dumps loads (PDict obj) \<Longrightarrow> unpack_msg loads (dumps (PDict obj)) = obj"
  by (simp add: packs_def unpack_msg_def)

text \<open>C12. Every message of the protocol arrives as it was sent: each servicer and parser recovers from the
  packed message the fields the builder was given, and a push answer keeps status and reason.\<close>

theorem w2w_messages_arrive:
  assumes "packs dumps loads (push_response_obj status reason)"
    and "packs dumps loads (resolve_request_obj (PStr t) sq cu w fu fr)"
    and "packs dumps loads (resolve_response_obj r)" and "reply_wf r"
    and "packs dumps loads (report_request_obj (PStr t) sq kind u pu loss fr)"
    and "packs dumps loads (receipt_request_obj (PStr t) sq u)"
  shows "parse_push_response loads (build_push_response dumps status reason) = (status, reason)
    \<and> parse_resolve_request loads shw flt ru (build_resolve_request dumps (PStr t) sq cu w fu fr) = Inr
        \<lparr>rc_trainer_uid = t, rc_seq = sq, rc_current_uid = cu, rc_task_size = w, rc_failed_uid = fu, rc_failed_reason = fr\<rparr>
    \<and> parse_resolve_response loads shw (build_resolve_response dumps r) = r
    \<and> parse_report_request loads shw ru (build_report_request dumps (PStr t) sq kind u pu loss fr) = Inr
        \<lparr>pc_trainer_uid = t, pc_seq = sq, pc_kind = kind, pc_uid = u, pc_prev_uid = pu, pc_loss = loss, pc_reason = fr\<rparr>
    \<and> parse_receipt_request loads shw ru (build_receipt_request dumps (PStr t) sq u) = Inr (t, sq, u)"
proof (intro conjI)
  show "parse_push_response loads (build_push_response dumps status reason) = (status, reason)"
    using assms(1) by (simp add: parse_push_response_def build_push_response_def push_response_obj_def
        unpack_msg_packs get_or_def)
  show "parse_resolve_request loads shw flt ru (build_resolve_request dumps (PStr t) sq cu w fu fr) = Inr
      \<lparr>rc_trainer_uid = t, rc_seq = sq, rc_current_uid = cu, rc_task_size = w, rc_failed_uid = fu, rc_failed_reason = fr\<rparr>"
    using assms(2) by (simp add: parse_resolve_request_def build_resolve_request_def resolve_request_obj_def
        unpack_msg_packs get_or_def Let_def)
  show "parse_resolve_response loads shw (build_resolve_response dumps r) = r"
    using assms(3,4)
    by (cases r) (auto simp: reply_wf_def parse_resolve_response_def build_resolve_response_def resolve_response_obj_def
        unpack_msg_packs get_or_def Let_def W2W_TERMINUS_def W2W_DROP_def)
  show "parse_report_request loads shw ru (build_report_request dumps (PStr t) sq kind u pu loss fr) = Inr
      \<lparr>pc_trainer_uid = t, pc_seq = sq, pc_kind = kind, pc_uid = u, pc_prev_uid = pu, pc_loss = loss, pc_reason = fr\<rparr>"
    using assms(5) by (simp add: parse_report_request_def build_report_request_def report_request_obj_def
        unpack_msg_packs get_or_def Let_def)
  show "parse_receipt_request loads shw ru (build_receipt_request dumps (PStr t) sq u) = Inr (t, sq, u)"
    using assms(6) by (simp add: parse_receipt_request_def build_receipt_request_def receipt_request_obj_def
        unpack_msg_packs get_or_def Let_def)
qed

text \<open>A serialiser for a finite set of messages: the position in a list of them.\<close>

definition demo_msgs :: "pyval list" where
  "demo_msgs = [push_response_obj BUSY ''ingress full'',
     resolve_request_obj (PStr ''t'') 3 ''head.0'' 8 (Some ''body1.2'') None,
     resolve_response_obj \<lparr>rp_status = PStr ''hop'',
       rp_hop = Some \<lparr>hp_uid = ''body1.0'', hp_peer_id = ''QmB'', hp_maddrs = [''/ip4/10.0.0.1'']\<rparr>, rp_reason = []\<rparr>,
     report_request_obj (PStr ''t'') 3 RK_LOSS ''tail.0'' None (Some (5 / 2)) None,
     receipt_request_obj (PStr ''t'') 3 ''tail.0'']"

definition demo_dumps :: "pyval \<Rightarrow> bytes" where
  "demo_dumps v = replicate (Suc (length (takeWhile (\<lambda>w. w \<noteq> v) demo_msgs))) 0"

definition demo_loads :: "bytes \<Rightarrow> pyval option" where
  "demo_loads bs = (if length bs - 1 < length demo_msgs then Some (demo_msgs ! (length bs - 1)) else None)"

lemma demo_packs: "list_all (packs demo_dumps demo_loads) demo_msgs"
  by (simp add: demo_msgs_def packs_def demo_dumps_def demo_loads_def push_response_obj_def resolve_request_obj_def
      resolve_response_obj_def report_request_obj_def receipt_request_obj_def)

lemma w2w_messages_arrive_witness:
  "parse_push_response demo_loads (build_push_response demo_dumps BUSY ''ingress full'') = (BUSY, ''ingress full'')
   \<and> parse_receipt_request demo_loads (\<lambda>_. []) ''x'' (build_receipt_request demo_dumps (PStr ''t'') 3 ''tail.0'') = Inr (''t'', 3, ''tail.0'')"
proof -
  note p = demo_packs [unfolded demo_msgs_def list.pred_inject]
  have wf: "reply_wf \<lparr>rp_status = PStr ''hop'',
       rp_hop = Some \<lparr>hp_uid = ''body1.0'', hp_peer_id = ''QmB'', hp_maddrs = [''/ip4/10.0.0.1'']\<rparr>, rp_reason = []\<rparr>"
    by (simp add: reply_wf_def)
  show ?thesis using w2w_messages_arrive [OF _ _ _ wf] p by blast
qed

end
