(* ===== verification/DataPlane.thy ===== *)
theory DataPlane
  imports LocalRouter W2WMessages
begin

text \<open>
  The direct worker-to-worker driver of \<open>core/server/w2w_dataplane.py\<close>: the admission of forward and
  backward pushes into the entry table the handler processes share, and the handlers that compute,
  resolve the next hop, push with retries and report. A handler runs on a context (driver, router,
  log of the calls it made); what the outside answers to a call is a function of the log so far
  (record \<open>env\<close>), so every sequence of answers is covered. An exception is its class name.
\<close>

section \<open>Types\<close>

type_synonym exn = string

fun exn_name :: "error \<Rightarrow> exn" where
  "exn_name AssertionError = ''AssertionError''"
| "exn_name ValueError = ''ValueError''"
| "exn_name KeyError = ''KeyError''"
| "exn_name IndexError = ''IndexError''"
| "exn_name TypeError = ''TypeError''"
| "exn_name RuntimeError = ''RuntimeError''"
| "exn_name ZeroDivisionError = ''ZeroDivisionError''"

text \<open>A tensor as the driver looks at it.\<close>

record nd =
  nd_shape :: "nat list"
  nd_vals :: "real list"

datatype dirn = Fwd | Bwd

type_synonym entry_key = "uid \<times> pyval \<times> int \<times> dirn"

record dwconfig =
  dc_max_entries :: int
  dc_forward_timeout :: time
  dc_backward_timeout :: time
  dc_trainerless :: bool
  dc_has_router :: bool
  dc_has_ledger :: bool
  dc_own_peer_id :: "peer option"

record driver =
  dw_entries :: "(entry_key, time) dict"
  dw_prev_hops :: "(uid \<times> pyval \<times> int, uid \<times> peer \<times> string list) dict"
  dw_counters :: counters

definition dw_new :: "dwconfig \<Rightarrow> error + driver" where
  "dw_new cfg =
     (if dc_max_entries cfg \<le> 0 then Inl ValueError
      else if dc_has_router cfg \<and> \<not> dc_trainerless cfg then Inl ValueError
      else if dc_has_ledger cfg \<and> dc_own_peer_id cfg = None then Inl ValueError
      else Inr \<lparr>dw_entries = [], dw_prev_hops = [], dw_counters = []\<rparr>)"

definition dw_bump :: "string \<Rightarrow> driver \<Rightarrow> driver" where
  "dw_bump n s = s\<lparr>dw_counters := bump n 1 (dw_counters s)\<rparr>"

definition dw_release :: "entry_key \<Rightarrow> driver \<Rightarrow> driver" where
  "dw_release k s = s\<lparr>dw_entries := dict_del k (dw_entries s)\<rparr>"

definition dw_stats :: "driver \<Rightarrow> (string, int) dict" where
  "dw_stats s = dict_set ''entries'' (int (length (dw_entries s))) (dw_counters s)"

section \<open>Admission\<close>

text \<open>\<open>_AcceptedForward\<close>; \<open>af_seq\<close> is \<open>int(md.seq)\<close>, which has been evaluated for the key.\<close>

record accepted_forward =
  af_metadata :: batch_metadata
  af_seq :: int
  af_key :: entry_key
  af_is_new :: bool

datatype event =
    ReadClock
  | ResolveCall "uid option" "string option" "uid set"
  | RouterFail uid string
  | Computed dirn
  | Pushed dirn w2w_hop "exn + push_status \<times> string"
  | Reported report_kind uid "uid option" "real option" "string option" "exn option"
  | SpawnReport report_kind uid "uid option"
  | SpawnReceipt peer uid

text \<open>A list or a dictionary cannot be part of a key.\<close>

fun hashable :: "pyval \<Rightarrow> bool" where
  "hashable (PList _) = False"
| "hashable (PDict _) = False"
| "hashable _ = True"

definition absent_str :: "string option \<Rightarrow> bool" where
  "absent_str s \<longleftrightarrow> s = None \<or> s = Some []"

text \<open>The locked section both directions share: the duplicate test, the bound, the registration.\<close>

definition dw_admit :: "dwconfig \<Rightarrow> time \<Rightarrow> string \<Rightarrow> entry_key \<Rightarrow> driver
    \<Rightarrow> (push_status \<times> string \<times> bool option) \<times> driver" where
  "dw_admit cfg now counter k s =
     (if dict_has (dw_entries s) k then ((ACCEPTED, ''duplicate'', Some False), dw_bump ''duplicates'' s)
      else if int (length (dw_entries s)) \<ge> dc_max_entries cfg then ((BUSY, ''ingress full'', None), dw_bump ''busy'' s)
      else ((ACCEPTED, [], Some True), dw_bump counter (s\<lparr>dw_entries := dict_set k now (dw_entries s)\<rparr>)))"

type_synonym admission = "push_status \<times> string \<times> accepted_forward option"

definition dw_accept_forward :: "dwconfig \<Rightarrow> (bytes \<Rightarrow> pyval option) \<Rightarrow> time \<Rightarrow> uid \<Rightarrow> bytes \<Rightarrow> driver
    \<Rightarrow> error + admission \<times> driver \<times> event list" where
  "dw_accept_forward cfg loads now u metadata s =
     (case bm_from_bytes loads metadata of
        None \<Rightarrow> Inr ((DROP, ''missing direct w2w metadata'', None), dw_bump ''drops'' s, [])
      | Some md \<Rightarrow>
          if bm_trainer_peer_id md = None
          then Inr ((DROP, ''missing direct w2w metadata'', None), dw_bump ''drops'' s, [])
          else
            case py_to_int (bm_seq md) of
              Inl err \<Rightarrow> Inl err
            | Inr sq \<Rightarrow>
                if \<not> hashable (bm_trainer_uid md) then Inl TypeError
                else
                  let k = (u, bm_trainer_uid md, sq, Fwd)
                  in case dw_admit cfg now ''accepted_forward'' k s of
                       ((st, reason, None), s1) \<Rightarrow> Inr ((st, reason, None), s1, [])
                     | ((st, reason, Some False), s1) \<Rightarrow>
                         Inr ((st, reason, Some \<lparr>af_metadata = md, af_seq = sq, af_key = k, af_is_new = False\<rparr>), s1, [])
                     | ((st, reason, Some True), s1) \<Rightarrow>
                         Inr ((st, reason, Some \<lparr>af_metadata = md, af_seq = sq, af_key = k, af_is_new = True\<rparr>),
                           (case (bm_prev_hop_uid md, bm_prev_hop_peer_id md) of
                              (Some pu, Some pp) \<Rightarrow>
                                if pu \<noteq> [] \<and> pp \<noteq> []
                                then s1\<lparr>dw_prev_hops := dict_set (u, bm_trainer_uid md, sq)
                                       (pu, pp, case bm_prev_hop_maddrs md of None \<Rightarrow> [] | Some ms \<Rightarrow> ms) (dw_prev_hops s1)\<rparr>
                                else s1
                            | _ \<Rightarrow> s1),
                           [SpawnReport RK_ACCEPTED u (bm_prev_hop_uid md)]))"

definition dw_accept_backward :: "dwconfig \<Rightarrow> (bytes \<Rightarrow> pyval option) \<Rightarrow> time \<Rightarrow> uid \<Rightarrow> bytes \<Rightarrow> driver
    \<Rightarrow> error + admission \<times> driver \<times> event list" where
  "dw_accept_backward cfg loads now u metadata s =
     (case bm_from_bytes loads metadata of
        None \<Rightarrow> Inr ((DROP, ''missing direct w2w metadata'', None), dw_bump ''drops'' s, [])
      | Some md \<Rightarrow>
          if bm_trainer_peer_id md = None
          then Inr ((DROP, ''missing direct w2w metadata'', None), dw_bump ''drops'' s, [])
          else
            case py_to_int (bm_seq md) of
              Inl err \<Rightarrow> Inl err
            | Inr sq \<Rightarrow>
                if \<not> hashable (bm_trainer_uid md) then Inl TypeError
                else
                  let k = (u, bm_trainer_uid md, sq, Bwd)
                  in case dw_admit cfg now ''accepted_backward'' k s of
                       ((st, reason, None), s1) \<Rightarrow> Inr ((st, reason, None), s1, [])
                     | ((st, reason, Some new), s1) \<Rightarrow>
                         Inr ((st, reason, Some \<lparr>af_metadata = md, af_seq = sq, af_key = k, af_is_new = new\<rparr>), s1,
                           if new then [SpawnReport RK_BWD_PROGRESS u (bm_prev_hop_uid md)] else []))"

section \<open>The context of a handler\<close>

text \<open>\<open>'r\<close> is the state of the local router.\<close>

record 'r env =
  en_dumps :: "pyval \<Rightarrow> bytes"
  en_loads :: "bytes \<Rightarrow> pyval option"
  en_str :: "pyval \<Rightarrow> string"
  en_clock :: "event list \<Rightarrow> time"
  en_router_resolve :: "event list \<Rightarrow> pyval \<Rightarrow> int \<Rightarrow> real \<Rightarrow> uid set \<Rightarrow> 'r \<Rightarrow> exn + resolve_result \<times> 'r"
  en_router_fail :: "event list \<Rightarrow> pyval \<Rightarrow> int \<Rightarrow> uid \<Rightarrow> string \<Rightarrow> 'r \<Rightarrow> exn + 'r"
  en_coordinator :: "event list \<Rightarrow> peer \<Rightarrow> bytes \<Rightarrow> exn + bytes"
  en_ledger_report :: "event list \<Rightarrow> report_kind \<Rightarrow> exn option"
  en_report :: "event list \<Rightarrow> peer \<Rightarrow> bytes \<Rightarrow> exn option"
  en_connect :: "event list \<Rightarrow> w2w_hop \<Rightarrow> exn option"
  en_unary :: "event list \<Rightarrow> dirn \<Rightarrow> w2w_hop \<Rightarrow> bytes \<Rightarrow> exn + bytes"
  en_stream :: "event list \<Rightarrow> dirn \<Rightarrow> w2w_hop \<Rightarrow> bytes \<Rightarrow> exn + bytes option"
  en_compute :: "event list \<Rightarrow> dirn \<Rightarrow> exn + nd list"
  en_serialize :: "event list \<Rightarrow> nd list \<Rightarrow> exn + nat"

record 'r ctx =
  cx_driver :: driver
  cx_router :: 'r
  cx_log :: "event list"

definition cx_emit :: "event \<Rightarrow> 'r ctx \<Rightarrow> 'r ctx" where
  "cx_emit e cx = cx\<lparr>cx_log := cx_log cx @ [e]\<rparr>"

definition cx_bump :: "string \<Rightarrow> 'r ctx \<Rightarrow> 'r ctx" where
  "cx_bump n cx = cx\<lparr>cx_driver := dw_bump n (cx_driver cx)\<rparr>"

definition report_event :: "dwconfig \<Rightarrow> 'r env \<Rightarrow> accepted_forward \<Rightarrow> report_kind \<Rightarrow> uid \<Rightarrow> uid option
    \<Rightarrow> real option \<Rightarrow> string option \<Rightarrow> 'r ctx \<Rightarrow> exn option \<times> 'r ctx" where
  "report_event cfg env af kind u prev_uid loss reason cx =
     (let md = af_metadata af;
          out = (if dc_has_ledger cfg \<and> bm_trainer_peer_id md = dc_own_peer_id cfg
                 then en_ledger_report env (cx_log cx) kind
                 else en_report env (cx_log cx) (the (bm_trainer_peer_id md))
                   (build_report_request (en_dumps env) (bm_trainer_uid md) (af_seq af) kind u prev_uid loss reason))
      in (out, cx_emit (Reported kind u prev_uid loss reason out) cx))"

definition safe_report_drop :: "dwconfig \<Rightarrow> 'r env \<Rightarrow> accepted_forward \<Rightarrow> uid \<Rightarrow> string \<Rightarrow> 'r ctx \<Rightarrow> 'r ctx" where
  "safe_report_drop cfg env af u reason cx =
     snd (report_event cfg env af RK_DROPPED u None None (Some reason) cx)"

definition report_safe :: "dwconfig \<Rightarrow> 'r env \<Rightarrow> accepted_forward \<Rightarrow> report_kind \<Rightarrow> uid \<Rightarrow> uid option \<Rightarrow> 'r ctx \<Rightarrow> 'r ctx" where
  "report_safe cfg env af kind u prev_uid cx =
     (case report_event cfg env af kind u prev_uid None None cx of
        (None, cx1) \<Rightarrow> cx1
      | (Some _, cx1) \<Rightarrow> cx_bump ''report_errors'' cx1)"

definition spawn_receipt :: "dwconfig \<Rightarrow> batch_metadata \<Rightarrow> uid \<Rightarrow> 'r ctx \<Rightarrow> 'r ctx" where
  "spawn_receipt cfg md receiver_uid cx =
     (if \<not> dc_trainerless cfg \<or> absent_str (bm_prev_hop_peer_id md) then cx
      else cx_emit (SpawnReceipt (the (bm_prev_hop_peer_id md)) receiver_uid) cx)"

fun task_size_of :: "nd list \<Rightarrow> real" where
  "task_size_of [] = 1"
| "task_size_of (t # _) = (case nd_shape t of [] \<Rightarrow> 1 | n # _ \<Rightarrow> real n)"

section \<open>Resolving the next hop\<close>

fun reply_of :: "resolve_result \<Rightarrow> w2w_reply" where
  "reply_of (Hop u p) = \<lparr>rp_status = PStr ''hop'', rp_hop = Some \<lparr>hp_uid = u, hp_peer_id = p, hp_maddrs = []\<rparr>, rp_reason = []\<rparr>"
| "reply_of (Drop reason) = \<lparr>rp_status = PStr W2W_DROP, rp_hop = None, rp_reason = reason\<rparr>"
| "reply_of Terminus = \<lparr>rp_status = PStr W2W_TERMINUS, rp_hop = None, rp_reason = []\<rparr>"

text \<open>\<open>failed_reason or 'push_failed'\<close>\<close>

definition reason_or_default :: "string option \<Rightarrow> string" where
  "reason_or_default r = (case r of None \<Rightarrow> ''push_failed'' | Some x \<Rightarrow> if x = [] then ''push_failed'' else x)"

definition router_fail :: "'r env \<Rightarrow> accepted_forward \<Rightarrow> uid \<Rightarrow> string option \<Rightarrow> 'r ctx \<Rightarrow> exn option \<times> 'r ctx" where
  "router_fail env af u reason cx =
     (let r = reason_or_default reason;
          cx1 = cx_emit (RouterFail u r) cx
      in case en_router_fail env (cx_log cx) (bm_trainer_uid (af_metadata af)) (af_seq af) u r (cx_router cx) of
           Inl e \<Rightarrow> (Some e, cx1)
         | Inr rt \<Rightarrow> (None, cx1\<lparr>cx_router := rt\<rparr>))"

definition router_resolve :: "'r env \<Rightarrow> accepted_forward \<Rightarrow> real \<Rightarrow> uid set \<Rightarrow> 'r ctx \<Rightarrow> (exn + w2w_reply) \<times> 'r ctx" where
  "router_resolve env af task_size exclude cx =
     (case en_router_resolve env (cx_log cx) (bm_trainer_uid (af_metadata af)) (af_seq af) task_size exclude (cx_router cx) of
        Inl e \<Rightarrow> (Inl e, cx)
      | Inr (res, rt) \<Rightarrow> (Inr (reply_of res), cx\<lparr>cx_router := rt\<rparr>))"

definition resolve_next_hop :: "dwconfig \<Rightarrow> 'r env \<Rightarrow> accepted_forward \<Rightarrow> uid \<Rightarrow> real \<Rightarrow> uid option
    \<Rightarrow> string option \<Rightarrow> uid set \<Rightarrow> 'r ctx \<Rightarrow> (exn + w2w_reply) \<times> 'r ctx" where
  "resolve_next_hop cfg env af current_uid task_size failed_uid failed_reason exclude cx0 =
     (let cx = cx_emit (ResolveCall failed_uid failed_reason exclude) cx0; md = af_metadata af
      in if dc_trainerless cfg then
           (if \<not> dc_has_router cfg then (Inr (reply_of Terminus), cx)
            else
              case failed_uid of
                None \<Rightarrow> router_resolve env af task_size exclude cx
              | Some u \<Rightarrow>
                  (case router_fail env af u failed_reason cx of
                     (Some e, cx1) \<Rightarrow> (Inl e, cx1)
                   | (None, cx1) \<Rightarrow> router_resolve env af task_size exclude cx1))
         else
           (case en_coordinator env (cx_log cx) (the (bm_trainer_peer_id md))
                 (build_resolve_request (en_dumps env) (bm_trainer_uid md) (af_seq af) current_uid task_size failed_uid failed_reason) of
              Inl e \<Rightarrow> (Inl e, cx)
            | Inr raw \<Rightarrow> (Inr (parse_resolve_response (en_loads env) (en_str env) raw), cx)))"

section \<open>Pushing\<close>

definition MAX_UNARY_PAYLOAD_SIZE :: nat where
  "MAX_UNARY_PAYLOAD_SIZE = 4 * 1024 ^ 2 div 2"

definition call_push_rpc :: "'r env \<Rightarrow> event list \<Rightarrow> dirn \<Rightarrow> w2w_hop \<Rightarrow> bytes \<Rightarrow> nat \<Rightarrow> exn + push_status \<times> string" where
  "call_push_rpc env tr dir h metadata nbytes =
     (if nbytes \<le> MAX_UNARY_PAYLOAD_SIZE then
        (case en_unary env tr dir h metadata of
           Inl e \<Rightarrow> Inl e
         | Inr raw \<Rightarrow> Inr (parse_push_response (en_loads env) raw))
      else
        (case en_stream env tr dir h metadata of
           Inl e \<Rightarrow> Inl e
         | Inr None \<Rightarrow> Inr (DROP, ''empty stream response'')
         | Inr (Some raw) \<Rightarrow> Inr (parse_push_response (en_loads env) raw)))"

text \<open>The body of the \<open>try\<close> of a push: dial, then call.\<close>

definition push_once :: "'r env \<Rightarrow> dirn \<Rightarrow> w2w_hop \<Rightarrow> bytes \<Rightarrow> nat \<Rightarrow> 'r ctx
    \<Rightarrow> (exn + push_status \<times> string) \<times> 'r ctx" where
  "push_once env dir h metadata nbytes cx =
     (let out = (case en_connect env (cx_log cx) h of
                   Some e \<Rightarrow> Inl e
                 | None \<Rightarrow> call_push_rpc env (cx_log cx) dir h metadata nbytes)
      in (out, cx_emit (Pushed dir h out) cx))"

text \<open>
  What one attempt of \<open>_push_forward_with_retries\<close> leads to: it ends with a result or an exception, or
  the loop goes on with a failure to report. \<open>pending\<close> is (\<open>failed_uid\<close>, \<open>failed_reason\<close>).
\<close>

type_synonym pending = "uid option \<times> string option"

datatype attempt = Finished "exn + bool" pending | Again uid string

definition attempt_hop :: "(exn + w2w_reply) option \<Rightarrow> dwconfig \<Rightarrow> 'r env \<Rightarrow> accepted_forward \<Rightarrow> uid \<Rightarrow> real
    \<Rightarrow> pending \<Rightarrow> uid set \<Rightarrow> 'r ctx \<Rightarrow> (exn + w2w_reply) \<times> pending \<times> 'r ctx" where
  "attempt_hop prefetched cfg env af current_uid task_size pending exclude cx =
     (case prefetched of
        Some r \<Rightarrow> (r, pending, cx)
      | None \<Rightarrow>
          (case resolve_next_hop cfg env af current_uid task_size (fst pending) (snd pending) exclude cx of
             (Inl e, cx1) \<Rightarrow> (Inl e, pending, cx1)
           | (Inr r, cx1) \<Rightarrow> (Inr r, (None, None), cx1)))"

definition push_to_hop :: "'r env \<Rightarrow> bytes \<Rightarrow> nat \<Rightarrow> (exn + w2w_reply) \<Rightarrow> pending \<Rightarrow> 'r ctx \<Rightarrow> attempt \<times> 'r ctx" where
  "push_to_hop env metadata nbytes hop pending cx =
     (case hop of
        Inl e \<Rightarrow> (Finished (Inl e) pending, cx)
      | Inr r \<Rightarrow>
          if rp_status r \<noteq> PStr ''hop'' then (Finished (Inr False) pending, cx)
          else
            case rp_hop r of
              None \<Rightarrow> (Finished (Inr False) pending, cx)
            | Some h \<Rightarrow>
                (case push_once env Fwd h metadata nbytes cx of
                   (Inr (ACCEPTED, reason), cx1) \<Rightarrow> (Finished (Inr True) pending, cx_bump ''forward_pushes'' cx1)
                 | (Inr (BUSY, reason), cx1) \<Rightarrow> (Again (hp_uid h) ''busy'', cx_bump ''busy_retries'' cx1)
                 | (Inr (DROP, reason), cx1) \<Rightarrow>
                     (Again (hp_uid h) (if reason \<noteq> [] then reason else push_name DROP), cx_bump ''busy_retries'' cx1)
                 | (Inl e, cx1) \<Rightarrow>
                     (Again (hp_uid h) e, cx_bump (''push_fail:'' @ hp_uid h) (cx_bump ''push_errors'' cx1))))"

text \<open>The loop. \<open>None\<close>: it was still running when the fuel ran out.\<close>

fun push_loop :: "nat \<Rightarrow> dwconfig \<Rightarrow> 'r env \<Rightarrow> accepted_forward \<Rightarrow> uid \<Rightarrow> bytes \<Rightarrow> nat \<Rightarrow> real \<Rightarrow> time
    \<Rightarrow> (exn + w2w_reply) option \<Rightarrow> pending \<Rightarrow> uid set \<Rightarrow> 'r ctx \<Rightarrow> ((exn + bool) \<times> pending \<times> 'r ctx) option" where
  "push_loop 0 cfg env af current_uid metadata nbytes task_size deadline prefetched pending exclude cx = None"
| "push_loop (Suc n) cfg env af current_uid metadata nbytes task_size deadline prefetched pending exclude cx =
     (let cx0 = cx_emit ReadClock cx
      in if \<not> en_clock env (cx_log cx) < deadline then Some (Inr False, pending, cx0)
         else
           case attempt_hop prefetched cfg env af current_uid task_size pending exclude cx0 of
             (hop, pending1, cx1) \<Rightarrow>
               (case push_to_hop env metadata nbytes hop pending1 cx1 of
                  (Finished out pending2, cx2) \<Rightarrow> Some (out, pending2, cx2)
                | (Again u reason, cx2) \<Rightarrow>
                    push_loop n cfg env af current_uid metadata nbytes task_size deadline None
                      (Some u, Some reason) (insert u exclude) cx2))"

text \<open>The whole call, with the report to the router in its \<open>finally\<close> clause.\<close>

definition push_forward_with_retries :: "nat \<Rightarrow> dwconfig \<Rightarrow> 'r env \<Rightarrow> accepted_forward \<Rightarrow> uid \<Rightarrow> bytes \<Rightarrow> nat
    \<Rightarrow> real \<Rightarrow> (exn + w2w_reply) option \<Rightarrow> 'r ctx \<Rightarrow> ((exn + bool) \<times> 'r ctx) option" where
  "push_forward_with_retries fuel cfg env af current_uid metadata nbytes task_size prefetched cx =
     (let failed_uid = bm_next_hop_uid (af_metadata af);
          exclude = (case failed_uid of None \<Rightarrow> {} | Some u \<Rightarrow> if u = [] then {} else {u})
      in case push_loop fuel cfg env af current_uid metadata nbytes task_size
             (en_clock env (cx_log cx) + dc_forward_timeout cfg) prefetched (failed_uid, None) exclude
             (cx_emit ReadClock cx) of
           None \<Rightarrow> None
         | Some (out, (None, _), cx1) \<Rightarrow> Some (out, cx1)
         | Some (out, (Some u, reason), cx1) \<Rightarrow>
             if dc_trainerless cfg \<and> dc_has_router cfg then
               (case router_fail env af u reason cx1 of
                  (None, cx2) \<Rightarrow> Some (out, cx2)
                | (Some e, cx2) \<Rightarrow> Some (Inl e, cx2))
             else Some (out, cx1))"

definition push_backward :: "'r env \<Rightarrow> accepted_forward \<Rightarrow> w2w_hop \<Rightarrow> nat \<Rightarrow> 'r ctx \<Rightarrow> bool \<times> 'r ctx" where
  "push_backward env af h nbytes cx =
     (let bwd_md = (af_metadata af)\<lparr>bm_next_hop_uid := None, bm_next_hop_peer_id := None,
            bm_prev_hop_uid := None, bm_prev_hop_peer_id := None, bm_prev_hop_maddrs := None\<rparr>
      in case push_once env Bwd h (bm_to_bytes (en_dumps env) bwd_md) nbytes cx of
           (Inr (ACCEPTED, _), cx1) \<Rightarrow> (True, cx_bump ''backward_pushes'' cx1)
         | (Inr (_, _), cx1) \<Rightarrow> (False, cx1)
         | (Inl e, cx1) \<Rightarrow> (False, cx_bump (''push_fail:'' @ hp_uid h) (cx_bump ''push_errors'' cx1)))"

section \<open>The handlers\<close>

definition pop_prev_hop :: "uid \<Rightarrow> accepted_forward \<Rightarrow> 'r ctx \<Rightarrow> (uid \<times> peer \<times> string list) option \<times> 'r ctx" where
  "pop_prev_hop u af cx =
     (let k = (u, bm_trainer_uid (af_metadata af), af_seq af); s = cx_driver cx
      in (dict_get (dw_prev_hops s) k, cx\<lparr>cx_driver := s\<lparr>dw_prev_hops := dict_del k (dw_prev_hops s)\<rparr>\<rparr>))"

text \<open>\<open>if not ok: await self.report_event(DROPPED)\<close>, at the end of the body of a handler.\<close>

definition drop_unless :: "dwconfig \<Rightarrow> 'r env \<Rightarrow> accepted_forward \<Rightarrow> uid \<Rightarrow> string \<Rightarrow> bool \<times> 'r ctx \<Rightarrow> exn option \<times> 'r ctx" where
  "drop_unless cfg env af u reason r =
     (if fst r then (None, snd r) else report_event cfg env af RK_DROPPED u None None (Some reason) (snd r))"

definition mean_loss :: "nd \<Rightarrow> real" where
  "mean_loss t = sum_list (nd_vals t) / real (length (nd_vals t))"

definition handle_tail_forward :: "dwconfig \<Rightarrow> 'r env \<Rightarrow> accepted_forward \<Rightarrow> uid \<Rightarrow> nd \<Rightarrow> nd \<Rightarrow> nd list
    \<Rightarrow> 'r ctx \<Rightarrow> exn option \<times> 'r ctx" where
  "handle_tail_forward cfg env af u loss_per_token grad_hidden forward_inputs cx =
     (case report_event cfg env af RK_LOSS u None (Some (mean_loss loss_per_token)) None cx of
        (Some e, cx1) \<Rightarrow> (Some e, cx1)
      | (None, cx1) \<Rightarrow>
          let is_train = (3 \<le> length forward_inputs \<and> list_ex (\<lambda>x. x \<noteq> 0) (nd_vals (forward_inputs ! 2)));
              (prev, cx2) = pop_prev_hop u af cx1
          in case (is_train, prev) of
               (True, Some (pu, pp, ms)) \<Rightarrow>
                 (case en_serialize env (cx_log cx2) [grad_hidden] of
                    Inl e \<Rightarrow> (Some e, cx2)
                  | Inr nbytes \<Rightarrow>
                      drop_unless cfg env af u ''tail backward push failed''
                        (push_backward env af \<lparr>hp_uid = pu, hp_peer_id = pp, hp_maddrs = ms\<rparr> nbytes cx2))
             | _ \<Rightarrow> report_event cfg env af RK_DONE u None None None cx2)"

text \<open>The \<open>except\<close> and \<open>finally\<close> clauses of the handlers.\<close>

definition finish_handler :: "dwconfig \<Rightarrow> 'r env \<Rightarrow> accepted_forward \<Rightarrow> uid \<Rightarrow> string \<Rightarrow> exn option \<times> 'r ctx \<Rightarrow> 'r ctx" where
  "finish_handler cfg env af u what r =
     (let cx = (case r of
                  (None, cx) \<Rightarrow> cx
                | (Some e, cx) \<Rightarrow> safe_report_drop cfg env af u (what @ '' failed: '' @ e) cx)
      in cx\<lparr>cx_driver := dw_release (af_key af) (cx_driver cx)\<rparr>)"

definition forward_body :: "nat \<Rightarrow> dwconfig \<Rightarrow> 'r env \<Rightarrow> accepted_forward \<Rightarrow> uid \<Rightarrow> nd list \<Rightarrow> nd list \<Rightarrow> nat
    \<Rightarrow> peer \<Rightarrow> string list \<Rightarrow> (exn + w2w_reply) option \<Rightarrow> 'r ctx \<Rightarrow> (exn option \<times> 'r ctx) option" where
  "forward_body fuel cfg env af u forward_inputs passthrough passthrough_nbytes this_peer_id this_maddrs prefetched cx =
     (let md = af_metadata af; cx1 = cx_emit (Computed Fwd) cx
      in case en_compute env (cx_log cx) Fwd of
           Inl e \<Rightarrow> Some (Some e, cx1)
         | Inr outs \<Rightarrow>
             let cx2 = spawn_receipt cfg md u cx1
             in if length outs = 2 \<and> 3 \<le> length forward_inputs \<and> passthrough = []
                then Some (handle_tail_forward cfg env af u (outs ! 0) (outs ! 1) forward_inputs cx2)
                else
                  case en_serialize env (cx_log cx2) outs of
                    Inl e \<Rightarrow> Some (Some e, cx2)
                  | Inr nbytes \<Rightarrow>
                      let next_md = md\<lparr>bm_next_hop_uid := None, bm_next_hop_peer_id := None,
                            bm_prev_hop_uid := Some u, bm_prev_hop_peer_id := Some this_peer_id,
                            bm_prev_hop_maddrs := Some this_maddrs\<rparr>
                      in case push_forward_with_retries fuel cfg env af u (bm_to_bytes (en_dumps env) next_md)
                             (nbytes + passthrough_nbytes) (task_size_of (outs @ passthrough)) prefetched cx2 of
                           None \<Rightarrow> None
                         | Some (Inl e, cx3) \<Rightarrow> Some (Some e, cx3)
                         | Some (Inr ok, cx3) \<Rightarrow> Some (drop_unless cfg env af u ''forward push failed'' (ok, cx3)))"

definition handle_forward :: "nat \<Rightarrow> dwconfig \<Rightarrow> 'r env \<Rightarrow> accepted_forward \<Rightarrow> uid \<Rightarrow> nd list \<Rightarrow> nd list \<Rightarrow> nat
    \<Rightarrow> peer \<Rightarrow> string list \<Rightarrow> 'r ctx \<Rightarrow> 'r ctx option" where
  "handle_forward fuel cfg env af u forward_inputs passthrough passthrough_nbytes this_peer_id this_maddrs cx =
     (let is_tail_stage = (3 \<le> length forward_inputs \<and> passthrough = []);
          (prefetched, cx1) =
            (if is_tail_stage then (None, cx)
             else case resolve_next_hop cfg env af u (task_size_of forward_inputs) None None {} cx of
                    (r, c) \<Rightarrow> (Some r, c))
      in map_option (finish_handler cfg env af u ''forward'')
           (forward_body fuel cfg env af u forward_inputs passthrough passthrough_nbytes this_peer_id this_maddrs prefetched cx1))"

definition backward_body :: "dwconfig \<Rightarrow> 'r env \<Rightarrow> accepted_forward \<Rightarrow> uid \<Rightarrow> 'r ctx \<Rightarrow> exn option \<times> 'r ctx" where
  "backward_body cfg env af u cx =
     (let cx1 = cx_emit (Computed Bwd) cx
      in case en_compute env (cx_log cx) Bwd of
           Inl e \<Rightarrow> (Some e, cx1)
         | Inr grads \<Rightarrow>
             (case pop_prev_hop u af cx1 of
                (None, cx2) \<Rightarrow>
                  (case report_event cfg env af RK_DONE u None None None cx2 of
                     (Some e, cx3) \<Rightarrow> (Some e, cx3)
                   | (None, cx3) \<Rightarrow> (None, cx_bump ''backward_done'' cx3))
              | (Some (pu, pp, ms), cx2) \<Rightarrow>
                  (case en_serialize env (cx_log cx2) grads of
                     Inl e \<Rightarrow> (Some e, cx2)
                   | Inr nbytes \<Rightarrow>
                       drop_unless cfg env af u ''backward push failed''
                         (push_backward env af \<lparr>hp_uid = pu, hp_peer_id = pp, hp_maddrs = ms\<rparr> nbytes cx2))))"

definition handle_backward :: "dwconfig \<Rightarrow> 'r env \<Rightarrow> accepted_forward \<Rightarrow> uid \<Rightarrow> 'r ctx \<Rightarrow> 'r ctx" where
  "handle_backward cfg env af u cx = finish_handler cfg env af u ''backward'' (backward_body cfg env af u cx)"

end
