(* ===== verification/BalancerProps.thy ===== *)
theory BalancerProps
  imports BalancerFacts
begin

text \<open>
  The balancer as a transition system over its locked sections and the rounds of the update thread,
  and its properties: who is granted, what a ban achieves, which experts a trainer's window holds.
\<close>

section \<open>The remaining operations keep the invariant\<close>

lemma eb_set_blacklist_inv [inv_intros]:
  "eb_inv s \<Longrightarrow> ts_plain bl \<Longrightarrow> eb_inv (s\<lparr>eb_blacklist := bl\<rparr>)"
  by (simp add: eb_inv_with_def eb_entry_ok_def)

lemma eb_flags_inv [simp]:
  "eb_inv (s\<lparr>eb_update_trigger := b\<rparr>) = eb_inv s" "eb_inv (s\<lparr>eb_update_finished := b\<rparr>) = eb_inv s"
  "eb_inv (s\<lparr>eb_last_update := x\<rparr>) = eb_inv s" "eb_inv (s\<lparr>eb_last_full_refresh := x\<rparr>) = eb_inv s"
  "eb_inv (s\<lparr>eb_selected_experts := l\<rparr>) = eb_inv s" "eb_inv (s\<lparr>eb_is_alive := b\<rparr>) = eb_inv s"
  by (simp_all add: eb_inv_with_def eb_entry_ok_def)

lemma eb_reserve_another_spec:
  assumes "eb_inv s"
  shows "\<exists>g t. eb_reserve_another now start rnd task_size exclude block s = Inr (g, t) \<and> eb_inv t
    \<and> eb_selected now start rnd task_size exclude s g t"
proof -
  obtain g t where g: "eb_reserve_scan now start rnd task_size exclude [] (eb_queue s) s = Inr (g, t)" "eb_inv t"
    "eb_selected now start rnd task_size exclude s g t"
    using eb_reserve_scan_spec [OF assms refl, of exclude] by force
  then show ?thesis by (cases g) (auto simp: eb_reserve_another_def eb_selected_def)
qed

lemma eb_reserve_specific_inv:
  assumes "eb_inv s" and "eb_reserve_specific now start rnd u w strict s = Inr (r, t)"
  shows "eb_inv t"
proof -
  let ?s1 = "s\<lparr>eb_experts := snd (ts_get now u (eb_experts s))\<rparr>"
  have inv1: "eb_inv ?s1" by (rule eb_touch_inv [OF assms(1)])
  show ?thesis
  proof (cases "fst (ts_get now u (eb_experts s)) = None \<or> dict_get (eb_uid_to_queue s) u = None")
    case True
    then show ?thesis using assms(2) inv1
      by (auto simp: eb_reserve_specific_def Let_def case_prod_unfold split: option.splits if_splits)
  next
    case False
    then obtain ep x e where e: "fst (ts_get now u (eb_experts s)) = Some (ep, x)"
      "dict_get (eb_uid_to_queue s) u = Some e" by (metis old.prod.exhaust option.exhaust)
    obtain d where "eb_expected_time_taken u w ?s1 = Inr d"
      using eb_expected_Inr [OF inv1, of u e] e(2) by auto
    then have "t = eb_charge rnd u (fst e + d) ?s1"
      using assms(2) e by (simp add: eb_reserve_specific_def Let_def case_prod_unfold eb_reserve_queue_entry_eq)
    then show ?thesis using eb_charge_inv [OF inv1, of u e] e(2) by simp
  qed
qed

lemma eb_use_specific_inv:
  assumes "eb_inv s" and "eb_use_specific_select now rnd u w strict s = Inr (r, t)"
  shows "eb_inv t"
proof -
  let ?s1 = "s\<lparr>eb_experts := snd (ts_get now u (eb_experts s))\<rparr>"
  have inv1: "eb_inv ?s1" by (rule eb_touch_inv [OF assms(1)])
  show ?thesis
  proof (cases "fst (ts_get now u (eb_experts s)) = None \<or> dict_get (eb_uid_to_queue s) u = None")
    case True
    then show ?thesis using assms(2) inv1
      by (auto simp: eb_use_specific_select_def Let_def case_prod_unfold split: option.splits if_splits)
  next
    case False
    then obtain ep x e where e: "fst (ts_get now u (eb_experts s)) = Some (ep, x)"
      "dict_get (eb_uid_to_queue s) u = Some e" by (metis old.prod.exhaust option.exhaust)
    obtain d where d: "eb_expected_time_taken u w ?s1 = Inr d"
      using eb_expected_Inr [OF inv1, of u e] e(2) by auto
    have "t = eb_charge rnd u (fst e + d) ?s1"
      using assms(2) e d by (simp add: eb_use_specific_select_def Let_def case_prod_unfold eb_charge_def)
    then show ?thesis using eb_charge_inv [OF inv1, of u e] e(2) by simp
  qed
qed

lemma eb_use_another_inv:
  assumes "eb_inv s" and "eb_use_another_select now rnd w s = Inr (g, t)"
  shows "eb_inv t"
proof -
  obtain g' t' where "eb_reserve_scan now 0 rnd w {} [] (eb_queue s) s = Inr (g', t')" "eb_inv t'"
    using eb_reserve_scan_spec [OF assms(1) refl, of "{}"] by force
  then show ?thesis
    using assms(2) by (cases g') (auto simp: eb_use_another_select_def eb_use_scan_eq [of now rnd w _ s 0] eb_as_use_def)
qed

lemma eb_settle_inv:
  assumes "eb_inv s" and "eb_settle_reservation now r ok s = Inr t"
  shows "eb_inv t"
proof (cases "ok \<and> dict_get (eb_throughputs s) (rs_uid r) \<noteq> None")
  case True
  then obtain w where w: "dict_get (eb_throughputs s) (rs_uid r) = Some w" by blast
  then obtain w' where w': "ema_update (rs_task_size r) (Some (max (now - rs_started_at r) (1 / 10 ^ 9))) now w = Inr w'"
    "t = eb_mark_successful_batch (rs_uid r) (s\<lparr>eb_throughputs := dict_set (rs_uid r) w' (eb_throughputs s)\<rparr>)"
    using assms(2) True by (auto simp: eb_settle_reservation_def split: sum.splits)
  have "ema_good w'" using ema_update_good w'(1) eb_inv_withD(6) [OF assms(1) w] by blast
  then show ?thesis unfolding w'(2) by (intro eb_mark_successful_inv eb_set_throughput_inv assms(1))
qed (use assms in \<open>auto simp: eb_settle_reservation_def split: if_splits\<close>)

lemma eb_mark_throughputs [simp]: "eb_throughputs (eb_mark_successful_batch u s) = eb_throughputs s"
  using eb_mark_successful_eq [of u s] by auto

lemma eb_finish_use_inv:
  assumes "eb_inv s"
  shows "eb_inv (snd (eb_finish_use start now u w res s))"
proof (cases "res = UseOk \<and> dict_get (eb_throughputs s) u \<noteq> None")
  case True
  then obtain q where q: "dict_get (eb_throughputs s) u = Some q" by blast
  have inv1: "eb_inv (eb_mark_successful_batch u s)" by (rule eb_mark_successful_inv [OF assms])
  show ?thesis
  proof (cases "ema_update_threadsafe w start now q")
    case (Inl err)
    then show ?thesis using True q inv1 by (simp add: eb_finish_use_def)
  next
    case (Inr q')
    then have "ema_good q'"
      using ema_update_good eb_inv_withD(6) [OF assms q] unfolding ema_update_threadsafe_def by blast
    then have "eb_inv ((eb_mark_successful_batch u s)\<lparr>eb_throughputs :=
        dict_set u q' (eb_throughputs (eb_mark_successful_batch u s))\<rparr>)"
      by (rule eb_set_throughput_inv [OF inv1])
    then show ?thesis using True q Inr by (simp add: eb_finish_use_def)
  qed
next
  case False
  then show ?thesis using assms eb_ban_expert_inv [OF assms]
    by (cases res) (simp_all add: eb_finish_use_def)
qed

lemma eb_items_inv [inv_intros]:
  assumes "eb_inv s"
  shows "eb_inv (s\<lparr>eb_experts := ts_remove_outdated now (eb_experts s)\<rparr>)"
  using eb_touch_inv [OF assms, of now "[]"] by (simp add: ts_get_def Let_def)

lemma eb_unban_inv [inv_intros]:
  assumes "eb_inv s"
  shows "eb_inv (snd (eb_check_and_unban now u ep s))"
  using ts_map.touch_ok [OF eb_inv_withD(3) [OF assms], of now u]
  by (auto simp: eb_check_and_unban_def Let_def case_prod_unfold split: option.split
      intro!: eb_set_blacklist_inv assms ts_plain_del)

lemma eb_admit_inv [inv_intros]:
  assumes "eb_inv s"
  shows "eb_inv (snd (eb_admit now ma u ep x s))"
proof -
  have "eb_inv (snd (eb_check_and_unban now u ep s))" by (rule eb_unban_inv [OF assms])
  then show ?thesis
    using ts_plain_store [OF eb_inv_withD(3)]
    by (simp add: eb_admit_def Let_def case_prod_unfold eb_set_blacklist_inv)
qed

lemma eb_subset_refresh_inv [inv_intros]: "eb_inv s \<Longrightarrow> eb_inv (eb_subset_refresh now rnd ma ans us s)"
proof (induction us arbitrary: s)
  case (Cons u us)
  have "eb_inv (case ans u of None \<Rightarrow> eb_evict_expert u s
      | Some (endpoint, phase, x) \<Rightarrow> if phase = PHASE1 then s
          else case eb_admit now ma u endpoint x s of
            (None, s1) \<Rightarrow> s1 | (Some _, s1) \<Rightarrow> eb_add_expert now (rnd u) u endpoint x s1)"
    using Cons.prems eb_admit_inv [OF Cons.prems, of now ma u]
    by (auto simp: eb_evict_expert_inv split: option.split prod.split intro: eb_add_expert_inv)
      (metis snd_conv eb_add_expert_inv)+
  from Cons.IH [OF this] show ?case by simp
qed simp

lemma eb_collect_inv [inv_intros]: "eb_inv s \<Longrightarrow> eb_inv (snd (eb_collect now ma es s))"
proof (induction es arbitrary: s)
  case (Cons a es)
  then show ?case
  proof (cases a)
    case (Some q)
    obtain u ep ph x where "q = (u, ep, ph, x)" by (cases q) auto
    then show ?thesis using Cons Some by (simp add: Let_def case_prod_unfold eb_admit_inv)
  qed simp
qed simp

lemma eb_add_all_inv [inv_intros]: "eb_inv s \<Longrightarrow> eb_inv (eb_add_all now rnd xs s)"
  by (induction xs arbitrary: s) (auto simp: eb_add_all_def intro: eb_add_expert_inv)

lemma eb_clear_inv [inv_intros]:
  assumes "eb_inv s"
  shows "eb_inv (s\<lparr>eb_experts := ts_clear (eb_experts s), eb_uid_to_queue := [], eb_queue := []\<rparr>)"
  using assms ts_plain_clear [OF eb_inv_withD(2) [OF assms]] by (simp add: eb_inv_with_def) (simp add: ts_clear_def)

lemma eb_full_refresh_inv:
  assumes "eb_inv s" and "eb_full_refresh now rnd ma resp s = Inr t"
  shows "eb_inv t"
proof (cases resp)
  case None
  with assms show ?thesis by (simp add: eb_full_refresh_def)
next
  case (Some es)
  have inv1: "eb_inv (snd (eb_collect now ma es s))" by (rule eb_collect_inv [OF assms(1)])
  have inv2: "eb_inv ((snd (eb_collect now ma es s))\<lparr>eb_selected_experts := sel,
      eb_experts := ts_clear (eb_experts (snd (eb_collect now ma es s))), eb_uid_to_queue := [], eb_queue := []\<rparr>)" for sel
    using eb_clear_inv [of "(snd (eb_collect now ma es s))\<lparr>eb_selected_experts := sel\<rparr>"] inv1 by simp
  show ?thesis
    using assms(2) Some eb_add_all_inv [OF inv1] eb_add_all_inv [OF inv2]
    by (auto simp: eb_full_refresh_def Let_def case_prod_unfold split: option.splits if_splits sum.splits)
qed

lemma eb_update_round_inv:
  assumes "eb_inv s" and "eb_update_round now rnd rnd' ma ans resp s = Inr t"
  shows "eb_inv t"
proof -
  let ?s1 = "eb_subset_phase now rnd ma ans s"
  have "eb_inv ?s1" using assms(1) by (simp add: eb_subset_phase_def Let_def eb_subset_refresh_inv)
  then have inv2: "eb_inv (?s1\<lparr>eb_experts := ts_remove_outdated now (eb_experts ?s1)\<rparr>)" by (rule eb_items_inv)
  show ?thesis
    using assms(2) eb_full_refresh_inv [OF inv2] inv2
    by (auto simp: eb_update_round_def Let_def case_prod_unfold ts_len_def split: sum.splits if_splits)
qed

section \<open>The balancer as a transition system\<close>

inductive eb_step :: "balancer \<Rightarrow> balancer \<Rightarrow> bool" where
  eb_step_reserve: "eb_reserve_another now start rnd w ex block s = Inr (g, t) \<Longrightarrow> eb_step s t"
| eb_step_specific: "eb_reserve_specific now start rnd u w strict s = Inr (r, t) \<Longrightarrow> eb_step s t"
| eb_step_settle: "eb_settle_reservation now r ok s = Inr t \<Longrightarrow> eb_step s t"
| eb_step_use: "eb_use_another_select now rnd w s = Inr (g', t) \<Longrightarrow> eb_step s t"
| eb_step_use_specific: "eb_use_specific_select now rnd u w strict s = Inr (r', t) \<Longrightarrow> eb_step s t"
| eb_step_finish: "eb_step s (snd (eb_finish_use start now u w res s))"
| eb_step_short_ban: "eb_step s (eb_short_ban now u s)"
| eb_step_snapshot: "eb_step s (snd (eb_snapshot_experts now s))"
| eb_step_peek: "eb_step s (snd (eb_peek_least_loaded now s))"
| eb_step_round: "eb_update_round now rnd0 rnd1 ma ans resp s = Inr t \<Longrightarrow> eb_step s t"
| eb_step_shutdown: "eb_step s (eb_shutdown s)"

inductive_cases eb_stepE: "eb_step s t"

lemma eb_step_inv: "eb_step s t \<Longrightarrow> eb_inv s \<Longrightarrow> eb_inv t"
proof (induction rule: eb_step.induct)
  case (eb_step_reserve now start rnd w ex block s g t)
  then show ?case using eb_reserve_another_spec [of s now start rnd w ex block] by auto
next
  case (eb_step_snapshot s now)
  then show ?case using eb_items_inv [of s now]
    by (simp add: eb_snapshot_experts_def ts_items_def Let_def)
next
  case (eb_step_peek s now)
  then show ?case using eb_items_inv [of s now]
    by (simp add: eb_peek_least_loaded_def ts_items_def Let_def)
qed (auto simp: eb_short_ban_def eb_shutdown_def intro: eb_reserve_specific_inv eb_settle_inv eb_use_another_inv
    eb_use_specific_inv eb_finish_use_inv eb_ban_expert_inv eb_update_round_inv)

interpretation eb_sys: transitions "\<lambda>s. \<exists>cfg now. eb_cfg_ok cfg \<and> s = eb_new cfg now" eb_step eb_inv
  by unfold_locales (auto intro: eb_new_inv eb_step_inv)

section \<open>The views\<close>

lemma eb_sweep_lookup:
  assumes "eb_inv s"
  shows "dict_get (ts_data (ts_remove_outdated now (eb_experts s))) u = ts_look now (eb_experts s) u"
  by (simp add: ts_look_def ts_get_def Let_def)

text \<open>Keeping the first of the least elements seen so far.\<close>

definition keep_least :: "('a \<Rightarrow> real) \<Rightarrow> 'a option \<Rightarrow> 'a \<Rightarrow> 'a option" where
  "keep_least f b x = (if b = None \<or> f x < f (the b) then Some x else b)"

lemma keep_least_foldl:
  "\<exists>y. foldl (keep_least f) (Some x) xs = Some y \<and> y \<in> set (x # xs) \<and> (\<forall>z \<in> set (x # xs). f y \<le> f z)"
proof (induction xs arbitrary: x)
  case (Cons z xs)
  define x' where "x' = (if f z < f x then z else x)"
  obtain y where y: "foldl (keep_least f) (Some x') xs = Some y" "y \<in> set (x' # xs)"
    "\<forall>w \<in> set (x' # xs). f y \<le> f w" using Cons by blast
  have "foldl (keep_least f) (Some x) (z # xs) = Some y" using y(1) by (simp add: keep_least_def x'_def split: if_splits)
  moreover have "y \<in> set (x # z # xs)" using y(2) by (auto simp: x'_def split: if_splits)
  moreover have "f y \<le> f x'" using y(3) by simp
  then have "\<forall>w \<in> set (x # z # xs). f y \<le> f w" using y(3) by (auto simp: x'_def split: if_splits)
  ultimately show ?case by blast
qed simp

fun eb_candidates :: "(uid, qentry) dict \<Rightarrow> (uid \<times> peer \<times> time) list \<Rightarrow> (real \<times> uid \<times> peer) list" where
  "eb_candidates u2q [] = []"
| "eb_candidates u2q (it # items) =
     (case dict_get u2q (fst it) of
        None \<Rightarrow> eb_candidates u2q items
      | Some e \<Rightarrow> (fst e, fst it, fst (snd it)) # eb_candidates u2q items)"

lemma eb_better_candidates:
  "foldl (eb_better u2q) b items = foldl (keep_least fst) b (eb_candidates u2q items)"
proof (induction items arbitrary: b)
  case (Cons it items)
  then show ?case by (cases "dict_get u2q (fst it)") (simp_all add: eb_better_def keep_least_def)
qed simp

lemma eb_candidates_set:
  "c \<in> set (eb_candidates u2q items) \<longleftrightarrow>
     (\<exists>it e. it \<in> set items \<and> dict_get u2q (fst it) = Some e \<and> c = (fst e, fst it, fst (snd it)))"
  by (induction items) (auto split: option.splits)

lemma eb_peek_spec:
  assumes inv: "eb_inv s"
  shows "case fst (eb_peek_least_loaded now s) of
      None \<Rightarrow> \<forall>u e. \<not> eb_offer now {} s u e
    | Some (u, p) \<Rightarrow> eb_endpoint now s u = Some p
        \<and> (\<exists>e. eb_offer now {} s u e \<and> (\<forall>u' e'. eb_offer now {} s u' e' \<longrightarrow> fst e \<le> fst e'))"
proof -
  let ?ex = "ts_remove_outdated now (eb_experts s)"
  let ?cs = "eb_candidates (eb_uid_to_queue s) (ts_data ?ex)"
  have peek: "fst (eb_peek_least_loaded now s) = map_option snd (foldl (keep_least fst) None ?cs)"
    by (simp add: eb_peek_least_loaded_def ts_items_def Let_def eb_better_candidates)
  have "dict_ok (ts_data ?ex)"
    using ts_plain_sweep [OF eb_inv_withD(2) [OF inv]] by (simp add: ts_plain_def ts_inv_def)
  then have data: "(u, v, x) \<in> set (ts_data ?ex) \<longleftrightarrow> ts_look now (eb_experts s) u = Some (v, x)" for u v x
    by (simp add: eb_sweep_lookup [OF inv, symmetric] map_of_eq_Some_iff)
  have cs: "(r, u, p) \<in> set ?cs \<longleftrightarrow>
      (\<exists>e. eb_offer now {} s u e \<and> r = fst e \<and> eb_endpoint now s u = Some p)" for r u p
  proof -
    have "(r, u, p) \<in> set ?cs \<longleftrightarrow>
        (\<exists>x e. (u, p, x) \<in> set (ts_data ?ex) \<and> dict_get (eb_uid_to_queue s) u = Some e \<and> r = fst e)"
      unfolding eb_candidates_set by force
    then show ?thesis unfolding data eb_offer_def eb_endpoint_def by auto
  qed
  have offered: "\<exists>p. (fst e, u, p) \<in> set ?cs" if "eb_offer now {} s u e" for u e
    using that unfolding cs by (auto simp: eb_offer_def)
  show ?thesis
  proof (cases ?cs)
    case Nil
    then show ?thesis using offered by (simp add: peek) blast
  next
    case (Cons c cs')
    obtain y where y: "foldl (keep_least fst) (Some c) cs' = Some y" "y \<in> set ?cs" "\<forall>z \<in> set ?cs. fst y \<le> fst z"
      using keep_least_foldl [of fst c cs'] unfolding Cons by blast
    obtain r u p where yr: "y = (r, u, p)" by (cases y)
    obtain e where e: "eb_offer now {} s u e" "r = fst e" "eb_endpoint now s u = Some p"
      using y(2) unfolding yr cs by blast
    have "fst e \<le> fst e'" if "eb_offer now {} s u' e'" for u' e'
      using offered [OF that] y(3) e(2) yr by force
    moreover have "fst (eb_peek_least_loaded now s) = Some (u, p)"
      using y(1) yr by (simp add: peek Cons keep_least_def)
    ultimately show ?thesis using e(1,3) by (simp del: split_paired_Ex split_paired_All) blast
  qed
qed

section \<open>Windows\<close>

lemma eb_window_length: "m \<le> length xs \<Longrightarrow> xs \<noteq> [] \<Longrightarrow> length (eb_window rank m xs) = m"
proof -
  assume "m \<le> length xs" and "xs \<noteq> []"
  define off where "off = (rank * m) mod length xs"
  have "off < length xs" using \<open>xs \<noteq> []\<close> by (simp add: off_def)
  with \<open>m \<le> length xs\<close> show ?thesis
    unfolding eb_window_def Let_def off_def [symmetric] by (cases "off + m \<le> length xs") auto
qed

lemma eb_window_nth:
  assumes "m \<le> length xs" and "xs \<noteq> []"
  shows "set (eb_window rank m xs) \<subseteq> set xs"
  by (auto simp: eb_window_def Let_def dest: in_set_takeD in_set_dropD)

lemma eb_window_distinct:
  assumes "distinct xs" and "m \<le> length xs" and "xs \<noteq> []"
  shows "distinct (eb_window rank m xs)"
proof -
  let ?off = "(rank * m) mod length xs"
  have off: "?off < length xs" using assms(3) by simp
  have "set (drop ?off xs) \<inter> set (take (m - (length xs - ?off)) xs) = {}" if "\<not> ?off + m \<le> length xs"
  proof -
    have "m - (length xs - ?off) \<le> ?off" using assms(2) off by linarith
    then have "set (take (m - (length xs - ?off)) xs) \<subseteq> set (take ?off xs)" by (rule set_take_subset_set_take)
    moreover have "set (take ?off xs) \<inter> set (drop ?off xs) = {}"
      using assms(1) by (rule set_take_disj_set_drop_if_distinct) simp
    ultimately show ?thesis by blast
  qed
  then show ?thesis using assms(1) by (simp add: eb_window_def Let_def)
qed

lemma eb_window_unwrapped:
  "rank * m + m \<le> length xs \<Longrightarrow> 0 < m \<Longrightarrow> eb_window rank m xs = take m (drop (rank * m) xs)"
  by (simp add: eb_window_def Let_def)

lemma eb_window_disjoint:
  assumes "distinct xs" and "r1 < r2" and "r2 * m + m \<le> length xs" and "0 < m"
  shows "set (eb_window r1 m xs) \<inter> set (eb_window r2 m xs) = {}"
proof -
  have "r1 * m + m \<le> r2 * m" using assms(2) by (metis Suc_leI add.commute mult_Suc mult_le_mono1)
  then have w1: "eb_window r1 m xs = take m (drop (r1 * m) xs)" and w2: "eb_window r2 m xs = take m (drop (r2 * m) xs)"
    using assms(3,4) by (auto intro!: eb_window_unwrapped)
  have "set (take m (drop (r1 * m) xs)) \<subseteq> set (take (r1 * m + m) xs)"
    by (metis append_take_drop_id set_append sup_ge2 take_add)
  then have "set (eb_window r1 m xs) \<subseteq> set (take (r2 * m) xs)"
    using set_take_subset_set_take [OF \<open>r1 * m + m \<le> r2 * m\<close>, of xs] unfolding w1 by blast
  moreover have "set (eb_window r2 m xs) \<subseteq> set (drop (r2 * m) xs)"
    unfolding w2 by (rule set_take_subset)
  moreover have "set (take (r2 * m) xs) \<inter> set (drop (r2 * m) xs) = {}"
    using assms(1) by (rule set_take_disj_set_drop_if_distinct) simp
  ultimately show ?thesis by blast
qed

lemma eb_window_covers:
  assumes "x \<in> set xs" and "length xs \<le> k * m" and "0 < m"
  shows "\<exists>r<k. x \<in> set (eb_window r m xs)"
proof -
  obtain i where i: "i < length xs" "x = xs ! i" using assms(1) by (metis in_set_conv_nth)
  let ?r = "i div m"
  have r: "?r * m \<le> i" "i < ?r * m + m"
    using assms(3) div_mult_mod_eq [of i m] mod_less_divisor [of m i] by linarith+
  have "?r < k" using i(1) assms(2,3) by (simp add: less_mult_imp_div_less)
  moreover have "x \<in> set (eb_window ?r m xs)"
  proof -
    define b where "b = ?r * m"
    have b: "b \<le> i" "i < b + m" using r by (simp_all add: b_def)
    have off: "(?r * m) mod length xs = b" using b i(1) unfolding b_def by (intro mod_less) linarith
    have "x = drop b xs ! (i - b)" using i b(1) by simp
    moreover have "i - b < length (take m (drop b xs))" using b i(1) by (simp, linarith)
    ultimately have "x \<in> set (take m (drop b xs))" by (metis nth_mem nth_take length_take min_less_iff_conj)
    then show ?thesis by (auto simp: eb_window_def Let_def off dest: in_set_takeD)
  qed
  ultimately show ?thesis by blast
qed

section \<open>Properties\<close>

text \<open>C4. A reservation never raises and leaves the balancer consistent. It grants the expert whose
  heap entry is least among the live experts not excluded, at its current endpoint, and charges it
  the expected time of the task; it grants nothing only if no live expert remains outside the
  excluded ones.\<close>

theorem eb_reserve_grants_least_loaded:
  assumes "eb_cfg_ok cfg" and "eb_step\<^sup>*\<^sup>* (eb_new cfg t0) s"
  shows "\<exists>g t. eb_reserve_another now start rnd task_size exclude block s = Inr (g, t) \<and> eb_inv t
    \<and> eb_selected now start rnd task_size exclude s g t"
  by (rule eb_reserve_another_spec) (use eb_sys.reachable_invar assms in blast)


text \<open>The two selection routines agree: \<open>use_another_expert\<close> picks, charges and waits exactly as a
  blocking reservation that excludes no one.\<close>

theorem eb_use_another_is_reserve:
  "eb_use_another_select now rnd task_size s =
     eb_as_use (eb_reserve_another now start rnd task_size {} True s)"
proof (cases "eb_reserve_scan now start rnd task_size {} [] (eb_queue s) s")
  case (Inl err)
  then show ?thesis
    by (simp add: eb_use_another_select_def eb_use_scan_eq [of now rnd task_size _ s start] eb_reserve_another_def eb_as_use_def)
next
  case (Inr p)
  obtain g t where "p = (g, t)" by (cases p)
  then show ?thesis using Inr
    by (cases g)
      (simp_all add: eb_use_another_select_def eb_use_scan_eq [of now rnd task_size _ s start] eb_reserve_another_def eb_as_use_def)
qed

text \<open>The read-only peek foretells the reservation: it answers \<open>None\<close> exactly when an unrestricted
  reservation grants nothing, and otherwise a live expert whose runtime is that of the granted one.\<close>

theorem eb_peek_foretells_reservation:
  assumes "eb_cfg_ok cfg" and "eb_step\<^sup>*\<^sup>* (eb_new cfg t0) s"
    and "eb_reserve_another now start rnd task_size {} block s = Inr (g, t)"
  shows "(fst (eb_peek_least_loaded now s) = None \<longleftrightarrow> (\<forall>r. g \<noteq> Granted r))
    \<and> (\<forall>u p r. fst (eb_peek_least_loaded now s) = Some (u, p) \<longrightarrow> g = Granted r \<longrightarrow>
        eb_endpoint now s u = Some p
        \<and> map_option fst (dict_get (eb_uid_to_queue s) u) = map_option fst (dict_get (eb_uid_to_queue s) (rs_uid r)))"
proof -
  have inv: "eb_inv s" using eb_sys.reachable_invar assms by blast
  have sel: "eb_selected now start rnd task_size {} s g t"
    using eb_reserve_another_spec [OF inv, of now start rnd task_size "{}" block] assms(3) by auto
  note peek = eb_peek_spec [OF inv, of now]
  show ?thesis
  proof (cases g)
    case (Granted r)
    then obtain e where e: "eb_offer now {} s (rs_uid r) e" "\<forall>u' e'. eb_offer now {} s u' e' \<longrightarrow> e \<le> e'"
      using sel unfolding eb_selected_def eb_granted_def by auto
    have "fst (eb_peek_least_loaded now s) \<noteq> None"
    proof
      assume "fst (eb_peek_least_loaded now s) = None"
      with peek have "\<forall>u e. \<not> eb_offer now {} s u e" by simp
      with e(1) show False by blast
    qed
    then obtain u p where up: "fst (eb_peek_least_loaded now s) = Some (u, p)" by (metis option.exhaust surj_pair)
    then obtain e' where e': "eb_offer now {} s u e'" "\<forall>u' e''. eb_offer now {} s u' e'' \<longrightarrow> fst e' \<le> fst e''"
      "eb_endpoint now s u = Some p"
      using peek up by (simp del: split_paired_Ex split_paired_All) blast
    have "e \<le> e'" "fst e' \<le> fst e" using e e' by blast+
    then have "fst e = fst e'" by (auto simp: less_eq_prod_def)
    then show ?thesis using up e(1) e'(1,3) Granted
      by (simp add: eb_offer_def del: split_paired_Ex split_paired_All)
  next
    case NoneLeft
    then have "\<forall>u e. \<not> eb_offer now {} s u e" using sel unfolding eb_selected_def by simp
    then have "fst (eb_peek_least_loaded now s) = None"
      using peek by (cases "fst (eb_peek_least_loaded now s)") (auto simp del: split_paired_Ex split_paired_All)
    then show ?thesis using NoneLeft by simp
  next
    case Retry
    then have "\<forall>u e. \<not> eb_offer now {} s u e" using sel unfolding eb_selected_def by simp
    then have "fst (eb_peek_least_loaded now s) = None"
      using peek by (cases "fst (eb_peek_least_loaded now s)") (auto simp del: split_paired_Ex split_paired_All)
    then show ?thesis using Retry by simp
  qed
qed

text \<open>C6. The window of \<open>max_experts\<close> experts a trainer selects has exactly that many, all announced and
  distinct; the windows of \<open>k\<close> trainers with room for everyone leave no expert unserved, and two
  trainers whose windows do not wrap around share none.\<close>

theorem eb_windows_partition_experts:
  assumes "eb_select_window r1 m experts = Inr w1" and "eb_select_window r2 m experts = Inr w2"
    and "distinct experts" and "0 < m" and "m < length experts" and "r1 < r2"
  shows "length w1 = m \<and> distinct w1 \<and> set w1 \<subseteq> set experts
    \<and> (length experts \<le> k * m \<longrightarrow> x \<in> set experts \<longrightarrow>
        (\<exists>r<k. \<exists>w. eb_select_window r m experts = Inr w \<and> x \<in> set w))
    \<and> (r2 * m + m \<le> length experts \<longrightarrow> set w1 \<inter> set w2 = {})"
proof -
  let ?xs = "sort_key (\<lambda>x. the (eb_uid_index (fst x))) experts"
  have ok: "list_all (\<lambda>x. eb_uid_index (fst x) \<noteq> None) experts"
    using assms(1) by (simp add: eb_select_window_def split: if_splits)
  have sel: "eb_select_window r m experts = Inr (eb_window r m ?xs)" for r
    using ok by (simp add: eb_select_window_def)
  have xs: "distinct ?xs" "m \<le> length ?xs" "?xs \<noteq> []" "set ?xs = set experts"
    using assms(3-5) by (auto simp flip: length_greater_0_conv)
  have w: "w1 = eb_window r1 m ?xs" "w2 = eb_window r2 m ?xs" using assms(1,2) sel by simp_all
  have "\<exists>r<k. \<exists>w. eb_select_window r m experts = Inr w \<and> x \<in> set w"
    if "length experts \<le> k * m" "x \<in> set experts"
    using eb_window_covers [of x ?xs k m] that xs(4) assms(4) sel by auto
  moreover have "set w1 \<inter> set w2 = {}" if "r2 * m + m \<le> length experts"
    unfolding w by (rule eb_window_disjoint [OF xs(1) assms(6) _ assms(4)]) (use that in simp)
  ultimately show ?thesis
    using eb_window_length [OF xs(2,3)] eb_window_distinct [OF xs(1-3)] eb_window_nth [OF xs(2,3)] xs(4)
    unfolding w by blast
qed

text \<open>An expert that is already known and then fails verification in a subset refresh is not admitted,
  and the log says it is banned, yet it keeps its place in the queue: the balancer goes on granting it
  until its last announcement expires.\<close>

theorem eb_failed_verification_still_granted:
  assumes "eb_cfg_ok cfg" and "eb_step\<^sup>*\<^sup>* (eb_new cfg t0) s"
    and "eb_offer now {} s u e" and "model_args u = None"
    and "eb_verification_arguments (eb_cfg s) \<noteq> []"
    and "answer u = Some (endpoint, OFF, expiration)"
  shows "fst (eb_admit now model_args u endpoint expiration s) = None
    \<and> eb_offer now {} (eb_subset_refresh now rnd model_args answer [u] s) u e"
proof -
  have bl: "\<exists>b. snd (eb_check_and_unban now u endpoint s) = s\<lparr>eb_blacklist := b\<rparr>"
    by (auto simp: eb_check_and_unban_def Let_def case_prod_unfold split: option.split)
  have unban: "\<exists>b. snd (eb_admit now model_args u endpoint expiration s) = s\<lparr>eb_blacklist := b\<rparr>"
    using bl by (auto simp: eb_admit_def Let_def case_prod_unfold)
  have none: "fst (eb_admit now model_args u endpoint expiration s) = None"
    using bl assms(4,5) by (auto simp: eb_admit_def Let_def case_prod_unfold eb_verify_expert_def)
  then obtain b where "eb_admit now model_args u endpoint expiration s = (None, s\<lparr>eb_blacklist := b\<rparr>)"
    using unban by (metis prod.collapse)
  then show ?thesis using assms(3,6) none by (simp add: eb_offer_def eb_endpoint_def)
qed

section \<open>Witnesses\<close>

definition eb_demo_cfg :: ebconfig where
  "eb_demo_cfg = \<lparr>eb_initial_throughput = 1, eb_alpha = 1 / 10, eb_eps = 1 / 1000, eb_ban_expiration = 3600,
     eb_max_experts = None, eb_min_experts = 1, eb_refresh_experts_period = 600, eb_trainer_rank = 0,
     eb_warmup_batches = 0, eb_warmup_penalty_multiplier = 1, eb_update_period = 30,
     eb_verification_arguments = [(''dim'', PInt 8)]\<rparr>"

lemma eb_demo_cfg_ok: "eb_cfg_ok eb_demo_cfg"
  by (simp add: eb_cfg_ok_def eb_demo_cfg_def)

text \<open>One expert was announced and passed verification.\<close>

definition eb_demo :: balancer where
  "eb_demo = (case eb_update_round 1 (\<lambda>_. 0) (\<lambda>_. 0) (\<lambda>_. Some [(''dim'', PInt 8)]) (\<lambda>_. None)
       (Some [Some (''tail.0'', ''QmA'', OFF, 100)]) (eb_new eb_demo_cfg 0) of Inr t \<Rightarrow> t)"

lemma ts_remove_stays: "\<not> ts_outdated now s \<Longrightarrow> ts_remove_outdated now s = s"
  by (simp add: ts_remove_outdated_def while_unfold)

lemma eb_demo_round:
  "\<exists>t. eb_update_round 1 (\<lambda>_. 0) (\<lambda>_. 0) (\<lambda>_. Some [(''dim'', PInt 8)]) (\<lambda>_. None)
      (Some [Some (''tail.0'', ''QmA'', OFF, 100)]) (eb_new eb_demo_cfg 0) = Inr t
    \<and> eb_offer 2 {} t ''tail.0'' (0, 0, ''tail.0'') \<and> eb_cfg t = eb_demo_cfg"
  by (simp add: eb_update_round_def eb_subset_phase_def eb_new_def eb_demo_cfg_def Let_def ts_len_def
      ts_remove_stays ts_outdated_def ts_new_def eb_refresh_expired_def eb_full_refresh_def eb_admit_def
      eb_check_and_unban_def ts_get_def eb_verify_expert_def eb_add_all_def eb_add_expert_def ts_store_def
      dict_set_def heap_push_def ts_full_def eb_ensure_single_uid_entry_def eb_max_runtime_def
      eb_offer_def eb_endpoint_def ts_look_def)

lemma eb_demo_props:
  shows eb_demo_reached: "eb_step\<^sup>*\<^sup>* (eb_new eb_demo_cfg 0) eb_demo"
    and eb_demo_offer: "eb_offer 2 {} eb_demo ''tail.0'' (0, 0, ''tail.0'')"
    and eb_demo_cfg_eq: "eb_cfg eb_demo = eb_demo_cfg"
proof -
  obtain t where t: "eb_update_round 1 (\<lambda>_. 0) (\<lambda>_. 0) (\<lambda>_. Some [(''dim'', PInt 8)]) (\<lambda>_. None)
      (Some [Some (''tail.0'', ''QmA'', OFF, 100)]) (eb_new eb_demo_cfg 0) = Inr t"
    "eb_offer 2 {} t ''tail.0'' (0, 0, ''tail.0'')" "eb_cfg t = eb_demo_cfg" using eb_demo_round by blast
  then have d: "eb_demo = t" by (simp add: eb_demo_def)
  show "eb_step\<^sup>*\<^sup>* (eb_new eb_demo_cfg 0) eb_demo" unfolding d by (rule r_into_rtranclp) (rule eb_step_round [OF t(1)])
  show "eb_offer 2 {} eb_demo ''tail.0'' (0, 0, ''tail.0'')" "eb_cfg eb_demo = eb_demo_cfg" using t d by simp_all
qed

lemma eb_reserve_grants_least_loaded_witness:
  "\<exists>g t. eb_reserve_another 2 2 0 4 {} True eb_demo = Inr (g, t) \<and> eb_selected 2 2 0 4 {} eb_demo g t"
  using eb_reserve_grants_least_loaded [OF eb_demo_cfg_ok eb_demo_reached] by blast


lemma eb_peek_foretells_reservation_witness: "fst (eb_peek_least_loaded 2 eb_demo) \<noteq> None"
proof -
  have inv: "eb_inv eb_demo" using eb_sys.reachable_invar eb_demo_cfg_ok eb_demo_reached by blast
  obtain g t where g: "eb_reserve_another 2 2 0 4 {} True eb_demo = Inr (g, t)" "eb_selected 2 2 0 4 {} eb_demo g t"
    using eb_reserve_another_spec [OF inv, of 2 2 0 4 "{}" True] by blast
  then have "\<exists>r. g = Granted r"
    using eb_demo_offer unfolding eb_selected_def by (cases g) (blast | simp)+
  then show ?thesis
    using eb_peek_foretells_reservation [OF eb_demo_cfg_ok eb_demo_reached g(1)] by blast
qed

definition eb_demo_experts :: "(uid \<times> peer \<times> time) list" where
  "eb_demo_experts = [(''t.2'', ''c'', 9), (''t.0'', ''a'', 9), (''t.1'', ''b'', 9)]"

lemma eb_windows_partition_experts_witness:
  "\<exists>w1 w2. eb_select_window 0 1 eb_demo_experts = Inr w1 \<and> eb_select_window 1 1 eb_demo_experts = Inr w2
    \<and> set w1 \<inter> set w2 = {}"
proof -
  have idx: "py_int ''0'' = Some 0" "py_int ''1'' = Some 1" "py_int ''2'' = Some 2" by code_simp+
  have "list_all (\<lambda>x. eb_uid_index (fst x) \<noteq> None) eb_demo_experts"
    by (simp add: eb_demo_experts_def eb_uid_index_def idx)
  then obtain w1 w2 where w: "eb_select_window 0 1 eb_demo_experts = Inr w1"
    "eb_select_window 1 1 eb_demo_experts = Inr w2"
    by (simp add: eb_select_window_def)
  have "distinct eb_demo_experts" "1 < length eb_demo_experts" "1 * 1 + 1 \<le> length eb_demo_experts"
    by (simp_all add: eb_demo_experts_def)
  with eb_windows_partition_experts [OF w, of 3] w show ?thesis by auto
qed

lemma eb_failed_verification_still_granted_witness:
  "eb_offer 2 {} (eb_subset_refresh 2 (\<lambda>_. 0) (\<lambda>_. None) (\<lambda>_. Some (''QmA'', OFF, 200)) [''tail.0''] eb_demo)
     ''tail.0'' (0, 0, ''tail.0'')"
proof -
  have "eb_verification_arguments (eb_cfg eb_demo) \<noteq> []" by (simp add: eb_demo_cfg_eq) (simp add: eb_demo_cfg_def)
  with eb_failed_verification_still_granted [OF eb_demo_cfg_ok eb_demo_reached eb_demo_offer,
      of "\<lambda>_. None" "\<lambda>_. Some (''QmA'', OFF, 200)" "''QmA''" 200 "\<lambda>_. 0"]
  show ?thesis by simp
qed

end
