(* ===== verification/LocalRouterProps.thy ===== *)
theory LocalRouterProps
  imports LocalRouter BalancerProps
begin

text \<open>
  The router with the shared membership and mailbox as one transition system: its invariant (only
  members of the snapshot it last saw are queued, leases are accounted for) and its properties.
\<close>

section \<open>Which experts an operation leaves queued\<close>

abbreviation eb_keys :: "balancer \<Rightarrow> uid set" where
  "eb_keys s \<equiv> fst ` set (eb_uid_to_queue s)"

lemma eb_charge_keys:
  "dict_get (eb_uid_to_queue s) u \<noteq> None \<Longrightarrow> eb_keys (eb_charge rnd u rt s) = eb_keys s"
  by (simp add: insert_absorb dict_has_iff)

lemma eb_reserve_queue_entry_keys:
  assumes "eb_reserve_queue_entry start rnd u ep rt w s = Inr (r, t)" and "dict_get (eb_uid_to_queue s) u \<noteq> None"
  shows "eb_keys t = eb_keys s"
proof -
  obtain d where "eb_expected_time_taken u w s = Inr d"
    using assms(1) by (cases "eb_expected_time_taken u w s") (auto simp: eb_reserve_queue_entry_def)
  then have "t = eb_charge rnd u (rt + d) s" using assms(1) by (simp add: eb_reserve_queue_entry_eq)
  then show ?thesis using eb_charge_keys [OF assms(2)] by simp
qed

lemma eb_push_back_keys [simp]: "eb_uid_to_queue (eb_push_back sk s) = eb_uid_to_queue s"
  by (simp add: eb_push_back_def)

lemma eb_reserve_scan_keys:
  "eb_reserve_scan now start rnd w ex sk q s = Inr (g, t) \<Longrightarrow> eb_keys t \<subseteq> eb_keys s"
proof (induction q arbitrary: sk s)
  case (Cons e q)
  let ?u = "snd (snd e)"
  let ?s1 = "s\<lparr>eb_queue := q, eb_experts := snd (ts_get now ?u (eb_experts s))\<rparr>"
  consider "fst (ts_get now ?u (eb_experts s)) = None"
    | ep x where "fst (ts_get now ?u (eb_experts s)) = Some (ep, x)"
    by (cases "fst (ts_get now ?u (eb_experts s))") auto
  then show ?case
  proof cases
    case 1
    then have "eb_reserve_scan now start rnd w ex sk q
        (?s1\<lparr>eb_uid_to_queue := dict_del ?u (eb_uid_to_queue s), eb_throughputs := dict_del ?u (eb_throughputs s)\<rparr>) = Inr (g, t)"
      using Cons.prems by (simp add: Let_def case_prod_unfold)
    from Cons.IH [OF this] show ?thesis by auto
  next
    case 2
    consider "dict_get (eb_uid_to_queue s) ?u \<noteq> Some e"
      | "dict_get (eb_uid_to_queue s) ?u = Some e" "?u \<in> ex"
      | "dict_get (eb_uid_to_queue s) ?u = Some e" "?u \<notin> ex" by blast
    then show ?thesis
    proof cases
      case 1
      then show ?thesis using 2 Cons.prems Cons.IH [of sk ?s1] by (simp add: Let_def case_prod_unfold)
    next
      case a: 2
      then show ?thesis using 2 Cons.prems Cons.IH [of "sk @ [e]" ?s1] by (simp add: Let_def case_prod_unfold)
    next
      case 3
      then obtain r s2 where "eb_reserve_queue_entry start rnd ?u ep (fst e) w ?s1 = Inr (r, s2)" "t = eb_push_back sk s2"
        using 2 Cons.prems by (auto simp: Let_def case_prod_unfold split: sum.splits)
      then show ?thesis using eb_reserve_queue_entry_keys 3(1) by fastforce
    qed
  qed
qed auto

lemma eb_reserve_another_keys:
  assumes "eb_reserve_another now start rnd w ex block s = Inr (g, t)"
  shows "eb_keys t \<subseteq> eb_keys s"
proof (cases "eb_reserve_scan now start rnd w ex [] (eb_queue s) s")
  case (Inl err)
  then show ?thesis using assms by (simp add: eb_reserve_another_def)
next
  case (Inr p)
  then obtain g' t' where "eb_reserve_scan now start rnd w ex [] (eb_queue s) s = Inr (g', t')" by (cases p) auto
  moreover from this have "eb_uid_to_queue t = eb_uid_to_queue t'"
    using assms by (cases g') (auto simp: eb_reserve_another_def)
  ultimately show ?thesis using eb_reserve_scan_keys [of now start rnd w ex "[]" "eb_queue s" s g' t'] by simp
qed

lemma eb_add_expert_keys: "eb_keys (eb_add_expert now rnd u ep x s) = insert u (eb_keys s)"
proof (cases "dict_has (eb_uid_to_queue s) u")
  case True
  then show ?thesis by (simp add: eb_add_expert_def insert_absorb)
next
  case False
  then have "eb_uid_to_queue (eb_add_expert now rnd u ep x s) =
      dict_set u (eb_placement u ep s, rnd, u) (eb_uid_to_queue s)"
    using eb_add_expert_new [OF False refl, of now rnd ep x] by (elim exE conjE) simp
  then show ?thesis by simp
qed

lemma eb_evict_expert_keys: "eb_keys (eb_evict_expert u s) = eb_keys s - {u}"
  by (auto simp: eb_evict_expert_def)

lemma eb_short_ban_keys: "eb_keys (eb_short_ban now u s) \<subseteq> eb_keys s"
  by (auto simp: eb_short_ban_def eb_ban_expert_def Let_def case_prod_unfold)

lemma eb_unban_keys [simp]: "eb_uid_to_queue (snd (eb_check_and_unban now u ep s)) = eb_uid_to_queue s"
  by (auto simp: eb_check_and_unban_def Let_def case_prod_unfold split: option.split)

lemma rt_admit_member_keys: "eb_keys (rt_admit_member now rnd mem s) \<subseteq> insert (fst mem) (eb_keys s)"
proof -
  obtain u ep x where "mem = (u, ep, x)" by (cases mem)
  then show ?thesis by (auto simp: rt_admit_member_def Let_def case_prod_unfold eb_add_expert_keys)
qed

lemma rt_admit_member_inv [inv_intros]: "eb_inv s \<Longrightarrow> eb_inv (rt_admit_member now rnd mem s)"
  by (auto simp: rt_admit_member_def Let_def case_prod_unfold intro!: eb_add_expert_inv eb_unban_inv split: prod.split)

section \<open>The invariant of the system\<close>

record w2w =
  wr_router :: router
  wr_mailbox :: mailbox
  wr_membership :: membership

definition wr_new :: "ebconfig \<Rightarrow> time \<Rightarrow> time \<Rightarrow> w2w" where
  "wr_new cfg ttl now = \<lparr>wr_router = rt_new cfg ttl now,
     wr_mailbox = \<lparr>mx_receipts = [], mx_last_gc = now\<rparr>, wr_membership = mb_empty\<rparr>"

text \<open>
  A router process, the feeder that publishes memberships and the handlers that post receipts. The
  other router processes show in the mailbox only as receipts that disappear (\<open>wr_step_other\<close>).
\<close>

inductive wr_step :: "w2w \<Rightarrow> w2w \<Rightarrow> bool" where
  wr_step_publish: "wr_step s (s\<lparr>wr_membership := mb_publish members (wr_membership s)\<rparr>)"
| wr_step_post: "wr_step s (s\<lparr>wr_mailbox := mx_post now tid sq u (wr_mailbox s)\<rparr>)"
| wr_step_other: "wr_step s (s\<lparr>wr_mailbox := mx_discard k (wr_mailbox s)\<rparr>)"
| wr_step_gc: "wr_step s (s\<lparr>wr_mailbox := mx_gc now age (wr_mailbox s)\<rparr>)"
| wr_step_resolve: "rt_resolve now start rnd rnd' tid sq w ex (wr_membership s) (wr_router s) (wr_mailbox s)
      = Inr (res, r, m) \<Longrightarrow> wr_step s (s\<lparr>wr_router := r, wr_mailbox := m\<rparr>)"
| wr_step_fail: "rt_fail now tid sq u reason (wr_router s) (wr_mailbox s) = Inr (r, m) \<Longrightarrow>
      wr_step s (s\<lparr>wr_router := r, wr_mailbox := m\<rparr>)"
| wr_step_stats: "rt_stats now (wr_router s) (wr_mailbox s) = Inr (st, r, m) \<Longrightarrow>
      wr_step s (s\<lparr>wr_router := r, wr_mailbox := m\<rparr>)"

inductive_cases wr_stepE: "wr_step s t"

text \<open>What leases are owed: every resolve opened at most one, and each is closed at most once.\<close>

definition rt_accounted :: "router \<Rightarrow> bool" where
  "rt_accounted r \<longleftrightarrow> int (length (rt_leases r)) + cget (rt_counters r) ''settled''
     + cget (rt_counters r) ''expired_leases'' \<le> cget (rt_counters r) ''resolves''"

definition rt_ok :: "membership \<Rightarrow> router \<Rightarrow> bool" where
  "rt_ok mem r \<longleftrightarrow> eb_inv (rt_balancer r) \<and> dict_ok (rt_leases r) \<and> rt_accounted r
     \<and> rt_seen_version r \<le> mb_version mem
     \<and> (rt_seen_version r = mb_version mem \<longrightarrow> eb_keys (rt_balancer r) \<subseteq> fst ` set (mb_members mem))"

definition wr_ok :: "w2w \<Rightarrow> bool" where
  "wr_ok s \<longleftrightarrow> rt_ok (wr_membership s) (wr_router s)"

lemma rt_bump_sel [simp]:
  "rt_balancer (rt_bump n r) = rt_balancer r" "rt_leases (rt_bump n r) = rt_leases r"
  "rt_seen_version (rt_bump n r) = rt_seen_version r"
  "cget (rt_counters (rt_bump n r)) k = cget (rt_counters r) k + (if k = n then 1 else 0)"
  by (simp_all add: rt_bump_def)

lemma rt_settle_facts:
  assumes "rt_settle now rs i r = Inr r'" and "eb_inv (rt_balancer r)"
  shows "eb_inv (rt_balancer r')" and "eb_keys (rt_balancer r') = eb_keys (rt_balancer r)"
    and "rt_leases r' = rt_leases r" and "rt_counters r' = rt_counters r"
    and "rt_seen_version r' = rt_seen_version r"
    and "eb_experts (rt_balancer r') = eb_experts (rt_balancer r)"
proof -
  have marked: "eb_uid_to_queue (eb_mark_successful_batch u b) = eb_uid_to_queue b"
    "eb_experts (eb_mark_successful_batch u b) = eb_experts b" for u b
    using eb_mark_successful_eq [of u b] by auto
  have "eb_inv (rt_balancer r') \<and> eb_keys (rt_balancer r') = eb_keys (rt_balancer r)
      \<and> eb_experts (rt_balancer r') = eb_experts (rt_balancer r)
      \<and> rt_leases r' = rt_leases r \<and> rt_counters r' = rt_counters r \<and> rt_seen_version r' = rt_seen_version r"
  proof (cases "dict_get (eb_throughputs (rt_balancer r)) (rs_uid rs)")
    case None
    then show ?thesis using assms by (simp add: rt_settle_def)
  next
    case (Some t)
    then obtain t' where t': "ema_update (rs_task_size rs) (Some i) now t = Inr t'"
      using assms(1) by (auto simp: rt_settle_def split: sum.splits)
    then have "ema_good t'" using ema_update_good eb_inv_withD(6) [OF assms(2) Some] by blast
    then have "eb_inv (eb_mark_successful_batch (rs_uid rs)
        ((rt_balancer r)\<lparr>eb_throughputs := dict_set (rs_uid rs) t' (eb_throughputs (rt_balancer r))\<rparr>))"
      by (intro eb_mark_successful_inv eb_set_throughput_inv assms(2))
    moreover have "r' = r\<lparr>rt_balancer := eb_mark_successful_batch (rs_uid rs)
        ((rt_balancer r)\<lparr>eb_throughputs := dict_set (rs_uid rs) t' (eb_throughputs (rt_balancer r))\<rparr>)\<rparr>"
      using assms(1) Some t' by (simp add: rt_settle_def)
    ultimately show ?thesis by (simp add: marked)
  qed
  then show "eb_inv (rt_balancer r')" "eb_keys (rt_balancer r') = eb_keys (rt_balancer r)"
    "rt_leases r' = rt_leases r" "rt_counters r' = rt_counters r" "rt_seen_version r' = rt_seen_version r"
    "eb_experts (rt_balancer r') = eb_experts (rt_balancer r)" by simp_all
qed

text \<open>Polling closes leases one by one and touches neither queue nor version.\<close>

definition rt_kept :: "router \<Rightarrow> router \<Rightarrow> bool" where
  "rt_kept r r' \<longleftrightarrow> eb_inv (rt_balancer r') \<and> eb_keys (rt_balancer r') = eb_keys (rt_balancer r)
     \<and> eb_experts (rt_balancer r') = eb_experts (rt_balancer r)
     \<and> dict_ok (rt_leases r') \<and> rt_accounted r' \<and> rt_seen_version r' = rt_seen_version r"

lemma rt_close_accounted:
  assumes "rt_accounted r" and "dict_ok (rt_leases r)" and "dict_has (rt_leases r) k"
    and "n = ''settled'' \<or> n = ''expired_leases''"
    and "rt_leases r' = dict_del k (rt_leases r)" and "rt_counters r' = rt_counters r"
  shows "rt_accounted (rt_bump n r')"
proof -
  obtain v where "dict_get (rt_leases r) k = Some v" using assms(3) unfolding dict_has_iff by blast
  from length_dict_del_present [OF assms(2) this]
  have "int (length (rt_leases r')) + 1 = int (length (rt_leases r))" using assms(5) by simp
  then show ?thesis using assms(1,4,6) by (elim disjE) (simp_all add: rt_accounted_def)
qed

lemma rt_poll_loop_kept:
  assumes "rt_poll_loop now ls r m = Inr (r', m')"
    and "eb_inv (rt_balancer r)" and "dict_ok (rt_leases r)" and "rt_accounted r"
    and "dict_ok ls" and "fst ` set ls \<subseteq> fst ` set (rt_leases r)"
  shows "rt_kept r r'"
  using assms
proof (induction ls arbitrary: r m)
  case Nil
  then show ?case by (simp add: rt_kept_def)
next
  case (Cons l ls)
  obtain k rs ra dl where l: "l = (k, rs, ra, dl)" by (cases l) auto
  let ?pop = "r\<lparr>rt_leases := dict_del k (rt_leases r)\<rparr>"
  have k: "dict_has (rt_leases r) k" using Cons.prems(6) l by simp
  have new: "k \<notin> fst ` set ls" and sub: "fst ` set ls \<subseteq> fst ` set (rt_leases r)" and ok: "dict_ok ls"
    using Cons.prems(5,6) l by simp_all
  then have rest: "dict_ok ls" "fst ` set ls \<subseteq> fst ` set (rt_leases r)" "fst ` set ls \<subseteq> fst ` set (rt_leases r) - {k}"
    by blast+
  consider (settle) arrival where "dict_get (mx_receipts m) k = Some arrival"
    | (expire) "dict_get (mx_receipts m) k = None" "dl \<le> now"
    | (keep) "dict_get (mx_receipts m) k = None" "\<not> dl \<le> now"
    by (cases "dict_get (mx_receipts m) k") auto
  then show ?case
  proof cases
    case settle
    then obtain r1 where r1: "rt_settle now rs (max (arrival - ra) (1 / 10 ^ 9)) ?pop = Inr r1"
      "rt_poll_loop now ls (rt_bump ''settled'' r1) (snd (mx_take k m)) = Inr (r', m')"
      using Cons.prems(1) l by (auto simp: mx_take_def split: sum.splits)
    have inv: "eb_inv (rt_balancer ?pop)" using Cons.prems(2) by simp
    note f = rt_settle_facts [OF r1(1) inv]
    have "rt_accounted (rt_bump ''settled'' r1)"
      by (rule rt_close_accounted [OF Cons.prems(4,3) k]) (use f in simp_all)
    then have "rt_kept (rt_bump ''settled'' r1) r'"
      using Cons.IH [OF r1(2)] f rest Cons.prems(3) by simp
    then show ?thesis using f by (simp add: rt_kept_def)
  next
    case expire
    then have loop: "rt_poll_loop now ls (rt_bump ''expired_leases'' ?pop) (snd (mx_take k m)) = Inr (r', m')"
      using Cons.prems(1) l by (simp add: mx_take_def)
    have "rt_accounted (rt_bump ''expired_leases'' ?pop)"
      by (rule rt_close_accounted [OF Cons.prems(4,3) k]) simp_all
    then have "rt_kept (rt_bump ''expired_leases'' ?pop) r'"
      using Cons.IH [OF loop] rest Cons.prems(2,3) by simp
    then show ?thesis by (simp add: rt_kept_def)
  next
    case keep
    then have "rt_poll_loop now ls r (snd (mx_take k m)) = Inr (r', m')"
      using Cons.prems(1) l by (simp add: mx_take_def)
    from Cons.IH [OF this] show ?thesis using rest Cons.prems by simp
  qed
qed

lemma rt_poll_kept:
  assumes "rt_poll_receipts now r m = Inr (r', m')" and "rt_ok mem r"
  shows "rt_kept r r'"
  using rt_poll_loop_kept [OF assms(1) [unfolded rt_poll_receipts_def]] assms(2) by (simp add: rt_ok_def)

lemma rt_kept_ok: "rt_ok mem r \<Longrightarrow> rt_kept r r' \<Longrightarrow> rt_ok mem r'"
  by (simp add: rt_ok_def rt_kept_def)

text \<open>After the synchronisation the queue holds members of the published snapshot only.\<close>

lemma rt_evicts:
  "eb_inv b \<Longrightarrow> eb_inv (fold eb_evict_expert us b) \<and> eb_keys (fold eb_evict_expert us b) = eb_keys b - set us"
  by (induction us arbitrary: b) (auto simp: eb_evict_expert_inv eb_evict_expert_keys)

lemma rt_admits:
  "eb_inv b \<Longrightarrow> eb_inv (fold (rt_admit_member now rnd) ms b)
    \<and> eb_keys (fold (rt_admit_member now rnd) ms b) \<subseteq> eb_keys b \<union> fst ` set ms"
proof (induction ms arbitrary: b)
  case (Cons x ms)
  have inv: "eb_inv (rt_admit_member now rnd x b)" by (rule rt_admit_member_inv [OF Cons.prems])
  have "eb_keys (rt_admit_member now rnd x b) \<subseteq> insert (fst x) (eb_keys b)" by (rule rt_admit_member_keys)
  with Cons.IH [OF inv] show ?case by (simp only: fold_simps o_apply list.set image_insert) blast
qed simp

lemma rt_sync_ok:
  assumes "rt_ok mem r"
  shows "rt_ok mem (rt_sync_membership now rnd mem r)"
    and "rt_seen_version (rt_sync_membership now rnd mem r) = mb_version mem"
proof -
  let ?gone = "filter (\<lambda>u. u \<notin> fst ` set (mb_members mem)) (map fst (eb_uid_to_queue (rt_balancer r)))"
  have inv: "eb_inv (rt_balancer r)" using assms by (simp add: rt_ok_def)
  let ?b = "fold eb_evict_expert ?gone (rt_balancer r)"
  have b: "eb_inv ?b" "eb_keys ?b \<subseteq> fst ` set (mb_members mem)"
    using rt_evicts [OF inv, of ?gone] by (blast, force)
  have "eb_inv (fold (rt_admit_member now rnd) (mb_members mem) ?b)"
    "eb_keys (fold (rt_admit_member now rnd) (mb_members mem) ?b) \<subseteq> fst ` set (mb_members mem)"
    using rt_admits [OF b(1), of now rnd "mb_members mem"] b(2) by blast+
  then show "rt_ok mem (rt_sync_membership now rnd mem r)"
    using assms by (simp add: rt_sync_membership_def mb_snapshot_def rt_ok_def rt_accounted_def)
  show "rt_seen_version (rt_sync_membership now rnd mem r) = mb_version mem"
    by (simp add: rt_sync_membership_def mb_snapshot_def)
qed

lemma rt_resolve_parts:
  assumes "rt_ok mem r" and "rt_resolve now start rnd rnd' tid sq w ex mem r m = Inr (res, r', m')"
  obtains r1 g b where "rt_ok mem r1" and "rt_seen_version r1 = mb_version mem"
    and "rt_kept (rt_sync_membership now rnd mem r) r1"
    and "eb_reserve_another now start rnd' w ex False (rt_balancer r1) = Inr (g, b)"
    and "r' = (case g of Granted rs \<Rightarrow> rt_bump ''resolves'' (r1\<lparr>rt_balancer := b,
            rt_leases := dict_set (tid, sq, rs_uid rs) (rs, now, now + rt_lease_ttl r1) (rt_leases r1)\<rparr>)
          | _ \<Rightarrow> rt_bump ''drops'' (r1\<lparr>rt_balancer := b\<rparr>))"
    and "res = (case g of Granted rs \<Rightarrow> Hop (rs_uid rs) (rs_peer_id rs) | _ \<Rightarrow> Drop ''no eligible next worker'')"
proof -
  note sync = rt_sync_ok [OF assms(1), of now rnd]
  obtain r1 m1 where r1: "rt_poll_receipts now (rt_sync_membership now rnd mem r) m = Inr (r1, m1)"
    using assms(2) by (auto simp: rt_resolve_def split: sum.splits)
  have kept: "rt_kept (rt_sync_membership now rnd mem r) r1" by (rule rt_poll_kept [OF r1 sync(1)])
  obtain g b where g: "eb_reserve_another now start rnd' w ex False (rt_balancer r1) = Inr (g, b)"
    using assms(2) r1 by (auto simp: rt_resolve_def split: sum.splits)
  show thesis
    by (rule that [OF rt_kept_ok [OF sync(1) kept] _ kept g])
      (use kept sync(2) assms(2) r1 g in \<open>cases g; simp add: rt_resolve_def rt_kept_def\<close>)+
qed

lemma rt_resolve_ok:
  assumes "rt_ok mem r" and "rt_resolve now start rnd rnd' tid sq w ex mem r m = Inr (res, r', m')"
  shows "rt_ok mem r'"
proof -
  obtain r1 g b where r1: "rt_ok mem r1" "rt_seen_version r1 = mb_version mem"
    "eb_reserve_another now start rnd' w ex False (rt_balancer r1) = Inr (g, b)"
    "r' = (case g of Granted rs \<Rightarrow> rt_bump ''resolves'' (r1\<lparr>rt_balancer := b,
            rt_leases := dict_set (tid, sq, rs_uid rs) (rs, now, now + rt_lease_ttl r1) (rt_leases r1)\<rparr>)
          | _ \<Rightarrow> rt_bump ''drops'' (r1\<lparr>rt_balancer := b\<rparr>))"
    by (rule rt_resolve_parts [OF assms])
  have inv: "eb_inv (rt_balancer r1)" using r1(1) by (simp add: rt_ok_def)
  then have b: "eb_inv b" using eb_reserve_another_spec [OF inv, of now start rnd' w ex False] r1(3) by auto
  have keys: "eb_keys b \<subseteq> eb_keys (rt_balancer r1)" by (rule eb_reserve_another_keys [OF r1(3)])
  show ?thesis
  proof (cases g)
    case (Granted rs)
    then show ?thesis using r1(1,2,4) b keys
      by (simp add: rt_ok_def rt_accounted_def length_dict_set) blast
  next
    case NoneLeft
    then show ?thesis using r1(1,2,4) b keys by (simp add: rt_ok_def rt_accounted_def) blast
  next
    case Retry
    then show ?thesis using r1(1,2,4) b keys by (simp add: rt_ok_def rt_accounted_def) blast
  qed
qed

lemma rt_fail_eq:
  "rt_fail now tid sq u reason r m =
     Inr (rt_bump ''failed'' (r\<lparr>rt_leases := dict_del (tid, sq, u) (rt_leases r),
            rt_balancer := (if reason \<noteq> ''busy'' then eb_short_ban now u (rt_balancer r) else rt_balancer r)\<rparr>),
          mx_discard (tid, sq, u) m)"
  by (cases "dict_get (rt_leases r) (tid, sq, u)") (auto simp: rt_fail_def Let_def eb_settle_reservation_def)

lemma rt_fail_ok:
  assumes "rt_ok mem r" and "rt_fail now tid sq u reason r m = Inr (r', m')"
  shows "rt_ok mem r'"
proof -
  have len: "length (dict_del k (rt_leases r)) \<le> length (rt_leases r)" for k by (rule length_dict_del_le)
  have inv: "eb_inv (rt_balancer r)" using assms(1) by (simp add: rt_ok_def)
  have ban: "eb_inv (eb_short_ban now u (rt_balancer r))"
    unfolding eb_short_ban_def by (rule eb_ban_expert_inv [OF inv])
  have r': "r' = rt_bump ''failed'' (r\<lparr>rt_leases := dict_del (tid, sq, u) (rt_leases r),
      rt_balancer := (if reason \<noteq> ''busy'' then eb_short_ban now u (rt_balancer r) else rt_balancer r)\<rparr>)"
    using assms(2) by (simp add: rt_fail_eq)
  show ?thesis
    using assms(1) ban len [of "(tid, sq, u)"] eb_short_ban_keys [of now u "rt_balancer r"]
    unfolding r' rt_ok_def rt_accounted_def by (cases "reason = ''busy''") (simp_all, blast)
qed

lemma wr_step_ok: "wr_step s t \<Longrightarrow> wr_ok s \<Longrightarrow> wr_ok t"
proof (induction rule: wr_step.induct)
  case (wr_step_resolve now start rnd rnd' tid sq w ex s res r m)
  then show ?case using rt_resolve_ok by (auto simp: wr_ok_def)
next
  case (wr_step_fail now tid sq u reason s r m)
  then show ?case using rt_fail_ok by (auto simp: wr_ok_def)
next
  case (wr_step_stats now s st r m)
  then have "rt_poll_receipts now (wr_router s) (wr_mailbox s) = Inr (r, m)"
    by (auto simp: rt_stats_def split: sum.splits)
  then show ?case using rt_poll_kept rt_kept_ok wr_step_stats.prems by (fastforce simp: wr_ok_def)
next
  case (wr_step_publish s members)
  then show ?case by (simp add: wr_ok_def rt_ok_def mb_publish_def)
qed (simp_all add: wr_ok_def)

lemma wr_new_ok: "eb_cfg_ok cfg \<Longrightarrow> wr_ok (wr_new cfg ttl now)"
  using eb_new_inv [of cfg now]
  by (simp add: wr_ok_def wr_new_def rt_ok_def rt_new_def rt_accounted_def mb_empty_def)

interpretation wr_sys: transitions "\<lambda>s. \<exists>cfg ttl now. eb_cfg_ok cfg \<and> s = wr_new cfg ttl now" wr_step wr_ok
  by unfold_locales (auto intro: wr_new_ok wr_step_ok)

section \<open>A failed worker\<close>

lemma eb_no_data_no_offer:
  assumes "eb_inv s" and "\<not> dict_has (ts_data (eb_experts s)) u \<or> \<not> dict_has (eb_uid_to_queue s) u"
  shows "\<not> eb_offer now ex s u e"
proof
  assume o: "eb_offer now ex s u e"
  then have "dict_get (ts_data (eb_experts s)) u \<noteq> None"
    using ts_look_eq [OF eb_inv_withD(2) [OF assms(1)], of now u]
    by (auto simp: eb_offer_def eb_endpoint_def split: if_splits)
  moreover have "dict_get (eb_uid_to_queue s) u \<noteq> None" using o by (simp add: eb_offer_def)
  ultimately show False using assms(2) unfolding dict_has_iff by blast
qed

lemma eb_short_ban_gone:
  assumes "eb_inv s"
  shows "\<not> dict_has (ts_data (eb_experts (eb_short_ban now u s))) u
    \<or> \<not> dict_has (eb_uid_to_queue (eb_short_ban now u s)) u"
proof (cases "fst (ts_get now u (eb_experts s))")
  case None
  have "\<not> dict_has (ts_data (snd (ts_get now u (eb_experts s)))) u"
    by (rule eb_look_None_gone [OF eb_inv_withD(2) [OF assms] None])
  moreover have "eb_experts (eb_short_ban now u s) = snd (ts_get now u (eb_experts s))"
    using None by (simp add: eb_short_ban_def eb_ban_expert_def Let_def case_prod_unfold)
  ultimately show ?thesis by metis
next
  case (Some x)
  have "eb_uid_to_queue (eb_short_ban now u s) = dict_del u (eb_uid_to_queue s)"
    using Some by (simp add: eb_short_ban_def eb_ban_expert_def Let_def case_prod_unfold)
  then show ?thesis by simp
qed

section \<open>Stage order\<close>

lemma index_of_nth: "distinct xs \<Longrightarrow> i < length xs \<Longrightarrow> index_of (xs ! i) xs = Some i"
  by (induction xs arbitrary: i) (auto simp: nth_Cons' less_Suc_eq_0_disj)

lemma index_of_absent: "x \<notin> set xs \<Longrightarrow> index_of x xs = None"
  by (induction xs) auto

lemma nat_str_inj: "nat_str m = nat_str n \<longleftrightarrow> m = n"
  using nat_str_val [of m] nat_str_val [of n] by (metis of_nat_eq_iff)

lemma py_split_prefix: "d \<notin> set w \<Longrightarrow> hd (py_split d (w @ d # rest)) = w"
proof (induction w)
  case (Cons c w)
  then show ?case by (cases "py_split d (w @ d # rest)") auto
qed simp

lemma stage_names_facts:
  assumes "stage_names n = Inr names"
  shows "2 \<le> n" and "length names = n" and "distinct names" and "x \<in> set names \<Longrightarrow> CHR ''.'' \<notin> set x"
proof -
  show "2 \<le> n" "length names = n" using assms by (auto simp: stage_names_def split: if_splits)
  show "distinct names" using assms
    by (auto simp: stage_names_def nat_str_inj distinct_map inj_on_def split: if_splits)
  have dot: "\<not> is_digit CHR ''.''" by code_simp
  have "CHR ''.'' \<notin> set (nat_str k)" for k
    using nat_str_digits [of k] dot unfolding list_all_iff by blast
  then show "x \<in> set names \<Longrightarrow> CHR ''.'' \<notin> set x" using assms by (auto simp: stage_names_def split: if_splits)
qed

section \<open>Properties\<close>


text \<open>C11. Leases are conserved: in every reachable state the open leases together with the settled and
  the expired ones are no more than the resolves that granted a worker, so no receipt settles twice.\<close>

theorem rt_leases_accounted:
  assumes "eb_cfg_ok cfg" and "wr_step\<^sup>*\<^sup>* (wr_new cfg ttl t0) s"
  shows "int (length (rt_leases (wr_router s))) + cget (rt_counters (wr_router s)) ''settled''
    + cget (rt_counters (wr_router s)) ''expired_leases'' \<le> cget (rt_counters (wr_router s)) ''resolves''"
proof -
  have "wr_ok s" using wr_sys.reachable_invar assms by blast
  then show ?thesis by (simp add: wr_ok_def rt_ok_def rt_accounted_def)
qed


text \<open>The stages form a chain from head to tail: the worker of a stage, whatever its index, looks for its
  successor under the prefix of the next stage, the tail has none, and a uid of no stage is rejected.\<close>

theorem stages_form_a_chain:
  assumes "stage_names n = Inr names"
  shows "length names = n \<and> distinct names
    \<and> (\<forall>i < n. successor_stage_prefix (names ! i @ ''.'' @ rest) n =
           Inr (if i + 1 < n then Some (names ! (i + 1) @ ''.'') else None))
    \<and> (CHR ''.'' \<notin> set w \<and> w \<notin> set names \<longrightarrow> successor_stage_prefix (w @ ''.'' @ rest) n = Inl ValueError)"
proof (intro conjI allI impI)
  note facts = stage_names_facts [OF assms]
  show "length names = n" "distinct names" by (fact facts)+
  fix i assume i: "i < n"
  then have "hd (py_split CHR ''.'' (names ! i @ CHR ''.'' # rest)) = names ! i"
    using facts(2,4) by (simp add: py_split_prefix)
  then show "successor_stage_prefix (names ! i @ ''.'' @ rest) n =
      Inr (if i + 1 < n then Some (names ! (i + 1) @ ''.'') else None)"
    using i facts(1,2) index_of_nth [OF facts(3), of i] assms by (auto simp: successor_stage_prefix_def)
next
  assume "CHR ''.'' \<notin> set w \<and> w \<notin> set names"
  then show "successor_stage_prefix (w @ ''.'' @ rest) n = Inl ValueError"
    using assms by (simp add: successor_stage_prefix_def py_split_prefix index_of_absent)
qed

section \<open>Witnesses\<close>

text \<open>One worker of the tail stage is announced; then a trainer resolves it.\<close>

definition wr_demo0 :: w2w where
  "wr_demo0 = (wr_new eb_demo_cfg 10 0)\<lparr>wr_membership := mb_publish [(''tail.0'', ''QmA'', 100)] mb_empty\<rparr>"

definition wr_demo_resolve :: "error + resolve_result \<times> router \<times> mailbox" where
  "wr_demo_resolve = rt_resolve 1 1 (\<lambda>_. 0) 0 (PStr ''trainer'') 7 4 {} (wr_membership wr_demo0) (wr_router wr_demo0) (wr_mailbox wr_demo0)"

lemma wr_demo0_reached: "wr_step\<^sup>*\<^sup>* (wr_new eb_demo_cfg 10 0) wr_demo0"
proof -
  have "wr_step (wr_new eb_demo_cfg 10 0) wr_demo0"
    using wr_step_publish [of "wr_new eb_demo_cfg 10 0" "[(''tail.0'', ''QmA'', 100)]"]
    by (simp add: wr_demo0_def wr_new_def)
  then show ?thesis by (rule r_into_rtranclp)
qed

lemma wr_demo_resolve_eq:
  "\<exists>r m. wr_demo_resolve = Inr (Hop ''tail.0'' ''QmA'', r, m) \<and> rt_seen_version r = 1
     \<and> dict_has (rt_leases r) ((PStr ''trainer''), 7, ''tail.0'')"
  by (simp add: wr_demo_resolve_def wr_demo0_def wr_new_def rt_new_def rt_resolve_def rt_sync_membership_def
      mb_snapshot_def mb_publish_def mb_empty_def eb_new_def eb_demo_cfg_def rt_admit_member_def Let_def
      eb_check_and_unban_def ts_get_def ts_new_def ts_remove_stays ts_outdated_def rt_poll_receipts_def
      eb_add_expert_def ts_store_def dict_set_def heap_push_def ts_full_def eb_ensure_single_uid_entry_def eb_max_runtime_def
      eb_reserve_another_def eb_reserve_queue_entry_def eb_expected_time_taken_def ema_new_def eb_push_back_def rt_bump_def)


lemma rt_leases_accounted_witness:
  "\<exists>r m. wr_demo_resolve = Inr (Hop ''tail.0'' ''QmA'', r, m) \<and> rt_leases r \<noteq> []
     \<and> int (length (rt_leases r)) + cget (rt_counters r) ''settled'' + cget (rt_counters r) ''expired_leases''
       \<le> cget (rt_counters r) ''resolves''"
proof -
  obtain r m where r: "wr_demo_resolve = Inr (Hop ''tail.0'' ''QmA'', r, m)"
    "dict_has (rt_leases r) ((PStr ''trainer''), 7, ''tail.0'')" using wr_demo_resolve_eq by blast
  have "wr_step\<^sup>*\<^sup>* (wr_new eb_demo_cfg 10 0) (wr_demo0\<lparr>wr_router := r, wr_mailbox := m\<rparr>)"
    using wr_demo0_reached wr_step_resolve [OF r(1) [unfolded wr_demo_resolve_def]]
    by (rule rtranclp.rtrancl_into_rtrancl)
  from rt_leases_accounted [OF eb_demo_cfg_ok this] r show ?thesis by auto
qed


lemma stages_form_a_chain_witness:
  "successor_stage_prefix ''body1.17'' 4 = Inr (Some ''body2.'') \<and> successor_stage_prefix ''tail.3'' 4 = Inr None
    \<and> successor_stage_prefix ''body3.0'' 4 = Inl ValueError"
proof -
  have n: "stage_names 4 = Inr [''head'', ''body1'', ''body2'', ''tail'']" by code_simp
  show ?thesis
    using stages_form_a_chain [OF n, where rest = "''17''" and w = "''body3''"]
      stages_form_a_chain [OF n, where rest = "''3''" and w = "''body3''"]
      stages_form_a_chain [OF n, where rest = "''0''" and w = "''body3''"]
    by (auto simp: All_less_Suc numeral_eq_Suc nth_Cons')
qed

end
