(* ===== verification/DataPlaneProps.thy ===== *)
theory DataPlaneProps
  imports DataPlane LocalRouterProps
begin

text \<open>
  The driver's entry table under any interleaving of the handlers (bounded, duplicates recognised until
  the entry is released), the frame of a handler (it releases its own entry and always settles the
  microbatch), and the retry loop (no worker is pushed to twice, every failure reaches the router once).
\<close>

section \<open>The entry table\<close>

lemma dw_bump_simps [simp]:
  "dw_entries (dw_bump n s) = dw_entries s" "dw_prev_hops (dw_bump n s) = dw_prev_hops s"
  by (simp_all add: dw_bump_def)

text \<open>One atomic step of a handler process. The label is the key a step releases.\<close>

inductive dw_step :: "dwconfig \<Rightarrow> entry_key option \<Rightarrow> driver \<Rightarrow> driver \<Rightarrow> bool" for cfg where
  dw_step_forward: "dw_accept_forward cfg loads now u metadata s = Inr (out, t, evs) \<Longrightarrow> dw_step cfg None s t"
| dw_step_backward: "dw_accept_backward cfg loads now u metadata s = Inr (out, t, evs) \<Longrightarrow> dw_step cfg None s t"
| dw_step_pop: "dw_step cfg None s (s\<lparr>dw_prev_hops := dict_del k (dw_prev_hops s)\<rparr>)"
| dw_step_bump: "dw_step cfg None s (dw_bump n s)"
| dw_step_release: "dw_step cfg (Some k) s (dw_release k s)"

definition dw_run :: "dwconfig \<Rightarrow> driver \<Rightarrow> driver \<Rightarrow> bool" where
  "dw_run cfg = (\<lambda>s t. \<exists>l. dw_step cfg l s t)\<^sup>*\<^sup>*"

definition dw_inv :: "dwconfig \<Rightarrow> driver \<Rightarrow> bool" where
  "dw_inv cfg s \<longleftrightarrow> dict_ok (dw_entries s) \<and> int (length (dw_entries s)) \<le> dc_max_entries cfg"

text \<open>What admission does to the table, both directions alike.\<close>

definition dw_grows :: "dwconfig \<Rightarrow> driver \<Rightarrow> driver \<Rightarrow> bool" where
  "dw_grows cfg s t \<longleftrightarrow> dw_entries t = dw_entries s
     \<or> (\<exists>k now. \<not> dict_has (dw_entries s) k \<and> int (length (dw_entries s)) < dc_max_entries cfg
          \<and> dw_entries t = dict_set k now (dw_entries s))"

lemma dw_grows_same: "dw_entries t = dw_entries s \<Longrightarrow> dw_grows cfg s t"
  by (simp add: dw_grows_def)

lemma dw_grows_new:
  "\<not> dict_has (dw_entries s) k \<Longrightarrow> int (length (dw_entries s)) < dc_max_entries cfg
     \<Longrightarrow> dw_entries t = dict_set k now (dw_entries s) \<Longrightarrow> dw_grows cfg s t"
  unfolding dw_grows_def by blast

lemma dw_admit_grows: "dw_grows cfg s (snd (dw_admit cfg now counter k s))"
  by (auto simp: dw_admit_def intro: dw_grows_same dw_grows_new)

lemma dw_grows_cong: "dw_grows cfg s t \<Longrightarrow> dw_entries t' = dw_entries t \<Longrightarrow> dw_grows cfg s t'"
  by (simp add: dw_grows_def)

lemma dw_accept_forward_cases:
  assumes "bm_from_bytes loads metadata = Some md" and "bm_trainer_peer_id md \<noteq> None"
    and "py_to_int (bm_seq md) = Inr sq" and "hashable (bm_trainer_uid md)"
  shows "\<exists>t evs b. dw_accept_forward cfg loads now u metadata s = Inr ((fst (fst (dw_admit cfg now ''accepted_forward'' (u, bm_trainer_uid md, sq, Fwd) s)),
        fst (snd (fst (dw_admit cfg now ''accepted_forward'' (u, bm_trainer_uid md, sq, Fwd) s))),
        map_option (\<lambda>new. \<lparr>af_metadata = md, af_seq = sq, af_key = (u, bm_trainer_uid md, sq, Fwd), af_is_new = new\<rparr>) b), t, evs)
      \<and> b = snd (snd (fst (dw_admit cfg now ''accepted_forward'' (u, bm_trainer_uid md, sq, Fwd) s)))
      \<and> dw_entries t = dw_entries (snd (dw_admit cfg now ''accepted_forward'' (u, bm_trainer_uid md, sq, Fwd) s))
      \<and> evs = (if b = Some True then [SpawnReport RK_ACCEPTED u (bm_prev_hop_uid md)] else [])"
  using assms by (auto simp: dw_accept_forward_def Let_def dw_admit_def split: option.split)

lemma dw_accept_backward_cases:
  assumes "bm_from_bytes loads metadata = Some md" and "bm_trainer_peer_id md \<noteq> None"
    and "py_to_int (bm_seq md) = Inr sq" and "hashable (bm_trainer_uid md)"
  shows "\<exists>t evs b. dw_accept_backward cfg loads now u metadata s = Inr ((fst (fst (dw_admit cfg now ''accepted_backward'' (u, bm_trainer_uid md, sq, Bwd) s)),
        fst (snd (fst (dw_admit cfg now ''accepted_backward'' (u, bm_trainer_uid md, sq, Bwd) s))),
        map_option (\<lambda>new. \<lparr>af_metadata = md, af_seq = sq, af_key = (u, bm_trainer_uid md, sq, Bwd), af_is_new = new\<rparr>) b), t, evs)
      \<and> b = snd (snd (fst (dw_admit cfg now ''accepted_backward'' (u, bm_trainer_uid md, sq, Bwd) s)))
      \<and> dw_entries t = dw_entries (snd (dw_admit cfg now ''accepted_backward'' (u, bm_trainer_uid md, sq, Bwd) s))
      \<and> evs = (if b = Some True then [SpawnReport RK_BWD_PROGRESS u (bm_prev_hop_uid md)] else [])"
  using assms by (auto simp: dw_accept_backward_def Let_def dw_admit_def)

text \<open>Metadata that does not name a direct microbatch.\<close>

definition dw_missing :: "(bytes \<Rightarrow> pyval option) \<Rightarrow> bytes \<Rightarrow> bool" where
  "dw_missing loads metadata \<longleftrightarrow>
     (case bm_from_bytes loads metadata of None \<Rightarrow> True | Some md \<Rightarrow> bm_trainer_peer_id md = None)"

lemma dw_accept_grows:
  shows "dw_accept_forward cfg loads now u metadata s = Inr (out, t, evs) \<Longrightarrow> dw_grows cfg s t"
    and "dw_accept_backward cfg loads now u metadata s = Inr (out, t, evs) \<Longrightarrow> dw_grows cfg s t"
proof -
  assume a: "dw_accept_forward cfg loads now u metadata s = Inr (out, t, evs)"
  show "dw_grows cfg s t"
  proof (cases "dw_missing loads metadata")
    case True
    then show ?thesis using a by (auto simp: dw_missing_def dw_accept_forward_def intro: dw_grows_same split: option.splits)
  next
    case False
    then obtain md sq where md: "bm_from_bytes loads metadata = Some md" "bm_trainer_peer_id md \<noteq> None"
      "py_to_int (bm_seq md) = Inr sq" "hashable (bm_trainer_uid md)"
      using a by (auto simp: dw_missing_def dw_accept_forward_def split: option.splits sum.splits if_splits)
    show ?thesis
      using dw_accept_forward_cases [OF md, of cfg now u s] a
        dw_grows_cong [OF dw_admit_grows [of cfg s now "''accepted_forward''" "(u, bm_trainer_uid md, sq, Fwd)"]] by auto
  qed
next
  assume a: "dw_accept_backward cfg loads now u metadata s = Inr (out, t, evs)"
  show "dw_grows cfg s t"
  proof (cases "dw_missing loads metadata")
    case True
    then show ?thesis using a by (auto simp: dw_missing_def dw_accept_backward_def intro: dw_grows_same split: option.splits)
  next
    case False
    then obtain md sq where md: "bm_from_bytes loads metadata = Some md" "bm_trainer_peer_id md \<noteq> None"
      "py_to_int (bm_seq md) = Inr sq" "hashable (bm_trainer_uid md)"
      using a by (auto simp: dw_missing_def dw_accept_backward_def split: option.splits sum.splits if_splits)
    show ?thesis
      using dw_accept_backward_cases [OF md, of cfg now u s] a
        dw_grows_cong [OF dw_admit_grows [of cfg s now "''accepted_backward''" "(u, bm_trainer_uid md, sq, Bwd)"]] by auto
  qed
qed

lemma dw_grows_inv: "dw_grows cfg s t \<Longrightarrow> dw_inv cfg s \<Longrightarrow> dw_inv cfg t"
  unfolding dw_grows_def dw_inv_def by (elim disjE exE conjE) (simp_all add: length_dict_set)

lemma dw_grows_keeps: "dw_grows cfg s t \<Longrightarrow> dict_has (dw_entries s) k \<Longrightarrow> dict_has (dw_entries t) k"
  unfolding dw_grows_def by (elim disjE exE conjE) simp_all

lemma dw_step_inv: "dw_step cfg l s t \<Longrightarrow> dw_inv cfg s \<Longrightarrow> dw_inv cfg t"
proof (induction rule: dw_step.induct)
  case (dw_step_forward loads now u metadata s out t evs)
  then show ?case using dw_accept_grows(1) dw_grows_inv by blast
next
  case (dw_step_backward loads now u metadata s out t evs)
  then show ?case using dw_accept_grows(2) dw_grows_inv by blast
next
  case (dw_step_release k s)
  then show ?case using length_dict_del_le [of k "dw_entries s"] by (simp add: dw_inv_def dw_release_def)
qed (simp_all add: dw_inv_def)

lemma dw_new_inv: "dw_new cfg = Inr s \<Longrightarrow> dw_inv cfg s"
  by (auto simp: dw_new_def dw_inv_def split: if_splits)

interpretation dw_sys: transitions "\<lambda>s. dw_new cfg = Inr s" "\<lambda>s t. \<exists>l. dw_step cfg l s t" "dw_inv cfg" for cfg
  by unfold_locales (auto intro: dw_new_inv dw_step_inv)

text \<open>A key stays in the table until a step releases it.\<close>

lemma dw_step_keeps_key: "dw_step cfg l s t \<Longrightarrow> l \<noteq> Some k \<Longrightarrow> dict_has (dw_entries s) k \<Longrightarrow> dict_has (dw_entries t) k"
proof (induction rule: dw_step.induct)
  case (dw_step_forward loads now u metadata s out t evs)
  then show ?case using dw_accept_grows(1) dw_grows_keeps by blast
next
  case (dw_step_backward loads now u metadata s out t evs)
  then show ?case using dw_accept_grows(2) dw_grows_keeps by blast
qed (auto simp: dw_release_def)

lemma dw_run_keeps_key:
  "(\<lambda>s t. \<exists>l. l \<noteq> Some k \<and> dw_step cfg l s t)\<^sup>*\<^sup>* s t \<Longrightarrow> dict_has (dw_entries s) k \<Longrightarrow> dict_has (dw_entries t) k"
  by (induction rule: rtranclp_induct) (use dw_step_keeps_key in blast)+

section \<open>The frame of a handler\<close>

text \<open>Between two contexts of a handler the log only grows and the entry table is left alone.\<close>

definition extends_to :: "'r ctx \<Rightarrow> 'r ctx \<Rightarrow> bool" where
  "extends_to cx cx' \<longleftrightarrow> (\<exists>evs. cx_log cx' = cx_log cx @ evs) \<and> dw_entries (cx_driver cx') = dw_entries (cx_driver cx)"

fun settled :: "event \<Rightarrow> bool" where
  "settled (Pushed _ _ (Inr (ACCEPTED, _))) = True"
| "settled (Reported RK_DONE _ _ _ _ _) = True"
| "settled (Reported RK_DROPPED _ _ _ _ _) = True"
| "settled _ = False"

text \<open>The same, and the microbatch was handed on, reported done or reported dropped.\<close>

definition settles_to :: "'r ctx \<Rightarrow> 'r ctx \<Rightarrow> bool" where
  "settles_to cx cx' \<longleftrightarrow> (\<exists>evs. cx_log cx' = cx_log cx @ evs \<and> list_ex settled evs)
     \<and> dw_entries (cx_driver cx') = dw_entries (cx_driver cx)"

lemma extends_refl [simp]: "extends_to cx cx"
  by (simp add: extends_to_def)

lemma extends_trans: "extends_to a b \<Longrightarrow> extends_to b c \<Longrightarrow> extends_to a c"
  by (auto simp: extends_to_def)

lemma settles_trans:
  shows "settles_to a b \<Longrightarrow> extends_to b c \<Longrightarrow> settles_to a c"
    and "extends_to a b \<Longrightarrow> settles_to b c \<Longrightarrow> settles_to a c"
  by (auto simp: extends_to_def settles_to_def)

lemma settles_extends: "settles_to a b \<Longrightarrow> extends_to a b"
  by (auto simp: extends_to_def settles_to_def)

lemma extends_emit [simp]: "extends_to cx (cx_emit e cx)"
  by (simp add: extends_to_def cx_emit_def)

lemma extends_bump [simp]: "extends_to cx (cx_bump n cx') = extends_to cx cx'" "settles_to cx (cx_bump n cx') = settles_to cx cx'"
  by (simp_all add: extends_to_def settles_to_def cx_bump_def)

lemma extends_router [simp]: "extends_to cx (cx'\<lparr>cx_router := r\<rparr>) = extends_to cx cx'"
  by (simp add: extends_to_def)

lemma settles_emit: "settled e \<Longrightarrow> settles_to cx (cx_emit e cx)"
  by (simp add: settles_to_def cx_emit_def)

lemma extends_report_event: "report_event cfg env af kind u pu l r cx = (out, cx') \<Longrightarrow> extends_to cx cx'"
  by (auto simp: report_event_def Let_def)

lemma settles_report_event:
  "report_event cfg env af kind u pu l r cx = (out, cx') \<Longrightarrow> kind \<in> {RK_DONE, RK_DROPPED} \<Longrightarrow> settles_to cx cx'"
  by (auto simp: report_event_def Let_def intro!: settles_emit)

lemma settles_safe_report_drop: "settles_to cx (safe_report_drop cfg env af u reason cx)"
  unfolding safe_report_drop_def by (rule settles_report_event) (auto simp: prod_eq_iff)

lemma extends_router_fail: "router_fail env af u reason cx = (out, cx') \<Longrightarrow> extends_to cx cx'"
  by (auto simp: router_fail_def Let_def split: sum.splits)

lemma extends_router_resolve: "router_resolve env af w ex cx = (out, cx') \<Longrightarrow> extends_to cx cx'"
  by (auto simp: router_resolve_def split: sum.splits)

lemma extends_resolve_next_hop:
  assumes "resolve_next_hop cfg env af cur w fu fr ex cx = (out, cx')" shows "extends_to cx cx'"
proof -
  let ?c = "cx_emit (ResolveCall fu fr ex) cx"
  have "extends_to ?c cx'"
    using assms
    by (auto simp: resolve_next_hop_def Let_def split: if_splits option.splits prod.splits sum.splits
        intro: extends_router_resolve extends_router_fail extends_trans)
  then show ?thesis using extends_emit extends_trans by blast
qed

lemma extends_push_once: "push_once env dir h m n cx = (out, cx') \<Longrightarrow> extends_to cx cx'"
  by (auto simp: push_once_def Let_def)

lemma settles_push_once: "push_once env dir h m n cx = (Inr (ACCEPTED, reason), cx') \<Longrightarrow> settles_to cx cx'"
  by (auto simp: push_once_def Let_def intro!: settles_emit)

lemma push_to_hop_extends: "push_to_hop env m n hop pend cx = (a, cx') \<Longrightarrow> extends_to cx cx'"
  using extends_push_once
  by (fastforce simp: push_to_hop_def split: sum.splits if_splits option.splits prod.splits push_status.splits)

lemma push_to_hop_settles:
  "push_to_hop env m n hop pend cx = (Finished (Inr True) pend', cx') \<Longrightarrow> settles_to cx cx'"
  using settles_push_once
  by (fastforce simp: push_to_hop_def split: sum.splits if_splits option.splits prod.splits push_status.splits)

lemma attempt_hop_extends: "attempt_hop pf cfg env af cur w pend ex cx = (hop, pend', cx') \<Longrightarrow> extends_to cx cx'"
  using extends_resolve_next_hop
  by (fastforce simp: attempt_hop_def split: option.splits sum.splits prod.splits)

lemma push_loop_extends:
  "push_loop n cfg env af cur m nb w dl pf pend ex cx = Some (out, pend', cx') \<Longrightarrow>
     extends_to cx cx' \<and> (out = Inr True \<longrightarrow> settles_to cx cx')"
proof (induction n arbitrary: pf pend ex cx)
  case (Suc n)
  let ?c0 = "cx_emit ReadClock cx"
  show ?case
  proof (cases "en_clock env (cx_log cx) < dl")
    case False
    then show ?thesis using Suc.prems by auto
  next
    case True
    obtain hop p1 c1 where h: "attempt_hop pf cfg env af cur w pend ex ?c0 = (hop, p1, c1)"
      by (cases "attempt_hop pf cfg env af cur w pend ex ?c0")
    obtain a c2 where a: "push_to_hop env m nb hop p1 c1 = (a, c2)" by (cases "push_to_hop env m nb hop p1 c1")
    have e01: "extends_to cx c1" using attempt_hop_extends [OF h] extends_emit extends_trans by blast
    have e02: "extends_to cx c2" using e01 push_to_hop_extends [OF a] extends_trans by blast
    show ?thesis
    proof (cases a)
      case (Finished o2 p2)
      then have "o2 = out" "c2 = cx'" using Suc.prems True h a by auto
      then show ?thesis using e01 e02 push_to_hop_settles Finished a settles_trans(2) by metis
    next
      case (Again u r)
      then have "push_loop n cfg env af cur m nb w dl None (Some u, Some r) (insert u ex) c2 = Some (out, pend', cx')"
        using Suc.prems True h a by auto
      from Suc.IH [OF this] show ?thesis using e02 extends_trans settles_trans(2) by metis
    qed
  qed
qed simp

lemma push_forward_extends:
  assumes "push_forward_with_retries n cfg env af cur m nb w pf cx = Some (out, cx')"
  shows "extends_to cx cx' \<and> (out = Inr True \<longrightarrow> settles_to cx cx')"
proof -
  obtain o1 p c1 ex where l: "push_loop n cfg env af cur m nb w (en_clock env (cx_log cx) + dc_forward_timeout cfg) pf
      (bm_next_hop_uid (af_metadata af), None) ex (cx_emit ReadClock cx) = Some (o1, p, c1)"
    and r: "extends_to c1 cx'" "out = Inr True \<longrightarrow> o1 = Inr True"
    using assms extends_router_fail
    by (fastforce simp: push_forward_with_retries_def Let_def split: option.splits prod.splits if_splits)
  from push_loop_extends [OF l] r show ?thesis
    using extends_emit extends_trans settles_trans by metis
qed

lemma push_backward_extends:
  "push_backward env af h n cx = (ok, cx') \<Longrightarrow> extends_to cx cx' \<and> (ok \<longrightarrow> settles_to cx cx')"
  using extends_push_once settles_push_once
  by (fastforce simp: push_backward_def Let_def split: sum.splits prod.splits push_status.splits)

lemma drop_unless_settles:
  assumes "drop_unless cfg env af u reason r = (out, cx')" and "extends_to cx (snd r)" and "fst r \<Longrightarrow> settles_to cx (snd r)"
  shows "extends_to cx cx' \<and> (out = None \<longrightarrow> settles_to cx cx')"
proof (cases "fst r")
  case True
  then show ?thesis using assms by (simp add: drop_unless_def)
next
  case False
  then have "settles_to (snd r) cx'" using assms(1) settles_report_event by (fastforce simp: drop_unless_def)
  then show ?thesis using assms(2) settles_trans(2) settles_extends by blast
qed

lemma extends_pop_prev_hop: "pop_prev_hop u af cx = (prev, cx') \<Longrightarrow> extends_to cx cx'"
  by (auto simp: pop_prev_hop_def Let_def extends_to_def)

lemma drop_backward_settles:
  assumes "drop_unless cfg env af u reason (push_backward env af h n c) = (out, cx')" and "extends_to cx c"
  shows "extends_to cx cx' \<and> (out = None \<longrightarrow> settles_to cx cx')"
proof -
  note b = push_backward_extends [OF surjective_pairing]
  show ?thesis
    using drop_unless_settles [OF assms(1), of cx] b [where env = env and af = af and h = h and n = n and cx = c] assms(2) extends_trans settles_trans(2) by metis
qed

lemma done_settles:
  assumes "report_event cfg env af RK_DONE u pu l r c = (out, cx')" and "extends_to cx c"
  shows "extends_to cx cx' \<and> settles_to cx cx'"
  using settles_report_event [OF assms(1)] assms(2) settles_trans(2) settles_extends by blast

lemma handle_tail_forward_settles:
  assumes "handle_tail_forward cfg env af u lpt gh inputs cx = (out, cx')"
  shows "extends_to cx cx' \<and> (out = None \<longrightarrow> settles_to cx cx')"
proof -
  obtain o1 c1 where l: "report_event cfg env af RK_LOSS u None (Some (mean_loss lpt)) None cx = (o1, c1)"
    by (cases "report_event cfg env af RK_LOSS u None (Some (mean_loss lpt)) None cx")
  have e1: "extends_to cx c1" by (rule extends_report_event [OF l])
  obtain prev c2 where p: "pop_prev_hop u af c1 = (prev, c2)" by (cases "pop_prev_hop u af c1")
  have e2: "extends_to cx c2" using e1 extends_pop_prev_hop [OF p] extends_trans by blast
  show ?thesis
    using assms e1 e2 drop_backward_settles [OF _ e2] done_settles [OF _ e2]
    by (fastforce simp: handle_tail_forward_def l p Let_def split: option.splits if_splits prod.splits sum.splits bool.splits)
qed

lemma extends_spawn_receipt: "extends_to cx (spawn_receipt cfg md u cx)"
  by (simp add: spawn_receipt_def)

lemma forward_body_settles:
  assumes "forward_body n cfg env af u inputs pt ptn tp tm pf cx = Some (out, cx')"
  shows "extends_to cx cx' \<and> (out = None \<longrightarrow> settles_to cx cx')"
proof (cases "en_compute env (cx_log cx) Fwd")
  case (Inl e)
  then show ?thesis using assms by (auto simp: forward_body_def Let_def)
next
  case (Inr outs)
  define c2 where c2_def: "c2 = spawn_receipt cfg (af_metadata af) u (cx_emit (Computed Fwd) cx)"
  have e2: "extends_to cx c2" unfolding c2_def using extends_spawn_receipt extends_emit extends_trans by blast
  show ?thesis
  proof (cases "length outs = 2 \<and> 3 \<le> length inputs \<and> pt = []")
    case True
    then have "handle_tail_forward cfg env af u (outs ! 0) (outs ! 1) inputs c2 = (out, cx')"
      using assms Inr by (simp add: forward_body_def Let_def c2_def)
    from handle_tail_forward_settles [OF this] show ?thesis using e2 extends_trans settles_trans(2) by metis
  next
    case False
    show ?thesis
    proof (cases "en_serialize env (cx_log c2) outs")
      case (Inl e)
      then show ?thesis using assms Inr False e2 by (auto simp: forward_body_def Let_def c2_def)
    next
      case (Inr nb)
      define m where m_def: "m = bm_to_bytes (en_dumps env) ((af_metadata af)\<lparr>bm_next_hop_uid := None,
        bm_next_hop_peer_id := None, bm_prev_hop_uid := Some u, bm_prev_hop_peer_id := Some tp,
        bm_prev_hop_maddrs := Some tm\<rparr>)"
      have eq: "forward_body n cfg env af u inputs pt ptn tp tm pf cx =
          (case push_forward_with_retries n cfg env af u m (nb + ptn) (task_size_of (outs @ pt)) pf c2 of
             None \<Rightarrow> None
           | Some (Inl e, c3) \<Rightarrow> Some (Some e, c3)
           | Some (Inr ok, c3) \<Rightarrow> Some (drop_unless cfg env af u ''forward push failed'' (ok, c3)))"
        using \<open>en_compute env (cx_log cx) Fwd = Inr outs\<close> False Inr
        by (auto simp: forward_body_def Let_def c2_def m_def)
      then obtain o1 c3 where p: "push_forward_with_retries n cfg env af u m (nb + ptn) (task_size_of (outs @ pt)) pf c2 = Some (o1, c3)"
        and r: "case o1 of Inl e \<Rightarrow> (out, cx') = (Some e, c3)
          | Inr ok \<Rightarrow> (out, cx') = drop_unless cfg env af u ''forward push failed'' (ok, c3)"
        using assms by (cases "push_forward_with_retries n cfg env af u m (nb + ptn) (task_size_of (outs @ pt)) pf c2")
          (auto split: sum.splits)
      note f = push_forward_extends [OF p]
      show ?thesis
      proof (cases o1)
        case (Inl e)
        then show ?thesis using r f e2 extends_trans by auto
      next
        case ok: (Inr b)
        then have "drop_unless cfg env af u ''forward push failed'' (b, c3) = (out, cx')" using r by simp
        moreover have "extends_to cx c3" "b \<Longrightarrow> settles_to cx c3"
          using f e2 ok extends_trans [of cx c2 c3] settles_trans(2) [of cx c2 c3] by simp_all
        ultimately show ?thesis using drop_unless_settles [of cfg env af u "''forward push failed''" "(b, c3)" out cx' cx] by simp
      qed
    qed
  qed
qed

lemma backward_body_settles:
  assumes "backward_body cfg env af u cx = (out, cx')"
  shows "extends_to cx cx' \<and> (out = None \<longrightarrow> settles_to cx cx')"
proof (cases "en_compute env (cx_log cx) Bwd")
  case (Inl e)
  then show ?thesis using assms by (auto simp: backward_body_def Let_def)
next
  case (Inr grads)
  obtain prev c2 where p: "pop_prev_hop u af (cx_emit (Computed Bwd) cx) = (prev, c2)"
    by (cases "pop_prev_hop u af (cx_emit (Computed Bwd) cx)")
  have e2: "extends_to cx c2" using extends_pop_prev_hop [OF p] extends_emit extends_trans by blast
  show ?thesis
    using assms Inr e2 drop_backward_settles [OF _ e2] done_settles [OF _ e2]
    by (fastforce simp: backward_body_def p Let_def split: option.splits prod.splits sum.splits)
qed

lemma finish_handler_settles:
  assumes "extends_to cx (snd r)" and "fst r = None \<Longrightarrow> settles_to cx (snd r)"
  shows "dw_entries (cx_driver (finish_handler cfg env af u what r)) = dict_del (af_key af) (dw_entries (cx_driver cx))
    \<and> (\<exists>evs. cx_log (finish_handler cfg env af u what r) = cx_log cx @ evs \<and> list_ex settled evs)"
proof -
  obtain out c where r: "r = (out, c)" by (cases r)
  have "\<exists>c'. settles_to cx c' \<and> finish_handler cfg env af u what r
      = c'\<lparr>cx_driver := dw_release (af_key af) (cx_driver c')\<rparr>"
  proof (cases out)
    case None
    then show ?thesis using assms r by (auto simp: finish_handler_def)
  next
    case (Some e)
    then show ?thesis
      using assms(1) r settles_safe_report_drop settles_trans(2) by (fastforce simp: finish_handler_def Let_def)
  qed
  then show ?thesis by (auto simp: settles_to_def dw_release_def)
qed

section \<open>The retry loop over a router\<close>

text \<open>What the log of a run says: the workers pushed to, the failures and the failures reported.\<close>

fun push_target :: "event \<Rightarrow> uid list" where
  "push_target (Pushed Fwd h _) = [hp_uid h]"
| "push_target _ = []"

fun failed_push :: "event \<Rightarrow> (uid \<times> string) list" where
  "failed_push (Pushed Fwd h (Inl e)) = [(hp_uid h, reason_or_default (Some e))]"
| "failed_push (Pushed Fwd h (Inr (BUSY, _))) = [(hp_uid h, ''busy'')]"
| "failed_push (Pushed Fwd h (Inr (DROP, reason))) = [(hp_uid h, if reason \<noteq> [] then reason else ''drop'')]"
| "failed_push _ = []"

fun reported_failure :: "event \<Rightarrow> (uid \<times> string) list" where
  "reported_failure (RouterFail u reason) = [(u, reason)]"
| "reported_failure _ = []"

definition collect :: "(event \<Rightarrow> 'a list) \<Rightarrow> event list \<Rightarrow> 'a list" where
  "collect f evs = concat (map f evs)"

lemma collect_simps [simp]:
  "collect f [] = []" "collect f (e # evs) = f e @ collect f evs" "collect f (xs @ ys) = collect f xs @ collect f ys"
  by (simp_all add: collect_def)

text \<open>The failure a loop still has to report.\<close>

fun pending_failure :: "pending \<Rightarrow> (uid \<times> string) list" where
  "pending_failure (None, _) = []"
| "pending_failure (Some u, reason) = [(u, reason_or_default reason)]"

text \<open>
  The contract of a router: it never answers with an excluded worker. \<open>calm\<close> is where the router is
  relied on not to raise.
\<close>

locale hop_resolver =
  fixes resolve :: "event list \<Rightarrow> pyval \<Rightarrow> int \<Rightarrow> real \<Rightarrow> uid set \<Rightarrow> 'r \<Rightarrow> exn + resolve_result \<times> 'r"
  assumes resolve_excludes: "resolve tr o' sq w ex r = Inr (Hop u p, r') \<Longrightarrow> u \<notin> ex"
begin

lemma router_hop_excluded:
  assumes "en_router_resolve env = resolve" and "router_resolve env af w ex cx = (Inr r, cx')" and "rp_hop r = Some h"
  shows "hp_uid h \<notin> ex"
proof -
  obtain res rt where "resolve (cx_log cx) (bm_trainer_uid (af_metadata af)) (af_seq af) w ex (cx_router cx) = Inr (res, rt)"
    "r = reply_of res"
    using assms(1,2) by (auto simp: router_resolve_def split: sum.splits)
  then show ?thesis using assms(3) resolve_excludes by (cases res) auto
qed

lemma resolve_next_hop_local:
  assumes "dc_trainerless cfg" and "dc_has_router cfg" and "en_router_resolve env = resolve"
    and "resolve_next_hop cfg env af cur w fu fr ex cx = (Inr r, cx')" and "rp_hop r = Some h"
  shows "hp_uid h \<notin> ex"
  using assms router_hop_excluded [OF assms(3) _ assms(5)]
  by (auto simp: resolve_next_hop_def Let_def split: option.splits prod.splits)

end

lemma resolve_next_hop_trace:
  assumes "dc_trainerless cfg" and "dc_has_router cfg"
    and "resolve_next_hop cfg env af cur w fu fr ex cx = (out, cx')"
  shows "\<exists>evs. cx_log cx' = cx_log cx @ evs \<and> collect push_target evs = [] \<and> collect failed_push evs = []
    \<and> collect reported_failure evs = pending_failure (fu, fr)"
  using assms
  by (auto simp: resolve_next_hop_def Let_def router_resolve_def router_fail_def cx_emit_def
      split: option.splits prod.splits sum.splits)

lemma push_once_trace:
  "push_once env dir h m n cx = (out, cx') \<Longrightarrow> cx_log cx' = cx_log cx @ [Pushed dir h out]"
  by (auto simp: push_once_def Let_def cx_emit_def)

lemma push_to_hop_trace:
  assumes "push_to_hop env m n hop pend cx = (a, cx')"
  shows "\<exists>evs. cx_log cx' = cx_log cx @ evs \<and> collect reported_failure evs = []
    \<and> (case a of
         Finished out pend' \<Rightarrow> pend' = pend \<and> collect failed_push evs = []
           \<and> set (collect push_target evs) \<subseteq> {u. \<exists>r h. hop = Inr r \<and> rp_hop r = Some h \<and> hp_uid h = u}
           \<and> length (collect push_target evs) \<le> 1
       | Again u reason \<Rightarrow> (\<exists>r h. hop = Inr r \<and> rp_hop r = Some h \<and> hp_uid h = u)
           \<and> collect push_target evs = [u] \<and> collect failed_push evs = pending_failure (Some u, Some reason))"
proof -
  consider e where "hop = Inl e" | r where "hop = Inr r" "rp_status r \<noteq> PStr ''hop'' \<or> rp_hop r = None"
    | r h where "hop = Inr r" "rp_status r = PStr ''hop''" "rp_hop r = Some h"
    by (metis option.exhaust sum.exhaust)
  then show ?thesis
  proof cases
    case (3 r h)
    obtain out c1 where p: "push_once env Fwd h m n cx = (out, c1)" by (cases "push_once env Fwd h m n cx")
    have tr: "cx_log c1 = cx_log cx @ [Pushed Fwd h out]" by (rule push_once_trace [OF p])
    show ?thesis
    proof (cases out)
      case (Inl e)
      then show ?thesis using assms 3 p tr by (auto simp: push_to_hop_def cx_bump_def)
    next
      case (Inr sr)
      then obtain st reason where o: "out = Inr (st, reason)" by (cases sr) auto
      show ?thesis using assms 3 p tr o
        by (cases st) (auto simp: push_to_hop_def cx_bump_def reason_or_default_def)
    qed
  qed (use assms in \<open>auto simp: push_to_hop_def split: option.splits\<close>)
qed

context hop_resolver
begin

lemma push_loop_trace:
  assumes "dc_trainerless cfg" and "dc_has_router cfg" and "en_router_resolve env = resolve"
    and "push_loop n cfg env af cur m nb w dl None pend ex cx = Some (out, pend', cx')"
  shows "\<exists>evs. cx_log cx' = cx_log cx @ evs \<and> distinct (collect push_target evs)
    \<and> set (collect push_target evs) \<inter> ex = {}
    \<and> (isl out \<or> pending_failure pend @ collect failed_push evs = collect reported_failure evs @ pending_failure pend')"
  using assms(4)
proof (induction n arbitrary: pend ex cx)
  case (Suc n)
  let ?c0 = "cx_emit ReadClock cx"
  show ?case
  proof (cases "en_clock env (cx_log cx) < dl")
    case False
    then show ?thesis using Suc.prems by (auto simp: cx_emit_def)
  next
    case True
    obtain hop c1 where h: "resolve_next_hop cfg env af cur w (fst pend) (snd pend) ex ?c0 = (hop, c1)"
      by (cases "resolve_next_hop cfg env af cur w (fst pend) (snd pend) ex ?c0")
    obtain e1 where e1: "cx_log c1 = cx_log ?c0 @ e1" "collect push_target e1 = []" "collect failed_push e1 = []"
      "collect reported_failure e1 = pending_failure pend"
      using resolve_next_hop_trace [OF assms(1,2) h] by auto
    show ?thesis
    proof (cases hop)
      case (Inl e)
      then show ?thesis using Suc.prems True h e1 by (auto simp: attempt_hop_def push_to_hop_def cx_emit_def)
    next
      case (Inr r)
      obtain a c2 where a: "push_to_hop env m nb (Inr r) (None, None) c1 = (a, c2)"
        by (cases "push_to_hop env m nb (Inr r) (None, None) c1")
      from push_to_hop_trace [OF a] obtain e2 where e2: "cx_log c2 = cx_log c1 @ e2" "collect reported_failure e2 = []"
        and a2: "case a of
           Finished out pend' \<Rightarrow> pend' = (None, None) \<and> collect failed_push e2 = []
             \<and> set (collect push_target e2) \<subseteq> {u. \<exists>r' h. Inr r = (Inr r' :: exn + w2w_reply) \<and> rp_hop r' = Some h \<and> hp_uid h = u}
             \<and> length (collect push_target e2) \<le> 1
         | Again u reason \<Rightarrow> (\<exists>r' h. Inr r = (Inr r' :: exn + w2w_reply) \<and> rp_hop r' = Some h \<and> hp_uid h = u)
             \<and> collect push_target e2 = [u] \<and> collect failed_push e2 = pending_failure (Some u, Some reason)"
        by blast
      note fresh = resolve_next_hop_local [OF assms(1,2,3) h [unfolded Inr]]
      show ?thesis
      proof (cases a)
        case (Finished o2 p2)
        then have "out = o2" "pend' = (None, None)" "cx' = c2"
          using Suc.prems True h Inr a a2 by (auto simp: attempt_hop_def)
        moreover have "distinct (collect push_target e2)"
          using a2 Finished by (cases "collect push_target e2") auto
        ultimately show ?thesis using e1 e2 a2 Finished fresh by (auto simp: cx_emit_def)
      next
        case (Again u reason)
        then have "push_loop n cfg env af cur m nb w dl None (Some u, Some reason) (insert u ex) c2 = Some (out, pend', cx')"
          using Suc.prems True h Inr a by (auto simp: attempt_hop_def)
        from Suc.IH [OF this] obtain e3 where e3: "cx_log cx' = cx_log c2 @ e3" "distinct (collect push_target e3)"
          "set (collect push_target e3) \<inter> insert u ex = {}"
          "isl out \<or> pending_failure (Some u, Some reason) @ collect failed_push e3
             = collect reported_failure e3 @ pending_failure pend'" by blast
        have "u \<notin> ex" using fresh a2 Again by auto
        then show ?thesis using e1 e2 e3 a2 Again
          by (intro exI [of _ "ReadClock # e1 @ e2 @ e3"]) (auto simp: cx_emit_def)
      qed
    qed
  qed
qed simp

end

section \<open>The local router behind the loop\<close>

text \<open>The router of the model as the driver calls it; clock, tie-breakers and membership vary with the trace.\<close>

definition rt_oracle :: "(event list \<Rightarrow> time) \<Rightarrow> (event list \<Rightarrow> uid \<Rightarrow> real) \<Rightarrow> (event list \<Rightarrow> membership)
    \<Rightarrow> event list \<Rightarrow> pyval \<Rightarrow> int \<Rightarrow> real \<Rightarrow> uid set \<Rightarrow> router \<times> mailbox \<Rightarrow> exn + resolve_result \<times> router \<times> mailbox" where
  "rt_oracle clk rnd mem tr origin sq w ex s =
     (case rt_resolve (clk tr) (clk tr) (rnd tr) (rnd tr []) origin sq w ex (mem tr) (fst s) (snd s) of
        Inl err \<Rightarrow> Inl (exn_name err)
      | Inr out \<Rightarrow> Inr out)"

definition rt_fail_oracle :: "(event list \<Rightarrow> time) \<Rightarrow> event list \<Rightarrow> pyval \<Rightarrow> int \<Rightarrow> uid \<Rightarrow> string
    \<Rightarrow> router \<times> mailbox \<Rightarrow> exn + router \<times> mailbox" where
  "rt_fail_oracle clk tr origin sq u reason s =
     (case rt_fail (clk tr) origin sq u reason (fst s) (snd s) of
        Inl err \<Rightarrow> Inl (exn_name err)
      | Inr out \<Rightarrow> Inr out)"

lemma eb_reserve_scan_excludes:
  "eb_reserve_scan now start rnd w ex sk q s = Inr (Granted rs, t) \<Longrightarrow> rs_uid rs \<notin> ex"
proof (induction q arbitrary: sk s)
  case (Cons e q)
  show ?case
  proof (cases "\<exists>ep x. fst (ts_get now (snd (snd e)) (eb_experts s)) = Some (ep, x)
      \<and> dict_get (eb_uid_to_queue s) (snd (snd e)) = Some e \<and> snd (snd e) \<notin> ex")
    case True
    then show ?thesis using Cons.prems
      by (auto simp: Let_def case_prod_unfold eb_reserve_queue_entry_def split: sum.splits)
  next
    case False
    then show ?thesis using Cons.prems Cons.IH
      by (auto simp: Let_def case_prod_unfold split: option.splits if_splits)
  qed
qed (auto split: if_splits)

lemma rt_resolve_excludes: "rt_resolve now start rnd rnd' tid sq w ex mem r m = Inr (Hop u p, r', m') \<Longrightarrow> u \<notin> ex"
  using eb_reserve_scan_excludes
  by (fastforce simp: rt_resolve_def eb_reserve_another_def split: sum.splits prod.splits grant.splits)

interpretation rt_hops: hop_resolver "rt_oracle clk rnd mem" for clk rnd mem
  by unfold_locales (auto simp: rt_oracle_def dest: rt_resolve_excludes split: sum.splits)

text \<open>A router whose queue holds members of \<open>M\<close> only.\<close>

definition rt_within :: "uid set \<Rightarrow> router \<Rightarrow> bool" where
  "rt_within M r \<longleftrightarrow> eb_inv (rt_balancer r) \<and> dict_ok (rt_leases r) \<and> rt_accounted r \<and> eb_keys (rt_balancer r) \<subseteq> M"

definition rt_self :: "router \<Rightarrow> membership" where
  "rt_self r = \<lparr>mb_version = rt_seen_version r, mb_members = map (\<lambda>(u, _). (u, [], 0)) (eb_uid_to_queue (rt_balancer r))\<rparr>"

lemma rt_within_self: "rt_within M r \<Longrightarrow> rt_ok (rt_self r) r"
  by (force simp: rt_within_def rt_ok_def rt_self_def)

lemma rt_sync_within:
  assumes "rt_within M r" and "fst ` set (mb_members mem) \<subseteq> M"
  shows "rt_within M (rt_sync_membership now rnd mem r)"
proof -
  let ?gone = "filter (\<lambda>u. u \<notin> fst ` set (mb_members mem)) (map fst (eb_uid_to_queue (rt_balancer r)))"
  have inv: "eb_inv (rt_balancer r)" using assms by (simp add: rt_within_def)
  let ?b1 = "fold eb_evict_expert ?gone (rt_balancer r)"
  let ?b2 = "fold (rt_admit_member now rnd) (mb_members mem) ?b1"
  have b1: "eb_inv ?b1" "eb_keys ?b1 \<subseteq> eb_keys (rt_balancer r)" using rt_evicts [OF inv, of ?gone] by auto
  have "eb_keys (rt_balancer r) \<subseteq> M" using assms(1) by (simp add: rt_within_def)
  then have b2: "eb_inv ?b2" "eb_keys ?b2 \<subseteq> M"
    using rt_admits [OF b1(1), of now rnd "mb_members mem"] b1(2) assms(2) by (fast, meson Un_least order_trans)
  have r: "rt_sync_membership now rnd mem r = (if mb_version mem = rt_seen_version r then r
      else r\<lparr>rt_seen_version := mb_version mem, rt_balancer := ?b2\<rparr>)"
    by (simp add: rt_sync_membership_def mb_snapshot_def)
  show ?thesis using assms(1) b2 unfolding r by (simp add: rt_within_def rt_accounted_def)
qed

lemma rt_resolve_within:
  assumes "rt_within M r" and "fst ` set (mb_members mem) \<subseteq> M"
    and "rt_resolve now start rnd rnd' tid sq w ex mem r m = Inr (res, r', m')"
  shows "rt_within M r' \<and> (\<forall>u p. res = Hop u p \<longrightarrow> u \<in> M)"
proof -
  let ?r0 = "rt_sync_membership now rnd mem r"
  have w0: "rt_within M ?r0" by (rule rt_sync_within [OF assms(1,2)])
  obtain r1 m1 where p: "rt_poll_receipts now ?r0 m = Inr (r1, m1)"
    using assms(3) by (auto simp: rt_resolve_def split: sum.splits)
  have w1: "rt_within M r1" "rt_ok (rt_self ?r0) r1"
    using rt_poll_kept [OF p rt_within_self [OF w0]] w0 rt_kept_ok [OF rt_within_self [OF w0]]
    by (auto simp: rt_kept_def rt_within_def)
  obtain g b where g: "eb_reserve_another now start rnd' w ex False (rt_balancer r1) = Inr (g, b)"
    using assms(3) p by (auto simp: rt_resolve_def split: sum.splits)
  have inv: "eb_inv (rt_balancer r1)" using w1 by (simp add: rt_within_def)
  have b: "eb_inv b" "eb_selected now start rnd' w ex (rt_balancer r1) g b"
    using eb_reserve_another_spec [OF inv, of now start rnd' w ex False] g by auto
  have keys: "eb_keys b \<subseteq> M" using eb_reserve_another_keys [OF g] w1 by (auto simp: rt_within_def)
  have member: "rs_uid rs \<in> M" if "g = Granted rs" for rs
  proof -
    have "dict_get (eb_uid_to_queue (rt_balancer r1)) (rs_uid rs) \<noteq> None"
      using b(2) that by (auto simp: eb_selected_def eb_granted_def eb_offer_def)
    then show ?thesis using w1(1) dict_has_iff [of "rs_uid rs" "eb_uid_to_queue (rt_balancer r1)"] by (auto simp: rt_within_def)
  qed
  show ?thesis
    using assms(3) p g b(1) keys w1(1) member
    by (cases g) (clarsimp simp: rt_resolve_def rt_within_def rt_accounted_def length_dict_set)+
qed

lemma rt_fail_within:
  assumes "rt_within M r" and "rt_fail now tid sq u reason r m = Inr (r', m')"
  shows "rt_within M r'"
proof -
  have "rt_ok (rt_self r) r'" by (rule rt_fail_ok [OF rt_within_self [OF assms(1)] assms(2)])
  moreover have "eb_keys (rt_balancer r') \<subseteq> eb_keys (rt_balancer r)"
  proof -
    have r': "r' = rt_bump ''failed'' (r\<lparr>rt_leases := dict_del (tid, sq, u) (rt_leases r),
        rt_balancer := (if reason \<noteq> ''busy'' then eb_short_ban now u (rt_balancer r) else rt_balancer r)\<rparr>)"
      using assms(2) by (simp add: rt_fail_eq)
    show ?thesis unfolding r' using eb_short_ban_keys [of now u "rt_balancer r"] by simp
  qed
  ultimately show ?thesis using assms(1) by (auto simp: rt_within_def rt_ok_def)
qed

text \<open>
  A router that answers with members of a finite set only. Each failed attempt excludes one more of
  them, so the loop needs no clock to end.
\<close>

locale bounded_resolver = hop_resolver resolve
  for resolve :: "event list \<Rightarrow> pyval \<Rightarrow> int \<Rightarrow> real \<Rightarrow> uid set \<Rightarrow> 'r \<Rightarrow> exn + resolve_result \<times> 'r" +
  fixes report :: "event list \<Rightarrow> pyval \<Rightarrow> int \<Rightarrow> uid \<Rightarrow> string \<Rightarrow> 'r \<Rightarrow> exn + 'r"
    and good :: "'r \<Rightarrow> bool" and M :: "uid set"
  assumes finite_members: "finite M"
    and resolve_good: "good r \<Longrightarrow> resolve tr o' sq w ex r = Inr (res, r') \<Longrightarrow> good r'"
    and resolve_member: "good r \<Longrightarrow> resolve tr o' sq w ex r = Inr (Hop u p, r') \<Longrightarrow> u \<in> M"
    and report_good: "good r \<Longrightarrow> report tr o' sq u reason r = Inr r' \<Longrightarrow> good r'"
begin

lemma router_fail_good:
  "en_router_fail env = report \<Longrightarrow> router_fail env af u reason cx = (out, cx') \<Longrightarrow> good (cx_router cx) \<Longrightarrow> good (cx_router cx')"
  by (auto simp: router_fail_def Let_def cx_emit_def dest: report_good split: sum.splits)

lemma router_resolve_good:
  assumes "en_router_resolve env = resolve" and "router_resolve env af w ex cx = (out, cx')" and "good (cx_router cx)"
  shows "good (cx_router cx') \<and> (\<forall>r h. out = Inr r \<and> rp_hop r = Some h \<longrightarrow> hp_uid h \<in> M)"
proof (cases "resolve (cx_log cx) (bm_trainer_uid (af_metadata af)) (af_seq af) w ex (cx_router cx)")
  case (Inl e)
  then show ?thesis using assms by (auto simp: router_resolve_def)
next
  case (Inr x)
  obtain res rt where x: "x = (res, rt)" by (cases x)
  show ?thesis using assms Inr x resolve_good resolve_member
    by (cases res) (auto simp: router_resolve_def)
qed

lemma resolve_next_hop_good:
  assumes "dc_trainerless cfg" and "dc_has_router cfg" and "en_router_resolve env = resolve" and "en_router_fail env = report"
    and "resolve_next_hop cfg env af cur w fu fr ex cx = (out, cx')" and "good (cx_router cx)"
  shows "good (cx_router cx') \<and> (\<forall>r h. out = Inr r \<and> rp_hop r = Some h \<longrightarrow> hp_uid h \<in> M)"
proof -
  let ?c = "cx_emit (ResolveCall fu fr ex) cx"
  have g: "good (cx_router ?c)" using assms(6) by (simp add: cx_emit_def)
  show ?thesis
  proof (cases fu)
    case None
    then have "router_resolve env af w ex ?c = (out, cx')" using assms(1,2,5) by (simp add: resolve_next_hop_def)
    from router_resolve_good [OF assms(3) this g] show ?thesis .
  next
    case (Some u)
    obtain e c1 where f: "router_fail env af u fr ?c = (e, c1)" by (cases "router_fail env af u fr ?c")
    have "good (cx_router c1)" by (rule router_fail_good [OF assms(4) f g])
    then show ?thesis
      using assms(1,2,5) Some f router_resolve_good [OF assms(3)] by (cases e) (auto simp: resolve_next_hop_def)
  qed
qed

lemma push_to_hop_router: "push_to_hop env m nb hop pend cx = (a, cx') \<Longrightarrow> cx_router cx' = cx_router cx"
  by (auto simp: push_to_hop_def push_once_def cx_emit_def cx_bump_def Let_def
      split: sum.splits option.splits if_splits push_status.splits prod.splits)

lemma push_loop_ends:
  assumes "dc_trainerless cfg" and "dc_has_router cfg" and "en_router_resolve env = resolve" and "en_router_fail env = report"
    and "good (cx_router cx)" and "card (M - ex) < n"
  shows "push_loop n cfg env af cur m nb w dl None pend ex cx \<noteq> None"
  using assms(5,6)
proof (induction n arbitrary: pend ex cx)
  case (Suc n)
  let ?c0 = "cx_emit ReadClock cx"
  obtain hop c1 where h: "resolve_next_hop cfg env af cur w (fst pend) (snd pend) ex ?c0 = (hop, c1)"
    by (cases "resolve_next_hop cfg env af cur w (fst pend) (snd pend) ex ?c0")
  have g: "good (cx_router c1)" "\<forall>r h. hop = Inr r \<and> rp_hop r = Some h \<longrightarrow> hp_uid h \<in> M"
    using resolve_next_hop_good [OF assms(1-4) h] Suc.prems(1) by (auto simp: cx_emit_def)
  show ?case
  proof (cases hop)
    case (Inl e)
    then show ?thesis using h by (simp add: attempt_hop_def push_to_hop_def Let_def)
  next
    case (Inr r)
    obtain a c2 where a: "push_to_hop env m nb (Inr r) (None, None) c1 = (a, c2)"
      by (cases "push_to_hop env m nb (Inr r) (None, None) c1")
    show ?thesis
    proof (cases a)
      case (Finished o2 p2)
      then show ?thesis using h Inr a by (simp add: attempt_hop_def Let_def)
    next
      case (Again u reason)
      then obtain r' hh where u: "r = r'" "rp_hop r' = Some hh" "hp_uid hh = u"
        using push_to_hop_trace [OF a] by auto
      then have "u \<in> M - ex" using g(2) Inr resolve_next_hop_local [OF assms(1-3) h [unfolded Inr]] by auto
      then have "card (M - insert u ex) < card (M - ex)"
        using finite_members by (intro psubset_card_mono) auto
      then have "push_loop n cfg env af cur m nb w dl None (Some u, Some reason) (insert u ex) c2 \<noteq> None"
        using Suc.IH [of c2 "insert u ex"] Suc.prems(2) g(1) push_to_hop_router [OF a] by simp
      then show ?thesis using h Inr a Again by (simp add: attempt_hop_def Let_def)
    qed
  qed
qed simp

end

text \<open>The memberships restricted to the workers \<open>M\<close>.\<close>

definition mem_within :: "uid list \<Rightarrow> (event list \<Rightarrow> membership) \<Rightarrow> event list \<Rightarrow> membership" where
  "mem_within M mem tr = (mem tr)\<lparr>mb_members := filter (\<lambda>x. fst x \<in> set M) (mb_members (mem tr))\<rparr>"

lemma mem_within_same: "(\<And>tr. fst ` set (mb_members (mem tr)) \<subseteq> set M) \<Longrightarrow> mem_within M mem = mem"
proof
  fix tr
  assume "\<And>tr. fst ` set (mb_members (mem tr)) \<subseteq> set M"
  then have "fst ` set (mb_members (mem tr)) \<subseteq> set M" .
  then have "filter (\<lambda>x. fst x \<in> set M) (mb_members (mem tr)) = mb_members (mem tr)"
    unfolding filter_id_conv by blast
  then show "mem_within M mem tr = mem tr" by (simp add: mem_within_def)
qed

lemma mem_within_subset: "fst ` set (mb_members (mem_within M mem tr)) \<subseteq> set M"
  by (auto simp: mem_within_def)

lemma rt_oracle_within:
  assumes "rt_within (set M) (fst r)" and "rt_oracle clk rnd (mem_within M mem) tr o' sq w ex r = Inr (res, r')"
  shows "rt_within (set M) (fst r') \<and> (\<forall>u p. res = Hop u p \<longrightarrow> u \<in> set M)"
proof -
  obtain q m where "r' = (q, m)" by (cases r')
  then have "rt_resolve (clk tr) (clk tr) (rnd tr) (rnd tr []) o' sq w ex (mem_within M mem tr) (fst r) (snd r) = Inr (res, q, m)"
    using assms(2) by (simp add: rt_oracle_def split: sum.splits)
  from rt_resolve_within [OF assms(1) mem_within_subset this] \<open>r' = (q, m)\<close> show ?thesis by simp
qed

interpretation rt_bounded: bounded_resolver "rt_oracle clk rnd (mem_within M mem)"
  "rt_fail_oracle clk" "\<lambda>s. rt_within (set M) (fst s)" "set M" for clk rnd mem M
  by unfold_locales (auto simp: rt_fail_oracle_def dest: rt_oracle_within rt_fail_within split: sum.splits)

context hop_resolver
begin

lemma push_loop_prefetched:
  assumes "dc_trainerless cfg" and "dc_has_router cfg" and "en_router_resolve env = resolve"
    and "push_loop n cfg env af cur m nb w dl (Some hop) (None, None) ex cx = Some (out, pend', cx')"
  shows "\<exists>evs. cx_log cx' = cx_log cx @ evs \<and> distinct (collect push_target evs)
    \<and> (isl out \<or> collect failed_push evs = collect reported_failure evs @ pending_failure pend')"
proof (cases n)
  case (Suc k)
  let ?c0 = "cx_emit ReadClock cx"
  obtain a c2 where a: "push_to_hop env m nb hop (None, None) ?c0 = (a, c2)"
    by (cases "push_to_hop env m nb hop (None, None) ?c0")
  obtain e2 where e2: "cx_log c2 = cx_log ?c0 @ e2" "collect reported_failure e2 = []"
    and a2: "case a of
       Finished out pend' \<Rightarrow> pend' = (None, None) \<and> collect failed_push e2 = [] \<and> length (collect push_target e2) \<le> 1
     | Again u reason \<Rightarrow> collect push_target e2 = [u] \<and> collect failed_push e2 = pending_failure (Some u, Some reason)"
    using push_to_hop_trace [OF a] by (cases a) auto
  show ?thesis
  proof (cases "en_clock env (cx_log cx) < dl")
    case False
    then show ?thesis using assms(4) Suc by (auto simp: cx_emit_def)
  next
    case live: True
    show ?thesis
    proof (cases a)
      case (Finished o2 p2)
      then have "distinct (collect push_target e2)" using a2 by (cases "collect push_target e2") auto
      then show ?thesis using assms(4) Suc live a a2 e2 Finished
        by (auto simp: attempt_hop_def Let_def cx_emit_def)
    next
      case (Again u reason)
      then have "push_loop k cfg env af cur m nb w dl None (Some u, Some reason) (insert u ex) c2 = Some (out, pend', cx')"
        using assms(4) Suc live a by (simp add: attempt_hop_def Let_def)
      from push_loop_trace [OF assms(1-3) this] obtain e3 where e3: "cx_log cx' = cx_log c2 @ e3" "distinct (collect push_target e3)"
        "set (collect push_target e3) \<inter> insert u ex = {}"
        "isl out \<or> pending_failure (Some u, Some reason) @ collect failed_push e3
           = collect reported_failure e3 @ pending_failure pend'" by blast
      show ?thesis using e2 e3 a2 Again
        by (intro exI [of _ "ReadClock # e2 @ e3"]) (auto simp: cx_emit_def)
    qed
  qed
qed (use assms(4) in simp)

lemma push_forward_trace:
  assumes "dc_trainerless cfg" and "dc_has_router cfg" and "en_router_resolve env = resolve"
    and "bm_next_hop_uid (af_metadata af) = None"
    and "push_forward_with_retries n cfg env af cur m nb w pf cx = Some (out, cx')"
  shows "\<exists>evs. cx_log cx' = cx_log cx @ evs \<and> distinct (collect push_target evs)
    \<and> (isl out \<or> collect failed_push evs = collect reported_failure evs)"
proof -
  obtain o1 pend c1 where l: "push_loop n cfg env af cur m nb w (en_clock env (cx_log cx) + dc_forward_timeout cfg) pf
      (None, None) {} (cx_emit ReadClock cx) = Some (o1, pend, c1)"
    using assms(4,5) by (auto simp: push_forward_with_retries_def split: option.splits)
  obtain e1 where e1: "cx_log c1 = cx_log cx @ e1" "distinct (collect push_target e1)"
    "isl o1 \<or> collect failed_push e1 = collect reported_failure e1 @ pending_failure pend"
  proof (cases pf)
    case None
    from push_loop_trace [OF assms(1-3) l [unfolded None]] obtain e where
      "cx_log c1 = cx_log (cx_emit ReadClock cx) @ e" "distinct (collect push_target e)"
      "isl o1 \<or> collect failed_push e = collect reported_failure e @ pending_failure pend" by auto
    then show thesis by (intro that [of "ReadClock # e"]) (simp_all add: cx_emit_def)
  next
    case (Some hop)
    from push_loop_prefetched [OF assms(1-3) l [unfolded Some]] obtain e where
      "cx_log c1 = cx_log (cx_emit ReadClock cx) @ e" "distinct (collect push_target e)"
      "isl o1 \<or> collect failed_push e = collect reported_failure e @ pending_failure pend" by auto
    then show thesis by (intro that [of "ReadClock # e"]) (simp_all add: cx_emit_def)
  qed
  obtain fu fr where pend: "pend = (fu, fr)" by (cases pend)
  show ?thesis
  proof (cases fu)
    case None
    then show ?thesis using assms(4,5) l e1 pend by (auto simp: push_forward_with_retries_def)
  next
    case (Some u)
    obtain e c2 where f: "router_fail env af u fr c1 = (e, c2)" by (cases "router_fail env af u fr c1")
    have "cx_log c2 = cx_log c1 @ [RouterFail u (reason_or_default fr)]"
      using f by (auto simp: router_fail_def Let_def cx_emit_def split: sum.splits)
    moreover have "cx' = c2" "isl out \<or> out = o1"
      using assms(1,2,4,5) l pend Some f by (auto simp: push_forward_with_retries_def split: option.splits)
    ultimately show ?thesis using e1 pend Some
      by (intro exI [of _ "e1 @ [RouterFail u (reason_or_default fr)]"]) auto
  qed
qed

end

context bounded_resolver
begin

lemma push_forward_ends:
  assumes "dc_trainerless cfg" and "dc_has_router cfg" and "en_router_resolve env = resolve" and "en_router_fail env = report"
    and "good (cx_router cx)" and "Suc (card M) < n"
  shows "push_forward_with_retries n cfg env af cur m nb w pf cx \<noteq> None"
proof -
  obtain k where k: "n = Suc k" "card M < k" using assms(6) by (cases n) auto
  have less: "card (M - ex) < k" "card (M - ex) < n" for ex
    using k card_mono [OF finite_members, of "M - ex"] by auto
  have g0: "good (cx_router (cx_emit ReadClock cx))" using assms(5) by (simp add: cx_emit_def)
  have loop: "push_loop n cfg env af cur m nb w dl pf pend ex (cx_emit ReadClock cx) \<noteq> None" for dl pend ex
  proof (cases pf)
    case None
    then show ?thesis using push_loop_ends [OF assms(1-4) g0 less(2)] by blast
  next
    case (Some hop)
    obtain a c2 where a: "push_to_hop env m nb hop pend (cx_emit ReadClock (cx_emit ReadClock cx)) = (a, c2)"
      by (cases "push_to_hop env m nb hop pend (cx_emit ReadClock (cx_emit ReadClock cx))")
    have "good (cx_router c2)" using push_to_hop_router [OF a] assms(5) by (simp add: cx_emit_def)
    from push_loop_ends [OF assms(1-4) this less(1)] show ?thesis
      using k(1) Some a by (cases a) (simp_all add: attempt_hop_def Let_def)
  qed
  then show ?thesis by (auto simp: push_forward_with_retries_def Let_def split: option.splits prod.splits)
qed

end

section \<open>Properties\<close>

text \<open>C16. Whatever the handler processes do and however they interleave, the driver never holds more entries
  than it was given room for, and holds each microbatch and direction at most once.\<close>

theorem dw_ingress_bounded:
  assumes "dw_new cfg = Inr s0" and "dw_run cfg s0 s"
  shows "dict_ok (dw_entries s) \<and> int (length (dw_entries s)) \<le> dc_max_entries cfg"
  using dw_sys.reachable_invar [of cfg s0 s] assms by (simp add: dw_inv_def dw_run_def)

text \<open>C17. Admission is idempotent: once a forward push is accepted, every later delivery of the same microbatch,
  whatever bytes carry it and whatever happens in between, is answered ACCEPTED as a duplicate, changes no
  entry and reports nothing, until the entry is released.\<close>

theorem dw_duplicate_is_idempotent:
  assumes "dw_accept_forward cfg loads now u metadata s0 = Inr ((ACCEPTED, reason, Some af), s1, evs)"
    and "(\<lambda>s t. \<exists>l. l \<noteq> Some (af_key af) \<and> dw_step cfg l s t)\<^sup>*\<^sup>* s1 s2"
    and "bm_from_bytes loads' metadata' = Some md'" and "bm_trainer_peer_id md' \<noteq> None"
    and "py_to_int (bm_seq md') = Inr (af_seq af)" and "bm_trainer_uid md' = bm_trainer_uid (af_metadata af)"
  shows "\<exists>af' s3. dw_accept_forward cfg loads' now' u metadata' s2 = Inr ((ACCEPTED, ''duplicate'', Some af'), s3, [])
    \<and> \<not> af_is_new af' \<and> dw_entries s3 = dw_entries s2 \<and> dw_prev_hops s3 = dw_prev_hops s2"
proof -
  obtain md sq where md: "bm_from_bytes loads metadata = Some md" "bm_trainer_peer_id md \<noteq> None"
    "py_to_int (bm_seq md) = Inr sq" "hashable (bm_trainer_uid md)"
    using assms(1) by (auto simp: dw_accept_forward_def split: option.splits sum.splits if_splits)
  let ?k = "(u, bm_trainer_uid md, sq, Fwd)"
  have af: "af_key af = ?k" "af_seq af = sq" "af_metadata af = md" and k: "dict_has (dw_entries s1) ?k"
    using dw_accept_forward_cases [OF md, of cfg now u s0] assms(1)
    by (auto simp: dw_admit_def split: if_splits)
  have "dict_has (dw_entries s2) ?k" using dw_run_keeps_key [OF assms(2)] k af(1) by simp
  then show ?thesis
    using assms(3-6) af md(4) by (auto simp: dw_accept_forward_def dw_admit_def Let_def)
qed


text \<open>C14. Trainerless, the retry loop pushes a microbatch to no worker twice, and unless a call of the router
  raises, the failures reported to it are exactly the failed pushes, each once and in order, with BUSY as
  the reason that does not ban.\<close>

theorem retry_loop_accounts_failures:
  assumes "dc_trainerless cfg" and "dc_has_router cfg" and "en_router_resolve env = rt_oracle clk rnd mem"
    and "bm_next_hop_uid (af_metadata af) = None"
    and "push_forward_with_retries n cfg env af cur m nb w pf cx = Some (out, cx')"
  shows "\<exists>evs. cx_log cx' = cx_log cx @ evs \<and> distinct (collect push_target evs)
    \<and> (isl out \<or> collect failed_push evs = collect reported_failure evs)"
  by (rule rt_hops.push_forward_trace [OF assms])

text \<open>C15. The retry loop ends whatever the clock shows: with the membership drawn from \<open>k\<close> workers it returns
  after at most \<open>k + 2\<close> rounds.\<close>

theorem retry_loop_terminates:
  assumes "dc_trainerless cfg" and "dc_has_router cfg"
    and "en_router_resolve env = rt_oracle clk rnd mem" and "en_router_fail env = rt_fail_oracle clk"
    and "\<And>tr. fst ` set (mb_members (mem tr)) \<subseteq> set M" and "rt_within (set M) (fst (cx_router cx))"
  shows "\<exists>r. push_forward_with_retries (length M + 2) cfg env af cur m nb w pf cx = Some r"
proof -
  have "mem_within M mem = mem" by (rule mem_within_same [OF assms(5)])
  moreover have "card (set M) \<le> length M" by (rule card_length)
  ultimately show ?thesis
    using rt_bounded.push_forward_ends [of cfg env clk rnd M mem cx "length M + 2" af cur m nb w pf] assms by auto
qed

section \<open>Witnesses\<close>

definition dw_demo_cfg :: dwconfig where
  "dw_demo_cfg = \<lparr>dc_max_entries = 1, dc_forward_timeout = 60, dc_backward_timeout = 60, dc_trainerless = True,
     dc_has_router = True, dc_has_ledger = False, dc_own_peer_id = None\<rparr>"

definition dw_demo_md :: batch_metadata where
  "dw_demo_md = \<lparr>bm_trainer_uid = PStr ''t'', bm_seq = PInt 7, bm_data_shard = PInt 0, bm_purpose = NORMAL,
     bm_trainer_peer_id = Some ''QmT'', bm_next_hop_uid = None, bm_next_hop_peer_id = None,
     bm_prev_hop_uid = Some ''head.0'', bm_prev_hop_peer_id = Some ''QmH'', bm_prev_hop_maddrs = None,
     bm_data_manifest = None, bm_sample_start = None, bm_sample_stride = None, bm_sample_rows = None\<rparr>"

definition dw_demo_loads :: "bytes \<Rightarrow> pyval option" where
  "dw_demo_loads raw = (if raw = [1] \<or> raw = [2] then Some (PDict (bm_obj dw_demo_md)) else None)"

definition dw_empty :: driver where
  "dw_empty = \<lparr>dw_entries = [], dw_prev_hops = [], dw_counters = []\<rparr>"

lemma dw_demo_parse: "bm_from_bytes dw_demo_loads [1] = Some dw_demo_md" "bm_from_bytes dw_demo_loads [2] = Some dw_demo_md"
proof -
  have "bm_wf dw_demo_md" by (simp add: dw_demo_md_def bm_wf_def)
  then show "bm_from_bytes dw_demo_loads [1] = Some dw_demo_md" "bm_from_bytes dw_demo_loads [2] = Some dw_demo_md"
    by (simp_all add: bm_from_bytes_def dw_demo_loads_def bm_of_obj_obj)
qed

lemma dw_demo_new: "dw_new dw_demo_cfg = Inr dw_empty"
  by (simp add: dw_new_def dw_demo_cfg_def dw_empty_def)

lemma dw_demo_md_sel: "bm_trainer_peer_id dw_demo_md = Some ''QmT''" "py_to_int (bm_seq dw_demo_md) = Inr 7"
  "bm_trainer_uid dw_demo_md = PStr ''t''" "bm_next_hop_uid dw_demo_md = None"
  by (simp_all add: dw_demo_md_def)

lemma dw_demo_accepts:
  "\<exists>s evs. dw_accept_forward dw_demo_cfg dw_demo_loads 1 ''tail.0'' [1] dw_empty = Inr ((ACCEPTED, [],
      Some \<lparr>af_metadata = dw_demo_md, af_seq = 7, af_key = (''tail.0'', PStr ''t'', 7, Fwd), af_is_new = True\<rparr>), s, evs)
    \<and> dw_entries s = [((''tail.0'', PStr ''t'', 7, Fwd), 1)]"
  using dw_accept_forward_cases [OF dw_demo_parse(1), of 7 dw_demo_cfg 1 "''tail.0''" dw_empty]
  by (auto simp: dw_demo_md_sel dw_admit_def dw_demo_cfg_def dw_empty_def dict_set_def)

lemma dw_ingress_bounded_witness:
  "\<exists>s evs out. dw_accept_forward dw_demo_cfg dw_demo_loads 1 ''tail.0'' [1] dw_empty = Inr (out, s, evs)
     \<and> length (dw_entries s) = 1 \<and> int (length (dw_entries s)) \<le> dc_max_entries dw_demo_cfg"
proof -
  obtain s evs out where a: "dw_accept_forward dw_demo_cfg dw_demo_loads 1 ''tail.0'' [1] dw_empty = Inr (out, s, evs)"
    "length (dw_entries s) = 1" using dw_demo_accepts by fastforce
  have "dw_run dw_demo_cfg dw_empty s" unfolding dw_run_def using dw_step_forward [OF a(1)] by blast
  from dw_ingress_bounded [OF dw_demo_new this] a show ?thesis by blast
qed

lemma dw_duplicate_is_idempotent_witness:
  "\<exists>s evs out af' s3. dw_accept_forward dw_demo_cfg dw_demo_loads 1 ''tail.0'' [1] dw_empty = Inr (out, s, evs)
     \<and> dw_accept_forward dw_demo_cfg dw_demo_loads 5 ''tail.0'' [2] s = Inr ((ACCEPTED, ''duplicate'', Some af'), s3, [])
     \<and> dw_entries s3 = dw_entries s"
proof -
  obtain s evs where a: "dw_accept_forward dw_demo_cfg dw_demo_loads 1 ''tail.0'' [1] dw_empty = Inr ((ACCEPTED, [],
      Some \<lparr>af_metadata = dw_demo_md, af_seq = 7, af_key = (''tail.0'', PStr ''t'', 7, Fwd), af_is_new = True\<rparr>), s, evs)"
    using dw_demo_accepts by blast
  from dw_duplicate_is_idempotent [OF a rtranclp.rtrancl_refl dw_demo_parse(2)] a show ?thesis
    by (simp add: dw_demo_md_sel) blast
qed

definition dw_demo_env :: "(router \<times> mailbox) env" where
  "dw_demo_env = \<lparr>en_dumps = (\<lambda>_. [1]), en_loads = (\<lambda>_. None), en_str = (\<lambda>_. []), en_clock = (\<lambda>tr. real (length tr)),
     en_router_resolve = rt_oracle (\<lambda>_. 1) (\<lambda>_ _. 0) (\<lambda>_. mb_publish [(''tail.0'', ''QmA'', 100)] mb_empty),
     en_router_fail = rt_fail_oracle (\<lambda>_. 1), en_coordinator = (\<lambda>_ _ _. Inl ''OSError''),
     en_ledger_report = (\<lambda>_ _. None), en_report = (\<lambda>_ _ _. None), en_connect = (\<lambda>_ _. Some ''TimeoutError''),
     en_unary = (\<lambda>_ _ _ _. Inr []), en_stream = (\<lambda>_ _ _ _. Inr None), en_compute = (\<lambda>_ _. Inr []),
     en_serialize = (\<lambda>_ _. Inr 0)\<rparr>"

definition dw_demo_af :: accepted_forward where
  "dw_demo_af = \<lparr>af_metadata = dw_demo_md, af_seq = 7, af_key = (''body1.0'', PStr ''t'', 7, Fwd), af_is_new = True\<rparr>"

definition dw_demo_cx :: "(router \<times> mailbox) ctx" where
  "dw_demo_cx = \<lparr>cx_driver = dw_empty, cx_router = (rt_new eb_demo_cfg 10 0, \<lparr>mx_receipts = [], mx_last_gc = 0\<rparr>), cx_log = []\<rparr>"

lemma dw_demo_router: "rt_within (set [''tail.0'']) (fst (cx_router dw_demo_cx))"
  using eb_new_inv [OF eb_demo_cfg_ok, of 0]
  by (simp add: dw_demo_cx_def rt_within_def rt_new_def rt_accounted_def eb_new_def)

lemma dw_demo_env_sel:
  "dc_trainerless dw_demo_cfg" "dc_has_router dw_demo_cfg"
  "en_router_resolve dw_demo_env = rt_oracle (\<lambda>_. 1) (\<lambda>_ _. 0) (\<lambda>_. mb_publish [(''tail.0'', ''QmA'', 100)] mb_empty)"
  "en_router_fail dw_demo_env = rt_fail_oracle (\<lambda>_. 1)"
  "bm_next_hop_uid (af_metadata dw_demo_af) = None"
  by (simp_all add: dw_demo_cfg_def dw_demo_env_def dw_demo_af_def dw_demo_md_sel)

lemma retry_loop_terminates_witness:
  "\<exists>r. push_forward_with_retries 3 dw_demo_cfg dw_demo_env dw_demo_af ''body1.0'' [1] 0 4 None dw_demo_cx = Some r"
proof -
  have "fst ` set (mb_members (mb_publish [(''tail.0'', ''QmA'', 100)] mb_empty)) \<subseteq> set [''tail.0'']"
    by (simp add: mb_publish_def)
  from retry_loop_terminates [OF dw_demo_env_sel(1-4) this dw_demo_router, of dw_demo_af "''body1.0''" "[1]" 0 4 None]
  show ?thesis by (simp add: numeral_3_eq_3)
qed

lemma retry_loop_accounts_failures_witness:
  "\<exists>out cx' evs. push_forward_with_retries 3 dw_demo_cfg dw_demo_env dw_demo_af ''body1.0'' [1] 0 4 None dw_demo_cx = Some (out, cx')
     \<and> cx_log cx' = cx_log dw_demo_cx @ evs \<and> distinct (collect push_target evs)"
proof -
  have "fst ` set (mb_members (mb_publish [(''tail.0'', ''QmA'', 100)] mb_empty)) \<subseteq> set [''tail.0'']"
    by (simp add: mb_publish_def)
  then have "card (set [''tail.0'']) < 2 \<and> mem_within [''tail.0''] (\<lambda>_. mb_publish [(''tail.0'', ''QmA'', 100)] mb_empty)
      = (\<lambda>_. mb_publish [(''tail.0'', ''QmA'', 100)] mb_empty)"
    by (intro conjI mem_within_same) auto
  then have "push_forward_with_retries 3 dw_demo_cfg dw_demo_env dw_demo_af ''body1.0'' [1] 0 4 None dw_demo_cx \<noteq> None"
    using rt_bounded.push_forward_ends [of dw_demo_cfg dw_demo_env "\<lambda>_. 1" "\<lambda>_ _. 0" "[''tail.0'']"
        "\<lambda>_. mb_publish [(''tail.0'', ''QmA'', 100)] mb_empty" dw_demo_cx 3] dw_demo_env_sel dw_demo_router by simp
  then obtain out cx' where p: "push_forward_with_retries 3 dw_demo_cfg dw_demo_env dw_demo_af ''body1.0'' [1] 0 4 None dw_demo_cx
      = Some (out, cx')" by (cases "push_forward_with_retries 3 dw_demo_cfg dw_demo_env dw_demo_af ''body1.0'' [1] 0 4 None dw_demo_cx") auto
  from retry_loop_accounts_failures [OF dw_demo_env_sel(1,2,3,5) p] p show ?thesis by blast
qed


end
