(* ===== verification/NextHopLearner.thy ===== *)
theory NextHopLearner
  imports BatchMetadata
begin

text \<open>
  The observational hop learner of \<open>core/server/w2w_coordinator.py\<close>: it parses the metadata of an RPC
  and counts what it teaches. Its state is the counters; the log lines, sampled every 50th event, are
  the second result. The parse does not raise, so the outer \<open>except\<close> clause is never entered.
\<close>

definition learn_log_every :: int where
  "learn_log_every = 50"

datatype learn_log = NextLearned uid string string | PrevLearned uid string string
  | PartialHop uid string "string option" "string option"

definition nl_bump :: "string \<Rightarrow> counters \<Rightarrow> int \<times> counters" where
  "nl_bump n c = (cget c n + 1, bump n 1 c)"

definition nl_event :: "string \<Rightarrow> learn_log \<Rightarrow> counters \<Rightarrow> counters \<times> learn_log list" where
  "nl_event name entry c = (let (n, c1) = nl_bump name c in (c1, if n mod learn_log_every = 0 then [entry] else []))"

text \<open>Python's truth value of an optional string: absent and empty are false.\<close>

definition present :: "string option \<Rightarrow> bool" where
  "present s \<longleftrightarrow> s \<noteq> None \<and> s \<noteq> Some []"

definition nl_direction ::
  "string \<Rightarrow> (string \<Rightarrow> string \<Rightarrow> learn_log) \<Rightarrow> uid \<Rightarrow> string \<Rightarrow> string option \<Rightarrow> string option \<Rightarrow> counters
     \<Rightarrow> counters \<times> learn_log list" where
  "nl_direction name entry worker direction u p c =
     (if present u \<and> present p then nl_event name (entry (the u) (the p)) c
      else if present u \<or> present p then nl_event ''parse_errors'' (PartialHop worker direction u p) c
      else (c, []))"

definition nl_learn :: "(bytes \<Rightarrow> pyval option) \<Rightarrow> uid \<Rightarrow> bytes \<Rightarrow> counters \<Rightarrow> counters \<times> learn_log list" where
  "nl_learn loads worker metadata c =
     (if metadata = [] then (c, [])
      else case bm_from_bytes loads metadata of
             None \<Rightarrow> (c, [])
           | Some md \<Rightarrow>
               let (c1, l1) = nl_direction ''next_hops_learned'' (NextLearned worker) worker ''next''
                     (bm_next_hop_uid md) (bm_next_hop_peer_id md) c;
                   (c2, l2) = nl_direction ''prev_hops_learned'' (PrevLearned worker) worker ''prev''
                     (bm_prev_hop_uid md) (bm_prev_hop_peer_id md) c1
               in (c2, l1 @ l2))"

definition nl_counter_names :: "string list" where
  "nl_counter_names = [''next_hops_learned'', ''prev_hops_learned'', ''parse_errors'']"

definition nl_stats :: "counters \<Rightarrow> (string, int) dict" where
  "nl_stats c = map (\<lambda>k. (k, cget c k)) nl_counter_names"

section \<open>Properties\<close>

definition complete_hop :: "string option \<Rightarrow> string option \<Rightarrow> bool" where
  "complete_hop u p \<longleftrightarrow> present u \<and> present p"

definition partial_hop :: "string option \<Rightarrow> string option \<Rightarrow> bool" where
  "partial_hop u p \<longleftrightarrow> present u \<noteq> present p"

lemma nl_direction_count:
  "name \<noteq> ''parse_errors'' \<Longrightarrow> cget (fst (nl_direction name entry w d u p c)) k = cget c k
     + (if k = name \<and> complete_hop u p then 1 else 0) + (if k = ''parse_errors'' \<and> partial_hop u p then 1 else 0)"
  by (auto simp: nl_direction_def nl_event_def nl_bump_def complete_hop_def partial_hop_def)

text \<open>Each RPC counts exactly what its metadata teaches: one for a complete hop in either
  direction, one parse error for each direction in which exactly one of uid and peer is set, nothing
  for an absent hop or unreadable metadata.\<close>

theorem nl_learn_counts:
  assumes "bm_from_bytes loads metadata = Some md"
    and c'_def: "c' = fst (nl_learn loads worker metadata c)"
  shows "cget c' ''next_hops_learned'' = cget c ''next_hops_learned''
      + of_bool (complete_hop (bm_next_hop_uid md) (bm_next_hop_peer_id md))
    \<and> cget c' ''prev_hops_learned'' = cget c ''prev_hops_learned''
      + of_bool (complete_hop (bm_prev_hop_uid md) (bm_prev_hop_peer_id md))
    \<and> cget c' ''parse_errors'' = cget c ''parse_errors''
      + of_bool (partial_hop (bm_next_hop_uid md) (bm_next_hop_peer_id md))
      + of_bool (partial_hop (bm_prev_hop_uid md) (bm_prev_hop_peer_id md))"
proof -
  have "metadata \<noteq> []" using assms(1) by (auto simp: bm_from_bytes_def)
  then show ?thesis
    unfolding c'_def using assms(1)
    by (simp add: nl_learn_def case_prod_unfold Let_def nl_direction_count)
qed

lemma nl_learn_counts_witness:
  "cget (fst (nl_learn (\<lambda>_. Some (PDict (bm_obj bm_demo))) ''w'' [1] [])) ''parse_errors'' = 1"
proof -
  have "bm_wf bm_demo" by (simp add: bm_demo_def bm_wf_def)
  then have "bm_from_bytes (\<lambda>_. Some (PDict (bm_obj bm_demo))) [1] = Some bm_demo"
    by (simp add: bm_from_bytes_def bm_of_obj_obj)
  from nl_learn_counts [OF this refl, of "''w''" "[]"] show ?thesis
    by (simp add: partial_hop_def present_def bm_demo_def)
qed

end
