(* ===== verification/PithosCorpus.thy ===== *)
theory PithosCorpus
  imports Prelude "HOL-Library.Multiset"
begin

text \<open>
  The build primitives of the streamable corpus (\<open>pithos/corpus.py\<close>): records and their byte format,
  tokenisation of documents, the chunk writer, the k-way merge of key-sorted parts and the sort-based
  path that replaces it. A byte stream is a list of bytes; a chunk sink is the list of the blobs it was
  given. The hashes (\<open>blake2b\<close>, \<open>sha256\<close>) and the tokenizer are parameters. Error texts are not
  modelled.
\<close>

declare map_of_eq_Some_iff [simp del]
declare Some_eq_map_of_iff [simp del]

section \<open>Bytes\<close>

datatype pithos_error = CorpusError | ManifestError | CacheError | RegistryError | DownloadError
  | StructError | OverflowError | OSError | PyError error

definition KEY_BYTES :: nat where "KEY_BYTES = 16"

primrec le_bytes :: "nat \<Rightarrow> nat \<Rightarrow> bytes" where
  "le_bytes 0 n = []"
| "le_bytes (Suc k) n = of_nat n # le_bytes k (n div 256)"

fun of_le :: "bytes \<Rightarrow> nat" where
  "of_le [] = 0"
| "of_le (b # bs) = unat b + 256 * of_le bs"

text \<open>\<open>struct.pack("<I", n)\<close> and \<open>struct.pack("<i", i)\<close>.\<close>

definition pack_u32 :: "nat \<Rightarrow> pithos_error + bytes" where
  "pack_u32 n = (if n < 2 ^ 32 then Inr (le_bytes 4 n) else Inl StructError)"

definition pack_i32 :: "int \<Rightarrow> pithos_error + bytes" where
  "pack_i32 i = (if - (2 ^ 31) \<le> i \<and> i < 2 ^ 31 then Inr (le_bytes 4 (nat (i mod 2 ^ 32))) else Inl StructError)"

lemma length_le_bytes [simp]: "length (le_bytes k n) = k"
  by (induction k arbitrary: n) auto

lemma of_le_le_bytes: "of_le (le_bytes k n) = n mod 256 ^ k"
proof (induction k arbitrary: n)
  case (Suc k)
  have "unat (of_nat n :: 8 word) = n mod 256" by (simp add: unat_of_nat)
  then show ?case using Suc mod_mult2_eq [of n 256 "256 ^ k"] by simp
qed simp

section \<open>Records\<close>

type_synonym brecord = "bytes \<times> bytes"

definition write_record :: "bytes \<Rightarrow> int \<Rightarrow> bytes \<Rightarrow> pithos_error + bytes" where
  "write_record key n_tokens raw =
     (if length key \<noteq> KEY_BYTES then Inl CorpusError
      else if n_tokens < 0 then Inl CorpusError
      else if int (length raw) \<noteq> 4 * n_tokens then Inl CorpusError
      else case pack_u32 (nat n_tokens) of
             Inl e \<Rightarrow> Inl e
           | Inr hdr \<Rightarrow> Inr (key @ hdr @ raw))"

text \<open>What the generator yields, and the error that ends it if there is one.\<close>

function read_records :: "bytes \<Rightarrow> brecord list \<times> pithos_error option" where
  "read_records f =
     (if f = [] then ([], None)
      else
        let key = take KEY_BYTES f; f1 = drop KEY_BYTES f
        in if length key \<noteq> KEY_BYTES then ([], Some CorpusError)
           else
             let hdr = take 4 f1; f2 = drop 4 f1
             in if length hdr \<noteq> 4 then ([], Some CorpusError)
                else
                  let n = of_le hdr; raw = take (4 * n) f2
                  in if length raw \<noteq> 4 * n then ([], Some CorpusError)
                     else let (rs, e) = read_records (drop (4 * n) f2) in ((key, raw) # rs, e))"
  by pat_completeness auto
termination
  by (relation "measure length") (auto simp: KEY_BYTES_def)

declare read_records.simps [simp del]

section \<open>Tokenisation\<close>

record tok_stats =
  tk_seen :: nat
  tk_selected :: nat
  tk_dropped_eos :: nat
  tk_tokens :: nat

record tok_state =
  tk_out :: "brecord list"
  tk_stats :: tok_stats
  tk_pend_keys :: "bytes list"
  tk_pend_txt :: "string list"

fun pack_tokens :: "int list \<Rightarrow> pithos_error + bytes" where
  "pack_tokens [] = Inr []"
| "pack_tokens (i # is) =
     (case pack_i32 i of
        Inl e \<Rightarrow> Inl e
      | Inr b \<Rightarrow> (case pack_tokens is of Inl e \<Rightarrow> Inl e | Inr bs \<Rightarrow> Inr (b @ bs)))"

text \<open>One document of \<open>flush\<close>.\<close>

definition tk_one :: "int \<Rightarrow> int \<Rightarrow> bytes \<Rightarrow> int list \<Rightarrow> brecord list \<times> tok_stats \<Rightarrow> pithos_error + brecord list \<times> tok_stats" where
  "tk_one eos vocab_cap k ids st =
     (let (out, stats) = st; stats1 = stats\<lparr>tk_seen := tk_seen stats + 1\<rparr>
      in if eos \<in> set ids then Inr (out, stats1\<lparr>tk_dropped_eos := tk_dropped_eos stats1 + 1\<rparr>)
         else if ids \<noteq> [] \<and> Min (set ids) < 0 then Inl CorpusError
         else if ids \<noteq> [] \<and> vocab_cap \<le> Max (set ids) then Inl CorpusError
         else case pack_tokens (ids @ [eos]) of
                Inl e \<Rightarrow> Inl e
              | Inr raw \<Rightarrow> Inr (out @ [(k, raw)],
                  stats1\<lparr>tk_selected := tk_selected stats1 + 1, tk_tokens := tk_tokens stats1 + length ids + 1\<rparr>))"

fun tk_zip :: "int \<Rightarrow> int \<Rightarrow> bytes list \<Rightarrow> int list list \<Rightarrow> brecord list \<times> tok_stats \<Rightarrow> pithos_error + brecord list \<times> tok_stats" where
  "tk_zip eos vocab_cap [] [] st = Inr st"
| "tk_zip eos vocab_cap (k # ks) (ids # idss) st =
     (case tk_one eos vocab_cap k ids st of Inl e \<Rightarrow> Inl e | Inr st1 \<Rightarrow> tk_zip eos vocab_cap ks idss st1)"
| "tk_zip eos vocab_cap _ _ st = Inl (PyError ValueError)"

definition tk_flush :: "(string list \<Rightarrow> int list list) \<Rightarrow> int \<Rightarrow> int \<Rightarrow> tok_state \<Rightarrow> pithos_error + tok_state" where
  "tk_flush encode_batch eos vocab_cap s =
     (case tk_zip eos vocab_cap (tk_pend_keys s) (encode_batch (tk_pend_txt s)) (tk_out s, tk_stats s) of
        Inl e \<Rightarrow> Inl e
      | Inr (out, stats) \<Rightarrow> Inr \<lparr>tk_out = out, tk_stats = stats, tk_pend_keys = [], tk_pend_txt = []\<rparr>)"

fun tk_docs :: "(string \<Rightarrow> string \<Rightarrow> bytes) \<Rightarrow> (string list \<Rightarrow> int list list) \<Rightarrow> bytes \<Rightarrow> int \<Rightarrow> int \<Rightarrow> nat
    \<Rightarrow> (string \<times> string \<times> string) list \<Rightarrow> tok_state \<Rightarrow> pithos_error + tok_state" where
  "tk_docs key_of encode_batch t1 eos vocab_cap batch [] s =
     (if tk_pend_txt s \<noteq> [] then tk_flush encode_batch eos vocab_cap s else Inr s)"
| "tk_docs key_of encode_batch t1 eos vocab_cap batch ((dump, doc_id, txt) # docs) s =
     (let k = key_of dump doc_id
      in if t1 \<le> k then
           tk_docs key_of encode_batch t1 eos vocab_cap batch docs
             (s\<lparr>tk_stats := (tk_stats s)\<lparr>tk_seen := tk_seen (tk_stats s) + 1\<rparr>\<rparr>)
         else
           let s1 = s\<lparr>tk_pend_keys := tk_pend_keys s @ [k], tk_pend_txt := tk_pend_txt s @ [txt]\<rparr>
           in if batch \<le> length (tk_pend_txt s1) then
                (case tk_flush encode_batch eos vocab_cap s1 of
                   Inl e \<Rightarrow> Inl e
                 | Inr s2 \<Rightarrow> tk_docs key_of encode_batch t1 eos vocab_cap batch docs s2)
              else tk_docs key_of encode_batch t1 eos vocab_cap batch docs s1)"

fun has_duplicate_neighbour :: "brecord list \<Rightarrow> bool" where
  "has_duplicate_neighbour (a # b # rs) = (fst a = fst b \<or> has_duplicate_neighbour (b # rs))"
| "has_duplicate_neighbour _ = False"

definition tokenize_docs :: "(string \<Rightarrow> string \<Rightarrow> bytes) \<Rightarrow> (string \<times> string \<times> string) list
    \<Rightarrow> (string list \<Rightarrow> int list list) \<Rightarrow> bytes \<Rightarrow> int \<Rightarrow> int \<Rightarrow> int \<Rightarrow> pithos_error + brecord list \<times> tok_stats" where
  "tokenize_docs key_of docs encode_batch t1 eos vocab_cap batch =
     (if batch < 1 then Inl CorpusError
      else
        case tk_docs key_of encode_batch t1 eos vocab_cap (nat batch) docs
               \<lparr>tk_out = [], tk_stats = \<lparr>tk_seen = 0, tk_selected = 0, tk_dropped_eos = 0, tk_tokens = 0\<rparr>,
                tk_pend_keys = [], tk_pend_txt = []\<rparr> of
          Inl e \<Rightarrow> Inl e
        | Inr s \<Rightarrow>
            let out = sort_key fst (tk_out s)
            in if has_duplicate_neighbour out then Inl CorpusError else Inr (out, tk_stats s))"

section \<open>The chunk writer\<close>

record chunk_writer =
  cw_c :: nat
  cw_buf :: bytes
  cw_total_tokens :: nat
  cw_chunks :: "bytes list"

definition cw_new :: "int \<Rightarrow> pithos_error + chunk_writer" where
  "cw_new chunk_tokens =
     (if chunk_tokens < 1 then Inl CorpusError
      else Inr \<lparr>cw_c = nat chunk_tokens, cw_buf = [], cw_total_tokens = 0, cw_chunks = []\<rparr>)"

text \<open>The blobs given to the sink, in order: the index of a blob is its position.\<close>

definition cw_idx :: "chunk_writer \<Rightarrow> nat" where
  "cw_idx w = length (cw_chunks w)"

definition cw_emit :: "bytes \<Rightarrow> chunk_writer \<Rightarrow> chunk_writer" where
  "cw_emit blob w = w\<lparr>cw_chunks := cw_chunks w @ [blob]\<rparr>"

text \<open>The \<open>while\<close> loop of \<open>write\<close>. The constructor ensures a positive chunk size.\<close>

function cw_drain :: "chunk_writer \<Rightarrow> chunk_writer" where
  "cw_drain w =
     (let limit = 4 * (cw_c w + 1)
      in if 0 < cw_c w \<and> limit \<le> length (cw_buf w)
         then cw_drain ((cw_emit (take limit (cw_buf w)) w)\<lparr>cw_buf := drop (limit - 4) (cw_buf w)\<rparr>)
         else w)"
  by pat_completeness auto
termination
  by (relation "measure (\<lambda>w. length (cw_buf w))") (auto simp: cw_emit_def)

declare cw_drain.simps [simp del]

definition cw_write :: "bytes \<Rightarrow> chunk_writer \<Rightarrow> pithos_error + chunk_writer" where
  "cw_write token_bytes w =
     (if length token_bytes mod 4 \<noteq> 0 then Inl CorpusError
      else Inr (cw_drain (w\<lparr>cw_buf := cw_buf w @ token_bytes,
                           cw_total_tokens := cw_total_tokens w + length token_bytes div 4\<rparr>)))"

definition cw_close :: "chunk_writer \<Rightarrow> chunk_writer" where
  "cw_close w = (if cw_buf w \<noteq> [] then (cw_emit (cw_buf w) w)\<lparr>cw_buf := []\<rparr> else w)"

fun cw_write_all :: "bytes list \<Rightarrow> chunk_writer \<Rightarrow> pithos_error + chunk_writer" where
  "cw_write_all [] w = Inr w"
| "cw_write_all (b # bs) w = (case cw_write b w of Inl e \<Rightarrow> Inl e | Inr w1 \<Rightarrow> cw_write_all bs w1)"

section \<open>The k-way merge\<close>

text \<open>\<open>heapq.merge\<close>: the part with the least head, the earlier part on a tie.\<close>

fun hm_least :: "brecord list list \<Rightarrow> nat option" where
  "hm_least [] = None"
| "hm_least ([] # ps) = map_option Suc (hm_least ps)"
| "hm_least ((r # rs) # ps) =
     (case hm_least ps of
        None \<Rightarrow> Some 0
      | Some i \<Rightarrow> if fst r \<le> fst (hd (ps ! i)) then Some 0 else Some (Suc i))"

lemma hm_least_valid: "hm_least ps = Some i \<Longrightarrow> i < length ps \<and> ps ! i \<noteq> []"
  by (induction ps arbitrary: i rule: hm_least.induct) (auto split: option.splits if_splits)

function heap_merge :: "brecord list list \<Rightarrow> brecord list" where
  "heap_merge ps =
     (case hm_least ps of
        None \<Rightarrow> []
      | Some i \<Rightarrow> hd (ps ! i) # heap_merge (ps[i := tl (ps ! i)]))"
  by pat_completeness auto
termination
proof (relation "measure (\<lambda>ps. sum_list (map length ps))")
  fix ps :: "brecord list list" and i
  assume "hm_least ps = Some i"
  then have i: "i < length ps" "ps ! i \<noteq> []" using hm_least_valid by auto
  have "length (ps ! i) \<le> sum_list (map length ps)" using elem_le_sum_list [of i "map length ps"] i(1) by simp
  then have "sum_list (map length (ps[i := tl (ps ! i)])) + length (ps ! i) = sum_list (map length ps) + length (tl (ps ! i))"
    using i(1) by (simp add: map_update sum_list_update)
  with i(2) show "(ps[i := tl (ps ! i)], ps) \<in> measure (\<lambda>ps. sum_list (map length ps))"
    by (cases "ps ! i") auto
qed simp

declare heap_merge.simps [simp del]

text \<open>The loop of \<open>merge_parts\<close> over the merged records.\<close>

fun mp_loop :: "int option \<Rightarrow> brecord list \<Rightarrow> bytes option \<Rightarrow> nat \<Rightarrow> chunk_writer
    \<Rightarrow> pithos_error + nat \<times> bytes option \<times> chunk_writer" where
  "mp_loop max_tokens [] prev n w = Inr (n, prev, w)"
| "mp_loop max_tokens ((key, raw) # rs) prev n w =
     (if (case prev of None \<Rightarrow> False | Some l \<Rightarrow> key < l) then Inl CorpusError
      else if prev = Some key then Inl CorpusError
      else
        let go = (case cw_write raw w of Inl e \<Rightarrow> Inl e | Inr w1 \<Rightarrow> mp_loop max_tokens rs (Some key) (n + 1) w1)
        in case max_tokens of
             None \<Rightarrow> go
           | Some m \<Rightarrow>
               let remaining = m - int (cw_total_tokens w)
               in if remaining \<le> 0 then Inr (n, prev, w)
                  else if int (length raw) > 4 * remaining then
                    (case cw_write (take (nat (4 * remaining)) raw) w of
                       Inl e \<Rightarrow> Inl e
                     | Inr w1 \<Rightarrow> Inr (n + 1, Some key, w1))
                  else go)"

definition merge_parts :: "brecord list list \<Rightarrow> chunk_writer \<Rightarrow> int option
    \<Rightarrow> pithos_error + nat \<times> bytes option \<times> chunk_writer" where
  "merge_parts parts w max_tokens =
     (case mp_loop max_tokens (heap_merge parts) None 0 w of
        Inl e \<Rightarrow> Inl e
      | Inr (n, prev, w1) \<Rightarrow> Inr (n, prev, cw_close w1))"

section \<open>The sort-based path\<close>

fun of_be :: "bytes \<Rightarrow> nat" where
  "of_be [] = 0"
| "of_be (b # bs) = unat b * 256 ^ length bs + of_be bs"

definition key_words :: "bytes \<Rightarrow> nat \<times> nat" where
  "key_words k = (of_be (take 8 k), of_be (drop 8 k))"

text \<open>The records of one part buffer; \<open>r\<close> counts the records parsed so far. A length of \<open>2^31\<close> bytes does not fit \<open>tlen\<close>.\<close>

function ns_parse :: "nat \<Rightarrow> nat \<Rightarrow> bytes \<Rightarrow> pithos_error + brecord list" where
  "ns_parse selected r buf =
     (if buf = [] then Inr []
      else if selected \<le> r then Inl CorpusError
      else if length buf < 16 + 4 then Inl CorpusError
      else
        let n = of_le (take 4 (drop 16 buf)); body = drop 20 buf
        in if 2 ^ 31 \<le> 4 * n then Inl OverflowError
           else if length body < 4 * n then Inl CorpusError
           else case ns_parse selected (r + 1) (drop (4 * n) body) of
                  Inl e \<Rightarrow> Inl e
                | Inr rs \<Rightarrow> Inr ((take 16 buf, take (4 * n) body) # rs))"
  by pat_completeness auto
termination
  by (relation "measure (\<lambda>(_, _, buf). length buf)") auto

declare ns_parse.simps [simp del]

fun ns_parse_all :: "nat \<Rightarrow> nat \<Rightarrow> bytes list \<Rightarrow> pithos_error + brecord list" where
  "ns_parse_all selected r [] = Inr []"
| "ns_parse_all selected r (buf # bufs) =
     (case ns_parse selected r buf of
        Inl e \<Rightarrow> Inl e
      | Inr rs \<Rightarrow> (case ns_parse_all selected (r + length rs) bufs of Inl e \<Rightarrow> Inl e | Inr rss \<Rightarrow> Inr (rs @ rss)))"

definition numpy_sorted_records :: "bytes list \<Rightarrow> int \<Rightarrow> pithos_error + brecord list" where
  "numpy_sorted_records bufs selected =
     (if selected < 0 then Inl CorpusError
      else case ns_parse_all (nat selected) 0 bufs of
             Inl e \<Rightarrow> Inl e
           | Inr rs \<Rightarrow>
               if int (length rs) \<noteq> selected then Inl CorpusError
               else Inr (sort_key (\<lambda>r. key_words (fst r)) rs))"

end
