(* ===== verification/PithosCorpusProps.thy ===== *)
theory PithosCorpusProps
  imports PithosCorpus
begin

text \<open>
  Properties of the corpus build: the record format is read back and a truncated stream is noticed, the
  chunk writer cuts the stream into overlapping windows however it is fed, the merge writes exactly the
  token prefix asked for in key order, and the sort-based path yields the records of the merge.
\<close>

section \<open>Records\<close>

definition rec_ok :: "brecord \<Rightarrow> bool" where
  "rec_ok r \<longleftrightarrow> length (fst r) = KEY_BYTES \<and> length (snd r) mod 4 = 0 \<and> length (snd r) div 4 < 2 ^ 32"

definition rec_bytes :: "brecord \<Rightarrow> bytes" where
  "rec_bytes r = fst r @ le_bytes 4 (length (snd r) div 4) @ snd r"

definition stream_bytes :: "brecord list \<Rightarrow> bytes" where
  "stream_bytes rs = concat (map rec_bytes rs)"

lemma stream_bytes_simps [simp]:
  "stream_bytes [] = []" "stream_bytes (r # rs) = rec_bytes r @ stream_bytes rs"
  "stream_bytes (rs @ qs) = stream_bytes rs @ stream_bytes qs"
  by (simp_all add: stream_bytes_def)

lemma rec_ok_length: "rec_ok r \<Longrightarrow> 4 * (length (snd r) div 4) = length (snd r)"
  unfolding rec_ok_def by presburger

lemma write_record_Inr:
  "write_record k n raw = Inr b \<longleftrightarrow> rec_ok (k, raw) \<and> n = int (length raw div 4) \<and> b = rec_bytes (k, raw)"
proof (cases "n = int (length raw div 4) \<and> length raw mod 4 = 0")
  case True
  then have "int (length raw) = 4 * n" by presburger
  then show ?thesis using True by (auto simp: write_record_def rec_ok_def rec_bytes_def pack_u32_def)
next
  case False
  then have "n < 0 \<or> int (length raw) \<noteq> 4 * n" by presburger
  then show ?thesis using False by (auto simp: write_record_def rec_ok_def)
qed

lemma rec_bytes_length: "rec_ok r \<Longrightarrow> length (rec_bytes r) = 20 + length (snd r)"
  by (simp add: rec_ok_def rec_bytes_def KEY_BYTES_def)

lemma read_records_record:
  assumes "rec_ok r"
  shows "read_records (rec_bytes r @ rest) = (r # fst (read_records rest), snd (read_records rest))"
proof -
  have n: "of_le (le_bytes 4 (length (snd r) div 4)) = length (snd r) div 4" "4 * (length (snd r) div 4) = length (snd r)"
    using assms rec_ok_length by (simp_all add: rec_ok_def of_le_le_bytes)
  have k: "length (fst r) = 16" using assms by (simp add: rec_ok_def KEY_BYTES_def)
  from k have "fst r \<noteq> []" by auto
  then show ?thesis
    using k by (subst read_records.simps) (simp add: rec_bytes_def KEY_BYTES_def n Let_def case_prod_unfold)
qed

text \<open>A record that is cut short is an error, wherever the cut is.\<close>

lemma read_records_cut:
  assumes "rec_ok r" and "0 < m" and "m < length (rec_bytes r)"
  shows "read_records (take m (rec_bytes r)) = ([], Some CorpusError)"
proof -
  have n: "of_le (le_bytes 4 (length (snd r) div 4)) = length (snd r) div 4" "4 * (length (snd r) div 4) = length (snd r)"
    using assms(1) rec_ok_length by (simp_all add: rec_ok_def of_le_le_bytes)
  have k: "length (fst r) = 16" using assms(1) by (simp add: rec_ok_def KEY_BYTES_def)
  have len: "length (rec_bytes r) = 20 + length (snd r)" by (rule rec_bytes_length [OF assms(1)])
  have ne: "fst r \<noteq> []" using k by auto
  consider "m < 16" | "16 \<le> m" "m < 20" | "20 \<le> m" by linarith
  then show ?thesis
  proof cases
    case 1
    then have "take m (rec_bytes r) = take m (fst r)" using k by (simp add: rec_bytes_def)
    then show ?thesis using 1 assms(2) k ne by (subst read_records.simps) (simp add: KEY_BYTES_def Let_def)
  next
    case 2
    then have "take m (rec_bytes r) = fst r @ take (m - 16) (le_bytes 4 (length (snd r) div 4))"
      using k by (simp add: rec_bytes_def)
    moreover have "m - 16 < 4" "m - 16 \<noteq> 4" using 2 by auto
    ultimately show ?thesis using k ne by (subst read_records.simps) (simp add: KEY_BYTES_def Let_def)
  next
    case 3
    then have "take m (rec_bytes r) = fst r @ le_bytes 4 (length (snd r) div 4) @ take (m - 20) (snd r)"
      using k by (simp add: rec_bytes_def)
    moreover have "m - 20 < length (snd r)" "fst r \<noteq> []" using assms(3) len 3 k by auto
    ultimately show ?thesis
      using k n by (subst read_records.simps) (simp add: KEY_BYTES_def Let_def)
  qed
qed

lemma read_records_prefix:
  "list_all rec_ok rs \<Longrightarrow> \<exists>j \<le> length rs. read_records (take m (stream_bytes rs)) =
     (take j rs, if take m (stream_bytes rs) = stream_bytes (take j rs) then None else Some CorpusError)"
proof (induction rs arbitrary: m)
  case Nil
  then show ?case by (simp add: read_records.simps)
next
  case (Cons r rs)
  then have r: "rec_ok r" by simp
  consider "m = 0" | "0 < m" "m < length (rec_bytes r)" | "length (rec_bytes r) \<le> m" by linarith
  then show ?case
  proof cases
    case 1
    then show ?thesis by (intro exI [of _ 0]) (simp add: read_records.simps)
  next
    case 2
    then have "take m (stream_bytes (r # rs)) = take m (rec_bytes r)" by simp
    moreover have "take m (rec_bytes r) \<noteq> []" using 2 by auto
    ultimately show ?thesis using read_records_cut [OF r 2] unfolding \<open>take m (stream_bytes (r # rs)) = take m (rec_bytes r)\<close>
      by (intro exI [of _ 0]) (simp del: take_eq_Nil)
  next
    case 3
    let ?m = "m - length (rec_bytes r)"
    obtain j where j: "j \<le> length rs" "read_records (take ?m (stream_bytes rs)) =
       (take j rs, if take ?m (stream_bytes rs) = stream_bytes (take j rs) then None else Some CorpusError)"
      using Cons.IH [of ?m] Cons.prems by auto
    show ?thesis using j 3 read_records_record [OF r, of "take ?m (stream_bytes rs)"]
      by (intro exI [of _ "Suc j"]) simp
  qed
qed

section \<open>The chunk writer\<close>

text \<open>Chunk \<open>k\<close> of a byte stream: \<open>C + 1\<close> tokens from token \<open>k * C\<close> on.\<close>

definition window :: "nat \<Rightarrow> bytes \<Rightarrow> nat \<Rightarrow> bytes" where
  "window C S k = take (4 * (C + 1)) (drop (4 * C * k) S)"

definition window_count :: "nat \<Rightarrow> bytes \<Rightarrow> nat" where
  "window_count C S = (if S = [] then 0 else (length S div 4 - 1) div C + 1)"

definition cw_inv :: "bytes \<Rightarrow> chunk_writer \<Rightarrow> bool" where
  "cw_inv S w \<longleftrightarrow> 0 < cw_c w \<and> length S mod 4 = 0 \<and> cw_total_tokens w = length S div 4
     \<and> cw_chunks w = map (window (cw_c w) S) [0..<cw_idx w] \<and> cw_buf w = drop (4 * cw_c w * cw_idx w) S
     \<and> (\<forall>k < cw_idx w. 4 * cw_c w * k + 4 * (cw_c w + 1) \<le> length S)"

lemma window_append: "4 * C * k + 4 * (C + 1) \<le> length S \<Longrightarrow> window C (S @ b) k = window C S k"
  by (simp add: window_def)

lemma cw_drain_inv: "cw_inv S w \<Longrightarrow> cw_inv S (cw_drain w) \<and> length (cw_buf (cw_drain w)) < 4 * (cw_c w + 1)
    \<and> cw_c (cw_drain w) = cw_c w"
proof (induction w rule: cw_drain.induct)
  case (1 w)
  let ?C = "cw_c w"
  let ?w1 = "(cw_emit (take (4 * (?C + 1)) (cw_buf w)) w)\<lparr>cw_buf := drop (4 * (?C + 1) - 4) (cw_buf w)\<rparr>"
  show ?case
  proof (cases "4 * (?C + 1) \<le> length (cw_buf w)")
    case False
    then show ?thesis using "1.prems" by (simp add: cw_drain.simps [of w] Let_def cw_inv_def)
  next
    case True
    have C: "0 < ?C" using "1.prems" by (simp add: cw_inv_def)
    have full: "4 * ?C * cw_idx w + 4 * (?C + 1) \<le> length S"
      using True "1.prems" by (simp add: cw_inv_def)
    have inv: "length S mod 4 = 0" "cw_total_tokens w = length S div 4"
      "cw_chunks w = map (window ?C S) [0..<cw_idx w]" "cw_buf w = drop (4 * ?C * cw_idx w) S"
      "\<forall>k < cw_idx w. 4 * ?C * k + 4 * (?C + 1) \<le> length S"
      using "1.prems" by (simp_all add: cw_inv_def)
    have idx: "cw_idx ?w1 = Suc (cw_idx w)" by (simp add: cw_idx_def cw_emit_def)
    have "cw_chunks ?w1 = map (window ?C S) [0..<Suc (cw_idx w)]"
      using inv(3,4) by (simp add: cw_emit_def window_def)
    moreover have "cw_buf ?w1 = drop (4 * ?C * Suc (cw_idx w)) S"
      using inv(4) by (simp add: algebra_simps)
    moreover have "\<forall>k < Suc (cw_idx w). 4 * ?C * k + 4 * (?C + 1) \<le> length S"
      using inv(5) full by (simp add: less_Suc_eq)
    ultimately have "cw_inv S ?w1"
      unfolding cw_inv_def idx using C inv(1,2) by (simp add: cw_emit_def)
    moreover have "cw_drain w = cw_drain ?w1" using True C by (subst cw_drain.simps) (simp add: Let_def)
    ultimately show ?thesis using "1.IH" [OF refl] True C by (simp add: cw_emit_def)
  qed
qed

lemma cw_write_inv:
  assumes "cw_inv S w" and "cw_write b w = Inr w'"
  shows "cw_inv (S @ b) w' \<and> length (cw_buf w') < 4 * (cw_c w + 1) \<and> cw_c w' = cw_c w"
proof -
  let ?w = "w\<lparr>cw_buf := cw_buf w @ b, cw_total_tokens := cw_total_tokens w + length b div 4\<rparr>"
  have b: "length b mod 4 = 0" "w' = cw_drain ?w" using assms(2) by (auto simp: cw_write_def split: if_splits)
  have fits: "4 * cw_c w * cw_idx w \<le> length S"
  proof (cases "cw_idx w")
    case (Suc k)
    then have "4 * cw_c w * k + 4 * (cw_c w + 1) \<le> length S" using assms(1) by (simp add: cw_inv_def)
    then show ?thesis using Suc by simp
  qed simp
  have C: "0 < cw_c w" and S4: "length S mod 4 = 0" and tot: "cw_total_tokens w = length S div 4"
    and bufw: "cw_buf w = drop (4 * cw_c w * cw_idx w) S"
    and ch: "cw_chunks w = map (window (cw_c w) S) [0..<cw_idx w]"
    and full: "\<And>k. k < cw_idx w \<Longrightarrow> 4 * cw_c w * k + 4 * (cw_c w + 1) \<le> length S"
    using assms(1) by (simp_all add: cw_inv_def)
  have idx: "cw_idx ?w = cw_idx w" by (simp add: cw_idx_def)
  have dvd: "4 dvd length S" "4 dvd length b" using S4 b(1) by (simp_all add: mod_eq_0_iff_dvd)
  then have "length (S @ b) mod 4 = 0" by simp
  moreover have "cw_total_tokens ?w = length (S @ b) div 4"
    using tot div_add [OF dvd] by simp
  moreover have "cw_chunks ?w = map (window (cw_c w) (S @ b)) [0..<cw_idx w]"
    using ch full by (simp add: window_append)
  moreover have "cw_buf ?w = drop (4 * cw_c w * cw_idx w) (S @ b)" using bufw fits by simp
  moreover have "4 * cw_c w * k + 4 * (cw_c w + 1) \<le> length (S @ b)" if "k < cw_idx w" for k
    using full [OF that] unfolding length_append by (rule trans_le_add1)
  moreover have "cw_c ?w = cw_c w" by simp
  ultimately have "cw_inv (S @ b) ?w"
    unfolding cw_inv_def idx using C by metis
  from cw_drain_inv [OF this] show ?thesis using b(2) by simp
qed

lemma cw_write_all_inv:
  "cw_inv S w \<Longrightarrow> length (cw_buf w) < 4 * (cw_c w + 1) \<Longrightarrow> cw_write_all bs w = Inr w' \<Longrightarrow>
     cw_inv (S @ concat bs) w' \<and> length (cw_buf w') < 4 * (cw_c w + 1) \<and> cw_c w' = cw_c w"
proof (induction bs arbitrary: S w)
  case (Cons b bs)
  then obtain w1 where w1: "cw_write b w = Inr w1" "cw_write_all bs w1 = Inr w'" by (auto split: sum.splits)
  note s = cw_write_inv [OF Cons.prems(1) w1(1)]
  show ?case using Cons.IH [of "S @ b" w1] s w1(2) by auto
qed simp

lemma cw_close_windows:
  assumes inv: "cw_inv S w" and short: "length (cw_buf w) < 4 * (cw_c w + 1)"
  shows "cw_chunks (cw_close w) = map (window (cw_c w) S) [0..<window_count (cw_c w) S]"
    and "cw_total_tokens (cw_close w) = length S div 4"
proof -
  let ?C = "cw_c w"
  show "cw_total_tokens (cw_close w) = length S div 4"
    using inv by (simp add: cw_inv_def cw_close_def cw_emit_def)
  show "cw_chunks (cw_close w) = map (window ?C S) [0..<window_count ?C S]"
  proof (cases "S = []")
    case True
    then have "cw_idx w = 0" using inv by (cases "cw_idx w") (auto simp: cw_inv_def)
    then show ?thesis using inv True by (simp add: cw_inv_def cw_close_def window_count_def)
  next
    case False
    obtain q where q: "length S = 4 * q" "0 < q"
      using inv False by (metis cw_inv_def dvd_def length_greater_0_conv mod_0_imp_dvd nat_0_less_mult_iff)
    have C: "0 < ?C" and buf: "cw_buf w = drop (4 * ?C * cw_idx w) S" using inv by (simp_all add: cw_inv_def)
    have lower: "?C * cw_idx w < q"
    proof (cases "cw_idx w")
      case (Suc k)
      then have "4 * ?C * k + 4 * (?C + 1) \<le> 4 * q" using inv q by (simp add: cw_inv_def)
      then show ?thesis using Suc by simp
    qed (use q in simp)
    then have rest: "cw_buf w \<noteq> []" using buf q by simp
    have upper: "q \<le> ?C * cw_idx w + ?C"
    proof -
      have "4 * q - 4 * ?C * cw_idx w < 4 * (?C + 1)" using short buf q by simp
      then show ?thesis by simp
    qed
    have "(q - 1) div ?C = cw_idx w"
      by (rule div_nat_eqI) (use lower upper C in \<open>simp_all add: algebra_simps\<close>)
    then have "window_count ?C S = Suc (cw_idx w)" using q False by (simp add: window_count_def)
    moreover have "window ?C S (cw_idx w) = cw_buf w" using short buf by (simp add: window_def)
    ultimately show ?thesis using inv rest by (simp add: cw_close_def cw_emit_def cw_inv_def)
  qed
qed

lemma cw_new_inv:
  "cw_new ct = Inr w \<Longrightarrow> cw_inv [] w \<and> length (cw_buf w) < 4 * (cw_c w + 1) \<and> cw_c w = nat ct"
  by (auto simp: cw_new_def cw_inv_def cw_idx_def split: if_splits)

section \<open>Merging\<close>

lemma hm_least_None: "hm_least ps = None \<longleftrightarrow> concat ps = []"
  by (induction ps rule: hm_least.induct) (auto split: option.splits)

lemma hm_least_le:
  "hm_least ps = Some i \<Longrightarrow> q \<in> set ps \<Longrightarrow> q \<noteq> [] \<Longrightarrow> fst (hd (ps ! i)) \<le> fst (hd q)"
proof (induction ps arbitrary: i rule: hm_least.induct)
  case (3 r rs ps)
  show ?case
  proof (cases "hm_least ps")
    case None
    then have "concat ps = []" by (simp add: hm_least_None)
    then show ?thesis using 3 None by auto
  next
    case (Some j)
    then show ?thesis using 3 by (fastforce split: if_splits)
  qed
qed auto

lemma heap_merge_mset: "mset (heap_merge ps) = mset (concat ps)"
proof (induction ps rule: heap_merge.induct)
  case (1 ps)
  show ?case
  proof (cases "hm_least ps")
    case None
    then have "concat ps = []" by (simp only: hm_least_None)
    then show ?thesis using None by (subst heap_merge.simps) (simp del: concat_eq_Nil_conv)
  next
    case (Some i)
    then have i: "i < length ps" "ps ! i \<noteq> []" using hm_least_valid by auto
    then have "ps = take i ps @ (hd (ps ! i) # tl (ps ! i)) # drop (Suc i) ps" by (simp add: id_take_nth_drop)
    then have "mset (concat ps) = mset (concat (take i ps @ (hd (ps ! i) # tl (ps ! i)) # drop (Suc i) ps))" by simp
    moreover have "ps[i := tl (ps ! i)] = take i ps @ tl (ps ! i) # drop (Suc i) ps" using i by (simp add: upd_conv_take_nth_drop)
    ultimately show ?thesis using "1.IH" [OF Some] Some by (subst heap_merge.simps) simp
  qed
qed

lemma heap_merge_sorted: "(\<forall>p \<in> set ps. sorted (map fst p)) \<Longrightarrow> sorted (map fst (heap_merge ps))"
proof (induction ps rule: heap_merge.induct)
  case (1 ps)
  show ?case
  proof (cases "hm_least ps")
    case None
    then show ?thesis by (subst heap_merge.simps) simp
  next
    case (Some i)
    let ?ps = "ps[i := tl (ps ! i)]"
    have i: "i < length ps" "ps ! i \<noteq> []" using hm_least_valid [OF Some] by auto
    have parts: "sorted (map fst p)" if "p \<in> set ?ps" for p
    proof -
      have "sorted (map fst (tl (ps ! i)))" using "1.prems" i by (simp add: map_tl sorted_tl)
      then show ?thesis using that "1.prems" set_update_subset_insert [of ps i "tl (ps ! i)"] by auto
    qed
    have "fst (hd (ps ! i)) \<le> fst r" if "r \<in> set (heap_merge ?ps)" for r
    proof -
      have "r \<in># mset (concat ?ps)" using that heap_merge_mset [of ?ps] by (metis set_mset_mset)
      then obtain p where p: "p \<in> set ?ps" "r \<in> set p" by auto
      then consider "p = tl (ps ! i)" | "p \<in> set ps" using set_update_subset_insert [of ps i "tl (ps ! i)"] by auto
      then obtain q where q: "q \<in> set ps" "r \<in> set q"
        using p(2) i by cases (metis nth_mem list.set_sel(2), blast)
      then have "sorted (map fst q)" using "1.prems" by blast
      then have "fst (hd q) \<le> fst r" using q(2) by (cases q) auto
      moreover have "fst (hd (ps ! i)) \<le> fst (hd q)" by (rule hm_least_le [OF Some q(1)]) (use q(2) in auto)
      ultimately show ?thesis by simp
    qed
    then show ?thesis using "1.IH" [OF Some] parts Some by (subst heap_merge.simps) simp
  qed
qed

lemma sort_key_unique:
  assumes "mset ys = mset xs" and "sorted (map f ys)" and "inj_on f (set xs)"
  shows "sort_key f xs = ys"
proof (rule properties_for_sort_key [OF assms(1) _ assms(2)])
  fix k
  assume "k \<in> set ys"
  then have k: "k \<in> set xs" using assms(1) by (metis set_mset_mset)
  have "filter (\<lambda>x. f k = f x) zs = filter (\<lambda>x. k = x) zs" if "set zs = set xs" for zs
    using assms(3) k that by (intro filter_cong refl) (auto dest: inj_onD)
  then have "filter (\<lambda>x. f k = f x) ys = filter (\<lambda>x. k = x) ys" "filter (\<lambda>x. f k = f x) xs = filter (\<lambda>x. k = x) xs"
    using assms(1) by (metis set_mset_mset)+
  then show "filter (\<lambda>x. f k = f x) ys = filter (\<lambda>x. f k = f x) xs"
    using assms(1) by (simp add: replicate_count_mset_eq_filter_eq [symmetric])
qed

text \<open>Key-sorted parts with no key twice.\<close>

definition parts_ok :: "brecord list list \<Rightarrow> bool" where
  "parts_ok ps \<longleftrightarrow> (\<forall>p \<in> set ps. sorted (map fst p)) \<and> distinct (map fst (concat ps))"

lemma heap_merge_sort: "parts_ok ps \<Longrightarrow> heap_merge ps = sort_key fst (concat ps)"
  using sort_key_unique [OF heap_merge_mset heap_merge_sorted] by (auto simp: parts_ok_def distinct_map)

lemma heap_merge_strict:
  assumes "parts_ok ps" shows "sorted_wrt (<) (map fst (heap_merge ps))"
proof -
  have "mset (map fst (heap_merge ps)) = mset (map fst (concat ps))" by (simp only: mset_map heap_merge_mset)
  from mset_eq_imp_distinct_iff [OF this] have "distinct (map fst (heap_merge ps))" using assms unfolding parts_ok_def by blast
  then show ?thesis using heap_merge_sorted assms by (simp add: parts_ok_def strict_sorted_iff)
qed

text \<open>The part of a stream a budget of tokens pays for.\<close>

definition within_budget :: "int option \<Rightarrow> nat \<Rightarrow> bytes \<Rightarrow> bytes" where
  "within_budget max_tokens used R =
     (case max_tokens of None \<Rightarrow> R | Some m \<Rightarrow> take (nat (4 * (m - int used))) R)"

lemma mp_loop_writes:
  assumes "sorted_wrt (<) (map fst rs)" and "\<forall>k. prev = Some k \<longrightarrow> (\<forall>r \<in> set rs. k < fst r)"
    and "\<forall>r \<in> set rs. length (snd r) mod 4 = 0" and "cw_inv S w" and "length (cw_buf w) < 4 * (cw_c w + 1)"
  shows "\<exists>n' p' w'. mp_loop max_tokens rs prev n w = Inr (n', p', w') \<and> cw_c w' = cw_c w
    \<and> cw_inv (S @ within_budget max_tokens (cw_total_tokens w) (concat (map snd rs))) w' \<and> length (cw_buf w') < 4 * (cw_c w + 1)"
  using assms
proof (induction rs arbitrary: prev n S w)
  case Nil
  then show ?case by (simp add: within_budget_def split: option.split)
next
  case (Cons r rs)
  obtain k raw where r: "r = (k, raw)" by (cases r)
  have al: "length raw mod 4 = 0" using Cons.prems(3) r by simp
  obtain w1 where w1: "cw_write raw w = Inr w1" using al by (simp add: cw_write_def)
  have s1: "cw_inv (S @ raw) w1" "length (cw_buf w1) < 4 * (cw_c w + 1)" "cw_c w1 = cw_c w"
    using cw_write_inv [OF Cons.prems(4) w1] by auto
  have tot: "cw_total_tokens w1 = cw_total_tokens w + length raw div 4"
    using s1(1) Cons.prems(4) al by (simp add: cw_inv_def div_add mod_eq_0_iff_dvd)
  have no_err: "\<not> (case prev of None \<Rightarrow> False | Some l \<Rightarrow> k < l)" "prev \<noteq> Some k"
    using Cons.prems(2) r by (auto split: option.split)
  have IH: "\<exists>n' p' w'. mp_loop max_tokens rs (Some k) (n + 1) w1 = Inr (n', p', w') \<and> cw_c w' = cw_c w1
      \<and> cw_inv ((S @ raw) @ within_budget max_tokens (cw_total_tokens w1) (concat (map snd rs))) w' \<and> length (cw_buf w') < 4 * (cw_c w1 + 1)"
    by (rule Cons.IH) (use Cons.prems r s1 in auto)
  show ?case
  proof (cases max_tokens)
    case None
    then show ?thesis using IH r w1 s1 no_err by (simp add: within_budget_def)
  next
    case (Some m)
    let ?rem = "m - int (cw_total_tokens w)"
    consider "?rem \<le> 0" | "0 < ?rem" "int (length raw) > 4 * ?rem" | "0 < ?rem" "int (length raw) \<le> 4 * ?rem" by linarith
    then show ?thesis
    proof cases
      case 1
      then show ?thesis using Some r no_err Cons.prems by (simp add: within_budget_def)
    next
      case 2
      let ?cut = "take (nat (4 * ?rem)) raw"
      have len: "length ?cut = 4 * nat ?rem" using 2 by simp
      then obtain w2 where w2: "cw_write ?cut w = Inr w2" by (simp add: cw_write_def)
      have "within_budget max_tokens (cw_total_tokens w) (concat (map snd (r # rs))) = ?cut"
        using 2 Some r by (simp add: within_budget_def)
      then show ?thesis using cw_write_inv [OF Cons.prems(4) w2] 2 Some r no_err w2 by simp
    next
      case 3
      have "4 * int (length raw div 4) = int (length raw)" using al by presburger
      then have "nat (4 * (m - int (cw_total_tokens w1))) = nat (4 * ?rem) - length raw" using tot by (simp add: algebra_simps)
      moreover have "length raw \<le> nat (4 * ?rem)" using 3 by simp
      ultimately have "within_budget max_tokens (cw_total_tokens w) (concat (map snd (r # rs)))
          = raw @ within_budget max_tokens (cw_total_tokens w1) (concat (map snd rs))"
        using Some r by (simp add: within_budget_def)
      then show ?thesis using IH 3 Some r no_err w1 s1 by simp
    qed
  qed
qed

section \<open>The sort-based path\<close>

lemma of_be_less: "of_be bs < 256 ^ length bs"
proof (induction bs)
  case (Cons b bs)
  have "unat b < 2 ^ LENGTH(8)" by (rule unsigned_less)
  then have "unat b + 1 \<le> 256" by simp
  have "of_be (b # bs) < (unat b + 1) * 256 ^ length bs" using Cons by simp
  also have "\<dots> \<le> 256 * 256 ^ length bs" by (rule mult_le_mono1) fact
  finally show ?case by simp
qed simp

lemma of_be_order: "length xs = length ys \<Longrightarrow> of_be xs < of_be ys \<longleftrightarrow> xs < ys"
proof (induction xs ys rule: list_induct2)
  case (Cons x xs y ys)
  let ?B = "256 ^ length ys :: nat"
  have bx: "of_be xs < ?B" and by': "of_be ys < ?B" using of_be_less [of xs] of_be_less [of ys] Cons.hyps by simp_all
  have lt: "of_be (a # as) < of_be (b # bs)" if "a < b" "length as = length bs" for a b :: "8 word" and as bs
  proof -
    have "unat a + 1 \<le> unat b" using that(1) by (simp add: word_less_nat_alt)
    have "of_be (a # as) < (unat a + 1) * 256 ^ length as" using of_be_less [of as] by simp
    also have "\<dots> \<le> unat b * 256 ^ length as" by (rule mult_le_mono1) fact
    finally show ?thesis using that(2) by simp
  qed
  consider "x < y" | "y < x" | "x = y" by (metis linorder_less_linear)
  then show ?case
  proof cases
    case 1
    then show ?thesis using lt [of x y xs ys] Cons.hyps by simp
  next
    case 2
    then show ?thesis using lt [of y x ys xs] Cons.hyps by auto
  next
    case 3
    then show ?thesis using Cons by simp
  qed
qed simp

lemma of_be_inj: "length xs = length ys \<Longrightarrow> of_be xs = of_be ys \<Longrightarrow> xs = ys"
  by (metis of_be_order linorder_neqE less_irrefl)

lemma key_words_order:
  assumes "length a = KEY_BYTES" and "length b = KEY_BYTES"
  shows "key_words a \<le> key_words b \<longleftrightarrow> a \<le> b"
proof -
  have a: "a = take 8 a @ drop 8 a" and b: "b = take 8 b @ drop 8 b" by simp_all
  have len: "length (take 8 a) = length (take 8 b)" "length (drop 8 a) = length (drop 8 b)"
    using assms by (simp_all add: KEY_BYTES_def)
  have app: "xs @ xs' < ys @ ys' \<longleftrightarrow> xs < ys \<or> xs = ys \<and> xs' < ys'" if "length xs = length ys" for xs xs' ys ys' :: bytes
    using that by (induction xs ys rule: list_induct2) (auto simp: less_le_not_le)
  have "key_words b < key_words a \<longleftrightarrow> b < a"
    using app [OF len(1) [symmetric], of "drop 8 b" "drop 8 a"] of_be_order [OF len(1) [symmetric]]
      of_be_order [OF len(2) [symmetric]] of_be_inj [OF len(1) [symmetric]] a b
    by (auto simp: key_words_def)
  then show ?thesis by (metis not_less)
qed

lemma ns_parse_stream:
  "list_all rec_ok rs \<Longrightarrow> \<forall>r \<in> set rs. length (snd r) < 2 ^ 31 \<Longrightarrow> n + length rs \<le> selected \<Longrightarrow>
     ns_parse selected n (stream_bytes rs) = Inr rs"
proof (induction rs arbitrary: n)
  case Nil
  then show ?case by (subst ns_parse.simps) simp
next
  case (Cons r rs)
  have r: "rec_ok r" "length (snd r) < 2 ^ 31" using Cons.prems by simp_all
  have k: "length (fst r) = 16" using r(1) by (simp add: rec_ok_def KEY_BYTES_def)
  have n: "of_le (le_bytes 4 (length (snd r) div 4)) = length (snd r) div 4" "4 * (length (snd r) div 4) = length (snd r)"
    using r(1) rec_ok_length by (simp_all add: rec_ok_def of_le_le_bytes)
  have parts: "take 16 (rec_bytes r @ X) = fst r" "take 4 (drop 16 (rec_bytes r @ X)) = le_bytes 4 (length (snd r) div 4)"
    "drop 20 (rec_bytes r @ X) = snd r @ X" "rec_bytes r @ X \<noteq> []" "20 \<le> length (rec_bytes r @ X)" for X
    using k by (auto simp: rec_bytes_def)
  have IH: "ns_parse selected (n + 1) (stream_bytes rs) = Inr rs" by (rule Cons.IH) (use Cons.prems in auto)
  show ?case
    using r(2) n IH Cons.prems(3) parts [of "stream_bytes rs"]
    by (subst ns_parse.simps) (simp add: Let_def not_le not_less)
qed

lemma ns_parse_all_streams:
  "list_all (list_all rec_ok) ps \<Longrightarrow> \<forall>r \<in> set (concat ps). length (snd r) < 2 ^ 31 \<Longrightarrow> n + length (concat ps) \<le> selected \<Longrightarrow>
     ns_parse_all selected n (map stream_bytes ps) = Inr (concat ps)"
proof (induction ps arbitrary: n)
  case (Cons p ps)
  have "ns_parse selected n (stream_bytes p) = Inr p" by (rule ns_parse_stream) (use Cons.prems in auto)
  moreover have "ns_parse_all selected (n + length p) (map stream_bytes ps) = Inr (concat ps)"
    by (rule Cons.IH) (use Cons.prems in auto)
  ultimately show ?case by simp
qed simp

section \<open>Tokenisation in batches\<close>

text \<open>The reference: every document is encoded when it is reached.\<close>

definition count_seen :: "brecord list \<times> tok_stats \<Rightarrow> brecord list \<times> tok_stats" where
  "count_seen st = (fst st, (snd st)\<lparr>tk_seen := tk_seen (snd st) + 1\<rparr>)"

fun tk_ref :: "(string \<Rightarrow> string \<Rightarrow> bytes) \<Rightarrow> (string \<Rightarrow> int list) \<Rightarrow> bytes \<Rightarrow> int \<Rightarrow> int
    \<Rightarrow> (string \<times> string \<times> string) list \<Rightarrow> brecord list \<times> tok_stats \<Rightarrow> pithos_error + brecord list \<times> tok_stats" where
  "tk_ref key_of enc t1 eos cap [] st = Inr st"
| "tk_ref key_of enc t1 eos cap ((dump, doc_id, txt) # docs) st =
     (if t1 \<le> key_of dump doc_id then tk_ref key_of enc t1 eos cap docs (count_seen st)
      else case tk_one eos cap (key_of dump doc_id) (enc txt) st of
             Inl e \<Rightarrow> Inl e | Inr st1 \<Rightarrow> tk_ref key_of enc t1 eos cap docs st1)"

lemma tk_one_count_seen: "tk_one eos cap k ids (count_seen st) = map_sum id count_seen (tk_one eos cap k ids st)"
  by (cases st) (auto simp: tk_one_def count_seen_def Let_def split: sum.split)

lemma tk_zip_count_seen:
  "length ks = length idss \<Longrightarrow> tk_zip eos cap ks idss (count_seen st) = map_sum id count_seen (tk_zip eos cap ks idss st)"
proof (induction ks idss arbitrary: st rule: list_induct2)
  case (Cons k ks ids idss)
  then show ?case by (cases "tk_one eos cap k ids st") (simp_all add: tk_one_count_seen del: split_paired_All split_paired_Ex)
qed simp

lemma tk_zip_append:
  "length ks = length idss \<Longrightarrow> tk_zip eos cap (ks @ [k]) (idss @ [ids]) st =
     (case tk_zip eos cap ks idss st of Inl e \<Rightarrow> Inl e | Inr st1 \<Rightarrow> tk_one eos cap k ids st1)"
  by (induction ks idss arbitrary: st rule: list_induct2) (auto split: sum.split)

lemma tk_docs_ref:
  "length (tk_pend_keys s) = length (tk_pend_txt s) \<Longrightarrow> tk_docs key_of (map enc) t1 eos cap batch docs s =
     (case tk_zip eos cap (tk_pend_keys s) (map enc (tk_pend_txt s)) (tk_out s, tk_stats s) of
        Inl e \<Rightarrow> Inl e
      | Inr st \<Rightarrow> map_sum id (\<lambda>(out, stats). \<lparr>tk_out = out, tk_stats = stats, tk_pend_keys = [], tk_pend_txt = []\<rparr>)
          (tk_ref key_of enc t1 eos cap docs st))"
proof (induction docs arbitrary: s)
  case Nil
  then show ?case by (cases s) (auto simp: tk_flush_def split: sum.split)
next
  case (Cons d docs)
  obtain dump doc_id body where d: "d = (dump, doc_id, body)" by (cases d)
  let ?k = "key_of dump doc_id"
  let ?z = "tk_zip eos cap (tk_pend_keys s) (map enc (tk_pend_txt s)) (tk_out s, tk_stats s)"
  show ?case
  proof (cases "t1 \<le> ?k")
    case True
    let ?s = "s\<lparr>tk_stats := (tk_stats s)\<lparr>tk_seen := tk_seen (tk_stats s) + 1\<rparr>\<rparr>"
    have "tk_zip eos cap (tk_pend_keys s) (map enc (tk_pend_txt s)) (tk_out ?s, tk_stats ?s) = map_sum id count_seen ?z"
      using tk_zip_count_seen [of "tk_pend_keys s" "map enc (tk_pend_txt s)" eos cap "(tk_out s, tk_stats s)"] Cons.prems
      by (simp add: count_seen_def)
    then show ?thesis using Cons.IH [of ?s] Cons.prems True d by (cases ?z) (simp_all add: Let_def)
  next
    case False
    let ?s = "s\<lparr>tk_pend_keys := tk_pend_keys s @ [?k], tk_pend_txt := tk_pend_txt s @ [body]\<rparr>"
    have z: "tk_zip eos cap (tk_pend_keys ?s) (map enc (tk_pend_txt ?s)) (tk_out ?s, tk_stats ?s)
        = (case ?z of Inl e \<Rightarrow> Inl e | Inr st1 \<Rightarrow> tk_one eos cap ?k (enc body) st1)"
      using tk_zip_append [of "tk_pend_keys s" "map enc (tk_pend_txt s)" eos cap ?k "enc body"] Cons.prems by simp
    show ?thesis
    proof (cases "batch \<le> length (tk_pend_txt ?s)")
      case flush: True
      show ?thesis
      proof (cases "tk_zip eos cap (tk_pend_keys ?s) (map enc (tk_pend_txt ?s)) (tk_out ?s, tk_stats ?s)")
        case (Inl e)
        then have "tk_flush (map enc) eos cap ?s = Inl e" by (simp add: tk_flush_def)
        then show ?thesis using False flush d z Inl by (cases ?z) (simp_all add: Let_def)
      next
        case (Inr st)
        then have f: "tk_flush (map enc) eos cap ?s = Inr \<lparr>tk_out = fst st, tk_stats = snd st, tk_pend_keys = [], tk_pend_txt = []\<rparr>"
          by (cases st) (simp add: tk_flush_def)
        show ?thesis
          using Cons.IH [of "\<lparr>tk_out = fst st, tk_stats = snd st, tk_pend_keys = [], tk_pend_txt = []\<rparr>"] False flush d z Inr f
          by (cases ?z) (simp_all add: Let_def)
      qed
    next
      case keep: False
      then show ?thesis using Cons.IH [of ?s] Cons.prems False d z
        by (cases ?z; cases "tk_zip eos cap (tk_pend_keys ?s) (map enc (tk_pend_txt ?s)) (tk_out ?s, tk_stats ?s)")
          (simp_all add: Let_def)
    qed
  qed
qed

section \<open>Properties\<close>


text \<open>C19. The merge writes the corpus the rule defines: from key-sorted parts with distinct keys it succeeds,
  the token stream is the bodies in key order cut at exactly the budget, and chunk \<open>k\<close> is the window of
  \<open>C + 1\<close> tokens from token \<open>k * C\<close>, so that neighbouring chunks share one token.\<close>

theorem merge_writes_key_order_windows:
  assumes "parts_ok ps" and "\<forall>r \<in> set (concat ps). length (snd r) mod 4 = 0" and "cw_new ct = Inr w"
    and S_def: "S = within_budget max_tokens 0 (concat (map snd (sort_key fst (concat ps))))"
  shows "\<exists>n last_key w'. merge_parts ps w max_tokens = Inr (n, last_key, w')
    \<and> cw_chunks w' = map (window (nat ct) S) [0..<window_count (nat ct) S] \<and> cw_total_tokens w' = length S div 4"
proof -
  have w: "cw_inv [] w" "length (cw_buf w) < 4 * (cw_c w + 1)" "cw_c w = nat ct" using cw_new_inv [OF assms(3)] by auto
  have al: "\<forall>r \<in> set (heap_merge ps). length (snd r) mod 4 = 0"
    using assms(2) heap_merge_mset [of ps] by (metis set_mset_mset)
  have strict: "sorted_wrt (<) (map fst (heap_merge ps))" by (rule heap_merge_strict [OF assms(1)])
  have tot: "cw_total_tokens w = 0" using w(1) by (simp add: cw_inv_def)
  obtain n p w1 where l: "mp_loop max_tokens (heap_merge ps) None 0 w = Inr (n, p, w1)" "cw_c w1 = cw_c w"
    "cw_inv ([] @ within_budget max_tokens (cw_total_tokens w) (concat (map snd (heap_merge ps)))) w1"
    "length (cw_buf w1) < 4 * (cw_c w + 1)"
    using mp_loop_writes [OF strict _ al w(1,2), of None max_tokens 0] by auto
  have S: "[] @ within_budget max_tokens (cw_total_tokens w) (concat (map snd (heap_merge ps))) = S"
    unfolding S_def tot heap_merge_sort [OF assms(1)] by simp
  show ?thesis
    using cw_close_windows [of S w1] l w(3) unfolding S by (simp add: merge_parts_def)
qed

text \<open>C20. The sort-based path is the merge: on the byte streams of key-sorted parts with distinct keys it
  yields the same records in the same order.\<close>

theorem sort_path_equals_merge:
  assumes "parts_ok ps" and "list_all (list_all rec_ok) ps" and "\<forall>r \<in> set (concat ps). length (snd r) < 2 ^ 31"
  shows "numpy_sorted_records (map stream_bytes ps) (int (length (concat ps))) = Inr (heap_merge ps)"
proof -
  have parsed: "ns_parse_all (length (concat ps)) 0 (map stream_bytes ps) = Inr (concat ps)"
    by (rule ns_parse_all_streams [OF assms(2,3)]) simp
  have keys: "length (fst r) = KEY_BYTES" if "r \<in> set (concat ps)" for r
    using that assms(2) by (auto simp: list_all_iff rec_ok_def)
  have set_hm: "set (heap_merge ps) = set (concat ps)" using heap_merge_mset [of ps] by (metis set_mset_mset)
  have "sorted (map (\<lambda>r. key_words (fst r)) (heap_merge ps))"
  proof -
    have "sorted_wrt (\<lambda>a b. fst a < fst b) (heap_merge ps)" using heap_merge_strict [OF assms(1)] by (simp add: sorted_wrt_map)
    then have "sorted_wrt (\<lambda>a b. key_words (fst a) \<le> key_words (fst b)) (heap_merge ps)"
      by (rule sorted_wrt_mono_rel [rotated]) (use keys key_words_order set_hm in auto)
    then show ?thesis by (simp add: sorted_wrt_map)
  qed
  moreover have "inj_on (\<lambda>r. key_words (fst r)) (set (concat ps))"
  proof (rule inj_onI)
    fix a b
    assume ab: "a \<in> set (concat ps)" "b \<in> set (concat ps)" "key_words (fst a) = key_words (fst b)"
    then have "fst a = fst b" using keys key_words_order by (metis order.antisym order.refl)
    then show "a = b" using ab assms(1) by (metis parts_ok_def distinct_map inj_onD)
  qed
  ultimately have "sort_key (\<lambda>r. key_words (fst r)) (concat ps) = heap_merge ps"
    by (intro sort_key_unique heap_merge_mset)
  then show ?thesis using parsed by (simp add: numpy_sorted_records_def)
qed

text \<open>Tokenisation does not depend on the batch size: with an encoder that treats texts one by one, every
  batch size gives the same records, the same counts, or the same error.\<close>

theorem tokenize_batch_independent:
  assumes "1 \<le> batch" and "1 \<le> batch'"
  shows "tokenize_docs key_of docs (map enc) t1 eos cap batch = tokenize_docs key_of docs (map enc) t1 eos cap batch'"
  using assms by (simp add: tokenize_docs_def tk_docs_ref)

section \<open>Witnesses\<close>

definition demo_key :: "8 word \<Rightarrow> bytes" where
  "demo_key b = [0, 0, 0, 0, 0, 0, 0, 0, 0, 0, 0, 0, 0, 0, 0, b]"

definition demo_parts :: "brecord list list" where
  "demo_parts = [[(demo_key 1, [1, 0, 0, 0]), (demo_key 3, [3, 0, 0, 0, 4, 0, 0, 0])], [(demo_key 2, [2, 0, 0, 0])]]"

lemma demo_parts_facts: "parts_ok demo_parts" "list_all (list_all rec_ok) demo_parts"
  "\<forall>r \<in> set (concat demo_parts). length (snd r) mod 4 = 0" "\<forall>r \<in> set (concat demo_parts). length (snd r) < 2 ^ 31"
  by (simp_all add: demo_parts_def parts_ok_def demo_key_def rec_ok_def KEY_BYTES_def)


lemma merge_writes_key_order_windows_witness:
  "\<exists>w n last_key w'. cw_new 2 = Inr w \<and> merge_parts demo_parts w (Some 3) = Inr (n, last_key, w') \<and> cw_total_tokens w' = 3"
proof -
  obtain w where w: "cw_new 2 = Inr w" by (simp add: cw_new_def)
  have "sort_key fst (concat demo_parts) = [(demo_key 1, [1, 0, 0, 0]), (demo_key 2, [2, 0, 0, 0]), (demo_key 3, [3, 0, 0, 0, 4, 0, 0, 0])]"
    by (simp add: demo_parts_def demo_key_def)
  then have "length (within_budget (Some 3) 0 (concat (map snd (sort_key fst (concat demo_parts))))) div 4 = 3"
    by (simp add: within_budget_def)
  with merge_writes_key_order_windows [OF demo_parts_facts(1,3) w refl, of "Some 3"] w show ?thesis by auto
qed

lemma sort_path_equals_merge_witness:
  "numpy_sorted_records (map stream_bytes demo_parts) 3 = Inr (heap_merge demo_parts)"
  using sort_path_equals_merge [OF demo_parts_facts(1,2,4)] by (simp add: demo_parts_def)

lemma tokenize_batch_independent_witness:
  "tokenize_docs (\<lambda>_ d. demo_key (of_nat (length d))) [(''a'', ''x'', ''t''), (''a'', ''xy'', ''u'')] (map (\<lambda>_. [5])) (demo_key 9) 7 100 1
   = tokenize_docs (\<lambda>_ d. demo_key (of_nat (length d))) [(''a'', ''x'', ''t''), (''a'', ''xy'', ''u'')] (map (\<lambda>_. [5])) (demo_key 9) 7 100 256"
  by (rule tokenize_batch_independent) simp_all

end
