(* ===== verification/PithosManifest.thy ===== *)
theory PithosManifest
  imports PithosCorpus BatchMetadata
begin

text \<open>
  The manifest of a stream corpus (\<open>pithos/manifest.py\<close>): validation of a decoded JSON document in the
  order of the constructor, and the sample layout at a sequence length. \<open>json.dumps(sort_keys)\<close> and
  \<open>sha256\<close> are parameters. Counts the code has checked to be at least 0 are natural numbers.
\<close>

unbundle bit_operations_syntax

section \<open>Constants\<close>

definition PITHOS_STREAM_V1 :: string where
  "PITHOS_STREAM_V1 = ''pithos_stream_v1''"

definition LEGACY_STREAM_V1 :: string where
  "LEGACY_STREAM_V1 = ''colonnade_stream_v1''"

definition KNOWN_FORMATS :: "string list" where
  "KNOWN_FORMATS = [PITHOS_STREAM_V1, LEGACY_STREAM_V1]"

definition PITHOS_CHUNK_TOKENS :: nat where
  "PITHOS_CHUNK_TOKENS = 2 ^ 26"

definition PITHOS_MAX_CHUNK_TOKENS :: nat where
  "PITHOS_MAX_CHUNK_TOKENS = 2 ^ 30"

definition SUPPORTED_SEQ :: "int list" where
  "SUPPORTED_SEQ = map (\<lambda>k. 2 ^ k) [9..<18]"

section \<open>Names, hashes and identity\<close>

definition is_alnum :: "char \<Rightarrow> bool" where
  "is_alnum c \<longleftrightarrow> (let n = of_char c :: nat in 48 \<le> n \<and> n \<le> 57 \<or> 65 \<le> n \<and> n \<le> 90 \<or> 97 \<le> n \<and> n \<le> 122)"

definition is_name_char :: "char \<Rightarrow> bool" where
  "is_name_char c \<longleftrightarrow> is_alnum c \<or> c \<in> set ''._-''"

fun has_infix :: "string \<Rightarrow> string \<Rightarrow> bool" where
  "has_infix p [] \<longleftrightarrow> p = []"
| "has_infix p (c # cs) \<longleftrightarrow> take (length p) (c # cs) = p \<or> has_infix p cs"

fun chunk_name_match :: "string \<Rightarrow> bool" where
  "chunk_name_match [] \<longleftrightarrow> False"
| "chunk_name_match (c # cs) \<longleftrightarrow> is_alnum c \<and> list_all is_name_char cs \<and> length cs \<le> 254"

fun validate_chunk_name :: "pyval option \<Rightarrow> pithos_error + string" where
  "validate_chunk_name (Some (PStr s)) =
     (if \<not> chunk_name_match s then Inl ManifestError
      else if has_infix ''..'' s then Inl ManifestError
      else Inr s)"
| "validate_chunk_name _ = Inl ManifestError"

text \<open>\<open>_SHA256_RE.fullmatch\<close> of a string value.\<close>

fun sha256_match :: "pyval option \<Rightarrow> string option" where
  "sha256_match (Some (PStr s)) = (if is_hex64 s then Some s else None)"
| "sha256_match _ = None"

definition manifest_sha256 :: "((string, pyval) dict \<Rightarrow> bytes) \<Rightarrow> (bytes \<Rightarrow> string) \<Rightarrow> (string, pyval) dict \<Rightarrow> string" where
  "manifest_sha256 json_sorted sha256 d = sha256 (json_sorted (filter (\<lambda>(k, v). k \<noteq> ''manifest_sha256'') d))"

text \<open>An int that is not a bool.\<close>

fun plain_int :: "pyval option \<Rightarrow> int option" where
  "plain_int (Some (PInt i)) = Some i"
| "plain_int _ = None"

section \<open>The manifest\<close>

record chunk_info =
  ci_name :: string
  ci_tokens :: nat
  ci_sha256 :: string

record stream_layout =
  sl_seq :: nat
  sl_samples_per_chunk :: nat
  sl_per_chunk :: "nat list"
  sl_cumulative :: "nat list"
  sl_total_samples :: nat

record manifest =
  mf_format :: string
  mf_eos_id :: nat
  mf_chunk_tokens :: nat
  mf_chunks :: "chunk_info list"
  mf_identity :: string

definition chunk_entry :: "string list \<Rightarrow> pyval \<Rightarrow> pithos_error + chunk_info" where
  "chunk_entry seen entry =
     (case entry of
        PDict d \<Rightarrow>
          (case validate_chunk_name (dict_get d ''name'') of
             Inl e \<Rightarrow> Inl e
           | Inr name \<Rightarrow>
               if name \<in> set seen then Inl ManifestError
               else
                 case plain_int (dict_get d ''tokens'') of
                   None \<Rightarrow> Inl ManifestError
                 | Some t \<Rightarrow>
                     if t < 1 then Inl ManifestError
                     else
                       case sha256_match (dict_get d ''sha256'') of
                         None \<Rightarrow> Inl ManifestError
                       | Some sha \<Rightarrow> Inr \<lparr>ci_name = name, ci_tokens = nat t, ci_sha256 = sha\<rparr>)
      | _ \<Rightarrow> Inl ManifestError)"

fun chunk_entries :: "string list \<Rightarrow> pyval list \<Rightarrow> pithos_error + chunk_info list" where
  "chunk_entries seen [] = Inr []"
| "chunk_entries seen (entry # es) =
     (case chunk_entry seen entry of
        Inl e \<Rightarrow> Inl e
      | Inr c \<Rightarrow> (case chunk_entries (ci_name c # seen) es of Inl e \<Rightarrow> Inl e | Inr cs \<Rightarrow> Inr (c # cs)))"

text \<open>Every chunk but the last has \<open>chunk_tokens + 1\<close> tokens, the last at most that many.\<close>

definition chunk_geometry_ok :: "nat \<Rightarrow> chunk_info list \<Rightarrow> bool" where
  "chunk_geometry_ok ct cs \<longleftrightarrow>
     list_all (\<lambda>c. ci_tokens c = ct + 1) (butlast cs) \<and> ci_tokens (last cs) \<le> ct + 1"

definition bad_pithos_geometry :: "string \<Rightarrow> nat \<Rightarrow> bool" where
  "bad_pithos_geometry fmt ct \<longleftrightarrow> fmt = PITHOS_STREAM_V1
     \<and> (ct AND (ct - 1) \<noteq> 0 \<or> \<not> (PITHOS_CHUNK_TOKENS \<le> ct \<and> ct \<le> PITHOS_MAX_CHUNK_TOKENS))"

definition wanted_dtype :: "string \<Rightarrow> string" where
  "wanted_dtype fmt = (if fmt = PITHOS_STREAM_V1 then ''<i4'' else ''int32'')"

definition manifest_head :: "(string, pyval) dict \<Rightarrow> pithos_error + string \<times> nat \<times> nat" where
  "manifest_head d =
     (case dict_get d ''format'' of
        Some (PStr fmt) \<Rightarrow>
          if fmt \<notin> set KNOWN_FORMATS then Inl ManifestError
          else if dict_get d ''dtype'' \<noteq> Some (PStr (wanted_dtype fmt)) then Inl ManifestError
          else
            (case plain_int (dict_get d ''eos_id'') of
               None \<Rightarrow> Inl ManifestError
             | Some eos \<Rightarrow>
                 if eos < 0 then Inl ManifestError
                 else
                   case plain_int (dict_get d ''chunk_tokens'') of
                     None \<Rightarrow> Inl ManifestError
                   | Some ct \<Rightarrow>
                       if ct < 1 then Inl ManifestError
                       else if bad_pithos_geometry fmt (nat ct) then Inl ManifestError
                       else Inr (fmt, nat eos, nat ct))
      | _ \<Rightarrow> Inl ManifestError)"

text \<open>\<open>Manifest.__init__\<close>.\<close>

definition manifest_of :: "((string, pyval) dict \<Rightarrow> bytes) \<Rightarrow> (bytes \<Rightarrow> string) \<Rightarrow> pyval \<Rightarrow> pithos_error + manifest" where
  "manifest_of json_sorted sha256 v =
     (case v of
        PDict d \<Rightarrow>
          (case manifest_head d of
             Inl e \<Rightarrow> Inl e
           | Inr (fmt, eos, ct) \<Rightarrow>
               case dict_get d ''chunks'' of
                 Some (PList raw) \<Rightarrow>
                   if raw = [] then Inl ManifestError
                   else
                     (case chunk_entries [] raw of
                        Inl e \<Rightarrow> Inl e
                      | Inr cs \<Rightarrow>
                          if \<not> chunk_geometry_ok ct cs then Inl ManifestError
                          else
                            let identity = manifest_sha256 json_sorted sha256 d
                            in case sha256_match (dict_get d ''manifest_sha256'') of
                                 None \<Rightarrow> Inl ManifestError
                               | Some reported \<Rightarrow>
                                   if reported \<noteq> identity then Inl ManifestError
                                   else Inr \<lparr>mf_format = fmt, mf_eos_id = eos, mf_chunk_tokens = ct,
                                             mf_chunks = cs, mf_identity = identity\<rparr>)
               | _ \<Rightarrow> Inl ManifestError)
      | _ \<Rightarrow> Inl ManifestError)"

definition mf_chunk_names :: "manifest \<Rightarrow> string list" where
  "mf_chunk_names m = map ci_name (mf_chunks m)"

section \<open>The sample layout\<close>

fun cum_from :: "nat \<Rightarrow> nat list \<Rightarrow> nat list" where
  "cum_from a [] = [a]"
| "cum_from a (s # ss) = a # cum_from (a + s) ss"

definition manifest_layout :: "manifest \<Rightarrow> pyval \<Rightarrow> pithos_error + stream_layout" where
  "manifest_layout m v =
     (case plain_int (Some v) of
        None \<Rightarrow> Inl ManifestError
      | Some s \<Rightarrow>
          if s < 1 then Inl ManifestError
          else if mf_format m = PITHOS_STREAM_V1 \<and> s \<notin> set SUPPORTED_SEQ then Inl ManifestError
          else if mf_chunk_tokens m mod nat s \<noteq> 0 then Inl ManifestError
          else
            let spc = mf_chunk_tokens m div nat s;
                spc_k = map (\<lambda>c. (ci_tokens c - 1) div nat s) (mf_chunks m)
            in if list_ex (\<lambda>x. x \<noteq> spc) (butlast spc_k) then Inl ManifestError
               else if spc_k \<noteq> [] \<and> spc < last spc_k then Inl ManifestError
               else
                 let cum = cum_from 0 spc_k; n = last cum
                 in if n \<le> 0 then Inl ManifestError
                    else Inr \<lparr>sl_seq = nat s, sl_samples_per_chunk = spc, sl_per_chunk = spc_k,
                              sl_cumulative = cum, sl_total_samples = n\<rparr>)"

section \<open>Facts about the layout\<close>

lemma length_cum_from [simp]: "length (cum_from a ss) = Suc (length ss)"
  by (induction ss arbitrary: a) auto

lemma cum_from_nth: "k \<le> length ss \<Longrightarrow> cum_from a ss ! k = a + sum_list (take k ss)"
proof (induction ss arbitrary: a k)
  case (Cons s ss)
  then show ?case by (cases k) auto
qed simp

lemma last_cum_from: "last (cum_from a ss) = a + sum_list ss"
proof -
  have "cum_from a ss \<noteq> []" by (cases ss) auto
  then have "last (cum_from a ss) = cum_from a ss ! length ss" by (simp add: last_conv_nth)
  then show ?thesis by (simp add: cum_from_nth)
qed

text \<open>What a layout promises to a reader.\<close>

definition layout_ok :: "stream_layout \<Rightarrow> bool" where
  "layout_ok L \<longleftrightarrow> 0 < sl_seq L \<and> 0 < sl_total_samples L
     \<and> sl_cumulative L = cum_from 0 (sl_per_chunk L) \<and> sl_total_samples L = sum_list (sl_per_chunk L)
     \<and> (\<forall>k < length (sl_per_chunk L). sl_per_chunk L ! k \<le> sl_samples_per_chunk L)
     \<and> (\<forall>k. Suc k < length (sl_per_chunk L) \<longrightarrow> sl_per_chunk L ! k = sl_samples_per_chunk L)"

lemma layout_ok_of:
  assumes "manifest_layout m v = Inr L"
  shows "layout_ok L" and "sl_per_chunk L = map (\<lambda>c. (ci_tokens c - 1) div sl_seq L) (mf_chunks m)"
    and "mf_chunk_tokens m = sl_samples_per_chunk L * sl_seq L"
    and "v = PInt (int (sl_seq L))"
proof -
  obtain s where s: "v = PInt s" "1 \<le> s" using assms
    by (cases v) (auto simp: manifest_layout_def split: if_splits)
  let ?spc = "mf_chunk_tokens m div nat s" and ?ks = "map (\<lambda>c. (ci_tokens c - 1) div nat s) (mf_chunks m)"
  have c: "mf_chunk_tokens m mod nat s = 0" "\<not> list_ex (\<lambda>x. x \<noteq> ?spc) (butlast ?ks)" "?ks = [] \<or> last ?ks \<le> ?spc"
    "0 < last (cum_from 0 ?ks)"
    "L = \<lparr>sl_seq = nat s, sl_samples_per_chunk = ?spc, sl_per_chunk = ?ks, sl_cumulative = cum_from 0 ?ks,
          sl_total_samples = last (cum_from 0 ?ks)\<rparr>"
    using assms s by (auto simp: manifest_layout_def Let_def not_less simp del: map_butlast split: if_splits)
  show "sl_per_chunk L = map (\<lambda>c. (ci_tokens c - 1) div sl_seq L) (mf_chunks m)" using c(5) by simp
  show "mf_chunk_tokens m = sl_samples_per_chunk L * sl_seq L" using c(1,5) by auto
  show "v = PInt (int (sl_seq L))" using s c(5) by simp
  have full: "?ks ! k = ?spc" if "Suc k < length ?ks" for k
  proof -
    have "?ks ! k \<in> set (butlast ?ks)" using that nth_mem [of k "butlast ?ks"] by (simp add: nth_butlast)
    moreover have "x = ?spc" if "x \<in> set (butlast ?ks)" for x using c(2) that unfolding list_ex_iff by blast
    ultimately show ?thesis by blast
  qed
  have le: "?ks ! k \<le> ?spc" if "k < length ?ks" for k
  proof (cases "Suc k < length ?ks")
    case False
    then have "k = length ?ks - 1" using that by simp
    moreover have ne: "?ks \<noteq> []" using that by auto
    ultimately have "?ks ! k = last ?ks" by (simp only: last_conv_nth [OF ne])
    then show ?thesis using c(3) ne by simp
  qed (use full in simp)
  show "layout_ok L" unfolding layout_ok_def using c(4,5) s full le by (simp add: last_cum_from)
qed

text \<open>The chunk and the offset a reader computes for a sample position are inside the layout.\<close>

lemma sum_take_full:
  assumes "layout_ok L" and "k < length (sl_per_chunk L)"
  shows "sum_list (take k (sl_per_chunk L)) = k * sl_samples_per_chunk L"
  using assms(2)
proof (induction k)
  case (Suc k)
  then have "sl_per_chunk L ! k = sl_samples_per_chunk L" using assms(1) by (simp add: layout_ok_def)
  then show ?case using Suc by (simp add: take_Suc_conv_app_nth)
qed simp

lemma layout_total:
  assumes "layout_ok L"
  shows "sl_per_chunk L \<noteq> []" and "0 < sl_samples_per_chunk L"
    and "sl_total_samples L = (length (sl_per_chunk L) - 1) * sl_samples_per_chunk L + last (sl_per_chunk L)"
proof -
  show ne: "sl_per_chunk L \<noteq> []" using assms by (auto simp: layout_ok_def)
  have "sl_per_chunk L = take (length (sl_per_chunk L) - 1) (sl_per_chunk L) @ [last (sl_per_chunk L)]"
    using append_butlast_last_id [OF ne] by (simp only: butlast_conv_take)
  then have "sum_list (sl_per_chunk L) = sum_list (take (length (sl_per_chunk L) - 1) (sl_per_chunk L)) + last (sl_per_chunk L)"
    by (metis sum_list.append sum_list.Cons sum_list.Nil add_0_right)
  then show tot: "sl_total_samples L = (length (sl_per_chunk L) - 1) * sl_samples_per_chunk L + last (sl_per_chunk L)"
    using sum_take_full [OF assms, of "length (sl_per_chunk L) - 1"] ne assms by (simp add: layout_ok_def)
  have "last (sl_per_chunk L) \<le> sl_samples_per_chunk L" using assms ne by (simp add: layout_ok_def last_conv_nth)
  then show "0 < sl_samples_per_chunk L" using tot assms by (auto simp: layout_ok_def intro: Nat.gr0I)
qed

lemma layout_locates:
  assumes "layout_ok L" and "pos < sl_total_samples L"
  shows "pos div sl_samples_per_chunk L < length (sl_per_chunk L)"
    and "sl_cumulative L ! (pos div sl_samples_per_chunk L) = pos div sl_samples_per_chunk L * sl_samples_per_chunk L"
    and "pos - sl_cumulative L ! (pos div sl_samples_per_chunk L) = pos mod sl_samples_per_chunk L"
    and "pos mod sl_samples_per_chunk L < sl_per_chunk L ! (pos div sl_samples_per_chunk L)"
proof -
  let ?spc = "sl_samples_per_chunk L" and ?ks = "sl_per_chunk L"
  note t = layout_total [OF assms(1)]
  have le: "last ?ks \<le> ?spc" using assms(1) t(1) by (simp add: layout_ok_def last_conv_nth)
  have len: "length ?ks = Suc (length ?ks - 1)" using t(1) by simp
  have "pos < (length ?ks - 1) * ?spc + ?spc" using assms(2) t(3) le by simp
  also have "\<dots> = length ?ks * ?spc" using len by (metis mult_Suc add.commute)
  finally have k: "pos div ?spc < length ?ks" using t(2) by (simp add: less_mult_imp_div_less)
  then show "pos div ?spc < length ?ks" .
  show cum: "sl_cumulative L ! (pos div ?spc) = pos div ?spc * ?spc"
    using assms(1) k sum_take_full [OF assms(1) k] by (simp add: layout_ok_def cum_from_nth)
  then show "pos - sl_cumulative L ! (pos div ?spc) = pos mod ?spc" by (simp add: minus_div_mult_eq_mod)
  show "pos mod ?spc < ?ks ! (pos div ?spc)"
  proof (cases "Suc (pos div ?spc) < length ?ks")
    case True
    then show ?thesis using assms(1) t(2) by (simp add: layout_ok_def)
  next
    case False
    then have q: "pos div ?spc = length ?ks - 1" using k by simp
    then have "?ks ! (pos div ?spc) = last ?ks" using t(1) by (simp add: last_conv_nth)
    moreover have "pos = (length ?ks - 1) * ?spc + pos mod ?spc" using q by (metis div_mult_mod_eq)
    ultimately show ?thesis using assms(2) t(3) by simp
  qed
qed

end
