(* ===== verification/PithosTransport.thy ===== *)
theory PithosTransport
  imports PithosManifest PyText
begin

text \<open>
  The transfer of one chunk object (\<open>pithos/transport.py\<close>): the resume journal, the opening of a source
  with a byte range, and the loop that appends the body to the temporary file. A temporary file is its
  bytes, the journal is the decoded JSON of the sidecar file (\<open>None\<close> when it is absent, a symlink or not
  JSON), a body is a list of read events, and the space left on the disk bounds what \<open>pwrite\<close> writes.
  The answers of the servers, of \<open>urlsplit\<close> and of the file system are arguments; \<open>sha256\<close> is a
  parameter. Error texts are not modelled: an error is its \<open>resumable\<close> flag. Writing the journal does not
  fail.
\<close>

section \<open>The journal\<close>

definition BLOCK :: nat where
  "BLOCK = 2 ^ 20"

record resume_state =
  rs_bytes :: nat
  rs_sha256 :: string
  rs_source_id :: string
  rs_etag :: "string option"
  rs_last_modified :: "string option"

definition ascii :: "string \<Rightarrow> bytes" where
  "ascii s = map of_char s"

definition object_identity :: "(bytes \<Rightarrow> string) \<Rightarrow> int \<Rightarrow> string \<Rightarrow> error + string" where
  "object_identity sha256 expected_bytes expected_sha256 =
     (if expected_bytes < 1 then Inl ValueError
      else if \<not> is_hex64 expected_sha256 then Inl ValueError
      else Inr (sha256 (ascii (''pithos-object-identity-v1:'' @ int_str expected_bytes @ '':'' @ expected_sha256))))"

text \<open>An optional text field: \<open>Some None\<close> is an absent or null one, \<open>None\<close> a wrong type.\<close>

fun opt_text :: "pyval option \<Rightarrow> string option option" where
  "opt_text None = Some None"
| "opt_text (Some PNone) = Some None"
| "opt_text (Some (PStr s)) = Some (Some s)"
| "opt_text _ = None"

definition load_state :: "pyval option \<Rightarrow> resume_state option" where
  "load_state json =
     (case json of
        Some (PDict d) \<Rightarrow>
          if dict_get d ''url'' \<noteq> None then None
          else
            (case plain_int (dict_get d ''bytes'') of
               None \<Rightarrow> None
             | Some n \<Rightarrow>
                 if n < 0 then None
                 else
                   case (sha256_match (dict_get d ''sha256''), sha256_match (dict_get d ''source_id'')) of
                     (Some sha, Some sid) \<Rightarrow>
                       (case (opt_text (dict_get d ''etag''), opt_text (dict_get d ''last_modified'')) of
                          (Some etag, Some lm) \<Rightarrow>
                            Some \<lparr>rs_bytes = nat n, rs_sha256 = sha, rs_source_id = sid, rs_etag = etag, rs_last_modified = lm\<rparr>
                        | _ \<Rightarrow> None)
                   | _ \<Rightarrow> None)
      | _ \<Rightarrow> None)"

definition text_or_null :: "string option \<Rightarrow> pyval" where
  "text_or_null t = (case t of None \<Rightarrow> PNone | Some s \<Rightarrow> PStr s)"

definition state_obj :: "resume_state \<Rightarrow> pyval" where
  "state_obj st = PDict
     [(''bytes'', PInt (int (rs_bytes st))), (''sha256'', PStr (rs_sha256 st)), (''source_id'', PStr (rs_source_id st)),
      (''etag'', text_or_null (rs_etag st)), (''last_modified'', text_or_null (rs_last_modified st))]"

lemma load_state_obj:
  "is_hex64 (rs_sha256 st) \<Longrightarrow> is_hex64 (rs_source_id st) \<Longrightarrow> load_state (Some (state_obj st)) = Some st"
  by (cases st) (auto simp: load_state_def state_obj_def text_or_null_def split: option.split)

text \<open>
  The files of a transfer: the temporary file, the journal, the bytes the disk still takes, and whether
  the journal was written.
\<close>

record partial_dl =
  pt_file :: bytes
  pt_sidecar :: "pyval option"
  pt_room :: nat
  pt_saved :: bool

definition save_state :: "resume_state \<Rightarrow> partial_dl \<Rightarrow> partial_dl" where
  "save_state st p = p\<lparr>pt_sidecar := Some (state_obj st), pt_saved := True\<rparr>"

section \<open>Opening a source\<close>

datatype read_event = Got bytes | ReadFails

record opened =
  op_stream :: "read_event list"
  op_status :: "int option"
  op_etag :: "string option"
  op_last_modified :: "string option"
  op_range_start :: "nat option"

text \<open>\<open>_RangeStaleError\<close>, a \<open>DownloadError\<close> with its flag, or an open body.\<close>

datatype open_result = Opened opened | RangeStale | OpenFails bool

fun take_digits :: "string \<Rightarrow> string \<times> string" where
  "take_digits [] = ([], [])"
| "take_digits (c # cs) = (if is_digit c then let (ds, r) = take_digits cs in (c # ds, r) else ([], c # cs))"

definition digits_value :: "string \<Rightarrow> nat" where
  "digits_value ds = nat (foldl (\<lambda>a c. a * 10 + digit_val c) 0 ds)"

text \<open>\<open>bytes (\d+)-(\d+)/(?:\d+|\*)\<close>, matched in full after \<open>strip\<close>.\<close>

definition content_range_start :: "string option \<Rightarrow> nat option" where
  "content_range_start v =
     (case v of
        None \<Rightarrow> None
      | Some s0 \<Rightarrow>
          let s = py_strip s0
          in if take 6 s \<noteq> ''bytes '' then None
             else
               let (d1, r1) = take_digits (drop 6 s)
               in if d1 = [] \<or> take 1 r1 \<noteq> ''-'' then None
                  else
                    let (d2, r2) = take_digits (drop 1 r1)
                    in if d2 = [] \<or> take 1 r2 \<noteq> ''/'' then None
                       else
                         let (d3, r3) = take_digits (drop 1 r2)
                         in if d3 \<noteq> [] \<and> r3 = [] \<or> d3 = [] \<and> r3 = ''*'' then Some (digits_value d1) else None)"

definition truthy :: "string option \<Rightarrow> bool" where
  "truthy t \<longleftrightarrow> t \<noteq> None \<and> t \<noteq> Some []"

definition if_range_value :: "resume_state option \<Rightarrow> string option" where
  "if_range_value st =
     (case st of
        None \<Rightarrow> None
      | Some s \<Rightarrow> if truthy (rs_etag s) \<and> take 2 (the (rs_etag s)) \<noteq> ''W/'' then rs_etag s else rs_last_modified s)"

text \<open>The range headers of a request, and what can come back.\<close>

record range_request =
  rq_range :: "nat option"
  rq_if :: "string option"

datatype http_answer = HttpError int | NetError
  | HttpBody "int option" "string option" "string option" "string option" "read_event list"

definition urllib_open :: "(range_request \<Rightarrow> http_answer) \<Rightarrow> nat \<Rightarrow> resume_state option \<Rightarrow> open_result" where
  "urllib_open server have_bytes st =
     (let rq = if 0 < have_bytes
               then \<lparr>rq_range = Some have_bytes, rq_if = (if truthy (if_range_value st) then if_range_value st else None)\<rparr>
               else \<lparr>rq_range = None, rq_if = None\<rparr>
      in case server rq of
           HttpError code \<Rightarrow> if code = 412 \<or> code = 416 then RangeStale else OpenFails (0 < have_bytes)
         | NetError \<Rightarrow> OpenFails (0 < have_bytes)
         | HttpBody status etag lm crange body \<Rightarrow>
             Opened \<lparr>op_stream = body, op_status = status, op_etag = etag, op_last_modified = lm,
                     op_range_start = content_range_start crange\<rparr>)"

text \<open>The locator parameters of S3; \<open>parse_qs\<close> of the query is an argument.\<close>

record s3_params =
  s3_endpoint :: "string option"
  s3_region :: "string option"
  s3_profile :: "string option"

fun s3_params_from :: "(string \<times> string list) list \<Rightarrow> s3_params \<Rightarrow> bool + s3_params" where
  "s3_params_from [] ps = Inr ps"
| "s3_params_from ((key, vs) # qs) ps =
     (if length vs \<noteq> 1 \<or> hd vs = [] then Inl False
      else if key = ''endpoint_url'' then s3_params_from qs (ps\<lparr>s3_endpoint := Some (hd vs)\<rparr>)
      else if key = ''region'' then s3_params_from qs (ps\<lparr>s3_region := Some (hd vs)\<rparr>)
      else if key = ''profile'' then s3_params_from qs (ps\<lparr>s3_profile := Some (hd vs)\<rparr>)
      else Inl False)"

definition s3_locator_params :: "(string \<Rightarrow> (string \<times> string list) list) \<Rightarrow> string \<Rightarrow> bool + s3_params" where
  "s3_locator_params parse_qs query =
     (if query = [] then Inr \<lparr>s3_endpoint = None, s3_region = None, s3_profile = None\<rparr>
      else s3_params_from (parse_qs query) \<lparr>s3_endpoint = None, s3_region = None, s3_profile = None\<rparr>)"

record locator =
  lc_scheme :: string
  lc_netloc :: string
  lc_path :: string
  lc_query :: string

datatype s3_answer = S3Code string | S3Body "int option" "string option" "string option" "string option" "read_event list"

text \<open>
  What the SDK does: missing, not constructible for the parameters, or a client that answers
  \<open>get_object\<close>; the error code is empty when the exception carries none.
\<close>

datatype s3_sdk = NoBoto3 | NoClient | S3Client "range_request \<Rightarrow> s3_answer"

definition s3_open :: "(string \<Rightarrow> (string \<times> string list) list) \<Rightarrow> (s3_params \<Rightarrow> string \<Rightarrow> string \<Rightarrow> s3_sdk)
    \<Rightarrow> locator \<Rightarrow> nat \<Rightarrow> resume_state option \<Rightarrow> open_result" where
  "s3_open parse_qs sdk lc have_bytes st =
     (let bucket = lc_netloc lc; key = dropWhile (\<lambda>c. c = CHR ''/'') (lc_path lc)
      in if bucket = [] \<or> key = [] then OpenFails False
         else
           case s3_locator_params parse_qs (lc_query lc) of
             Inl r \<Rightarrow> OpenFails r
           | Inr params \<Rightarrow>
               (case sdk params bucket key of
                  NoBoto3 \<Rightarrow> OpenFails False
                | NoClient \<Rightarrow> OpenFails False
                | S3Client get_object \<Rightarrow>
                    (let etag = (case st of None \<Rightarrow> None | Some s \<Rightarrow> rs_etag s);
                         rq = if 0 < have_bytes
                              then \<lparr>rq_range = Some have_bytes, rq_if = (if truthy etag then etag else None)\<rparr>
                              else \<lparr>rq_range = None, rq_if = None\<rparr>
                     in case get_object rq of
                          S3Code code \<Rightarrow>
                            if code \<in> {''412'', ''416'', ''PreconditionFailed'', ''InvalidRange''} then RangeStale
                            else OpenFails (0 < have_bytes)
                        | S3Body status etg lm crange body \<Rightarrow>
                            Opened \<lparr>op_stream = body, op_status = status, op_etag = etg, op_last_modified = lm,
                                    op_range_start = content_range_start crange\<rparr>)))"

section \<open>The transfer\<close>

datatype dl_outcome = Done | DlError bool

text \<open>\<open>stream.read(n)\<close>: at most \<open>n\<close> bytes of the next event; \<open>None\<close> is an exception, empty is the end.\<close>

fun stream_read :: "nat \<Rightarrow> read_event list \<Rightarrow> bytes option \<times> read_event list" where
  "stream_read n [] = (Some [], [])"
| "stream_read n (ReadFails # es) = (None, es)"
| "stream_read n (Got b # es) =
     (if length b \<le> n then (Some b, es) else (Some (take n b), Got (drop n b) # es))"

fun event_size :: "read_event \<Rightarrow> nat" where
  "event_size (Got b) = Suc (length b)"
| "event_size ReadFails = 1"

lemma stream_read_shrinks:
  "stream_read n es = (Some b, es') \<Longrightarrow> b \<noteq> [] \<Longrightarrow> sum_list (map event_size es') < sum_list (map event_size es)"
  by (cases "(n, es)" rule: stream_read.cases) (auto split: if_splits)

definition write_at :: "nat \<Rightarrow> bytes \<Rightarrow> bytes \<Rightarrow> bytes" where
  "write_at off b f = take off f @ b @ drop (off + length b) f"

text \<open>\<open>_pump\<close>. The hasher is the list of the bytes it was given.\<close>

function pump :: "(bytes \<Rightarrow> string) \<Rightarrow> string \<Rightarrow> string option \<Rightarrow> string option \<Rightarrow> nat
    \<Rightarrow> bytes \<Rightarrow> read_event list \<Rightarrow> nat \<Rightarrow> partial_dl \<Rightarrow> dl_outcome \<times> partial_dl" where
  "pump sha256 source_id etag lm expected hashed es off p =
     (let remaining = expected - off
      in case stream_read (min BLOCK (remaining + 1)) es of
           (None, es1) \<Rightarrow> (DlError (0 < off), p)
         | (Some b, es1) \<Rightarrow>
             if b = [] then (if off \<noteq> expected then (DlError (0 < off), p) else (Done, p))
             else if remaining < length b then (DlError (0 < off), p)
             else
               let n = min (pt_room p) (length b);
                   p1 = p\<lparr>pt_file := write_at off (take n b) (pt_file p), pt_room := pt_room p - n\<rparr>
               in if n < length b then (DlError (0 < off + n), p1)
                  else
                    pump sha256 source_id etag lm expected (hashed @ b) es1 (off + n)
                      (save_state \<lparr>rs_bytes = off + n, rs_sha256 = sha256 (hashed @ b), rs_source_id = source_id,
                                   rs_etag = etag, rs_last_modified = lm\<rparr> p1))"
  by pat_completeness auto
termination
  by (relation "measure (\<lambda>(_, _, _, _, _, _, es, _, _). sum_list (map event_size es))")
    (auto intro: stream_read_shrinks dest: sym)

declare pump.simps [simp del]

definition rebuild_hasher :: "(bytes \<Rightarrow> string) \<Rightarrow> bytes \<Rightarrow> nat \<Rightarrow> string option \<Rightarrow> bytes option" where
  "rebuild_hasher sha256 f have_bytes prefix_sha =
     (case prefix_sha of
        None \<Rightarrow> None
      | Some sha \<Rightarrow>
          let data = take have_bytes f
          in if length data \<noteq> have_bytes \<or> sha256 data \<noteq> sha then None else Some data)"

text \<open>The loop of \<open>_fetch_ranged\<close> that opens the source; the opener is told how many attempts are left.\<close>

fun open_loop :: "(nat \<Rightarrow> nat \<Rightarrow> resume_state option \<Rightarrow> open_result) \<Rightarrow> nat \<Rightarrow> nat \<Rightarrow> resume_state option
    \<Rightarrow> bool + opened \<times> nat \<times> resume_state option" where
  "open_loop opener 0 have_bytes st = Inl False"
| "open_loop opener (Suc left) have_bytes st =
     (case opener (Suc left) have_bytes st of
        RangeStale \<Rightarrow> if left = 0 then Inl False else open_loop opener left 0 None
      | OpenFails r \<Rightarrow> Inl r
      | Opened o' \<Rightarrow>
          if have_bytes = 0 then Inr (o', 0, st)
          else if op_status o' = Some 206 \<and> op_range_start o' = Some have_bytes then Inr (o', have_bytes, st)
          else if op_status o' = Some 206 then if left = 0 then Inl False else open_loop opener left 0 None
          else Inr (o', 0, st))"

definition or_else :: "string option \<Rightarrow> string option \<Rightarrow> string option" where
  "or_else a b = (if truthy a then a else b)"

definition fetch_ranged :: "(bytes \<Rightarrow> string) \<Rightarrow> (nat \<Rightarrow> nat \<Rightarrow> resume_state option \<Rightarrow> open_result)
    \<Rightarrow> nat \<Rightarrow> nat \<Rightarrow> string \<Rightarrow> string option \<Rightarrow> partial_dl \<Rightarrow> dl_outcome \<times> partial_dl" where
  "fetch_ranged sha256 opener have0 expected source_id prefix_sha p =
     (case open_loop opener 2 have0 (if 0 < have0 then load_state (pt_sidecar p) else None) of
        Inl r \<Rightarrow> (DlError r, p)
      | Inr (o', have_bytes, st) \<Rightarrow>
          if 0 < have_bytes then
            (case rebuild_hasher sha256 (pt_file p) have_bytes prefix_sha of
               None \<Rightarrow> (DlError False, p)
             | Some hashed \<Rightarrow>
                 pump sha256 source_id
                   (or_else (op_etag o') (case st of None \<Rightarrow> None | Some s \<Rightarrow> rs_etag s))
                   (or_else (op_last_modified o') (case st of None \<Rightarrow> None | Some s \<Rightarrow> rs_last_modified s))
                   expected hashed (op_stream o') have_bytes p)
          else
            pump sha256 source_id (op_etag o') (op_last_modified o') expected [] (op_stream o') 0
              (save_state \<lparr>rs_bytes = 0, rs_sha256 = sha256 [], rs_source_id = source_id,
                           rs_etag = op_etag o', rs_last_modified = op_last_modified o'\<rparr> (p\<lparr>pt_file := []\<rparr>)))"

text \<open>A local source: not there, there but unreadable, or its change stamp and its content.\<close>

datatype local_source = NoFile | Unreadable string | LocalFile string bytes

definition local_events :: "bytes \<Rightarrow> read_event list" where
  "local_events b = (if b = [] then [] else [Got b])"

definition fetch_local :: "(bytes \<Rightarrow> string) \<Rightarrow> local_source \<Rightarrow> nat \<Rightarrow> nat \<Rightarrow> string \<Rightarrow> string option
    \<Rightarrow> partial_dl \<Rightarrow> dl_outcome \<times> partial_dl" where
  "fetch_local sha256 src have0 expected source_id prefix_sha p =
     (let stamp = (case src of NoFile \<Rightarrow> [] | Unreadable s \<Rightarrow> s | LocalFile s c \<Rightarrow> s);
          st = if 0 < have0 then load_state (pt_sidecar p) else None;
          have_bytes = if 0 < have0 \<and> (case st of None \<Rightarrow> True | Some s \<Rightarrow> rs_etag s \<noteq> Some stamp) then 0 else have0
      in case src of
           NoFile \<Rightarrow> (DlError (0 < have0), p)
         | Unreadable s \<Rightarrow> (DlError (0 < have_bytes), p)
         | LocalFile s content \<Rightarrow>
             if 0 < have_bytes then
               (case rebuild_hasher sha256 (pt_file p) have_bytes prefix_sha of
                  None \<Rightarrow> (DlError False, p)
                | Some hashed \<Rightarrow>
                    pump sha256 source_id (Some stamp) None expected hashed
                      (local_events (drop have_bytes content)) have_bytes p)
             else
               pump sha256 source_id (Some stamp) None expected [] (local_events content) 0 (p\<lparr>pt_file := []\<rparr>))"

text \<open>What the world answers to one transfer.\<close>

record world =
  wd_urlsplit :: "string \<Rightarrow> locator option"
  wd_server :: "nat \<Rightarrow> range_request \<Rightarrow> http_answer"
  wd_parse_qs :: "string \<Rightarrow> (string \<times> string list) list"
  wd_sdk :: "nat \<Rightarrow> s3_params \<Rightarrow> string \<Rightarrow> string \<Rightarrow> s3_sdk"
  wd_file :: local_source

definition lower :: "string \<Rightarrow> string" where
  "lower = map (\<lambda>c. let n = of_char c :: nat in if 65 \<le> n \<and> n \<le> 90 then char_of (n + 32) else c)"

definition fetch :: "(bytes \<Rightarrow> string) \<Rightarrow> world \<Rightarrow> string \<Rightarrow> nat \<Rightarrow> nat \<Rightarrow> string \<Rightarrow> string option
    \<Rightarrow> partial_dl \<Rightarrow> dl_outcome \<times> partial_dl" where
  "fetch sha256 w url have_bytes expected source_id prefix_sha p =
     (if have_bytes = expected then (Done, p)
      else if expected \<le> have_bytes then (DlError False, p)
      else
        case wd_urlsplit w url of
          None \<Rightarrow> (DlError False, p)
        | Some lc \<Rightarrow>
            (let scheme = lower (lc_scheme lc)
             in if scheme = [] then fetch_local sha256 (wd_file w) have_bytes expected source_id prefix_sha p
                else if scheme \<in> {''http'', ''https'', ''file''} then
                  fetch_ranged sha256 (\<lambda>n. urllib_open (wd_server w n)) have_bytes expected source_id prefix_sha p
                else if scheme = ''s3'' then
                  fetch_ranged sha256 (\<lambda>n. s3_open (wd_parse_qs w) (wd_sdk w n) lc) have_bytes expected source_id prefix_sha p
                else (DlError False, p)))"

text \<open>
  \<open>read_small\<close>: the body is read in one call of \<open>read(max_bytes + 1)\<close>. The S3 branch has no handler: a stale
  range and an exception of the body leave the function as they are.
\<close>

datatype small_error = SmallDownload | SmallStale | SmallRaw

fun capped :: "nat \<Rightarrow> bytes \<Rightarrow> small_error + bytes" where
  "capped max_bytes b = (if max_bytes < length b then Inl SmallDownload else Inr b)"

definition read_small :: "world \<Rightarrow> string \<Rightarrow> nat \<Rightarrow> small_error + bytes" where
  "read_small w url max_bytes =
     (case wd_urlsplit w url of
        None \<Rightarrow> Inl SmallDownload
      | Some lc \<Rightarrow>
          (let scheme = lower (lc_scheme lc)
           in if scheme = [] then
                (case wd_file w of
                   LocalFile s content \<Rightarrow> capped max_bytes (take (max_bytes + 1) content)
                 | _ \<Rightarrow> Inl SmallDownload)
              else if scheme \<in> {''http'', ''https'', ''file''} then
                (case wd_server w 1 \<lparr>rq_range = None, rq_if = None\<rparr> of
                   HttpBody status etag lm crange es \<Rightarrow>
                     (case fst (stream_read (max_bytes + 1) es) of None \<Rightarrow> Inl SmallDownload | Some b \<Rightarrow> capped max_bytes b)
                 | _ \<Rightarrow> Inl SmallDownload)
              else if scheme = ''s3'' then
                (case s3_open (wd_parse_qs w) (wd_sdk w 1) lc 0 None of
                   Opened o' \<Rightarrow>
                     (case fst (stream_read (max_bytes + 1) (op_stream o')) of None \<Rightarrow> Inl SmallRaw | Some b \<Rightarrow> capped max_bytes b)
                 | RangeStale \<Rightarrow> Inl SmallStale
                 | OpenFails r \<Rightarrow> Inl SmallDownload)
              else Inl SmallDownload))"

end
