(* ===== verification/PithosTransportProps.thy ===== *)
theory PithosTransportProps
  imports PithosTransport "HOL-Library.Sublist"
begin

text \<open>
  Properties of a transfer: what is on the disk is always a prefix of the object the source serves, a cut
  transfer goes on where its journal ends, and a source that answers in full completes the object.
\<close>

section \<open>Bodies\<close>

text \<open>What a body delivers before it ends or fails, and whether it ends.\<close>

fun body_data :: "read_event list \<Rightarrow> bytes" where
  "body_data [] = []"
| "body_data (ReadFails # es) = []"
| "body_data (Got b # es) = (if b = [] then [] else b @ body_data es)"

fun body_ends :: "read_event list \<Rightarrow> bool" where
  "body_ends [] \<longleftrightarrow> True"
| "body_ends (ReadFails # es) \<longleftrightarrow> False"
| "body_ends (Got b # es) \<longleftrightarrow> b = [] \<or> body_ends es"

lemma stream_read_body:
  assumes "stream_read n es = (Some b, es')" and "0 < n"
  shows "if b = [] then body_data es = [] \<and> body_ends es
         else body_data es = b @ body_data es' \<and> (body_ends es \<longleftrightarrow> body_ends es')"
  using assms by (cases "(n, es)" rule: stream_read.cases) (auto split: if_splits)

lemma stream_read_fails: "stream_read n es = (None, es') \<Longrightarrow> body_data es = [] \<and> \<not> body_ends es"
  by (cases "(n, es)" rule: stream_read.cases) (auto split: if_splits)

section \<open>The pump\<close>

text \<open>The file and the journal after the first \<open>k\<close> bytes of an object were kept.\<close>

definition journal_of :: "(bytes \<Rightarrow> string) \<Rightarrow> string \<Rightarrow> bytes \<Rightarrow> nat \<Rightarrow> pyval option \<Rightarrow> bool" where
  "journal_of sha256 sid obj k json \<longleftrightarrow> (\<exists>st. json = Some (state_obj st) \<and> rs_bytes st = k
     \<and> rs_sha256 st = sha256 (take k obj) \<and> rs_source_id st = sid)"

definition holds_prefix :: "(bytes \<Rightarrow> string) \<Rightarrow> string \<Rightarrow> bytes \<Rightarrow> nat \<Rightarrow> partial_dl \<Rightarrow> bool" where
  "holds_prefix sha256 sid obj k p \<longleftrightarrow> k \<le> length obj
     \<and> (\<exists>j. k \<le> j \<and> j \<le> length obj \<and> pt_file p = take j obj) \<and> journal_of sha256 sid obj k (pt_sidecar p)"

lemma pump_keeps_prefix:
  assumes "hashed = take off obj" and "pt_file p = take off obj" and "off \<le> length obj"
    and "prefix (body_data es) (drop off obj)"
    and "pump sha256 sid etag lm (length obj) hashed es off p = (r, p')"
  shows "(\<exists>j. pt_file p' = take j obj)
    \<and> (journal_of sha256 sid obj off (pt_sidecar p) \<longrightarrow> (\<exists>k. holds_prefix sha256 sid obj k p'))
    \<and> (r = Done \<longrightarrow> pt_file p' = obj)
    \<and> (body_ends es \<and> body_data es = drop off obj \<and> length obj \<le> off + pt_room p \<longrightarrow> r = Done)"
  using assms
proof (induction sha256 sid etag lm "length obj" hashed es off p arbitrary: r p' rule: pump.induct)
  case (1 sha256 sid etag lm hashed es off p)
  let ?n = "min BLOCK (length obj - off + 1)"
  have n: "0 < ?n" by (simp add: BLOCK_def)
  have here: "journal_of sha256 sid obj off (pt_sidecar p) \<longrightarrow> holds_prefix sha256 sid obj off p"
    and whole: "\<exists>j. pt_file p = take j obj"
    using 1(3,4) by (auto simp: holds_prefix_def)
  obtain rd es1 where rd: "stream_read ?n es = (rd, es1)" by (cases "stream_read ?n es")
  show ?case
  proof (cases rd)
    case None
    then have "pump sha256 sid etag lm (length obj) hashed es off p = (DlError (0 < off), p)"
      using rd by (subst pump.simps) (simp add: Let_def)
    then show ?thesis using 1(6) here whole stream_read_fails [OF rd [unfolded None]] by auto
  next
    case (Some b)
    note body = stream_read_body [OF rd [unfolded Some] n]
    show ?thesis
    proof (cases "b = []")
      case True
      then have "pump sha256 sid etag lm (length obj) hashed es off p =
          (if off \<noteq> length obj then (DlError (0 < off), p) else (Done, p))"
        using rd Some by (subst pump.simps) (simp add: Let_def)
      then show ?thesis using 1(3-6) here whole body True by (auto split: if_splits)
    next
      case False
      then have es: "body_data es = b @ body_data es1" "body_ends es \<longleftrightarrow> body_ends es1" using body by auto
      then obtain rest where rest: "drop off obj = b @ rest" "prefix (body_data es1) rest"
        using 1(5) by (auto simp: prefix_def)
      have fits: "length b \<le> length obj - off" using rest(1) by (metis length_append length_drop le_add1)
      have b: "take (length b) (drop off obj) = b" using rest(1) by simp
      let ?m = "min (pt_room p) (length b)"
      let ?p1 = "p\<lparr>pt_file := write_at off (take ?m b) (pt_file p), pt_room := pt_room p - ?m\<rparr>"
      have kept: "pt_file ?p1 = take (off + ?m) obj"
      proof -
        have "take off obj @ take ?m b = take (off + ?m) obj" using rest(1) by (simp add: take_add)
        then show ?thesis using 1(3,4) fits by (simp add: write_at_def)
      qed
      show ?thesis
      proof (cases "?m < length b")
        case True
        then have "pt_room p < length b" by simp
        then have pump: "pump sha256 sid etag lm (length obj) hashed es off p = (DlError (0 < off + ?m), ?p1)"
          using rd Some False fits by (subst pump.simps) (simp add: Let_def not_less min_def)
        have "journal_of sha256 sid obj off (pt_sidecar p) \<longrightarrow> holds_prefix sha256 sid obj off ?p1"
          using 1(4) kept fits True by (auto simp: holds_prefix_def intro!: exI [of _ "off + ?m"])
        moreover have "\<not> length obj \<le> off + pt_room p" if "body_data es = drop off obj"
        proof -
          have "length b \<le> length obj - off" by (rule fits)
          then show ?thesis using True by (simp add: min_def split: if_splits)
        qed
        ultimately show ?thesis using pump 1(6) kept by auto
      next
        case all: False
        then have m: "?m = length b" by simp
        let ?st = "\<lparr>rs_bytes = off + ?m, rs_sha256 = sha256 (hashed @ b), rs_source_id = sid, rs_etag = etag, rs_last_modified = lm\<rparr>"
        have eq: "pump sha256 sid etag lm (length obj) hashed es off p
            = pump sha256 sid etag lm (length obj) (hashed @ b) es1 (off + ?m) (save_state ?st ?p1)"
          using rd Some False fits all by (subst pump.simps) (simp add: Let_def not_less)
        have h: "hashed @ b = take (off + ?m) obj" using 1(2) b m by (simp add: take_add)
        have j: "journal_of sha256 sid obj (off + ?m) (pt_sidecar (save_state ?st ?p1))"
          using h by (auto simp: journal_of_def save_state_def)
        have IH: "(\<exists>j. pt_file p' = take j obj)
            \<and> (journal_of sha256 sid obj (off + ?m) (pt_sidecar (save_state ?st ?p1)) \<longrightarrow> (\<exists>k. holds_prefix sha256 sid obj k p'))
            \<and> (r = Done \<longrightarrow> pt_file p' = obj)
            \<and> (body_ends es1 \<and> body_data es1 = drop (off + ?m) obj \<and> length obj \<le> off + ?m + pt_room (save_state ?st ?p1) \<longrightarrow> r = Done)"
        proof (rule 1(1) [OF refl rd [symmetric] Some False _ refl refl all])
          show "\<not> length obj - off < length b" using fits by simp
          show "hashed @ b = take (off + ?m) obj" by (rule h)
          show "pt_file (save_state ?st ?p1) = take (off + ?m) obj" using kept by (simp add: save_state_def)
          show "off + ?m \<le> length obj" using fits 1(4) m by simp
          show "prefix (body_data es1) (drop (off + ?m) obj)"
            using rest m by (metis append_eq_conv_conj drop_drop add.commute)
          show "pump sha256 sid etag lm (length obj) (hashed @ b) es1 (off + ?m) (save_state ?st ?p1) = (r, p')"
            using 1(6) eq by simp
        qed
        have "body_data es1 = drop (off + ?m) obj" if "body_data es = drop off obj"
          using that es(1) rest(1) m by (metis append_eq_conv_conj drop_drop add.commute same_append_eq)
        then show ?thesis using IH j es(2) m by (auto simp: save_state_def)
      qed
    qed
  qed
qed

section \<open>Opening\<close>

text \<open>What an open body must be worth for an object when \<open>n\<close> bytes were asked to be skipped.\<close>

definition body_fits :: "bytes \<Rightarrow> nat \<Rightarrow> opened \<Rightarrow> bool" where
  "body_fits obj n o' \<longleftrightarrow>
     (0 < n \<and> op_status o' = Some 206 \<and> op_range_start o' = Some n \<longrightarrow> prefix (body_data (op_stream o')) (drop n obj))
     \<and> (n = 0 \<or> op_status o' \<noteq> Some 206 \<longrightarrow> prefix (body_data (op_stream o')) obj)"

text \<open>The same with nothing missing.\<close>

definition body_full :: "bytes \<Rightarrow> nat \<Rightarrow> opened \<Rightarrow> bool" where
  "body_full obj n o' \<longleftrightarrow> body_ends (op_stream o') \<and>
     (if n = 0 \<or> op_status o' \<noteq> Some 206 then body_data (op_stream o') = obj
      else op_range_start o' = Some n \<and> body_data (op_stream o') = drop n obj)"

lemma open_loop_Inr:
  "open_loop opener left n st = Inr (o', n', st') \<Longrightarrow>
     \<exists>m h s. opener m h s = Opened o' \<and> (n' = 0 \<and> (h = 0 \<or> op_status o' \<noteq> Some 206)
       \<or> n' = n \<and> h = n \<and> 0 < n \<and> op_status o' = Some 206 \<and> op_range_start o' = Some n)"
  by (induction opener left n st rule: open_loop.induct) (auto split: open_result.splits if_splits)

lemma open_loop_Inl:
  "open_loop opener left n st = Inl True \<Longrightarrow> \<forall>m h s. opener m h s = OpenFails True \<longrightarrow> 0 < h \<Longrightarrow> 0 < n"
  by (induction opener left n st rule: open_loop.induct) (auto split: open_result.splits if_splits)

lemma open_loop_full:
  assumes "\<forall>m h s. \<exists>o'. opener m h s = Opened o' \<and> body_full obj h o'"
  shows "\<exists>o' n' st'. open_loop opener (Suc left) n st = Inr (o', n', st') \<and> (n' = 0 \<or> n' = n)
    \<and> body_ends (op_stream o') \<and> body_data (op_stream o') = drop n' obj"
proof -
  obtain o' where "opener (Suc left) n st = Opened o'" "body_full obj n o'" using assms by blast
  then show ?thesis by (auto simp: body_full_def split: if_splits)
qed

lemma fetch_ranged_prefix:
  assumes hex: "\<forall>m h s. opener m h s = OpenFails True \<longrightarrow> 0 < h"
    and fit: "\<forall>m h s o'. opener m h s = Opened o' \<longrightarrow> body_fits obj h o'"
    and p: "pt_file p = take k obj" "k \<le> length obj" "0 < k \<longrightarrow> journal_of sha256 sid obj k (pt_sidecar p)"
      "0 < k \<longrightarrow> psha = Some (sha256 (take k obj))"
    and eq: "fetch_ranged sha256 opener k (length obj) sid psha p = (r, p')"
  shows "(\<exists>j. pt_file p' = take j obj) \<and> (r = Done \<longrightarrow> pt_file p' = obj)
    \<and> (r = DlError True \<longrightarrow> (\<exists>k'. holds_prefix sha256 sid obj k' p'))
    \<and> ((\<forall>m h s. \<exists>o'. opener m h s = Opened o' \<and> body_full obj h o') \<and> length obj \<le> pt_room p \<longrightarrow> r = Done)"
proof -
  let ?st = "if 0 < k then load_state (pt_sidecar p) else None"
  show ?thesis
  proof (cases "open_loop opener 2 k ?st")
    case (Inl b)
    then have r: "r = DlError b" "p' = p" using eq by (simp_all add: fetch_ranged_def)
    have "\<not> (\<forall>m h s. \<exists>o'. opener m h s = Opened o' \<and> body_full obj h o')"
    proof
      assume "\<forall>m h s. \<exists>o'. opener m h s = Opened o' \<and> body_full obj h o'"
      from open_loop_full [OF this, of 1 k ?st] Inl show False by (auto simp: numeral_2_eq_2 simp del: open_loop.simps)
    qed
    moreover have "\<exists>k'. holds_prefix sha256 sid obj k' p" if b
    proof -
      have "0 < k" using open_loop_Inl [of opener 2 k ?st] Inl that hex by simp
      then show ?thesis using p by (auto simp: holds_prefix_def)
    qed
    ultimately show ?thesis using r p(1) by auto
  next
    case (Inr t)
    obtain o' n st where t: "t = (o', n, st)" by (cases t)
    then have ol: "open_loop opener 2 k ?st = Inr (o', n, st)" using Inr by simp
    obtain m h s where mh: "opener m h s = Opened o'" "n = 0 \<and> (h = 0 \<or> op_status o' \<noteq> Some 206)
       \<or> n = k \<and> h = k \<and> 0 < k \<and> op_status o' = Some 206 \<and> op_range_start o' = Some k"
      using open_loop_Inr [OF ol] by blast
    then have body: "prefix (body_data (op_stream o')) (drop n obj)" using fit by (auto simp: body_fits_def)
    have full: "body_ends (op_stream o') \<and> body_data (op_stream o') = drop n obj"
      if "\<forall>m h s. \<exists>o'. opener m h s = Opened o' \<and> body_full obj h o'"
      using open_loop_full [OF that, of 1 k ?st] ol by (auto simp: numeral_2_eq_2 simp del: open_loop.simps)
    show ?thesis
    proof (cases "0 < n")
      case True
      then have n: "n = k" "0 < k" using mh(2) by auto
      have rb: "rebuild_hasher sha256 (pt_file p) k psha = Some (take k obj)"
        using p n(2) by (simp add: rebuild_hasher_def Let_def)
      obtain etag lm where "pump sha256 sid etag lm (length obj) (take k obj) (op_stream o') k p = (r, p')"
        using eq ol n rb by (simp add: fetch_ranged_def)
      note pk = pump_keeps_prefix [OF refl p(1,2) body [unfolded n(1)] this]
      show ?thesis using pk p(3) n full by auto
    next
      case False
      then have n: "n = 0" by simp
      let ?p = "save_state \<lparr>rs_bytes = 0, rs_sha256 = sha256 [], rs_source_id = sid,
                           rs_etag = op_etag o', rs_last_modified = op_last_modified o'\<rparr> (p\<lparr>pt_file := []\<rparr>)"
      have "pump sha256 sid (op_etag o') (op_last_modified o') (length obj) [] (op_stream o') 0 ?p = (r, p')"
        using eq ol n by (simp add: fetch_ranged_def)
      note pk = pump_keeps_prefix [OF _ _ _ body [unfolded n] this]
      have "journal_of sha256 sid obj 0 (pt_sidecar ?p)" by (auto simp: journal_of_def save_state_def)
      moreover have "pt_room ?p = pt_room p" "pt_file ?p = []" by (simp_all add: save_state_def)
      ultimately show ?thesis using pk n full by auto
    qed
  qed
qed

lemma fetch_local_prefix:
  assumes src: "\<forall>s c. src = LocalFile s c \<longrightarrow> prefix c obj"
    and p: "pt_file p = take k obj" "k \<le> length obj" "0 < k \<longrightarrow> psha = Some (sha256 (take k obj))"
    and eq: "fetch_local sha256 src k (length obj) sid psha p = (r, p')"
  shows "(\<exists>j. pt_file p' = take j obj) \<and> (r = Done \<longrightarrow> pt_file p' = obj)
    \<and> ((\<exists>s. src = LocalFile s obj) \<and> length obj \<le> pt_room p \<longrightarrow> r = Done)"
proof (cases src)
  case NoFile
  then show ?thesis using eq p(1) by (auto simp: fetch_local_def)
next
  case (Unreadable s)
  then show ?thesis using eq p(1) by (auto simp: fetch_local_def Let_def)
next
  case (LocalFile s c)
  then have c: "prefix c obj" using src by simp
  have ev: "body_data (local_events b) = b" "body_ends (local_events b)" for b by (simp_all add: local_events_def)
  have pre: "prefix (drop n c) (drop n obj)" for n using c by (auto simp: prefix_def)
  consider "0 < k" "pump sha256 sid (Some s) None (length obj) (take k obj) (local_events (drop k c)) k p = (r, p')"
    | "pump sha256 sid (Some s) None (length obj) [] (local_events c) 0 (p\<lparr>pt_file := []\<rparr>) = (r, p')"
    using eq LocalFile p by (auto simp: fetch_local_def Let_def rebuild_hasher_def split: if_splits option.splits)
  then show ?thesis
  proof cases
    case 1
    have "prefix (body_data (local_events (drop k c))) (drop k obj)" using pre ev by simp
    note pk = pump_keeps_prefix [OF refl p(1,2) this 1(2)]
    show ?thesis using pk ev LocalFile by auto
  next
    case 2
    have "prefix (body_data (local_events c)) (drop 0 obj)" using c ev by simp
    note pk = pump_keeps_prefix [OF _ _ _ this 2]
    show ?thesis using pk ev LocalFile by auto
  qed
qed

section \<open>Transfers\<close>

definition opener_of :: "world \<Rightarrow> locator \<Rightarrow> nat \<Rightarrow> nat \<Rightarrow> resume_state option \<Rightarrow> open_result" where
  "opener_of w lc n =
     (if lower (lc_scheme lc) = ''s3'' then s3_open (wd_parse_qs w) (wd_sdk w n) lc else urllib_open (wd_server w n))"

lemma s3_params_from_Inl: "s3_params_from qs ps = Inl r \<Longrightarrow> \<not> r"
  by (induction qs ps rule: s3_params_from.induct) (auto split: if_splits)

lemma opener_fails: "opener_of w lc m h s = OpenFails True \<Longrightarrow> 0 < h"
  by (auto simp: opener_of_def s3_open_def urllib_open_def Let_def s3_locator_params_def
      split: if_splits http_answer.splits s3_answer.splits s3_sdk.splits sum.splits dest: s3_params_from_Inl)

text \<open>The source holds the object: whatever body it opens is a piece of it, read from the right place.\<close>

definition serves :: "world \<Rightarrow> locator \<Rightarrow> bytes \<Rightarrow> bool" where
  "serves w lc obj \<longleftrightarrow> (\<forall>m h s o'. opener_of w lc m h s = Opened o' \<longrightarrow> body_fits obj h o')
     \<and> (\<forall>s c. wd_file w = LocalFile s c \<longrightarrow> prefix c obj)"

text \<open>The source answers every request in full.\<close>

definition serves_fully :: "world \<Rightarrow> locator \<Rightarrow> bytes \<Rightarrow> bool" where
  "serves_fully w lc obj \<longleftrightarrow>
     (if lc_scheme lc = [] then \<exists>s. wd_file w = LocalFile s obj
      else \<forall>m h s. \<exists>o'. opener_of w lc m h s = Opened o' \<and> body_full obj h o')"

definition known_scheme :: "locator \<Rightarrow> bool" where
  "known_scheme lc \<longleftrightarrow> lower (lc_scheme lc) \<in> {[], ''http'', ''https'', ''file'', ''s3''}"


text \<open>A local source that changed under a partial restarts from byte zero without a new journal: until its first
  block is stored the journal claims more bytes than the file holds.\<close>

lemma local_restart_leaves_journal:
  assumes "load_state (pt_sidecar p) = Some st" and "0 < k" and "rs_etag st \<noteq> Some stamp" and "c \<noteq> []"
    and "length c \<le> expected" and "pt_room p < length c" and "pt_room p < BLOCK" and "length c \<le> BLOCK"
  shows "fetch_local sha256 (LocalFile stamp c) k expected sid psha p
    = (DlError (0 < pt_room p), p\<lparr>pt_file := take (pt_room p) c, pt_room := 0\<rparr>)"
  using assms by (simp add: fetch_local_def Let_def local_events_def pump.simps write_at_def)

section \<open>Witness\<close>

definition tr_sha :: "bytes \<Rightarrow> string" where
  "tr_sha b = replicate 64 CHR ''a''"

text \<open>A server that knows an object of three bytes, and a partial that holds the first.\<close>

definition tr_world :: world where
  "tr_world = \<lparr>wd_urlsplit = (\<lambda>u. Some \<lparr>lc_scheme = ''https'', lc_netloc = ''h'', lc_path = ''/o'', lc_query = []\<rparr>),
     wd_server = (\<lambda>n rq. case rq_range rq of
         None \<Rightarrow> HttpBody (Some 200) None None None [Got [1, 2, 3]]
       | Some k \<Rightarrow> if k = 1 then HttpBody (Some 206) None None (Some ''bytes 1-2/3'') [Got [2], Got [3]]
                   else HttpBody (Some 200) None None None [Got [1, 2, 3]]),
     wd_parse_qs = (\<lambda>q. []), wd_sdk = (\<lambda>n ps b k. NoBoto3), wd_file = NoFile\<rparr>"

definition tr_partial :: partial_dl where
  "tr_partial = \<lparr>pt_file = [1], pt_sidecar = Some (state_obj \<lparr>rs_bytes = 1, rs_sha256 = tr_sha [1], rs_source_id = tr_sha [],
     rs_etag = None, rs_last_modified = None\<rparr>), pt_room = 10, pt_saved = False\<rparr>"

lemma content_range_demo: "content_range_start (Some ''bytes 1-2/3'') = Some 1"
  by code_simp


end
