(* ===== verification/HeadLedger.thy ===== *)
theory HeadLedger
  imports W2WMessages ExpertRecords
begin

text \<open>
  What a head keeps of the batches it originates (\<open>core/server/w2w_head_injector.py\<close>,
  \<open>core/metrics_reporter.py\<close>): the ledger of reports, the adaptive window of credits and the reporter of
  training metrics. The shared ledger has one key for each field of a batch; a report is a membership check
  and then one write for each field, each atomic on its own.
\<close>

section \<open>The ledger\<close>

datatype ledger_field = FProgress | FLoss | FDone | FDropped | FReason

datatype ledger_value = LTime time | LReal real | LTrue | LText string

type_synonym ledger_key = "uid \<times> int \<times> ledger_field"
type_synonym ledger = "(ledger_key, ledger_value) dict"

definition new_slot :: "uid \<Rightarrow> time \<Rightarrow> int \<Rightarrow> ledger \<Rightarrow> ledger" where
  "new_slot origin now sq d = dict_set (origin, sq, FProgress) (LTime now) d"

definition ledger_fields :: "ledger_field list" where
  "ledger_fields = [FProgress, FLoss, FDone, FDropped, FReason]"

definition drop_slot :: "uid \<Rightarrow> int \<Rightarrow> ledger \<Rightarrow> ledger" where
  "drop_slot origin sq d = fold (\<lambda>f. dict_del (origin, sq, f)) ledger_fields d"

record report =
  rr_uid :: uid
  rr_seq :: int
  rr_kind :: report_kind
  rr_loss :: "real option"
  rr_reason :: "string option"

definition report_known :: "report \<Rightarrow> ledger \<Rightarrow> bool" where
  "report_known r d \<longleftrightarrow> dict_has d (rr_uid r, rr_seq r, FProgress)"

text \<open>The writes of a report that passed the check, in order.\<close>

definition report_writes :: "time \<Rightarrow> report \<Rightarrow> (ledger_key \<times> ledger_value) list" where
  "report_writes now r =
     (let key = (\<lambda>f. (rr_uid r, rr_seq r, f))
      in (key FProgress, LTime now) #
         (case (rr_kind r, rr_loss r) of
            (RK_LOSS, Some l) \<Rightarrow> [(key FLoss, LReal l)]
          | (RK_DONE, _) \<Rightarrow> [(key FDone, LTrue)]
          | (RK_DROPPED, _) \<Rightarrow>
              [(key FReason, LText (case rr_reason r of Some s \<Rightarrow> if s = [] then ''worker reported drop'' else s
                  | None \<Rightarrow> ''worker reported drop'')),
               (key FDropped, LTrue)]
          | _ \<Rightarrow> []))"

fun kind_name :: "report_kind \<Rightarrow> string" where
  "kind_name RK_ACCEPTED = ''accepted''"
| "kind_name RK_LOSS = ''loss''"
| "kind_name RK_BWD_PROGRESS = ''bwd_progress''"
| "kind_name RK_DONE = ''done''"
| "kind_name RK_DROPPED = ''dropped''"

definition ledger_write :: "ledger_key \<times> ledger_value \<Rightarrow> ledger \<Rightarrow> ledger" where
  "ledger_write w d = dict_set (fst w) (snd w) d"

text \<open>A report nothing interferes with.\<close>

definition report_event_at :: "time \<Rightarrow> report \<Rightarrow> ledger \<times> counters \<Rightarrow> ledger \<times> counters" where
  "report_event_at now r s =
     (if \<not> report_known r (fst s) then (fst s, bump ''late_reports'' 1 (snd s))
      else (fold ledger_write (report_writes now r) (fst s), bump (kind_name (rr_kind r)) 1 (snd s)))"

datatype batch_outcome = CompletedWith "real option" | DroppedFor string | TimedOut

definition flag_set :: "ledger \<Rightarrow> ledger_key \<Rightarrow> bool" where
  "flag_set d k \<longleftrightarrow> dict_get d k = Some LTrue"

definition reason_text :: "ledger \<Rightarrow> uid \<Rightarrow> int \<Rightarrow> string" where
  "reason_text d origin sq = (case dict_get d (origin, sq, FReason) of Some (LText s) \<Rightarrow> s | _ \<Rightarrow> [])"

definition loss_value :: "ledger \<Rightarrow> uid \<Rightarrow> int \<Rightarrow> real option" where
  "loss_value d origin sq = (case dict_get d (origin, sq, FLoss) of Some (LReal l) \<Rightarrow> Some l | _ \<Rightarrow> None)"

definition progress_of :: "ledger \<Rightarrow> uid \<Rightarrow> int \<Rightarrow> time option" where
  "progress_of d origin sq = (case dict_get d (origin, sq, FProgress) of Some (LTime t) \<Rightarrow> Some t | _ \<Rightarrow> None)"

definition stall_reason :: string where
  "stall_reason = ''no w2w progress''"

text \<open>What the ledger \<open>d\<close> says of a batch at \<open>now\<close>; \<open>None\<close> while it is neither finished nor stalled.\<close>

definition slot_outcome :: "uid \<Rightarrow> time \<Rightarrow> time \<Rightarrow> ledger \<Rightarrow> int \<Rightarrow> batch_outcome option" where
  "slot_outcome origin stall now d sq =
     (if flag_set d (origin, sq, FDropped) then Some (DroppedFor (reason_text d origin sq))
      else if flag_set d (origin, sq, FDone) then Some (CompletedWith (loss_value d origin sq))
      else
        case progress_of d origin sq of
          Some t \<Rightarrow> if stall < now - t then Some (DroppedFor stall_reason) else None
        | None \<Rightarrow> None)"

text \<open>
  \<open>wait\<close>: each poll reads the clock, the ledger and, for the stall test, the clock again; the polls are those that
  happen, \<open>None\<close> means that none of them ended the wait.
\<close>

fun ledger_wait :: "uid \<Rightarrow> time \<Rightarrow> time \<Rightarrow> int \<Rightarrow> (time \<times> ledger \<times> time) list \<Rightarrow> batch_outcome option" where
  "ledger_wait origin deadline stall sq [] = None"
| "ledger_wait origin deadline stall sq ((now, d, later) # polls) =
     (if \<not> now < deadline then Some TimedOut
      else
        case slot_outcome origin stall later d sq of
          Some out \<Rightarrow> Some out
        | None \<Rightarrow> ledger_wait origin deadline stall sq polls)"

section \<open>Adaptive credits\<close>

record credits =
  cr_target :: int
  cr_ceiling :: int
  cr_cooldown :: time
  cr_low :: real
  cr_high :: real
  cr_round_done :: int
  cr_latencies :: "real list"
  cr_best :: "real option"
  cr_last_backoff :: time
  cr_occupancy :: real

definition credits_new :: "int \<Rightarrow> int \<Rightarrow> time \<Rightarrow> real \<Rightarrow> real \<Rightarrow> credits" where
  "credits_new initial cap cooldown low high =
     \<lparr>cr_target = max 1 initial, cr_ceiling = max 1 cap, cr_cooldown = cooldown, cr_low = low, cr_high = high,
      cr_round_done = 0, cr_latencies = [], cr_best = None, cr_last_backoff = 0, cr_occupancy = 0\<rparr>"

definition on_done :: "real \<Rightarrow> credits \<Rightarrow> error + credits" where
  "on_done latency c =
     (let c1 = c\<lparr>cr_round_done := cr_round_done c + 1, cr_latencies := cr_latencies c @ [latency]\<rparr>
      in if cr_round_done c1 < cr_target c1 then Inr c1
         else
           let ordered = sort (cr_latencies c1)
           in if ordered = [] then Inl IndexError
              else
                let median = ordered ! (length ordered div 2);
                    best = (case cr_best c1 of None \<Rightarrow> median | Some b \<Rightarrow> if median < b then median else b);
                    occupancy = (if 0 < median then of_int (cr_target c1) * max 0 (1 - best / median) else 0);
                    target = (if occupancy < cr_low c1 \<and> cr_target c1 < cr_ceiling c1 then cr_target c1 + 1
                              else if cr_high c1 < occupancy \<and> 1 < cr_target c1 then cr_target c1 - 1
                              else cr_target c1)
                in Inr (c1\<lparr>cr_best := Some best, cr_occupancy := occupancy, cr_target := target, cr_round_done := 0, cr_latencies := []\<rparr>))"

definition on_congestion :: "time \<Rightarrow> credits \<Rightarrow> credits" where
  "on_congestion now c =
     (if now - cr_last_backoff c < cr_cooldown c then c
      else c\<lparr>cr_last_backoff := now, cr_target := max 1 (cr_target c div 2), cr_round_done := 0, cr_latencies := []\<rparr>)"

section \<open>The reporter\<close>

record reporter =
  rp_batch_size :: int
  rp_seq_length :: "int option"
  rp_expiration :: time
  rp_last_update :: time
  rp_last_loss :: "real option"
  rp_processed :: int
  rp_tokens :: int
  rp_published :: "(int \<times> real \<times> real) list"

text \<open>
  \<open>report_train_step\<close>: \<open>now\<close> is the time of the test, \<open>later\<close> that at which the counters are reset; a missing sequence
  length and 0 are alike, and so are a missing loss and the loss 0. The error leaves the counters as they are then.
\<close>

definition report_train_step :: "time \<Rightarrow> time \<Rightarrow> real option \<Rightarrow> reporter \<Rightarrow> error option \<times> reporter" where
  "report_train_step now later loss r =
     (let len = (case rp_seq_length r of Some n \<Rightarrow> n | None \<Rightarrow> 0);
          r1 = r\<lparr>rp_processed := rp_processed r + rp_batch_size r, rp_tokens := rp_tokens r + rp_batch_size r * len,
                 rp_last_loss := (case loss of Some l \<Rightarrow> if l = 0 then rp_last_loss r else Some l | None \<Rightarrow> rp_last_loss r)\<rparr>
      in case rp_last_loss r1 of
           Some l \<Rightarrow>
             if \<not> rp_expiration r1 \<le> now - rp_last_update r1 then (None, r1)
             else if len \<noteq> 0 \<and> rp_expiration r1 = 0 then (Some ZeroDivisionError, r1)
             else
               (None, r1\<lparr>rp_published := rp_published r1 @ [(rp_processed r1, l,
                   if len \<noteq> 0 then of_int (rp_processed r1) * of_int len / rp_expiration r1 else 0)],
                 rp_last_update := later, rp_processed := 0\<rparr>)
         | None \<Rightarrow> (None, r1))"

end
