(* ===== verification/PithosCache.thy ===== *)
theory PithosCache
  imports PithosTransport
begin

text \<open>
  The chunk cache (\<open>pithos/cache.py\<close>): a directory of verified chunk objects under a byte budget, with
  resumable downloads, and the mapped objects of one process. The directory is a dictionary from entry
  names to entries; a mapped object is the content its file had. \<open>get\<close> is split where it releases the
  process mutex, so that other operations may run in between. The advisory locks, the checks of the lock
  directory and failing system calls other than those of a transfer are not modelled. JSON text
  (\<open>js_load\<close>, \<open>js_dump\<close>) and \<open>sha256\<close> are parameters; \<open>now\<close> is the time a write stamps.
\<close>

section \<open>State\<close>

datatype dentry = Reg bytes time | Link | Dir

type_synonym directory = "(string, dentry) dict"

definition TOKEN_BYTES :: nat where
  "TOKEN_BYTES = 4"

record chunk_cache =
  cc_expected :: "(string, chunk_info) dict"
  cc_urls :: "(string, string) dict"
  cc_budget :: nat
  cc_leased :: bool
  cc_resident :: "(string, bytes) dict"
  cc_resident_bytes :: int
  cc_closed :: bool
  cc_disk :: directory

text \<open>The functions of the environment.\<close>

record cache_env =
  ce_sha256 :: "bytes \<Rightarrow> string"
  ce_js_load :: "bytes \<Rightarrow> pyval option"
  ce_js_dump :: "pyval \<Rightarrow> bytes"
  ce_pid :: string

definition chunk_size :: "chunk_info \<Rightarrow> nat" where
  "chunk_size info = ci_tokens info * TOKEN_BYTES"

definition expected_size :: "chunk_cache \<Rightarrow> string \<Rightarrow> nat" where
  "expected_size s name = (case dict_get (cc_expected s) name of None \<Rightarrow> 0 | Some info \<Rightarrow> chunk_size info)"

section \<open>Names of managed entries\<close>

definition ends_with :: "string \<Rightarrow> string \<Rightarrow> bool" where
  "ends_with suf s \<longleftrightarrow> length suf \<le> length s \<and> drop (length s - length suf) s = suf"

definition is_pid :: "string \<Rightarrow> bool" where
  "is_pid s \<longleftrightarrow> s \<noteq> [] \<and> list_all is_digit s"

definition part_name :: "string \<Rightarrow> string \<Rightarrow> string" where
  "part_name name pid = ''.'' @ name @ ''.part.'' @ pid"

definition resume_name :: "string \<Rightarrow> string" where
  "resume_name name = ''.'' @ name @ ''.resume.json''"

text \<open>The chunk an entry belongs to, if it is managed.\<close>

definition entry_chunk :: "chunk_cache \<Rightarrow> string \<Rightarrow> string option" where
  "entry_chunk s entry =
     (if dict_has (cc_expected s) entry then Some entry
      else if take 1 entry = ''.'' then
        (let rest = drop 1 entry;
             name = (if ends_with ''.resume.json'' rest then Some (take (length rest - length ''.resume.json'') rest)
                     else case rfind ''.part.'' rest of
                            None \<Rightarrow> None
                          | Some i \<Rightarrow> if is_pid (drop (i + 6) rest) then Some (take i rest) else None)
         in case name of
              None \<Rightarrow> None
            | Some n \<Rightarrow> if dict_has (cc_expected s) n then Some n else None)
      else None)"

section \<open>The disk LRU\<close>

type_synonym groups = "(string, (string, nat \<times> time) dict) dict"

fun scan_add :: "chunk_cache \<Rightarrow> groups \<Rightarrow> string \<times> dentry \<Rightarrow> groups" where
  "scan_add s g (entry, Reg content mtime) =
     (case entry_chunk s entry of
        None \<Rightarrow> g
      | Some name \<Rightarrow>
          dict_set name (dict_set entry (length content, mtime) (case dict_get g name of None \<Rightarrow> [] | Some m \<Rightarrow> m)) g)"
| "scan_add s g _ = g"

definition scan_managed :: "chunk_cache \<Rightarrow> groups" where
  "scan_managed s = foldl (scan_add s) [] (cc_disk s)"

definition group_bytes :: "(string, nat \<times> time) dict \<Rightarrow> nat" where
  "group_bytes m = sum_list (map (\<lambda>x. fst (snd x)) m)"

definition groups_bytes :: "groups \<Rightarrow> nat" where
  "groups_bytes g = sum_list (map (\<lambda>x. group_bytes (snd x)) g)"

definition managed_bytes :: "chunk_cache \<Rightarrow> nat" where
  "managed_bytes s = groups_bytes (scan_managed s)"

definition victim_candidates :: "string option \<Rightarrow> groups \<Rightarrow> (time \<times> string) list" where
  "victim_candidates protected g =
     map (\<lambda>(name, m). (Max (set (map (\<lambda>x. snd (snd x)) m)), name)) (filter (\<lambda>(name, m). Some name \<noteq> protected) g)"

definition over_budget :: "string option \<Rightarrow> chunk_cache \<Rightarrow> bool" where
  "over_budget protected s \<longleftrightarrow>
     (let g = scan_managed s
      in cc_budget s < groups_bytes g \<and> victim_candidates protected g \<noteq> []
         \<and> \<not> (protected = None \<and> length g \<le> 1))"

definition drop_resident :: "string \<Rightarrow> chunk_cache \<Rightarrow> chunk_cache" where
  "drop_resident victim s =
     (if dict_has (cc_resident s) victim
      then s\<lparr>cc_resident := dict_del victim (cc_resident s),
             cc_resident_bytes := cc_resident_bytes s - int (expected_size s victim)\<rparr>
      else s)"

definition evict_victim :: "string option \<Rightarrow> chunk_cache \<Rightarrow> chunk_cache" where
  "evict_victim protected s =
     (let g = scan_managed s;
          victim = snd (Min (set (victim_candidates protected g)));
          members = (case dict_get g victim of None \<Rightarrow> [] | Some m \<Rightarrow> map fst m)
      in drop_resident victim (s\<lparr>cc_disk := fold dict_del members (cc_disk s)\<rparr>))"

definition enforce_disk_budget :: "string option \<Rightarrow> chunk_cache \<Rightarrow> chunk_cache" where
  "enforce_disk_budget protected s =
     (if \<not> cc_leased s then s else while (over_budget protected) (evict_victim protected) s)"

section \<open>Construction\<close>

fun expect_all :: "chunk_info list \<Rightarrow> (string, chunk_info) dict \<Rightarrow> pithos_error + (string, chunk_info) dict" where
  "expect_all [] ex = Inr ex"
| "expect_all (info # infos) ex =
     (case validate_chunk_name (Some (PStr (ci_name info))) of
        Inl e \<Rightarrow> Inl e
      | Inr _ \<Rightarrow>
          if dict_has ex (ci_name info) then Inl CacheError
          else if ci_tokens info < 1 then Inl CacheError
          else expect_all infos (dict_set (ci_name info) info ex))"

definition cache_new :: "(string, string) dict \<Rightarrow> chunk_info list \<Rightarrow> pyval \<Rightarrow> directory \<Rightarrow> pithos_error + chunk_cache" where
  "cache_new urls infos budget disk =
     (case expect_all infos [] of
        Inl e \<Rightarrow> Inl e
      | Inr ex \<Rightarrow>
          (case plain_int (Some budget) of
             None \<Rightarrow> Inl CacheError
           | Some b \<Rightarrow>
               if b < 1 then Inl CacheError
               else Inr (enforce_disk_budget None
                      \<lparr>cc_expected = ex, cc_urls = urls, cc_budget = nat b, cc_leased = urls \<noteq> [],
                       cc_resident = [], cc_resident_bytes = 0, cc_closed = False, cc_disk = disk\<rparr>)))"

section \<open>Verification, recency\<close>

definition verify_object :: "cache_env \<Rightarrow> bytes \<Rightarrow> chunk_info \<Rightarrow> bool" where
  "verify_object env content info \<longleftrightarrow> length content = chunk_size info \<and> ce_sha256 env content = ci_sha256 info"

definition lstat_regular :: "directory \<Rightarrow> string \<Rightarrow> pithos_error + (bytes \<times> time) option" where
  "lstat_regular disk name =
     (case dict_get disk name of
        None \<Rightarrow> Inr None
      | Some (Reg content mtime) \<Rightarrow> Inr (Some (content, mtime))
      | Some _ \<Rightarrow> Inl CacheError)"

definition touch :: "time \<Rightarrow> string \<Rightarrow> chunk_cache \<Rightarrow> pithos_error + chunk_cache" where
  "touch now name s =
     (case lstat_regular (cc_disk s) name of
        Inl e \<Rightarrow> Inl e
      | Inr None \<Rightarrow> Inr s
      | Inr (Some (content, mtime)) \<Rightarrow> Inr (s\<lparr>cc_disk := dict_set name (Reg content now) (cc_disk s)\<rparr>))"

section \<open>Downloads\<close>

text \<open>\<open>os.remove\<close> with its errors ignored: a directory stays.\<close>

definition delete_quiet :: "string \<Rightarrow> directory \<Rightarrow> directory" where
  "delete_quiet name disk = (if dict_get disk name = Some Dir then disk else dict_del name disk)"

definition strip_prefix :: "string \<Rightarrow> string \<Rightarrow> string option" where
  "strip_prefix p s = (if take (length p) s = p then Some (drop (length p) s) else None)"

text \<open>The partial files of a chunk in directory order, or the error of a planted symlink.\<close>

fun part_candidates :: "string \<Rightarrow> directory \<Rightarrow> pithos_error + (string \<times> bytes) list" where
  "part_candidates name [] = Inr []"
| "part_candidates name ((entry, d) # es) =
     (case strip_prefix (part_name name []) entry of
        None \<Rightarrow> part_candidates name es
      | Some pid \<Rightarrow>
          if \<not> is_pid pid then part_candidates name es
          else case d of
                 Link \<Rightarrow> Inl CacheError
               | Dir \<Rightarrow> part_candidates name es
               | Reg content mtime \<Rightarrow>
                   (case part_candidates name es of Inl e \<Rightarrow> Inl e | Inr cs \<Rightarrow> Inr ((entry, content) # cs)))"

definition read_sidecar :: "cache_env \<Rightarrow> directory \<Rightarrow> string \<Rightarrow> pyval option" where
  "read_sidecar env disk path = (case dict_get disk path of Some (Reg content mtime) \<Rightarrow> ce_js_load env content | _ \<Rightarrow> None)"

definition usable_state :: "pyval option \<Rightarrow> nat \<Rightarrow> string \<Rightarrow> resume_state option" where
  "usable_state json expected source_id =
     (case load_state json of
        None \<Rightarrow> None
      | Some st \<Rightarrow> if expected < rs_bytes st then None else if rs_source_id st \<noteq> source_id then None else Some st)"

definition vouches :: "cache_env \<Rightarrow> resume_state option \<Rightarrow> bytes \<Rightarrow> bool" where
  "vouches env st content =
     (case st of None \<Rightarrow> False
      | Some st' \<Rightarrow> rs_bytes st' \<le> length content \<and> ce_sha256 env (take (rs_bytes st') content) = rs_sha256 st')"

fun adopt_loop :: "cache_env \<Rightarrow> resume_state option \<Rightarrow> (string \<times> bytes) list \<Rightarrow> (string \<times> bytes) option \<Rightarrow> directory
    \<Rightarrow> (string \<times> bytes) option \<times> directory" where
  "adopt_loop env st [] adopted disk = (adopted, disk)"
| "adopt_loop env st ((cand, content) # cs) adopted disk =
     (if adopted = None \<and> vouches env st content then adopt_loop env st cs (Some (cand, content)) disk
      else adopt_loop env st cs adopted (delete_quiet cand disk))"

text \<open>
  \<open>_claim_or_adopt\<close>: the bytes already in the temporary file and their hash, or the error; the directory in
  both cases.
\<close>

definition claim_or_adopt :: "cache_env \<Rightarrow> time \<Rightarrow> string \<Rightarrow> nat \<Rightarrow> string \<Rightarrow> directory
    \<Rightarrow> (pithos_error + nat \<times> string option) \<times> directory" where
  "claim_or_adopt env now name expected source_id disk =
     (let tmp = part_name name (ce_pid env); state_path = resume_name name
      in case part_candidates name disk of
           Inl e \<Rightarrow> (Inl e, disk)
         | Inr cands \<Rightarrow>
             let st = usable_state (read_sidecar env disk state_path) expected source_id
             in case adopt_loop env st cands None disk of
                  (None, disk1) \<Rightarrow>
                    let disk2 = delete_quiet state_path disk1
                    in if dict_has disk2 tmp then (Inl CacheError, disk2)
                       else (Inr (0, None), dict_set tmp (Reg [] now) disk2)
                | (Some (cand, content), disk1) \<Rightarrow>
                    if cand \<noteq> tmp \<and> dict_get disk1 tmp = Some Dir then (Inl OSError, disk1)
                    else
                      let disk2 = (if cand \<noteq> tmp then dict_del cand disk1 else disk1); n = (case st of None \<Rightarrow> 0 | Some s \<Rightarrow> rs_bytes s)
                      in (Inr (n, map_option rs_sha256 st), dict_set tmp (Reg (take n content) now) disk2))"

definition file_bytes :: "directory \<Rightarrow> string \<Rightarrow> bytes" where
  "file_bytes disk path = (case dict_get disk path of Some (Reg content mtime) \<Rightarrow> content | _ \<Rightarrow> [])"

text \<open>What a transfer leaves in the directory.\<close>

definition store_partial :: "cache_env \<Rightarrow> time \<Rightarrow> string \<Rightarrow> partial_dl \<Rightarrow> directory \<Rightarrow> directory" where
  "store_partial env now name p disk =
     (let disk1 = dict_set (part_name name (ce_pid env)) (Reg (pt_file p) now) disk
      in case pt_sidecar p of
           None \<Rightarrow> disk1
         | Some v \<Rightarrow> if pt_saved p then dict_set (resume_name name) (Reg (ce_js_dump env v) now) disk1 else disk1)"

text \<open>A failed fetch: an error, and whether it was a resumable \<open>DownloadError\<close>.\<close>

definition fetch_locked :: "cache_env \<Rightarrow> time \<Rightarrow> world \<Rightarrow> nat \<Rightarrow> string \<Rightarrow> chunk_info \<Rightarrow> string \<Rightarrow> directory
    \<Rightarrow> (pithos_error \<times> bool + unit) \<times> directory" where
  "fetch_locked env now w room name info url disk =
     (let tmp = part_name name (ce_pid env); state_path = resume_name name;
          wipe = (\<lambda>d. delete_quiet state_path (delete_quiet tmp d))
      in case object_identity (ce_sha256 env) (int (chunk_size info)) (ci_sha256 info) of
           Inl e \<Rightarrow> (Inl (PyError e, False), disk)
         | Inr source_id \<Rightarrow>
             (case claim_or_adopt env now name (chunk_size info) source_id disk of
                (Inl e, disk1) \<Rightarrow> (Inl (e, False), wipe disk1)
              | (Inr (n, prefix_sha), disk1) \<Rightarrow>
                  (case fetch (ce_sha256 env) w url n (chunk_size info) source_id prefix_sha
                          \<lparr>pt_file = file_bytes disk1 tmp, pt_sidecar = read_sidecar env disk1 state_path,
                           pt_room = room, pt_saved = False\<rparr> of
                     (DlError resumable, p) \<Rightarrow>
                       let disk2 = store_partial env now name p disk1
                       in (Inl (DownloadError, resumable), if resumable then disk2 else wipe disk2)
                   | (Done, p) \<Rightarrow>
                       let disk2 = store_partial env now name p disk1
                       in if \<not> verify_object env (pt_file p) info then (Inl (CacheError, False), wipe disk2)
                          else (Inr (), delete_quiet state_path (dict_set name (Reg (pt_file p) now) (dict_del tmp disk2))))))"

text \<open>\<open>_ensure\<close>: the content that is mapped.\<close>

definition ensure :: "cache_env \<Rightarrow> time \<Rightarrow> world \<Rightarrow> nat \<Rightarrow> string \<Rightarrow> chunk_cache
    \<Rightarrow> (pithos_error \<times> bool + bytes) \<times> chunk_cache" where
  "ensure env now w room name s =
     (case dict_get (cc_expected s) name of
        None \<Rightarrow> (Inl (PyError KeyError, False), s)
      | Some info \<Rightarrow>
          (case lstat_regular (cc_disk s) name of
             Inl e \<Rightarrow> (Inl (e, False), s)
           | Inr found \<Rightarrow>
               let download = (\<lambda>s1. case dict_get (cc_urls s1) name of
                      None \<Rightarrow> (Inl (PyError KeyError, False), s1)
                    | Some url \<Rightarrow>
                        if url = [] then (Inl (PyError KeyError, False), s1)
                        else case fetch_locked env now w room name info url (cc_disk s1) of
                               (Inl e, disk) \<Rightarrow> (Inl e, s1\<lparr>cc_disk := disk\<rparr>)
                             | (Inr _, disk) \<Rightarrow> (Inr (file_bytes disk name), s1\<lparr>cc_disk := disk\<rparr>))
               in case found of
                    None \<Rightarrow> download s
                  | Some (content, mtime) \<Rightarrow>
                      if verify_object env content info then (Inr content, s)
                      else if \<not> cc_leased s then (Inl (CacheError, False), s)
                      else download (s\<lparr>cc_disk := dict_del name (cc_disk s)\<rparr>)))"

section \<open>get\<close>

text \<open>The first critical section of \<open>get\<close>: an error, or the mapped object if there is one.\<close>

definition move_to_end :: "'k \<Rightarrow> ('k, 'v) dict \<Rightarrow> ('k, 'v) dict" where
  "move_to_end k d = (case dict_get d k of None \<Rightarrow> d | Some v \<Rightarrow> dict_del k d @ [(k, v)])"

definition get_lookup :: "string \<Rightarrow> chunk_cache \<Rightarrow> (pithos_error + bytes option) \<times> chunk_cache" where
  "get_lookup name s =
     (case validate_chunk_name (Some (PStr name)) of
        Inl e \<Rightarrow> (Inl e, s)
      | Inr _ \<Rightarrow>
          if cc_closed s then (Inl CacheError, s)
          else (Inr (dict_get (cc_resident s) name), s\<lparr>cc_resident := move_to_end name (cc_resident s)\<rparr>))"

lemma dict_del_shrinks: "dict_has d k \<Longrightarrow> length (dict_del k d) < length d"
proof (induction d)
  case (Cons p d)
  then show ?case using length_dict_del_le [of k d] by (auto simp: dict_del_Cons le_imp_less_Suc)
qed simp

text \<open>The mapped objects after the oldest ones but \<open>name\<close> were dropped until the budget holds.\<close>

function trim_resident :: "string \<Rightarrow> chunk_cache \<Rightarrow> chunk_cache" where
  "trim_resident name s =
     (if int (cc_budget s) < cc_resident_bytes s then
        (case find (\<lambda>n. n \<noteq> name) (map fst (cc_resident s)) of
           None \<Rightarrow> s
         | Some victim \<Rightarrow>
             trim_resident name (s\<lparr>cc_resident_bytes := cc_resident_bytes s - int (expected_size s victim),
                                   cc_resident := dict_del victim (cc_resident s)\<rparr>))
      else s)"
  by pat_completeness auto

termination
proof (relation "measure (\<lambda>(_, s). length (cc_resident s))")
  fix name :: string and s :: chunk_cache and victim :: string
  assume "find (\<lambda>n. n \<noteq> name) (map fst (cc_resident s)) = Some victim"
  then have "dict_has (cc_resident s) victim" by (metis find_Some_iff list.set_map nth_mem)
  then have "length (dict_del victim (cc_resident s)) < length (cc_resident s)" by (rule dict_del_shrinks)
  then show "((name, s\<lparr>cc_resident_bytes := cc_resident_bytes s - int (expected_size s victim),
      cc_resident := dict_del victim (cc_resident s)\<rparr>), (name, s)) \<in> measure (\<lambda>(_, s). length (cc_resident s))"
    by simp
qed simp

declare trim_resident.simps [simp del]

text \<open>The second critical section: the object returned, and whether it was mapped by this call.\<close>

definition get_publish :: "string \<Rightarrow> bytes \<Rightarrow> chunk_cache \<Rightarrow> (pithos_error + bytes \<times> bool) \<times> chunk_cache" where
  "get_publish name mm s =
     (if cc_closed s then (Inl CacheError, s)
      else
        case dict_get (cc_resident s) name of
          Some existing \<Rightarrow> (Inr (existing, False), s\<lparr>cc_resident := move_to_end name (cc_resident s)\<rparr>)
        | None \<Rightarrow>
            (Inr (mm, True), trim_resident name
               (s\<lparr>cc_resident := dict_set name mm (cc_resident s),
                  cc_resident_bytes := cc_resident_bytes s + int (expected_size s name)\<rparr>)))"

definition cache_get :: "cache_env \<Rightarrow> time \<Rightarrow> world \<Rightarrow> nat \<Rightarrow> string \<Rightarrow> chunk_cache \<Rightarrow> (pithos_error + bytes) \<times> chunk_cache" where
  "cache_get env now w room name s =
     (case get_lookup name s of
        (Inl e, s1) \<Rightarrow> (Inl e, s1)
      | (Inr (Some hit), s1) \<Rightarrow>
          if cc_leased s1 then (case touch now name s1 of Inl e \<Rightarrow> (Inl e, s1) | Inr s2 \<Rightarrow> (Inr hit, s2))
          else (Inr hit, s1)
      | (Inr None, s1) \<Rightarrow>
          (case ensure env now w room name s1 of
             (Inl (e, resumable), s2) \<Rightarrow>
               (Inl e, if e = DownloadError \<and> resumable \<and> cc_leased s2 then enforce_disk_budget (Some name) s2 else s2)
           | (Inr mm, s2) \<Rightarrow>
               (case get_publish name mm s2 of
                  (Inl e, s3) \<Rightarrow> (Inl e, s3)
                | (Inr (v, False), s3) \<Rightarrow> (Inr v, s3)
                | (Inr (v, True), s3) \<Rightarrow>
                    if cc_leased s3 then
                      (case touch now name s3 of
                         Inl e \<Rightarrow> (Inl e, s3)
                       | Inr s4 \<Rightarrow> (Inr v, enforce_disk_budget (Some name) s4))
                    else (Inr v, s3))))"

definition cc_resident_names :: "chunk_cache \<Rightarrow> string list" where
  "cc_resident_names s = map fst (cc_resident s)"

definition cache_close :: "chunk_cache \<Rightarrow> chunk_cache" where
  "cache_close s = s\<lparr>cc_closed := True, cc_resident := [], cc_resident_bytes := 0\<rparr>"

end
