(* ===== verification/PithosRuntime.thy ===== *)
theory PithosRuntime
  imports PithosCache
begin

text \<open>
  Reading a corpus (\<open>pithos/runtime.py\<close>, \<open>pithos/prefetch.py\<close>, \<open>pithos/config.py\<close>, \<open>pithos/torch.py\<close>): the
  prefetch pipeline over the chunk cache, the construction of a corpus, \<open>read\<close>, \<open>read_strided\<close> and the
  older \<open>StreamShard\<close>. A file mapped as \<open>"<i4"\<close> is the list of its 32-bit integers. The within-chunk
  permutation (blake2b and numpy's generator) is a parameter; so are the answers of the world to each
  fetch, numbered by \<open>io_tick\<close>, and the work the prefetch thread gets done between two calls.
\<close>

section \<open>Mapped chunks\<close>

definition signed32 :: "nat \<Rightarrow> int" where
  "signed32 n = (if n < 2 ^ 31 then int n else int n - 2 ^ 32)"

fun i4 :: "bytes \<Rightarrow> int list" where
  "i4 (a # b # c # d # rest) = signed32 (of_le [a, b, c, d]) # i4 rest"
| "i4 _ = []"

section \<open>Configuration\<close>

record cache_config =
  cf_budget_bytes :: nat
  cf_prefetch_depth :: nat

definition cache_config_of :: "pyval \<Rightarrow> pyval \<Rightarrow> pithos_error + cache_config" where
  "cache_config_of budget depth =
     (case plain_int (Some budget) of
        None \<Rightarrow> Inl CacheError
      | Some b \<Rightarrow>
          if b < 1 then Inl CacheError
          else
            case plain_int (Some depth) of
              None \<Rightarrow> Inl CacheError
            | Some d \<Rightarrow>
                if d < 0 then Inl CacheError
                else Inr \<lparr>cf_budget_bytes = nat b, cf_prefetch_depth = nat d\<rparr>)"

section \<open>The prefetch pipeline\<close>

text \<open>
  The single worker runs the submitted fetches in order: \<open>pf_queue\<close> are those not run yet, \<open>pf_results\<close> the
  outcomes of the futures, by number; \<open>pf_inflight\<close> are the futures that were not claimed.
\<close>

record prefetch =
  pf_depth :: nat
  pf_inflight :: "(string, nat) dict"
  pf_queue :: "(nat \<times> string) list"
  pf_results :: "(nat, pithos_error + bytes) dict"
  pf_next :: nat
  pf_closed :: bool

definition pf_new :: "pyval \<Rightarrow> pithos_error + prefetch" where
  "pf_new depth =
     (case plain_int (Some depth) of
        None \<Rightarrow> Inl CacheError
      | Some d \<Rightarrow>
          if d < 1 then Inl CacheError
          else Inr \<lparr>pf_depth = nat d, pf_inflight = [], pf_queue = [], pf_results = [], pf_next = 0, pf_closed = False\<rparr>)"

definition pf_request :: "string \<Rightarrow> prefetch \<Rightarrow> (error + bool) \<times> prefetch" where
  "pf_request name pf =
     (if pf_closed pf then (Inl RuntimeError, pf)
      else if dict_has (pf_inflight pf) name then (Inr True, pf)
      else if pf_depth pf \<le> length (pf_inflight pf) then (Inr False, pf)
      else (Inr True, pf\<lparr>pf_inflight := dict_set name (pf_next pf) (pf_inflight pf),
                         pf_queue := pf_queue pf @ [(pf_next pf, name)], pf_next := pf_next pf + 1\<rparr>))"

text \<open>The worker runs the oldest submitted fetch.\<close>

fun pf_work :: "(string \<Rightarrow> 's \<Rightarrow> (pithos_error + bytes) \<times> 's) \<Rightarrow> prefetch \<times> 's \<Rightarrow> prefetch \<times> 's" where
  "pf_work fetch_one (pf, s) =
     (case pf_queue pf of
        [] \<Rightarrow> (pf, s)
      | (n, name) # q \<Rightarrow>
          let (r, s1) = fetch_one name s
          in (pf\<lparr>pf_queue := q, pf_results := dict_set n r (pf_results pf)\<rparr>, s1))"

text \<open>\<open>fut.result()\<close>: the worker runs until the future is done; at most \<open>fuel\<close> fetches are queued before it.\<close>

fun pf_await :: "(string \<Rightarrow> 's \<Rightarrow> (pithos_error + bytes) \<times> 's) \<Rightarrow> nat \<Rightarrow> nat \<Rightarrow> prefetch \<times> 's
    \<Rightarrow> (pithos_error + bytes) option \<times> prefetch \<times> 's" where
  "pf_await fetch_one 0 n ps = (dict_get (pf_results (fst ps)) n, ps)"
| "pf_await fetch_one (Suc fuel) n ps =
     (case dict_get (pf_results (fst ps)) n of
        Some r \<Rightarrow> (Some r, ps)
      | None \<Rightarrow> pf_await fetch_one fuel n (pf_work fetch_one ps))"

definition pf_get :: "(string \<Rightarrow> 's \<Rightarrow> (pithos_error + bytes) \<times> 's) \<Rightarrow> string \<Rightarrow> prefetch \<times> 's
    \<Rightarrow> (pithos_error + bytes) option \<times> prefetch \<times> 's" where
  "pf_get fetch_one name ps =
     (let (pf, s) = ps
      in case dict_get (pf_inflight pf) name of
           None \<Rightarrow> let (r, s1) = fetch_one name s in (Some r, pf, s1)
         | Some n \<Rightarrow> pf_await fetch_one (length (pf_queue pf)) n (pf\<lparr>pf_inflight := dict_del name (pf_inflight pf)\<rparr>, s))"

definition pf_in_flight :: "prefetch \<Rightarrow> string list" where
  "pf_in_flight pf = map fst (pf_inflight pf)"

definition pf_close :: "prefetch \<Rightarrow> prefetch" where
  "pf_close pf =
     (if pf_closed pf then pf
      else pf\<lparr>pf_closed := True, pf_inflight := [], pf_queue := [], pf_results := []\<rparr>)"

section \<open>The source of chunks\<close>

record io_state =
  io_cache :: chunk_cache
  io_pf :: "prefetch option"
  io_tick :: nat

record io_answers =
  or_now :: "nat \<Rightarrow> time"
  or_world :: "nat \<Rightarrow> world"
  or_room :: "nat \<Rightarrow> nat"
  or_work :: "nat \<Rightarrow> nat"

text \<open>\<open>self._cache.get\<close>, on the consumer's or the worker's thread.\<close>

definition io_get :: "cache_env \<Rightarrow> io_answers \<Rightarrow> string \<Rightarrow> chunk_cache \<times> nat \<Rightarrow> (pithos_error + bytes) \<times> chunk_cache \<times> nat" where
  "io_get env orc name ct =
     (let (r, c) = cache_get env (or_now orc (snd ct)) (or_world orc (snd ct)) (or_room orc (snd ct)) name (fst ct)
      in (r, c, snd ct + 1))"

text \<open>\<open>Corpus._fetch\<close>.\<close>

fun request_all :: "string list \<Rightarrow> prefetch \<Rightarrow> prefetch" where
  "request_all [] pf = pf"
| "request_all (n # ns) pf = request_all ns (snd (pf_request n pf))"

definition corpus_fetch :: "cache_env \<Rightarrow> io_answers \<Rightarrow> string list \<Rightarrow> nat \<Rightarrow> nat \<Rightarrow> io_state \<Rightarrow> (pithos_error + bytes) \<times> io_state" where
  "corpus_fetch env orc names depth k io =
     (case io_pf io of
        None \<Rightarrow>
          let (r, c, t) = io_get env orc (names ! k) (io_cache io, io_tick io)
          in (r, io\<lparr>io_cache := c, io_tick := t\<rparr>)
      | Some pf \<Rightarrow>
          let ps = (pf_work (io_get env orc) ^^ or_work orc (io_tick io)) (pf, io_cache io, io_tick io)
          in case pf_get (io_get env orc) (names ! k) ps of
               (r, pf1, c, t) \<Rightarrow>
                 let res = (case r of None \<Rightarrow> Inl (PyError RuntimeError) | Some v \<Rightarrow> v);
                     ahead = map (\<lambda>i. names ! ((k + i) mod length names)) [1..<min depth (length names - 1) + 1];
                     pf2 = (case res of Inl e \<Rightarrow> pf1 | Inr v \<Rightarrow> request_all ahead pf1)
                 in (res, io\<lparr>io_cache := c, io_pf := Some pf2, io_tick := t\<rparr>))"

section \<open>A corpus\<close>

record 's corpus =
  cp_manifest :: manifest
  cp_layout :: stream_layout
  cp_seed :: int
  cp_perm :: "((int \<times> nat) \<times> nat list) option"
  cp_closed :: bool
  cp_src :: 's

text \<open>The checks of the constructor that come before the cache is built.\<close>

definition locators_ok :: "string list \<Rightarrow> (string, pyval) dict \<Rightarrow> bool" where
  "locators_ok names locators \<longleftrightarrow> (locators = [] \<or> fst ` set locators = set names)
     \<and> list_all (\<lambda>(k, v). case v of PStr u \<Rightarrow> u \<noteq> [] | _ \<Rightarrow> False) locators"

definition locator_text :: "pyval \<Rightarrow> string" where
  "locator_text v = (case v of PStr u \<Rightarrow> u | _ \<Rightarrow> [])"

definition corpus_new :: "manifest \<Rightarrow> pyval \<Rightarrow> (string, pyval) dict \<Rightarrow> pyval \<Rightarrow> pyval \<Rightarrow> cache_config \<Rightarrow> directory
    \<Rightarrow> pithos_error + io_state corpus" where
  "corpus_new m expected_identity locators sequence_length seed cfg disk =
     (if \<not> (case expected_identity of PNone \<Rightarrow> True | PStr s \<Rightarrow> s = mf_identity m | _ \<Rightarrow> False) then Inl ManifestError
      else
        case manifest_layout m sequence_length of
          Inl e \<Rightarrow> Inl e
        | Inr L \<Rightarrow>
            (case plain_int (Some seed) of
               None \<Rightarrow> Inl CacheError
             | Some sd \<Rightarrow>
                 if \<not> locators_ok (mf_chunk_names m) locators then Inl CacheError
                 else
                   case cache_new (map (\<lambda>(k, v). (k, locator_text v)) locators) (mf_chunks m) (PInt (int (cf_budget_bytes cfg))) disk of
                     Inl e \<Rightarrow> Inl e
                   | Inr c \<Rightarrow>
                       (case (if 0 < cf_prefetch_depth cfg then map_sum id Some (pf_new (PInt (int (cf_prefetch_depth cfg)))) else Inr None) of
                          Inl e \<Rightarrow> Inl e
                        | Inr pf \<Rightarrow>
                            Inr \<lparr>cp_manifest = m, cp_layout = L, cp_seed = sd, cp_perm = None, cp_closed = False,
                                 cp_src = \<lparr>io_cache = c, io_pf = pf, io_tick = 0\<rparr>\<rparr>)))"

definition cp_total_samples :: "'s corpus \<Rightarrow> nat" where
  "cp_total_samples C = sl_total_samples (cp_layout C)"

definition cp_chunk_count :: "'s corpus \<Rightarrow> nat" where
  "cp_chunk_count C = length (sl_per_chunk (cp_layout C))"

text \<open>\<open>_permutation\<close>: the cached permutation of the current chunk, or a new one.\<close>

definition corpus_perm :: "(int \<Rightarrow> int \<Rightarrow> nat \<Rightarrow> nat \<Rightarrow> nat list) \<Rightarrow> int \<Rightarrow> nat \<Rightarrow> 's corpus \<Rightarrow> nat list \<times> 's corpus" where
  "corpus_perm perm_of epoch k C =
     (case cp_perm C of
        Some (key, p) \<Rightarrow>
          if key = (epoch, k) then (p, C)
          else let p1 = perm_of (cp_seed C) epoch k (sl_per_chunk (cp_layout C) ! k) in (p1, C\<lparr>cp_perm := Some ((epoch, k), p1)\<rparr>)
      | None \<Rightarrow> let p1 = perm_of (cp_seed C) epoch k (sl_per_chunk (cp_layout C) ! k) in (p1, C\<lparr>cp_perm := Some ((epoch, k), p1)\<rparr>))"

text \<open>One row: the window of the sample the permutation puts at position \<open>i\<close>.\<close>

definition sample_row :: "nat \<Rightarrow> bytes \<Rightarrow> nat list \<Rightarrow> nat \<Rightarrow> pithos_error + int list" where
  "sample_row seq mm perm i =
     (if length perm \<le> i then Inl (PyError IndexError)
      else
        let window = take (seq + 1) (drop (perm ! i * seq) (i4 mm))
        in if length window \<noteq> seq + 1 then Inl CacheError else Inr window)"

fun sample_run :: "nat \<Rightarrow> bytes \<Rightarrow> nat list \<Rightarrow> nat \<Rightarrow> nat \<Rightarrow> pithos_error + int list list" where
  "sample_run seq mm perm i 0 = Inr []"
| "sample_run seq mm perm i (Suc n) =
     (case sample_row seq mm perm i of
        Inl e \<Rightarrow> Inl e
      | Inr w \<Rightarrow> (case sample_run seq mm perm (i + 1) n of Inl e \<Rightarrow> Inl e | Inr ws \<Rightarrow> Inr (w # ws)))"

text \<open>The loop of \<open>read\<close>; \<open>None\<close> would be a loop that does not end.\<close>

partial_function (option) read_loop :: "(nat \<Rightarrow> 's \<Rightarrow> (pithos_error + bytes) \<times> 's) \<Rightarrow> (int \<Rightarrow> int \<Rightarrow> nat \<Rightarrow> nat \<Rightarrow> nat list)
    \<Rightarrow> nat \<Rightarrow> nat \<Rightarrow> int list list \<Rightarrow> 's corpus \<Rightarrow> ((pithos_error + int list list) \<times> 's corpus) option" where
  "read_loop get_chunk perm_of start rows out C =
     (if length out < rows then
        let L = cp_layout C;
            sample = start + length out;
            epoch = sample div sl_total_samples L; pos = sample mod sl_total_samples L;
            k = pos div sl_samples_per_chunk L;
            i = pos - sl_cumulative L ! k;
            run = min (rows - length out) (sl_per_chunk L ! k - i);
            fetched = get_chunk k (cp_src C);
            C1 = C\<lparr>cp_src := snd fetched\<rparr>
        in case fst fetched of
             Inl e \<Rightarrow> Some (Inl e, C1)
           | Inr mm \<Rightarrow>
               (case corpus_perm perm_of (int epoch) k C1 of
                  (perm, C2) \<Rightarrow>
                    (case sample_run (sl_seq L) mm perm i run of
                       Inl e \<Rightarrow> Some (Inl e, C2)
                     | Inr ws \<Rightarrow> read_loop get_chunk perm_of start rows (out @ ws) C2))
      else Some (Inr out, C))"

text \<open>A count argument: an int that is not a bool and at least \<open>least\<close>.\<close>

definition count_arg :: "int \<Rightarrow> pyval \<Rightarrow> pithos_error + nat" where
  "count_arg least v = (case plain_int (Some v) of None \<Rightarrow> Inl CacheError | Some i \<Rightarrow> if i < least then Inl CacheError else Inr (nat i))"

definition corpus_read :: "(nat \<Rightarrow> 's \<Rightarrow> (pithos_error + bytes) \<times> 's) \<Rightarrow> (int \<Rightarrow> int \<Rightarrow> nat \<Rightarrow> nat \<Rightarrow> nat list)
    \<Rightarrow> pyval \<Rightarrow> pyval \<Rightarrow> 's corpus \<Rightarrow> ((pithos_error + int list list) \<times> 's corpus) option" where
  "corpus_read get_chunk perm_of start rows C =
     (if cp_closed C then Some (Inl CacheError, C)
      else
        case count_arg 0 start of
          Inl e \<Rightarrow> Some (Inl e, C)
        | Inr s \<Rightarrow>
            (case count_arg 0 rows of
               Inl e \<Rightarrow> Some (Inl e, C)
             | Inr n \<Rightarrow> if n = 0 then Some (Inr [], C) else read_loop get_chunk perm_of s n [] C))"

text \<open>The loop of \<open>read_strided\<close>; \<open>active\<close> holds the key, the mapped chunk and the permutation in use.\<close>

fun strided_loop :: "(nat \<Rightarrow> 's \<Rightarrow> (pithos_error + bytes) \<times> 's) \<Rightarrow> (int \<Rightarrow> int \<Rightarrow> nat \<Rightarrow> nat \<Rightarrow> nat list)
    \<Rightarrow> nat list \<Rightarrow> ((int \<times> nat) \<times> bytes \<times> nat list) option \<Rightarrow> 's corpus \<Rightarrow> (pithos_error + int list list) \<times> 's corpus" where
  "strided_loop get_chunk perm_of [] active C = (Inr [], C)"
| "strided_loop get_chunk perm_of (sample # samples) active C =
     (let L = cp_layout C;
          epoch = sample div sl_total_samples L; pos = sample mod sl_total_samples L;
          k = pos div sl_samples_per_chunk L;
          i = pos - sl_cumulative L ! k;
          row = (\<lambda>mm perm C2.
            case sample_row (sl_seq L) mm perm i of
              Inl e \<Rightarrow> (Inl e, C2)
            | Inr w \<Rightarrow>
                (case strided_loop get_chunk perm_of samples (Some ((int epoch, k), mm, perm)) C2 of
                   (Inl e, C3) \<Rightarrow> (Inl e, C3) | (Inr ws, C3) \<Rightarrow> (Inr (w # ws), C3)));
          load = (case get_chunk k (cp_src C) of
                    (Inl e, s) \<Rightarrow> (Inl e, C\<lparr>cp_src := s\<rparr>)
                  | (Inr mm, s) \<Rightarrow> (case corpus_perm perm_of (int epoch) k (C\<lparr>cp_src := s\<rparr>) of (perm, C2) \<Rightarrow> row mm perm C2))
      in case active of
           None \<Rightarrow> load
         | Some (key, mm, perm) \<Rightarrow> if key = (int epoch, k) then row mm perm C else load)"

definition corpus_read_strided :: "(nat \<Rightarrow> 's \<Rightarrow> (pithos_error + bytes) \<times> 's) \<Rightarrow> (int \<Rightarrow> int \<Rightarrow> nat \<Rightarrow> nat \<Rightarrow> nat list)
    \<Rightarrow> pyval \<Rightarrow> pyval \<Rightarrow> pyval \<Rightarrow> 's corpus \<Rightarrow> (pithos_error + int list list) \<times> 's corpus" where
  "corpus_read_strided get_chunk perm_of start stride rows C =
     (if cp_closed C then (Inl CacheError, C)
      else
        case count_arg 0 start of
          Inl e \<Rightarrow> (Inl e, C)
        | Inr s \<Rightarrow>
            (case count_arg 1 stride of
               Inl e \<Rightarrow> (Inl e, C)
             | Inr d \<Rightarrow>
                 (case count_arg 0 rows of
                    Inl e \<Rightarrow> (Inl e, C)
                  | Inr n \<Rightarrow> strided_loop get_chunk perm_of (map (\<lambda>r. s + r * d) [0..<n]) None C)))"

definition corpus_close :: "io_state corpus \<Rightarrow> io_state corpus" where
  "corpus_close C =
     (if cp_closed C then C
      else C\<lparr>cp_closed := True,
             cp_src := (cp_src C)\<lparr>io_pf := map_option pf_close (io_pf (cp_src C)), io_cache := cache_close (io_cache (cp_src C))\<rparr>,
             cp_perm := None\<rparr>)"

section \<open>StreamShard\<close>

text \<open>
  The older reader. It keeps one permutation as well and asks the cache for every sample; a short window is a
  \<open>ValueError\<close>.
\<close>

definition shard_sample :: "(nat \<Rightarrow> 's \<Rightarrow> (pithos_error + bytes) \<times> 's) \<Rightarrow> (int \<Rightarrow> int \<Rightarrow> nat \<Rightarrow> nat \<Rightarrow> nat list)
    \<Rightarrow> int \<Rightarrow> 's corpus \<Rightarrow> (pithos_error + int list) \<times> 's corpus" where
  "shard_sample get_chunk perm_of idx C =
     (let L = cp_layout C; n = int (sl_total_samples L);
          epoch = idx div n; pos = nat (idx mod n);
          k = pos div sl_samples_per_chunk L;
          i = pos - sl_cumulative L ! k
      in case corpus_perm perm_of epoch k C of
           (perm, C1) \<Rightarrow>
             if length perm \<le> i then (Inl (PyError IndexError), C1)
             else
               case get_chunk k (cp_src C1) of
                 (Inl e, s) \<Rightarrow> (Inl e, C1\<lparr>cp_src := s\<rparr>)
               | (Inr mm, s) \<Rightarrow>
                   (let window = take (sl_seq L + 1) (drop (perm ! i * sl_seq L) (i4 mm))
                    in (if length window \<noteq> sl_seq L + 1 then Inl (PyError ValueError) else Inr window, C1\<lparr>cp_src := s\<rparr>)))"

fun shard_samples :: "(nat \<Rightarrow> 's \<Rightarrow> (pithos_error + bytes) \<times> 's) \<Rightarrow> (int \<Rightarrow> int \<Rightarrow> nat \<Rightarrow> nat \<Rightarrow> nat list)
    \<Rightarrow> int list \<Rightarrow> 's corpus \<Rightarrow> (pithos_error + int list list) \<times> 's corpus" where
  "shard_samples get_chunk perm_of [] C = (Inr [], C)"
| "shard_samples get_chunk perm_of (i # is) C =
     (case shard_sample get_chunk perm_of i C of
        (Inl e, C1) \<Rightarrow> (Inl e, C1)
      | (Inr w, C1) \<Rightarrow>
          (case shard_samples get_chunk perm_of is C1 of (Inl e, C2) \<Rightarrow> (Inl e, C2) | (Inr ws, C2) \<Rightarrow> (Inr (w # ws), C2)))"

text \<open>\<open>ids\<close>; \<open>torch.stack\<close> of no rows raises.\<close>

definition shard_ids :: "(nat \<Rightarrow> 's \<Rightarrow> (pithos_error + bytes) \<times> 's) \<Rightarrow> (int \<Rightarrow> int \<Rightarrow> nat \<Rightarrow> nat \<Rightarrow> nat list)
    \<Rightarrow> int \<Rightarrow> nat \<Rightarrow> 's corpus \<Rightarrow> (pithos_error + int list list) \<times> 's corpus" where
  "shard_ids get_chunk perm_of batch_id rows C =
     (case shard_samples get_chunk perm_of (map (\<lambda>r. batch_id * int rows + int r) [0..<rows]) C of
        (Inl e, C1) \<Rightarrow> (Inl e, C1)
      | (Inr ws, C1) \<Rightarrow> (if ws = [] then Inl (PyError RuntimeError) else Inr ws, C1))"

end
