(* ===== verification/PithosRegistry.thy ===== *)
theory PithosRegistry
  imports PithosRuntime
begin

text \<open>
  Finding a corpus (\<open>pithos/registry.py\<close>, \<open>pithos/publication.py\<close>): the validated entries of the YAML
  registry and the resolution of a publication URI into a local manifest and the locators of its chunks.
  The YAML parser, \<open>urllib.parse\<close>, \<open>json.loads\<close> and path arithmetic are parameters; the keys inside an
  entry are strings, those of the \<open>corpora\<close> mapping any value.
\<close>

section \<open>The registry\<close>

record corpus_entry =
  en_name :: string
  en_uri :: "string option"
  en_identity :: "string option"
  en_budget :: "nat option"
  en_depth :: "nat option"
  en_description :: string

definition ENTRY_KEYS :: "string set" where
  "ENTRY_KEYS = {''uri'', ''manifest_identity'', ''reader'', ''description''}"

definition READER_KEYS :: "string set" where
  "READER_KEYS = {''budget_bytes'', ''prefetch_depth''}"

definition given :: "(string, pyval) dict \<Rightarrow> string \<Rightarrow> pyval option" where
  "given d k = (case dict_get d k of Some PNone \<Rightarrow> None | r \<Rightarrow> r)"

definition positive_int :: "int \<Rightarrow> pyval \<Rightarrow> pithos_error + nat" where
  "positive_int least v =
     (case plain_int (Some v) of None \<Rightarrow> Inl RegistryError | Some i \<Rightarrow> if i < least then Inl RegistryError else Inr (nat i))"

fun uri_scheme :: "string \<Rightarrow> string" where
  "uri_scheme [] = []"
| "uri_scheme (c # cs) = (if take 3 (c # cs) = ''://'' then [] else c # uri_scheme cs)"

definition entry_uri :: "(string, pyval) dict \<Rightarrow> pithos_error + string option" where
  "entry_uri d =
     (case given d ''uri'' of
        None \<Rightarrow> Inr None
      | Some (PStr u) \<Rightarrow> if u = [] then Inl RegistryError else Inr (Some u)
      | Some _ \<Rightarrow> Inl RegistryError)"

definition entry_identity :: "(string, pyval) dict \<Rightarrow> string option \<Rightarrow> pithos_error + string option" where
  "entry_identity d uri =
     (case given d ''manifest_identity'' of
        Some (PStr i) \<Rightarrow> if is_hex64 i then Inr (Some i) else Inl RegistryError
      | Some _ \<Rightarrow> Inl RegistryError
      | None \<Rightarrow>
          (case uri of
             None \<Rightarrow> Inl RegistryError
           | Some u \<Rightarrow> if lower (uri_scheme u) \<in> {''http'', ''https'', ''s3''} then Inl RegistryError else Inr None))"

definition optional_count :: "int \<Rightarrow> pyval option \<Rightarrow> pithos_error + nat option" where
  "optional_count least v = (case v of None \<Rightarrow> Inr None | Some x \<Rightarrow> map_sum id Some (positive_int least x))"

definition entry_reader :: "(string, pyval) dict \<Rightarrow> pithos_error + nat option \<times> nat option" where
  "entry_reader d =
     (case (case given d ''reader'' of None \<Rightarrow> PDict [] | Some v \<Rightarrow> v) of
        PDict r \<Rightarrow>
          if \<not> fst ` set r \<subseteq> READER_KEYS then Inl RegistryError
          else
            (case optional_count 1 (given r ''budget_bytes'') of
               Inl e \<Rightarrow> Inl e
             | Inr b \<Rightarrow> map_sum id (Pair b) (optional_count 0 (given r ''prefetch_depth'')))
      | _ \<Rightarrow> Inl RegistryError)"

definition entry_from_raw :: "(pyval \<Rightarrow> string) \<Rightarrow> string \<Rightarrow> pyval \<Rightarrow> pithos_error + corpus_entry" where
  "entry_from_raw py_text name raw =
     (case raw of
        PDict d \<Rightarrow>
          if \<not> fst ` set d \<subseteq> ENTRY_KEYS then Inl RegistryError
          else
            (case entry_uri d of
               Inl e \<Rightarrow> Inl e
             | Inr uri \<Rightarrow>
                 (case entry_identity d uri of
                    Inl e \<Rightarrow> Inl e
                  | Inr identity \<Rightarrow>
                      (case entry_reader d of
                         Inl e \<Rightarrow> Inl e
                       | Inr (budget, depth) \<Rightarrow>
                           Inr \<lparr>en_name = name, en_uri = uri, en_identity = identity, en_budget = budget, en_depth = depth,
                                en_description = (case dict_get d ''description'' of None \<Rightarrow> [] | Some v \<Rightarrow> py_text v)\<rparr>)))
      | _ \<Rightarrow> Inl RegistryError)"

text \<open>
  What reading the file gives: no PyYAML, no file, no YAML, or a document; \<open>None\<close> when its \<open>corpora\<close> is missing
  or no mapping.
\<close>

datatype registry_file = NoYaml | Unreadable | Malformed | Document "(pyval, pyval) dict option"

fun load_entries :: "(pyval \<Rightarrow> string) \<Rightarrow> (pyval, pyval) dict \<Rightarrow> pithos_error + (string, corpus_entry) dict" where
  "load_entries py_text [] = Inr []"
| "load_entries py_text ((k, raw) # ds) =
     (case entry_from_raw py_text (case k of PStr s \<Rightarrow> s | _ \<Rightarrow> []) raw of
        Inl e \<Rightarrow> Inl e
      | Inr en \<Rightarrow> map_sum id (Cons (en_name en, en)) (load_entries py_text ds))"

definition load_registry :: "(pyval \<Rightarrow> string) \<Rightarrow> registry_file \<Rightarrow> pithos_error + (string, corpus_entry) dict" where
  "load_registry py_text doc =
     (case doc of
        Document (Some ds) \<Rightarrow>
          if ds = [] then Inl RegistryError
          else if list_ex (\<lambda>(k, v). case k of PStr _ \<Rightarrow> False | _ \<Rightarrow> True) ds then Inl RegistryError
          else load_entries py_text ds
      | _ \<Rightarrow> Inl RegistryError)"

definition resolve_corpus :: "(pyval \<Rightarrow> string) \<Rightarrow> registry_file \<Rightarrow> string \<Rightarrow> pithos_error + corpus_entry" where
  "resolve_corpus py_text doc name =
     (case load_registry py_text doc of
        Inl e \<Rightarrow> Inl e
      | Inr ens \<Rightarrow> (case dict_get ens name of None \<Rightarrow> Inl RegistryError | Some en \<Rightarrow> Inr en))"

section \<open>Publications\<close>

definition MAX_MANIFEST_BYTES :: nat where
  "MAX_MANIFEST_BYTES = 64 * 2 ^ 20"

definition MANIFEST_NAME :: string where
  "MANIFEST_NAME = ''manifest.json''"

text \<open>The manifest of a publication: a local path, or a name in the manifest directory of the cache.\<close>

datatype manifest_file = LocalPath string | CachedFile string

record publication =
  pb_manifest_path :: manifest_file
  pb_locators :: "(string, string) dict"

record url = locator +
  ur_fragment :: string
  ur_credentials :: bool

text \<open>
  What the resolution asks of its surroundings: URL and path functions, the JSON parser, the canonical JSON text
  and the hash of a manifest, the content of a local manifest (\<open>None\<close> when it cannot be read), the world of the
  transport, the state of the manifest directory, and what other processes do to it between two of its accesses.
\<close>

record pub_env =
  pe_urlsplit :: "string \<Rightarrow> url option"
  pe_urlunsplit :: "string \<Rightarrow> string \<Rightarrow> string \<Rightarrow> string"
  pe_quote :: "string \<Rightarrow> string"
  pe_url2pathname :: "string \<Rightarrow> string"
  pe_path_name :: "string \<Rightarrow> string"
  pe_join :: "string \<Rightarrow> string \<Rightarrow> string"
  pe_root_of :: "string \<Rightarrow> string"
  pe_cache_root :: string
  pe_json :: "bytes \<Rightarrow> pyval option"
  pe_json_sorted :: "(string, pyval) dict \<Rightarrow> bytes"
  pe_sha256 :: "bytes \<Rightarrow> string"
  pe_read :: "string \<Rightarrow> bytes option"
  pe_world :: world
  pe_dir_usable :: bool
  pe_others :: "nat \<Rightarrow> directory \<Rightarrow> directory"

text \<open>\<open>_read_limited\<close> reads at most one byte more than the limit.\<close>

definition read_limited :: "bytes \<Rightarrow> pithos_error + bytes" where
  "read_limited content = (if MAX_MANIFEST_BYTES < length content then Inl ManifestError else Inr content)"

definition manifest_from_bytes :: "pub_env \<Rightarrow> bytes \<Rightarrow> pithos_error + manifest" where
  "manifest_from_bytes env data =
     (case pe_json env data of None \<Rightarrow> Inl ManifestError | Some v \<Rightarrow> manifest_of (pe_json_sorted env) (pe_sha256 env) v)"

definition cached_name :: "string \<Rightarrow> string" where
  "cached_name identity = identity @ ''.json''"

definition load_cached :: "pub_env \<Rightarrow> directory \<Rightarrow> string \<Rightarrow> pithos_error + manifest option" where
  "load_cached env disk expected_identity =
     (case dict_get disk (cached_name expected_identity) of
        None \<Rightarrow> Inr None
      | Some (Reg content _) \<Rightarrow>
          (case read_limited content of
             Inl e \<Rightarrow> Inl e
           | Inr data \<Rightarrow>
               (case manifest_from_bytes env data of
                  Inl e \<Rightarrow> Inl e
                | Inr m \<Rightarrow> if mf_identity m \<noteq> expected_identity then Inl ManifestError else Inr (Some m)))
      | Some _ \<Rightarrow> Inl ManifestError)"

text \<open>
  \<open>_cache_manifest\<close>: the temporary file is written aside and linked under the name of the identity; the link fails
  when another process was faster.
\<close>

definition cache_manifest :: "pub_env \<Rightarrow> time \<Rightarrow> bytes \<Rightarrow> manifest \<Rightarrow> directory \<Rightarrow> (pithos_error + string) \<times> directory" where
  "cache_manifest env now data m disk =
     (let name = cached_name (mf_identity m)
      in if \<not> pe_dir_usable env then (Inl ManifestError, disk)
         else
           case load_cached env disk (mf_identity m) of
             Inl e \<Rightarrow> (Inl e, disk)
           | Inr (Some _) \<Rightarrow> (Inr name, disk)
           | Inr None \<Rightarrow>
               let disk1 = pe_others env 1 disk
               in if \<not> dict_has disk1 name then (Inr name, dict_set name (Reg data now) disk1)
                  else
                    let disk2 = pe_others env 2 disk1
                    in (case load_cached env disk2 (mf_identity m) of
                          Inl e \<Rightarrow> Inl e
                        | Inr None \<Rightarrow> Inl ManifestError
                        | Inr (Some _) \<Rightarrow> Inr name, disk2))"

fun rstrip_slash :: "string \<Rightarrow> string" where
  "rstrip_slash s = rev (dropWhile (\<lambda>c. c = CHR ''/'') (rev s))"

fun lstrip_slash :: "string \<Rightarrow> string" where
  "lstrip_slash s = dropWhile (\<lambda>c. c = CHR ''/'') s"

text \<open>\<open>_remote_root\<close>: the split URL, the path of the publication and that of its manifest.\<close>

definition remote_root :: "pub_env \<Rightarrow> string \<Rightarrow> pithos_error + url \<times> string \<times> string" where
  "remote_root env corpus_uri =
     (case pe_urlsplit env corpus_uri of
        None \<Rightarrow> Inl ManifestError
      | Some parts \<Rightarrow>
          if ur_fragment parts \<noteq> [] then Inl ManifestError
          else if lc_query parts \<noteq> [] \<and> lower (lc_scheme parts) \<noteq> ''s3'' then Inl ManifestError
          else
            let path = rstrip_slash (lc_path parts);
                root_path = (if ends_with (''/'' @ MANIFEST_NAME) path \<or> path = MANIFEST_NAME
                             then rstrip_slash (take (length path - length MANIFEST_NAME) path) else path);
                manifest_path = root_path @ ''/'' @ MANIFEST_NAME
            in Inr (parts, root_path, manifest_path))"

definition read_local :: "pub_env \<Rightarrow> string \<Rightarrow> string option \<Rightarrow> pithos_error + publication" where
  "read_local env manifest_path expected =
     (case pe_read env manifest_path of
        None \<Rightarrow> Inl ManifestError
      | Some content \<Rightarrow>
          (case read_limited content of
             Inl e \<Rightarrow> Inl e
           | Inr data \<Rightarrow>
               (case manifest_from_bytes env data of
                  Inl e \<Rightarrow> Inl e
                | Inr m \<Rightarrow>
                    if (case expected of None \<Rightarrow> False | Some i \<Rightarrow> mf_identity m \<noteq> i) then Inl ManifestError
                    else
                      let root = pe_root_of env manifest_path
                      in Inr \<lparr>pb_manifest_path = LocalPath manifest_path,
                              pb_locators = (if root = pe_cache_root env then []
                                else map (\<lambda>n. (n, pe_join env root n)) (mf_chunk_names m))\<rparr>)))"

definition local_publication :: "pub_env \<Rightarrow> string \<Rightarrow> string option \<Rightarrow> pithos_error + publication" where
  "local_publication env corpus_uri expected =
     (case pe_urlsplit env corpus_uri of
        None \<Rightarrow> Inl (PyError ValueError)
      | Some parts \<Rightarrow>
          let is_file = lower (lc_scheme parts) = ''file''
          in if is_file \<and> (lc_netloc parts \<notin> {[], ''localhost''} \<or> lc_query parts \<noteq> [] \<or> ur_fragment parts \<noteq> []) then Inl ManifestError
             else
               let candidate = (if is_file then pe_url2pathname env (lc_path parts) else corpus_uri)
               in read_local env (if pe_path_name env candidate = MANIFEST_NAME then candidate else pe_join env candidate MANIFEST_NAME)
                    expected)"

text \<open>The locator of a chunk and that of the manifest at a remote publication.\<close>

definition remote_locators :: "pub_env \<Rightarrow> url \<Rightarrow> string \<Rightarrow> string \<Rightarrow> pithos_error + (string \<Rightarrow> string) \<times> string" where
  "remote_locators env parts root_path manifest_path =
     (if lc_scheme parts \<in> {''http'', ''https''} then
        if lc_netloc parts = [] \<or> ur_credentials parts then Inl ManifestError
        else
          let root_uri = pe_urlunsplit env (lc_scheme parts) (lc_netloc parts) root_path
          in Inr (\<lambda>n. root_uri @ ''/'' @ pe_quote env n, pe_urlunsplit env (lc_scheme parts) (lc_netloc parts) manifest_path)
      else
        let bucket = lc_netloc parts; query = lc_query parts
        in if bucket = [] \<or> CHR ''@'' \<in> set bucket then Inl ManifestError
           else
             case s3_locator_params (wd_parse_qs (pe_world env)) query of
               Inl _ \<Rightarrow> Inl ManifestError
             | Inr _ \<Rightarrow>
                 let prefix = lstrip_slash root_path; suffix = (if query \<noteq> [] then ''?'' @ query else []);
                     base = ''s3://'' @ bucket @ ''/''
                 in Inr (\<lambda>n. base @ (if prefix \<noteq> [] then prefix @ ''/'' else []) @ n @ suffix,
                         base @ lstrip_slash manifest_path @ suffix))"

text \<open>The transfer of the manifest may also fail with an exception of its own (see \<open>read_small\<close>).\<close>

datatype publication_error = PubError pithos_error | Escapes small_error

definition fetch_manifest :: "pub_env \<Rightarrow> time \<Rightarrow> (string \<Rightarrow> string) \<Rightarrow> string \<Rightarrow> string option \<Rightarrow> directory
    \<Rightarrow> (publication_error + publication) \<times> directory" where
  "fetch_manifest env now locator manifest_locator expected disk =
     (case read_small (pe_world env) manifest_locator MAX_MANIFEST_BYTES of
        Inl SmallDownload \<Rightarrow> (Inl (PubError DownloadError), disk)
      | Inl e \<Rightarrow> (Inl (Escapes e), disk)
      | Inr raw \<Rightarrow>
          (case manifest_from_bytes env raw of
             Inl e \<Rightarrow> (Inl (PubError e), disk)
           | Inr m \<Rightarrow>
               if (case expected of None \<Rightarrow> False | Some i \<Rightarrow> mf_identity m \<noteq> i) then (Inl (PubError ManifestError), disk)
               else
                 case cache_manifest env now raw m disk of
                   (Inl e, disk1) \<Rightarrow> (Inl (PubError e), disk1)
                 | (Inr path, disk1) \<Rightarrow>
                     (Inr \<lparr>pb_manifest_path = CachedFile path, pb_locators = map (\<lambda>n. (n, locator n)) (mf_chunk_names m)\<rparr>, disk1)))"

text \<open>The resolution after the checks of its arguments.\<close>

definition resolve_checked :: "pub_env \<Rightarrow> time \<Rightarrow> string \<Rightarrow> string option \<Rightarrow> directory \<Rightarrow> (publication_error + publication) \<times> directory" where
  "resolve_checked env now uri expected disk =
     (case pe_urlsplit env uri of
        None \<Rightarrow> (Inl (PubError ManifestError), disk)
      | Some split \<Rightarrow>
          let scheme = lower (lc_scheme split)
          in if scheme \<notin> {[], ''file'', ''http'', ''https'', ''s3''} then (Inl (PubError ManifestError), disk)
             else if scheme \<in> {[], ''file''} then (map_sum PubError id (local_publication env uri expected), disk)
             else
               case remote_root env uri of
                 Inl e \<Rightarrow> (Inl (PubError e), disk)
               | Inr (parts, root_path, manifest_path) \<Rightarrow>
                   (case remote_locators env parts root_path manifest_path of
                      Inl e \<Rightarrow> (Inl (PubError e), disk)
                    | Inr (locator, manifest_locator) \<Rightarrow>
                        (case (case expected of None \<Rightarrow> Inr None | Some i \<Rightarrow> load_cached env disk i) of
                           Inl e \<Rightarrow> (Inl (PubError e), disk)
                         | Inr (Some cached) \<Rightarrow>
                             (Inr \<lparr>pb_manifest_path = CachedFile (cached_name (mf_identity cached)),
                                   pb_locators = map (\<lambda>n. (n, locator n)) (mf_chunk_names cached)\<rparr>, disk)
                         | Inr None \<Rightarrow> fetch_manifest env now locator manifest_locator expected disk)))"

definition resolve_publication :: "pub_env \<Rightarrow> time \<Rightarrow> pyval \<Rightarrow> pyval \<Rightarrow> directory \<Rightarrow> (publication_error + publication) \<times> directory" where
  "resolve_publication env now corpus_uri expected_identity disk =
     (case (corpus_uri, expected_identity) of
        (PStr uri, PNone) \<Rightarrow> if uri = [] then (Inl (PubError ManifestError), disk) else resolve_checked env now uri None disk
      | (PStr uri, PStr i) \<Rightarrow>
          if uri = [] \<or> \<not> is_hex64 i then (Inl (PubError ManifestError), disk) else resolve_checked env now uri (Some i) disk
      | _ \<Rightarrow> (Inl (PubError ManifestError), disk))"

section \<open>Opening a corpus by URI or name\<close>

fun manifest_content :: "pub_env \<Rightarrow> directory \<Rightarrow> manifest_file \<Rightarrow> bytes option" where
  "manifest_content env disk (LocalPath p) = pe_read env p"
| "manifest_content env disk (CachedFile n) = (case dict_get disk n of Some (Reg b _) \<Rightarrow> Some b | _ \<Rightarrow> None)"

text \<open>\<open>Manifest.load\<close>.\<close>

definition manifest_load :: "pub_env \<Rightarrow> directory \<Rightarrow> manifest_file \<Rightarrow> pithos_error + manifest" where
  "manifest_load env disk p =
     (case manifest_content env disk p of
        None \<Rightarrow> Inl OSError
      | Some b \<Rightarrow>
          (case pe_json env b of None \<Rightarrow> Inl (PyError ValueError) | Some v \<Rightarrow> manifest_of (pe_json_sorted env) (pe_sha256 env) v))"

text \<open>\<open>Corpus.from_uri\<close>; \<open>disk\<close> is the manifest directory, \<open>chunks\<close> the cache directory.\<close>

definition corpus_from_uri :: "pub_env \<Rightarrow> time \<Rightarrow> pyval \<Rightarrow> pyval \<Rightarrow> pyval \<Rightarrow> cache_config \<Rightarrow> pyval \<Rightarrow> directory \<Rightarrow> directory
    \<Rightarrow> (publication_error + io_state corpus) \<times> directory" where
  "corpus_from_uri env now uri seq seed cfg expected disk chunks =
     (case resolve_publication env now uri expected disk of
        (Inl e, disk1) \<Rightarrow> (Inl e, disk1)
      | (Inr pb, disk1) \<Rightarrow>
          (case manifest_load env disk1 (pb_manifest_path pb) of
             Inl e \<Rightarrow> (Inl (PubError e), disk1)
           | Inr m \<Rightarrow>
               (map_sum PubError id (corpus_new m expected (map (\<lambda>(n, u). (n, PStr u)) (pb_locators pb)) seq seed cfg chunks), disk1)))"

definition DEFAULT_BUDGET_BYTES :: nat where
  "DEFAULT_BUDGET_BYTES = 2 ^ 30"

definition DEFAULT_PREFETCH_DEPTH :: nat where
  "DEFAULT_PREFETCH_DEPTH = 2"

text \<open>\<open>Corpus.from_name\<close>.\<close>

definition corpus_from_name :: "pub_env \<Rightarrow> (pyval \<Rightarrow> string) \<Rightarrow> registry_file \<Rightarrow> time \<Rightarrow> string \<Rightarrow> pyval \<Rightarrow> pyval \<Rightarrow> directory \<Rightarrow> directory
    \<Rightarrow> (publication_error + io_state corpus) \<times> directory" where
  "corpus_from_name env py_text doc now name seq seed disk chunks =
     (case resolve_corpus py_text doc name of
        Inl e \<Rightarrow> (Inl (PubError e), disk)
      | Inr en \<Rightarrow>
          (case en_uri en of
             None \<Rightarrow> (Inl (PubError CacheError), disk)
           | Some u \<Rightarrow>
               (case cache_config_of (PInt (int (case en_budget en of None \<Rightarrow> DEFAULT_BUDGET_BYTES | Some b \<Rightarrow> b)))
                       (PInt (int (case en_depth en of None \<Rightarrow> DEFAULT_PREFETCH_DEPTH | Some d \<Rightarrow> d))) of
                  Inl e \<Rightarrow> (Inl (PubError e), disk)
                | Inr cfg \<Rightarrow>
                    corpus_from_uri env now (PStr u) seq seed cfg (case en_identity en of None \<Rightarrow> PNone | Some i \<Rightarrow> PStr i) disk chunks)))"

section \<open>Correctness\<close>

text \<open>
  A publication vouches for a manifest: the bytes at its path are read as it, and its locators name the chunks of a
  manifest of the same identity.
\<close>

definition publishes :: "pub_env \<Rightarrow> directory \<Rightarrow> publication \<Rightarrow> string \<Rightarrow> bool" where
  "publishes env disk pb i \<longleftrightarrow>
     (\<exists>b m. manifest_content env disk (pb_manifest_path pb) = Some b \<and> manifest_from_bytes env b = Inr m \<and> mf_identity m = i)
     \<and> (pb_locators pb = [] \<or> (\<exists>b m. manifest_from_bytes env b = Inr m \<and> mf_identity m = i \<and> map fst (pb_locators pb) = mf_chunk_names m))"

lemma load_cached_Some:
  assumes "load_cached env disk i = Inr (Some m)"
  shows "\<exists>b t. dict_get disk (cached_name i) = Some (Reg b t) \<and> manifest_from_bytes env b = Inr m \<and> mf_identity m = i"
  using assms by (auto simp: load_cached_def read_limited_def split: option.splits dentry.splits sum.splits if_splits)

lemma map_fst_locators [simp]: "map (fst \<circ> (\<lambda>n. (n, f n))) ns = ns"
  by (simp add: comp_def)

text \<open>Other processes link manifests under their identity and unlink nothing.\<close>

definition others_ok :: "pub_env \<Rightarrow> bool" where
  "others_ok env \<longleftrightarrow> (\<forall>n d k v. dict_get d k = Some v \<longrightarrow> dict_get (pe_others env n d) k = Some v)"

lemma cache_manifest_law:
  assumes "cache_manifest env now data m disk = (r, disk')" and "manifest_from_bytes env data = Inr m" and "others_ok env"
  shows "(\<forall>k v. dict_get disk k = Some v \<longrightarrow> dict_get disk' k = Some v)
    \<and> (\<forall>p. r = Inr p \<longrightarrow> p = cached_name (mf_identity m)
         \<and> (\<exists>b m' t. dict_get disk' p = Some (Reg b t) \<and> manifest_from_bytes env b = Inr m' \<and> mf_identity m' = mf_identity m))"
proof -
  let ?n = "cached_name (mf_identity m)"
  have kept: "dict_get d k = Some v \<Longrightarrow> dict_get (pe_others env n d) k = Some v" for n d k v
    using assms(3) by (simp add: others_ok_def)
  have hit: "load_cached env d (mf_identity m) = Inr (Some x) \<Longrightarrow>
      \<exists>b m' t. dict_get d ?n = Some (Reg b t) \<and> manifest_from_bytes env b = Inr m' \<and> mf_identity m' = mf_identity m" for d x
    using load_cached_Some by blast
  show ?thesis
  proof (cases "pe_dir_usable env \<and> load_cached env disk (mf_identity m) = Inr None")
    case False
    then have "disk' = disk \<and> (r = Inr ?n \<and> (\<exists>x. load_cached env disk (mf_identity m) = Inr (Some x)) \<or> (\<exists>e. r = Inl e))"
      using assms(1) by (auto simp: cache_manifest_def Let_def split: if_splits sum.splits option.splits)
    then show ?thesis using hit by fastforce
  next
    case True
    let ?d1 = "pe_others env 1 disk"
    show ?thesis
    proof (cases "dict_has ?d1 ?n")
      case False
      then have "r = Inr ?n" "disk' = dict_set ?n (Reg data now) ?d1" using assms(1) True by (auto simp: cache_manifest_def Let_def)
      then show ?thesis using False kept [of disk _ _ 1] assms(2) by (auto simp: dict_has_iff)
    next
      case raced: True
      let ?d2 = "pe_others env 2 ?d1"
      have d: "disk' = ?d2" using assms(1) True raced by (auto simp: cache_manifest_def Let_def)
      have "r = Inr ?n \<and> (\<exists>x. load_cached env ?d2 (mf_identity m) = Inr (Some x)) \<or> (\<exists>e. r = Inl e)"
        using assms(1) True raced by (cases "load_cached env ?d2 (mf_identity m)") (auto simp: cache_manifest_def Let_def split: option.splits)
      then show ?thesis using hit kept d by fastforce
    qed
  qed
qed

lemma publishesI:
  assumes "manifest_content env disk (pb_manifest_path pb) = Some b" and "manifest_from_bytes env b = Inr m" and "mf_identity m = i"
    and "pb_locators pb = [] \<or> (manifest_from_bytes env b' = Inr m' \<and> mf_identity m' = i \<and> map fst (pb_locators pb) = mf_chunk_names m')"
  shows "publishes env disk pb i"
  using assms unfolding publishes_def by blast

lemma read_local_law:
  assumes "read_local env p expected = Inr pb"
  shows "\<exists>i. publishes env disk pb i \<and> (\<forall>j. expected = Some j \<longrightarrow> j = i)"
proof -
  obtain content m where f: "pe_read env p = Some content" "manifest_from_bytes env content = Inr m"
      "\<not> (case expected of None \<Rightarrow> False | Some i \<Rightarrow> mf_identity m \<noteq> i)"
    using assms by (auto simp: read_local_def read_limited_def split: option.splits if_splits sum.splits)
  then have "pb_manifest_path pb = LocalPath p \<and> (pb_locators pb = [] \<or> map fst (pb_locators pb) = mf_chunk_names m)"
    using assms by (auto simp: read_local_def read_limited_def Let_def comp_def split: if_splits)
  then have "publishes env disk pb (mf_identity m)"
    using f by (intro publishesI [of env disk pb content m _ content m]) auto
  then show ?thesis using f(3) by (auto split: option.splits)
qed

lemma local_publication_law:
  assumes "local_publication env u expected = Inr pb"
  shows "\<exists>i. publishes env disk pb i \<and> (\<forall>j. expected = Some j \<longrightarrow> j = i)"
proof -
  obtain p where "read_local env p expected = Inr pb"
    using assms unfolding local_publication_def Let_def by (auto split: option.splits if_splits simp del: map_map)
  then show ?thesis by (rule read_local_law)
qed

lemma fetch_manifest_law:
  assumes "fetch_manifest env now loc ml expected disk = (r, disk')" and "others_ok env"
  shows "(\<forall>k v. dict_get disk k = Some v \<longrightarrow> dict_get disk' k = Some v)
    \<and> (\<forall>pb. r = Inr pb \<longrightarrow> (\<exists>i. publishes env disk' pb i \<and> (\<forall>j. expected = Some j \<longrightarrow> j = i)))"
proof (cases "read_small (pe_world env) ml MAX_MANIFEST_BYTES")
  case (Inl e)
  then have "disk' = disk \<and> (\<exists>e. r = Inl e)" using assms(1) by (cases e) (auto simp: fetch_manifest_def)
  then show ?thesis by auto
next
  case raw: (Inr raw)
  show ?thesis
  proof (cases "manifest_from_bytes env raw")
    case (Inl e)
    then have "disk' = disk \<and> (\<exists>e. r = Inl e)" using assms(1) raw by (auto simp: fetch_manifest_def)
    then show ?thesis by auto
  next
    case m: (Inr m)
    obtain r1 d1 where c: "cache_manifest env now raw m disk = (r1, d1)" by fastforce
    note law = cache_manifest_law [OF c m assms(2)]
    show ?thesis
    proof (cases "case expected of None \<Rightarrow> False | Some i \<Rightarrow> mf_identity m \<noteq> i")
      case True
      then have "disk' = disk \<and> (\<exists>e. r = Inl e)" using assms(1) raw m by (auto simp: fetch_manifest_def)
      then show ?thesis by auto
    next
      case pinned: False
      show ?thesis
      proof (cases r1)
        case (Inl e)
        then have "disk' = d1 \<and> (\<exists>e. r = Inl e)" using assms(1) raw m pinned c by (auto simp: fetch_manifest_def)
        then show ?thesis using law by auto
      next
        case (Inr path)
        let ?pb = "\<lparr>pb_manifest_path = CachedFile path, pb_locators = map (\<lambda>n. (n, loc n)) (mf_chunk_names m)\<rparr>"
        have r: "r = Inr ?pb" "disk' = d1" using assms(1) raw m pinned c Inr by (auto simp: fetch_manifest_def)
        obtain b m' t where g: "dict_get d1 path = Some (Reg b t)" "manifest_from_bytes env b = Inr m'" "mf_identity m' = mf_identity m"
          using law Inr by blast
        have "publishes env disk' ?pb (mf_identity m)"
          using r g m by (intro publishesI [of env disk' ?pb b m' _ raw m]) auto
        then show ?thesis using law r pinned by (auto split: option.splits)
      qed
    qed
  qed
qed

lemma resolve_checked_law:
  assumes "resolve_checked env now u expected disk = (r, disk')" and "others_ok env"
  shows "(\<forall>k v. dict_get disk k = Some v \<longrightarrow> dict_get disk' k = Some v)
    \<and> (\<forall>pb. r = Inr pb \<longrightarrow> (\<exists>i. publishes env disk' pb i \<and> (\<forall>j. expected = Some j \<longrightarrow> j = i)))"
proof -
  consider (failed) e where "disk' = disk" "r = Inl e"
    | (local) "disk' = disk" "r = map_sum PubError id (local_publication env u expected)"
    | (cached) i m loc where "disk' = disk" "expected = Some i" "load_cached env disk i = Inr (Some m)"
        "r = Inr \<lparr>pb_manifest_path = CachedFile (cached_name (mf_identity m)), pb_locators = map (\<lambda>n. (n, loc n)) (mf_chunk_names m)\<rparr>"
    | (fetched) loc ml where "fetch_manifest env now loc ml expected disk = (r, disk')"
    using assms(1) by (auto simp: resolve_checked_def Let_def split: option.splits if_splits sum.splits prod.splits)
  then show ?thesis
  proof cases
    case local
    then show ?thesis using local_publication_law [of env u expected _ disk]
      by (cases "local_publication env u expected") auto
  next
    case cached
    then obtain b t where b: "dict_get disk (cached_name i) = Some (Reg b t)" "manifest_from_bytes env b = Inr m" "mf_identity m = i"
      using load_cached_Some by blast
    then have "publishes env disk' pb i" if "r = Inr pb" for pb
      using cached that by (intro publishesI [of env disk' pb b m _ b m]) auto
    then show ?thesis using cached by auto
  qed (use fetch_manifest_law assms(2) in auto)
qed

lemma resolve_publication_law:
  assumes "resolve_publication env now uri expected disk = (r, disk')" and "others_ok env"
  shows "(\<forall>k v. dict_get disk k = Some v \<longrightarrow> dict_get disk' k = Some v)
    \<and> (\<forall>pb. r = Inr pb \<longrightarrow> (\<exists>i. publishes env disk' pb i \<and> (\<forall>j. expected = PStr j \<longrightarrow> j = i)))"
proof -
  consider (failed) e where "disk' = disk" "r = Inl e"
    | (any) u where "expected = PNone" "resolve_checked env now u None disk = (r, disk')"
    | (pinned) u i where "expected = PStr i" "resolve_checked env now u (Some i) disk = (r, disk')"
    using assms(1) by (auto simp: resolve_publication_def split: pyval.splits if_splits)
  then show ?thesis
  proof cases
    case any
    then show ?thesis using resolve_checked_law [OF any(2) assms(2)] by auto
  next
    case pinned
    then show ?thesis using resolve_checked_law [OF pinned(2) assms(2)] by auto
  qed auto
qed

lemma corpus_new_identity:
  assumes "corpus_new m expected locs seq seed cfg chunks = Inr C"
  shows "cp_manifest C = m \<and> (\<forall>i. expected = PStr i \<longrightarrow> mf_identity m = i)"
  using assms by (auto simp: corpus_new_def Let_def split: if_splits sum.splits option.splits pyval.splits)

lemma manifest_load_read: "manifest_load env disk p = Inr m \<Longrightarrow> \<exists>b. manifest_content env disk p = Some b \<and> manifest_from_bytes env b = Inr m"
  by (auto simp: manifest_load_def manifest_from_bytes_def split: option.splits)

lemma corpus_from_uri_law:
  assumes "corpus_from_uri env now uri seq seed cfg expected disk chunks = (r, disk')" and "others_ok env"
  shows "(\<forall>k v. dict_get disk k = Some v \<longrightarrow> dict_get disk' k = Some v)
    \<and> (\<forall>C. r = Inr C \<longrightarrow> (\<exists>pb b. publishes env disk' pb (mf_identity (cp_manifest C))
         \<and> manifest_content env disk' (pb_manifest_path pb) = Some b \<and> manifest_from_bytes env b = Inr (cp_manifest C)
         \<and> (\<forall>i. expected = PStr i \<longrightarrow> mf_identity (cp_manifest C) = i)))"
proof -
  obtain r1 d1 where p: "resolve_publication env now uri expected disk = (r1, d1)" by fastforce
  note law = resolve_publication_law [OF p assms(2)]
  show ?thesis
  proof (cases r1)
    case (Inl e)
    then show ?thesis using assms(1) p law by (auto simp: corpus_from_uri_def)
  next
    case r1: (Inr pb)
    show ?thesis
    proof (cases "manifest_load env d1 (pb_manifest_path pb)")
      case (Inl e)
      then show ?thesis using assms(1) p law r1 by (auto simp: corpus_from_uri_def)
    next
      case m: (Inr m)
      let ?new = "corpus_new m expected (map (\<lambda>(n, u). (n, PStr u)) (pb_locators pb)) seq seed cfg chunks"
      have d: "disk' = d1" "r = map_sum PubError id ?new" using assms(1) p r1 m by (auto simp: corpus_from_uri_def)
      obtain b where b: "manifest_content env d1 (pb_manifest_path pb) = Some b" "manifest_from_bytes env b = Inr m"
        using manifest_load_read [OF m] by blast
      obtain i where i: "publishes env d1 pb i" using law r1 by blast
      have "i = mf_identity m" using i b by (auto simp: publishes_def)
      then have i: "publishes env d1 pb (mf_identity m)" using i by simp
      show ?thesis
      proof (cases ?new)
        case (Inr C)
        note n = corpus_new_identity [OF Inr]
        then show ?thesis using d law b i Inr by auto
      qed (use d law in auto)
    qed
  qed
qed

lemma entry_named:
  assumes "entry_from_raw py_text name raw = Inr en"
  shows "en_name en = name"
    and "\<forall>u. en_uri en = Some u \<and> lower (uri_scheme u) \<in> {''http'', ''https'', ''s3''} \<longrightarrow> en_identity en \<noteq> None"
    and "\<forall>i. en_identity en = Some i \<longrightarrow> is_hex64 i"
proof -
  obtain d uri identity rd where f: "raw = PDict d" "entry_uri d = Inr uri" "entry_identity d uri = Inr identity" "entry_reader d = Inr rd"
      "en_name en = name" "en_uri en = uri" "en_identity en = identity"
    using assms by (auto simp: entry_from_raw_def split: pyval.splits if_splits sum.splits)
  then show "en_name en = name" by simp
  show "\<forall>u. en_uri en = Some u \<and> lower (uri_scheme u) \<in> {''http'', ''https'', ''s3''} \<longrightarrow> en_identity en \<noteq> None"
    "\<forall>i. en_identity en = Some i \<longrightarrow> is_hex64 i"
    using f(3,6,7) by (auto simp: entry_identity_def split: option.splits pyval.splits if_splits dest: sym)
qed

lemma load_entries_get:
  "load_entries py_text ds = Inr ens \<Longrightarrow> dict_get ens name = Some en \<Longrightarrow> \<exists>raw. entry_from_raw py_text name raw = Inr en"
proof (induction py_text ds arbitrary: ens rule: load_entries.induct)
  case (2 py_text k raw ds)
  then obtain e1 rest where e: "entry_from_raw py_text (case k of PStr s \<Rightarrow> s | _ \<Rightarrow> []) raw = Inr e1"
      "load_entries py_text ds = Inr rest" "ens = (en_name e1, e1) # rest"
    by (cases "load_entries py_text ds") (auto split: sum.splits)
  show ?case
  proof (cases "name = en_name e1")
    case True
    then show ?thesis using e 2(3) entry_named(1) [OF e(1)] by auto
  next
    case False
    then show ?thesis using 2(1) [OF e(1,2)] 2(3) e(3) by simp
  qed
qed simp

lemma resolve_corpus_entry:
  "resolve_corpus py_text doc name = Inr en \<Longrightarrow> \<exists>raw. entry_from_raw py_text name raw = Inr en"
  by (auto simp: resolve_corpus_def load_registry_def intro: load_entries_get
      split: sum.splits option.splits registry_file.splits if_splits)

section \<open>Properties\<close>


section \<open>Witness\<close>

definition rg_hex :: string where
  "rg_hex = replicate 64 (CHR ''0'')"

definition rg_manifest :: pyval where
  "rg_manifest = PDict [(''format'', PStr LEGACY_STREAM_V1), (''dtype'', PStr ''int32''), (''eos_id'', PInt 0), (''chunk_tokens'', PInt 2),
     (''chunks'', PList [PDict [(''name'', PStr ''c0''), (''tokens'', PInt 3), (''sha256'', PStr rg_hex)]]),
     (''manifest_sha256'', PStr rg_hex)]"

definition rg_env :: pub_env where
  "rg_env = \<lparr>pe_urlsplit = (\<lambda>u. Some \<lparr>lc_scheme = [], lc_netloc = [], lc_path = u, lc_query = [], ur_fragment = [], ur_credentials = False\<rparr>),
     pe_urlunsplit = (\<lambda>s n p. p), pe_quote = id, pe_url2pathname = id, pe_path_name = (\<lambda>p. p), pe_join = (\<lambda>a b. a @ ''/'' @ b),
     pe_root_of = (\<lambda>p. ''/c''), pe_cache_root = ''/c'', pe_json = (\<lambda>b. Some rg_manifest), pe_json_sorted = (\<lambda>d. []),
     pe_sha256 = (\<lambda>b. rg_hex), pe_read = (\<lambda>p. Some []),
     pe_world = \<lparr>wd_urlsplit = (\<lambda>u. None), wd_server = (\<lambda>n rq. NetError), wd_parse_qs = (\<lambda>q. []), wd_sdk = (\<lambda>n ps b k. NoBoto3), wd_file = NoFile\<rparr>,
     pe_dir_usable = True, pe_others = (\<lambda>n d. d)\<rparr>"

definition rg_doc :: registry_file where
  "rg_doc = Document (Some [(PStr ''c'', PDict [(''uri'', PStr ''/c''), (''manifest_identity'', PStr rg_hex)])])"

lemma rg_manifest_of:
  "manifest_of (\<lambda>d. []) (\<lambda>b. rg_hex) rg_manifest = Inr \<lparr>mf_format = LEGACY_STREAM_V1, mf_eos_id = 0, mf_chunk_tokens = 2,
     mf_chunks = [\<lparr>ci_name = ''c0'', ci_tokens = 3, ci_sha256 = rg_hex\<rparr>], mf_identity = rg_hex\<rparr>"
proof -
  have "is_hex64 rg_hex" by (simp add: is_hex64_def rg_hex_def list_all_iff hex_chars_def)
  moreover have "validate_chunk_name (Some (PStr ''c0'')) = Inr ''c0''" by code_simp
  ultimately show ?thesis
    by (simp add: manifest_of_def rg_manifest_def manifest_head_def KNOWN_FORMATS_def wanted_dtype_def bad_pithos_geometry_def
        LEGACY_STREAM_V1_def PITHOS_STREAM_V1_def chunk_entry_def chunk_geometry_ok_def manifest_sha256_def Let_def)
qed


end
