(* ===== verification/PithosCacheProps.thy ===== *)
theory PithosCacheProps
  imports PithosCache
begin

text \<open>
  Properties of the chunk cache: what \<open>get\<close> returns is verified, the managed bytes of a leasing cache stay
  within the budget up to one oversized chunk, the mapped bytes are accounted, and a cache without URLs
  never changes the directory.
\<close>

section \<open>Directories\<close>

lemma fold_dict_del: "fold dict_del ks d = filter (\<lambda>x. fst x \<notin> set ks) d"
proof (induction ks arbitrary: d)
  case (Cons k ks)
  have "dict_del k d = filter (\<lambda>x. fst x \<noteq> k) d" by (auto simp: dict_del_def AList.delete_eq intro!: filter_cong)
  with Cons show ?case by (auto intro!: filter_cong)
qed simp

lemma delete_quiet_ok [intro]: "dict_ok d \<Longrightarrow> dict_ok (delete_quiet k d)"
  by (simp add: delete_quiet_def)

text \<open>The regular files of \<open>d'\<close> are files of \<open>d\<close> with the same content.\<close>

definition shrinks :: "directory \<Rightarrow> directory \<Rightarrow> bool" where
  "shrinks d' d \<longleftrightarrow> (\<forall>e c t. dict_get d' e = Some (Reg c t) \<longrightarrow> (\<exists>t'. dict_get d e = Some (Reg c t')))"

lemma shrinks_refl [simp, intro]: "shrinks d d"
  by (auto simp: shrinks_def)

lemma shrinks_trans: "shrinks d2 d1 \<Longrightarrow> shrinks d1 d0 \<Longrightarrow> shrinks d2 d0"
  unfolding shrinks_def by blast

lemma shrinks_del [intro]: "shrinks (dict_del k d) d" "shrinks (delete_quiet k d) d"
  by (auto simp: shrinks_def delete_quiet_def)

section \<open>The scan\<close>

fun group_of :: "chunk_cache \<Rightarrow> string \<Rightarrow> directory \<Rightarrow> (string, nat \<times> time) dict" where
  "group_of s name [] = []"
| "group_of s name ((e, Reg c t) # ds) =
     (if entry_chunk s e = Some name then (e, (length c, t)) # group_of s name ds else group_of s name ds)"
| "group_of s name (d # ds) = group_of s name ds"

lemma group_of_append: "group_of s name (ds @ es) = group_of s name ds @ group_of s name es"
  by (induction s name ds rule: group_of.induct) auto

lemma group_of_mem:
  "(e, n, t) \<in> set (group_of s name ds) \<longleftrightarrow> (\<exists>c. (e, Reg c t) \<in> set ds \<and> n = length c \<and> entry_chunk s e = Some name)"
  by (induction s name ds rule: group_of.induct) auto

lemma scan_get:
  "dict_ok ds \<Longrightarrow> dict_get (foldl (scan_add s) [] ds) name = (if group_of s name ds = [] then None else Some (group_of s name ds))"
proof (induction ds arbitrary: name rule: rev_induct)
  case (snoc x ds)
  obtain e d where x: "x = (e, d)" by (cases x)
  note IH = snoc.IH
  have ok: "dict_ok ds" and new: "e \<notin> fst ` set ds" using snoc.prems x by auto
  show ?case
  proof (cases d)
    case (Reg c t)
    have fresh: "\<not> dict_has (group_of s n ds) e" for n
      using new group_of_mem [of e _ _ s n ds] by (auto simp: image_iff) force
    show ?thesis
    proof (cases "entry_chunk s e")
      case None
      then show ?thesis using IH ok x Reg by (simp add: group_of_append)
    next
      case (Some n)
      have "(case dict_get (foldl (scan_add s) [] ds) n of None \<Rightarrow> [] | Some m \<Rightarrow> m) = group_of s n ds"
        using IH [OF ok, of n] by simp
      then show ?thesis using IH [OF ok, of name] x Reg Some dict_set_new [OF fresh [of n]] by (simp add: group_of_append)
    qed
  qed (use IH ok x in \<open>simp_all add: group_of_append\<close>)
qed simp

text \<open>The bytes an entry contributes.\<close>

definition entry_bytes :: "chunk_cache \<Rightarrow> directory \<Rightarrow> string \<Rightarrow> nat" where
  "entry_bytes s d e = (case dict_get d e of
     Some (Reg c t) \<Rightarrow> if entry_chunk s e = None then 0 else length c | _ \<Rightarrow> 0)"

definition disk_bytes :: "chunk_cache \<Rightarrow> directory \<Rightarrow> nat" where
  "disk_bytes s d = sum (entry_bytes s d) (fst ` set d)"

lemma sum_dict_set:
  "sum_list (map f (dict_set k v d)) + (case dict_get d k of None \<Rightarrow> 0 | Some v0 \<Rightarrow> f (k, v0)) = sum_list (map f d) + (f (k, v) :: nat)"
  unfolding dict_set_def by (induction d) auto

lemma scan_bytes:
  "dict_ok ds \<Longrightarrow> groups_bytes (foldl (scan_add s) [] ds) = disk_bytes s ds"
proof (induction ds rule: rev_induct)
  case (snoc x ds)
  obtain e d where x: "x = (e, d)" by (cases x)
  have ok: "dict_ok ds" and new: "e \<notin> fst ` set ds" using snoc.prems x by auto
  have old: "entry_bytes s (ds @ [x]) e' = entry_bytes s ds e'" if "e' \<in> fst ` set ds" for e'
    using that new x by (auto simp: entry_bytes_def map_add_def dict_has_iff [symmetric] split: option.split)
  have "sum (entry_bytes s (ds @ [x])) (fst ` set ds) = disk_bytes s ds"
    unfolding disk_bytes_def by (rule sum.cong) (use old in auto)
  moreover have "entry_bytes s (ds @ [x]) e = entry_bytes s [x] e"
    using new x by (simp add: entry_bytes_def map_add_def dict_has_iff split: option.split)
  ultimately have sum: "disk_bytes s (ds @ [x]) = entry_bytes s [x] e + disk_bytes s ds"
    using new x by (simp add: disk_bytes_def)
  let ?g = "foldl (scan_add s) [] ds"
  show ?case
  proof (cases d)
    case (Reg c t)
    show ?thesis
    proof (cases "entry_chunk s e")
      case None
      then show ?thesis using snoc.IH ok x Reg sum by (simp add: entry_bytes_def)
    next
      case (Some n)
      let ?m = "case dict_get ?g n of None \<Rightarrow> [] | Some m \<Rightarrow> m"
      have m: "?m = group_of s n ds" using scan_get [OF ok, of s n] by simp
      have "\<not> dict_has ?m e" unfolding m using new group_of_mem [of e _ _ s n ds] by (auto simp: image_iff) force
      then have "group_bytes (dict_set e (length c, t) ?m) = group_bytes ?m + length c"
        by (simp add: dict_set_new group_bytes_def)
      moreover have "groups_bytes (dict_set n (dict_set e (length c, t) ?m) ?g) + group_bytes ?m
          = groups_bytes ?g + group_bytes (dict_set e (length c, t) ?m)"
        using sum_dict_set [of "\<lambda>x. group_bytes (snd x)" n "dict_set e (length c, t) ?m" ?g]
        by (simp add: groups_bytes_def group_bytes_def split: option.splits)
      ultimately show ?thesis using snoc.IH ok x Reg Some sum by (simp add: entry_bytes_def)
    qed
  qed (use snoc.IH ok x sum in \<open>simp_all add: entry_bytes_def\<close>)
qed (simp add: disk_bytes_def groups_bytes_def)

lemma managed_bytes_disk: "dict_ok (cc_disk s) \<Longrightarrow> managed_bytes s = disk_bytes s (cc_disk s)"
  by (simp add: managed_bytes_def scan_managed_def scan_bytes)

lemma disk_bytes_mono:
  assumes "shrinks d' d"
  shows "disk_bytes s d' \<le> disk_bytes s d"
proof -
  have le: "entry_bytes s d' e \<le> entry_bytes s d e" for e
    using assms by (fastforce simp: entry_bytes_def shrinks_def split: option.splits dentry.splits)
  have zero: "entry_bytes s d e = 0" if "e \<notin> fst ` set d" for e d
    using that by (simp add: entry_bytes_def dict_has_iff)
  have "sum (entry_bytes s d') (fst ` set d') = sum (entry_bytes s d') (fst ` set d' \<union> fst ` set d)"
    by (rule sum.mono_neutral_left) (use zero in auto)
  also have "\<dots> \<le> sum (entry_bytes s d) (fst ` set d' \<union> fst ` set d)" by (rule sum_mono) (rule le)
  also have "\<dots> = sum (entry_bytes s d) (fst ` set d)"
    by (rule sum.mono_neutral_right) (use zero in auto)
  finally show ?thesis by (simp add: disk_bytes_def)
qed

section \<open>Eviction\<close>

lemma scan_get_managed:
  "dict_ok (cc_disk s) \<Longrightarrow> dict_get (scan_managed s) n = (if group_of s n (cc_disk s) = [] then None else Some (group_of s n (cc_disk s)))"
  by (simp add: scan_managed_def scan_get)

lemma entry_chunk_cong: "cc_expected s' = cc_expected s \<Longrightarrow> entry_chunk s' e = entry_chunk s e"
  by (simp add: entry_chunk_def)

definition victim_of :: "string option \<Rightarrow> chunk_cache \<Rightarrow> string" where
  "victim_of protected s = snd (Min (set (victim_candidates protected (scan_managed s))))"

lemma victim_group:
  assumes ok: "dict_ok (cc_disk s)" and cand: "victim_candidates protected (scan_managed s) \<noteq> []"
  shows "group_of s (victim_of protected s) (cc_disk s) \<noteq> []"
    and "Some (victim_of protected s) \<noteq> protected"
proof -
  have "Min (set (victim_candidates protected (scan_managed s))) \<in> set (victim_candidates protected (scan_managed s))"
    by (rule Min_in) (use cand in auto)
  then obtain m where m: "(victim_of protected s, m) \<in> set (scan_managed s)" "Some (victim_of protected s) \<noteq> protected"
    unfolding victim_of_def by (auto simp: victim_candidates_def)
  then have "dict_get (scan_managed s) (victim_of protected s) \<noteq> None"
    by (metis dict_has_iff fst_conv image_eqI)
  then show "group_of s (victim_of protected s) (cc_disk s) \<noteq> []"
    using scan_get_managed [OF ok] by (metis option.distinct(1))
  show "Some (victim_of protected s) \<noteq> protected" by (rule m(2))
qed

lemma evict_disk:
  assumes "dict_ok (cc_disk s)" and "victim_candidates protected (scan_managed s) \<noteq> []"
  shows "cc_disk (evict_victim protected s)
    = filter (\<lambda>x. fst x \<notin> fst ` set (group_of s (victim_of protected s) (cc_disk s))) (cc_disk s)"
  using victim_group [OF assms]
  by (simp add: evict_victim_def Let_def victim_of_def [symmetric] scan_get_managed [OF assms(1)] fold_dict_del drop_resident_def)

lemma evict_same:
  "cc_expected (evict_victim protected s) = cc_expected s" "cc_budget (evict_victim protected s) = cc_budget s"
  "cc_leased (evict_victim protected s) = cc_leased s" "cc_urls (evict_victim protected s) = cc_urls s"
  "cc_closed (evict_victim protected s) = cc_closed s"
  by (simp_all add: evict_victim_def Let_def drop_resident_def)

lemma map_of_filter_key: "map_of (filter (\<lambda>x. fst x \<notin> K) d) k = (if k \<in> K then None else map_of d k)"
  by (induction d) auto

lemma evict_less:
  assumes "dict_ok (cc_disk s)" and "over_budget protected s"
  shows "length (cc_disk (evict_victim protected s)) < length (cc_disk s)"
    and "dict_ok (cc_disk (evict_victim protected s))" and "shrinks (cc_disk (evict_victim protected s)) (cc_disk s)"
proof -
  have cand: "victim_candidates protected (scan_managed s) \<noteq> []" using assms(2) by (simp add: over_budget_def Let_def)
  note disk = evict_disk [OF assms(1) cand]
  obtain x where x: "x \<in> set (group_of s (victim_of protected s) (cc_disk s))"
    using victim_group(1) [OF assms(1) cand] by (meson list.set_sel(1))
  obtain e n t where x': "x = (e, n, t)" by (cases x)
  obtain c where "(e, Reg c t) \<in> set (cc_disk s)" using x group_of_mem [of e n t s] unfolding x' by blast
  then show "length (cc_disk (evict_victim protected s)) < length (cc_disk s)"
    unfolding disk using x x' by (intro length_filter_less [of "(e, Reg c t)"]) force+
  show "dict_ok (cc_disk (evict_victim protected s))"
    unfolding disk using assms(1) by (simp add: distinct_map_filter)
  show "shrinks (cc_disk (evict_victim protected s)) (cc_disk s)"
    unfolding disk shrinks_def by (auto simp: map_of_filter_key split: if_splits)
qed

interpretation ev: eviction "over_budget protected" "evict_victim protected" "\<lambda>s. length (cc_disk s)" "\<lambda>s. dict_ok (cc_disk s)"
  for protected
  by unfold_locales (use evict_less in auto)

section \<open>The invariant\<close>

definition resident_sum :: "chunk_cache \<Rightarrow> int" where
  "resident_sum s = sum_list (map (\<lambda>x. int (expected_size s (fst x))) (cc_resident s))"

definition cc_inv :: "cache_env \<Rightarrow> chunk_cache \<Rightarrow> bool" where
  "cc_inv env s \<longleftrightarrow> dict_ok (cc_disk s) \<and> dict_ok (cc_resident s) \<and> cc_resident_bytes s = resident_sum s
     \<and> (\<forall>n mm. dict_get (cc_resident s) n = Some mm \<longrightarrow>
          (\<exists>info. dict_get (cc_expected s) n = Some info \<and> verify_object env mm info))"

text \<open>At most one chunk has managed entries.\<close>

definition single_chunk :: "chunk_cache \<Rightarrow> bool" where
  "single_chunk s \<longleftrightarrow> (\<exists>n. \<forall>e c t m. dict_get (cc_disk s) e = Some (Reg c t) \<longrightarrow> entry_chunk s e = Some m \<longrightarrow> m = n)"

definition within_disk_budget :: "chunk_cache \<Rightarrow> bool" where
  "within_disk_budget s \<longleftrightarrow> managed_bytes s \<le> cc_budget s \<or> single_chunk s"

definition same_config :: "chunk_cache \<Rightarrow> chunk_cache \<Rightarrow> bool" where
  "same_config s s' \<longleftrightarrow> cc_expected s' = cc_expected s \<and> cc_urls s' = cc_urls s \<and> cc_budget s' = cc_budget s
     \<and> cc_leased s' = cc_leased s"

lemma same_config_refl [simp]: "same_config s s"
  by (simp add: same_config_def)

lemma within_shrinks:
  assumes "within_disk_budget s" and "same_config s s'" and "shrinks (cc_disk s') (cc_disk s)"
    and "dict_ok (cc_disk s)" and "dict_ok (cc_disk s')"
  shows "within_disk_budget s'"
proof -
  have ch: "entry_chunk s' = entry_chunk s"
    by (intro ext entry_chunk_cong) (use assms(2) in \<open>simp add: same_config_def\<close>)
  have "disk_bytes s' d = disk_bytes s d" for d unfolding disk_bytes_def entry_bytes_def ch ..
  then have "managed_bytes s' \<le> managed_bytes s"
    using disk_bytes_mono [OF assms(3), of s] by (simp add: managed_bytes_disk assms(4,5))
  moreover have "single_chunk s'" if "single_chunk s"
    using that assms(3) ch unfolding single_chunk_def shrinks_def by metis
  ultimately show ?thesis using assms(1,2) by (auto simp: within_disk_budget_def same_config_def)
qed

lemma not_over_within:
  assumes ok: "dict_ok (cc_disk s)" and stop: "\<not> over_budget protected s"
  shows "within_disk_budget s"
proof (cases "managed_bytes s \<le> cc_budget s")
  case False
  let ?g = "scan_managed s"
  have in_g: "m \<in> fst ` set ?g" if "dict_get (cc_disk s) e = Some (Reg c t)" "entry_chunk s e = Some m" for e c t m
  proof -
    have "(e, length c, t) \<in> set (group_of s m (cc_disk s))" using that group_of_mem by (metis map_of_SomeD)
    then have "dict_get ?g m \<noteq> None" using scan_get_managed [OF ok, of m] by auto
    then show ?thesis by (simp add: dict_has_iff)
  qed
  have "victim_candidates protected ?g = [] \<or> protected = None \<and> length ?g \<le> 1"
    using stop False by (auto simp: over_budget_def Let_def managed_bytes_def not_le)
  then have "\<exists>n. \<forall>m \<in> fst ` set ?g. m = n"
  proof
    assume "victim_candidates protected ?g = []"
    then have "\<forall>m \<in> fst ` set ?g. Some m = protected" by (auto simp: victim_candidates_def filter_empty_conv)
    then show ?thesis by (cases protected) auto
  next
    assume "protected = None \<and> length ?g \<le> 1"
    then show ?thesis by (cases ?g) auto
  qed
  then obtain n where n: "\<And>m. m \<in> fst ` set ?g \<Longrightarrow> m = n" by blast
  have "single_chunk s" unfolding single_chunk_def by (intro exI [of _ n] allI impI n) (rule in_g)
  then show ?thesis by (simp add: within_disk_budget_def)
qed (simp add: within_disk_budget_def)

lemma dict_del_sum:
  fixes f :: "'k \<times> 'v \<Rightarrow> int"
  assumes "dict_ok d" and "dict_has d k" and "\<And>v w. f (k, v) = f (k, w)"
  shows "sum_list (map f (dict_del k d)) = sum_list (map f d) - f (k, undefined)"
proof -
  obtain v where "dict_get d k = Some v" using assms(2) by (auto simp: dict_has_iff)
  from sum_dict_del [OF assms(1) this, of f] assms(3) [of v undefined] show ?thesis by simp
qed

lemma drop_resident_inv: "cc_inv env s \<Longrightarrow> cc_inv env (drop_resident v s)"
  using dict_del_sum [of "cc_resident s" v "\<lambda>x. int (expected_size s (fst x))"]
  by (auto simp: cc_inv_def drop_resident_def resident_sum_def expected_size_def dest: subsetD [OF dict_del_subset])

lemma evict_inv:
  assumes "cc_inv env s" and "over_budget protected s"
  shows "cc_inv env (evict_victim protected s)"
proof -
  have ok: "dict_ok (cc_disk (evict_victim protected s))" using assms evict_less(2) by (simp add: cc_inv_def)
  let ?s = "s\<lparr>cc_disk := cc_disk (evict_victim protected s)\<rparr>"
  have "cc_inv env ?s" using assms(1) ok by (simp add: cc_inv_def resident_sum_def expected_size_def)
  then have "cc_inv env (drop_resident (victim_of protected s) ?s)" by (rule drop_resident_inv)
  moreover have "drop_resident (victim_of protected s) ?s = evict_victim protected s"
    by (simp add: evict_victim_def Let_def drop_resident_def victim_of_def expected_size_def)
  ultimately show ?thesis by simp
qed

lemma enforce_spec:
  assumes "cc_inv env s"
  shows "cc_inv env (enforce_disk_budget protected s)" and "same_config s (enforce_disk_budget protected s)"
    and "shrinks (cc_disk (enforce_disk_budget protected s)) (cc_disk s)"
    and "cc_leased s \<Longrightarrow> within_disk_budget (enforce_disk_budget protected s)"
    and "set (map fst (cc_resident (enforce_disk_budget protected s))) \<subseteq> set (map fst (cc_resident s))"
    and "cc_resident_bytes (enforce_disk_budget protected s) \<le> cc_resident_bytes s"
    and "length (cc_resident (enforce_disk_budget protected s)) \<le> length (cc_resident s)"
proof -
  let ?P = "\<lambda>t. cc_inv env t \<and> same_config s t \<and> shrinks (cc_disk t) (cc_disk s)
    \<and> set (map fst (cc_resident t)) \<subseteq> set (map fst (cc_resident s)) \<and> cc_resident_bytes t \<le> cc_resident_bytes s
    \<and> length (cc_resident t) \<le> length (cc_resident s)"
  have ok: "dict_ok (cc_disk s)" using assms by (simp add: cc_inv_def)
  have step: "?P (evict_victim protected t)" if t: "dict_ok (cc_disk t)" "over_budget protected t" "?P t" for t
  proof -
    have "set (map fst (cc_resident (evict_victim protected t))) \<subseteq> set (map fst (cc_resident t))"
      "cc_resident_bytes (evict_victim protected t) \<le> cc_resident_bytes t"
      "length (cc_resident (evict_victim protected t)) \<le> length (cc_resident t)"
      by (auto simp: evict_victim_def Let_def drop_resident_def length_dict_del_le)
    moreover have "same_config s (evict_victim protected t)" using t(3) by (simp add: same_config_def evict_same)
    ultimately show ?thesis
      using t(3) evict_inv [of env t protected] t(2) shrinks_trans [OF evict_less(3) [OF t(1,2)]]
      by (meson order_trans)
  qed
  have "?P (enforce_disk_budget protected s)"
  proof (cases "cc_leased s")
    case True
    have "?P (while (over_budget protected) (evict_victim protected) s)"
      by (rule ev.loop_keeps [where P = ?P]) (use ok assms step in auto)
    then show ?thesis using True by (simp add: enforce_disk_budget_def)
  qed (use assms in \<open>simp add: enforce_disk_budget_def\<close>)
  then show "cc_inv env (enforce_disk_budget protected s)" "same_config s (enforce_disk_budget protected s)"
    "shrinks (cc_disk (enforce_disk_budget protected s)) (cc_disk s)"
    "set (map fst (cc_resident (enforce_disk_budget protected s))) \<subseteq> set (map fst (cc_resident s))"
    "cc_resident_bytes (enforce_disk_budget protected s) \<le> cc_resident_bytes s"
    "length (cc_resident (enforce_disk_budget protected s)) \<le> length (cc_resident s)"
    by auto
  show "within_disk_budget (enforce_disk_budget protected s)" if "cc_leased s"
    using ev.loop_post [OF ok, of protected] not_over_within [of "while (over_budget protected) (evict_victim protected) s" protected] that
    by (simp add: enforce_disk_budget_def)
qed

section \<open>Downloads\<close>

text \<open>Regular files of \<open>d'\<close> outside \<open>K\<close> are files of \<open>d\<close>.\<close>

definition shrinks_off :: "string set \<Rightarrow> directory \<Rightarrow> directory \<Rightarrow> bool" where
  "shrinks_off K d' d \<longleftrightarrow>
     (\<forall>e c t. e \<notin> K \<longrightarrow> dict_get d' e = Some (Reg c t) \<longrightarrow> (\<exists>t'. dict_get d e = Some (Reg c t')))"

lemma shrinks_off_of: "shrinks d' d \<Longrightarrow> shrinks_off K d' d"
  by (auto simp: shrinks_off_def shrinks_def)

lemma shrinks_off_trans: "shrinks_off K d2 d1 \<Longrightarrow> shrinks_off K d1 d0 \<Longrightarrow> shrinks_off K d2 d0"
  unfolding shrinks_off_def by blast

lemma shrinks_off_set: "k \<in> K \<Longrightarrow> shrinks_off K (dict_set k v d) d"
  by (auto simp: shrinks_off_def split: if_splits)

definition wipe_partial :: "string \<Rightarrow> string \<Rightarrow> directory \<Rightarrow> directory" where
  "wipe_partial tmp state_path d = delete_quiet state_path (delete_quiet tmp d)"

lemma get_delete_quiet:
  "dict_get (delete_quiet k d) e = (if e = k \<and> dict_get d k \<noteq> Some Dir then None else dict_get d e)"
  by (simp add: delete_quiet_def)

lemma wipe_shrinks:
  assumes "shrinks_off {tmp, st} d' d"
  shows "shrinks (wipe_partial tmp st d') d"
  unfolding shrinks_def
proof (intro allI impI)
  fix e c t
  assume e: "dict_get (wipe_partial tmp st d') e = Some (Reg c t)"
  then have "e \<noteq> tmp" "e \<noteq> st" "dict_get d' e = Some (Reg c t)"
    by (auto simp: wipe_partial_def get_delete_quiet split: if_splits)
  then show "\<exists>t'. dict_get d e = Some (Reg c t')" using assms by (simp add: shrinks_off_def)
qed

lemma adopt_loop_spec:
  "adopt_loop env st cs a d = (a', d') \<Longrightarrow> dict_ok d \<Longrightarrow> dict_ok d' \<and> shrinks d' d"
  by (induction env st cs a d rule: adopt_loop.induct)
    (auto split: if_splits intro: shrinks_trans [OF _ shrinks_del(2)])

lemma claim_spec:
  assumes "claim_or_adopt env now name n sid d = (r, d')" and "dict_ok d"
  shows "dict_ok d' \<and> shrinks_off {part_name name (ce_pid env), resume_name name} d' d"
proof (cases "part_candidates name d")
  case (Inl e)
  then show ?thesis using assms by (auto simp: claim_or_adopt_def Let_def shrinks_off_of)
next
  case (Inr cands)
  let ?K = "{part_name name (ce_pid env), resume_name name}"
  obtain a d1 where al: "adopt_loop env (usable_state (read_sidecar env d (resume_name name)) n sid) cands None d = (a, d1)"
    by (meson surj_pair)
  note ok = adopt_loop_spec [OF al assms(2)]
  have del: "shrinks_off ?K (delete_quiet k d1) d" "shrinks_off ?K (dict_del k d1) d" "shrinks_off ?K d1 d" for k
    using ok shrinks_trans shrinks_del by (blast intro: shrinks_off_of)+
  have set: "shrinks_off ?K (dict_set (part_name name (ce_pid env)) v x) d" if "shrinks_off ?K x d" for v x
    using that by (rule shrinks_off_trans [OF shrinks_off_set, rotated]) simp
  show ?thesis
    using assms(1) Inr al ok del set
    by (cases a) (auto simp: claim_or_adopt_def Let_def split: if_splits)
qed

lemma store_partial_spec:
  "dict_ok d \<Longrightarrow> dict_ok (store_partial env now name p d)"
  "shrinks_off {part_name name (ce_pid env), resume_name name} (store_partial env now name p d) d"
  by (auto simp: store_partial_def Let_def shrinks_off_def split: option.splits)

lemma wipe_ok: "dict_ok d \<Longrightarrow> dict_ok (wipe_partial tmp st d)"
  by (auto simp: wipe_partial_def)

lemma resume_name_neq: "resume_name n \<noteq> n"
proof
  assume "resume_name n = n"
  then have "length (resume_name n) = length n" by simp
  then show False by (simp add: resume_name_def)
qed

lemma fetch_locked_spec:
  assumes "fetch_locked env now w room name info url d = (r, d')" and "dict_ok d"
  shows "dict_ok d'"
    and "r = Inl (e, b) \<Longrightarrow> (b \<longrightarrow> e = DownloadError) \<and> (\<not> b \<longrightarrow> shrinks d' d)"
    and "r = Inr u \<Longrightarrow> \<exists>c. dict_get d' name = Some (Reg c now) \<and> verify_object env c info"
proof -
  let ?tmp = "part_name name (ce_pid env)" and ?st = "resume_name name"
  let ?goal = "dict_ok d' \<and> (\<forall>e b. r = Inl (e, b) \<longrightarrow> (b \<longrightarrow> e = DownloadError) \<and> (\<not> b \<longrightarrow> shrinks d' d))
     \<and> (\<forall>u. r = Inr u \<longrightarrow> (\<exists>c. dict_get d' name = Some (Reg c now) \<and> verify_object env c info))"
  have ?goal
  proof (cases "object_identity (ce_sha256 env) (int (chunk_size info)) (ci_sha256 info)")
    case (Inl e)
    then show ?thesis using assms by (auto simp: fetch_locked_def Let_def)
  next
    case sid: (Inr sid)
    obtain cl d1 where cl: "claim_or_adopt env now name (chunk_size info) sid d = (cl, d1)" by (meson surj_pair)
    note c = claim_spec [OF cl assms(2)]
    show ?thesis
    proof (cases cl)
      case (Inl e)
      then have "r = Inl (e, False)" "d' = wipe_partial ?tmp ?st d1"
        using assms(1) sid Inl cl by (simp_all add: fetch_locked_def Let_def wipe_partial_def)
      then show ?thesis using c wipe_ok wipe_shrinks by auto
    next
      case (Inr np)
      obtain n psha where np: "np = (n, psha)" by (cases np)
      obtain out p where f: "fetch (ce_sha256 env) w url n (chunk_size info) sid psha
          \<lparr>pt_file = file_bytes d1 ?tmp, pt_sidecar = read_sidecar env d1 ?st, pt_room = room, pt_saved = False\<rparr> = (out, p)"
        by (meson surj_pair)
      let ?d2 = "store_partial env now name p d1"
      have d2: "dict_ok ?d2" "shrinks_off {?tmp, ?st} ?d2 d"
        using c store_partial_spec shrinks_off_trans by blast+
      note unf = fetch_locked_def Let_def wipe_partial_def
      show ?thesis
      proof (cases out)
        case Done
        then have "(r, d') = (if \<not> verify_object env (pt_file p) info then (Inl (CacheError, False), wipe_partial ?tmp ?st ?d2)
             else (Inr (), delete_quiet ?st (dict_set name (Reg (pt_file p) now) (dict_del ?tmp ?d2))))"
          using assms(1) sid cl Inr np f by (auto simp: unf)
        then show ?thesis using d2 wipe_ok wipe_shrinks [OF d2(2)] resume_name_neq [of name]
          by (auto simp: delete_quiet_def split: if_splits)
      next
        case (DlError b)
        then have "(r, d') = (Inl (DownloadError, b), if b then ?d2 else wipe_partial ?tmp ?st ?d2)"
          using assms(1) sid cl Inr np f by (auto simp: unf)
        then show ?thesis using d2 wipe_ok wipe_shrinks [OF d2(2)] by (auto split: if_splits)
      qed
    qed
  qed
  then show "dict_ok d'" "r = Inl (e, b) \<Longrightarrow> (b \<longrightarrow> e = DownloadError) \<and> (\<not> b \<longrightarrow> shrinks d' d)"
    "r = Inr u \<Longrightarrow> \<exists>c. dict_get d' name = Some (Reg c now) \<and> verify_object env c info" by blast+
qed

text \<open>What \<open>ensure\<close> guarantees, whatever the world answers.\<close>

definition ensured :: "cache_env \<Rightarrow> string \<Rightarrow> chunk_cache \<Rightarrow> (pithos_error \<times> bool + bytes) \<Rightarrow> chunk_cache \<Rightarrow> bool" where
  "ensured env name s r s' \<longleftrightarrow> (\<exists>d. s' = s\<lparr>cc_disk := d\<rparr> \<and> dict_ok d)
     \<and> (case r of
          Inl (e, b) \<Rightarrow> (b \<longrightarrow> e = DownloadError) \<and> (\<not> b \<longrightarrow> shrinks (cc_disk s') (cc_disk s))
        | Inr mm \<Rightarrow> \<exists>info t. dict_get (cc_expected s) name = Some info \<and> verify_object env mm info
                     \<and> dict_get (cc_disk s') name = Some (Reg mm t))"

lemma ensure_spec:
  assumes "ensure env now w room name s = (r, s')" and ok: "dict_ok (cc_disk s)"
  shows "ensured env name s r s'"
proof (cases "dict_get (cc_expected s) name")
  case None
  then show ?thesis using assms by (auto simp: ensure_def ensured_def intro!: exI [of _ "cc_disk s"])
next
  case (Some info)
  define download where "download s1 = (case dict_get (cc_urls s1) name of
                      None \<Rightarrow> (Inl (PyError KeyError, False), s1)
                    | Some url \<Rightarrow>
                        if url = [] then (Inl (PyError KeyError, False), s1)
                        else case fetch_locked env now w room name info url (cc_disk s1) of
                               (Inl e, disk) \<Rightarrow> (Inl e, s1\<lparr>cc_disk := disk\<rparr>)
                             | (Inr _, disk) \<Rightarrow> (Inr (file_bytes disk name), s1\<lparr>cc_disk := disk\<rparr>))" for s1 :: chunk_cache
  have dl: "ensured env name s r' s1'"
    if eq: "download (s\<lparr>cc_disk := d\<rparr>) = (r', s1')" and d: "dict_ok d" "shrinks d (cc_disk s)" for d r' s1'
  proof (cases "dict_get (cc_urls s) name")
    case None
    then show ?thesis using eq d by (auto simp: download_def ensured_def)
  next
    case (Some url)
    obtain fr fd where f: "fetch_locked env now w room name info url d = (fr, fd)" by (meson surj_pair)
    note fs = fetch_locked_spec [OF f d(1)]
    show ?thesis
    proof (cases "url = []")
      case True
      then show ?thesis using eq d Some by (auto simp: download_def ensured_def)
    next
      case False
      show ?thesis
      proof (cases fr)
        case (Inl eb)
        obtain e b where eb: "eb = (e, b)" by (cases eb)
        have "shrinks fd (cc_disk s)" if "\<not> b" using fs(2) [of e b] Inl eb that d(2) shrinks_trans by blast
        then show ?thesis using eq Some False f Inl eb fs(1) fs(2) [of e b]
          by (auto simp: download_def ensured_def)
      next
        case (Inr u)
        then obtain c where c: "dict_get fd name = Some (Reg c now)" "verify_object env c info" using fs(3) by blast
        then show ?thesis using eq Some False f Inr fs(1) \<open>dict_get (cc_expected s) name = Some info\<close>
          by (auto simp: download_def ensured_def file_bytes_def)
      qed
    qed
  qed
  show ?thesis
  proof (cases "lstat_regular (cc_disk s) name")
    case (Inl e)
    then show ?thesis using assms Some by (auto simp: ensure_def ensured_def intro!: exI [of _ "cc_disk s"])
  next
    case (Inr found)
    show ?thesis
    proof (cases found)
      case None
      then have "download s = (r, s')" using assms(1) Some Inr by (simp add: ensure_def Let_def download_def)
      then show ?thesis using dl [of "cc_disk s"] ok by simp
    next
      case (Some ct)
      obtain c t where ct: "ct = (c, t)" by (cases ct)
      have at: "dict_get (cc_disk s) name = Some (Reg c t)"
        using Inr Some ct by (auto simp: lstat_regular_def split: option.splits dentry.splits)
      consider "verify_object env c info" | "\<not> verify_object env c info" "\<not> cc_leased s" | "\<not> verify_object env c info" "cc_leased s"
        by blast
      then show ?thesis
      proof cases
        case 1
        then have "r = Inr c" "s' = s" using assms(1) Some ct Inr \<open>dict_get (cc_expected s) name = Some info\<close>
          by (auto simp: ensure_def Let_def)
        then show ?thesis using 1 at ok \<open>dict_get (cc_expected s) name = Some info\<close> by (auto simp: ensured_def intro!: exI [of _ "cc_disk s"])
      next
        case 2
        then have "r = Inl (CacheError, False)" "s' = s" using assms(1) Some ct Inr \<open>dict_get (cc_expected s) name = Some info\<close>
          by (auto simp: ensure_def Let_def)
        then show ?thesis using ok by (auto simp: ensured_def intro!: exI [of _ "cc_disk s"])
      next
        case 3
        then have "download (s\<lparr>cc_disk := dict_del name (cc_disk s)\<rparr>) = (r, s')"
          using assms(1) Some ct Inr \<open>dict_get (cc_expected s) name = Some info\<close> by (simp add: ensure_def Let_def download_def)
        then show ?thesis using dl ok by blast
      qed
    qed
  qed
qed

section \<open>get keeps the invariant\<close>

text \<open>The mapped bytes are within the budget, or one object is mapped.\<close>

definition within_resident_budget :: "chunk_cache \<Rightarrow> bool" where
  "within_resident_budget s \<longleftrightarrow> cc_resident_bytes s \<le> int (cc_budget s) \<or> length (cc_resident s) \<le> 1"

lemma dict_one_key: "dict_ok d \<Longrightarrow> (\<And>k. dict_has d k \<Longrightarrow> k = n) \<Longrightarrow> length d \<le> 1"
proof -
  assume ok: "dict_ok d" and all: "\<And>k. dict_has d k \<Longrightarrow> k = n"
  have "length d = card (set (map fst d))" using ok distinct_card by force
  also have "\<dots> \<le> card {n}" by (rule card_mono) (use all in auto)
  finally show ?thesis by simp
qed

lemma trim_spec:
  "cc_inv env s \<Longrightarrow> cc_inv env (trim_resident name s) \<and> same_config s (trim_resident name s)
     \<and> cc_disk (trim_resident name s) = cc_disk s \<and> within_resident_budget (trim_resident name s)"
proof (induction name s rule: trim_resident.induct)
  case (1 name s)
  show ?case
  proof (cases "int (cc_budget s) < cc_resident_bytes s")
    case False
    then show ?thesis using "1.prems" by (subst (1 2 3 4) trim_resident.simps) (simp add: within_resident_budget_def)
  next
    case over: True
    show ?thesis
    proof (cases "find (\<lambda>n. n \<noteq> name) (map fst (cc_resident s))")
      case None
      then have "k = name" if "dict_has (cc_resident s) k" for k using that by (auto simp: find_None_iff)
      then have "length (cc_resident s) \<le> 1" using "1.prems" dict_one_key unfolding cc_inv_def by metis
      then show ?thesis using "1.prems" over None
        by (subst (1 2 3 4) trim_resident.simps) (simp add: within_resident_budget_def)
    next
      case (Some v)
      let ?s = "s\<lparr>cc_resident_bytes := cc_resident_bytes s - int (expected_size s v), cc_resident := dict_del v (cc_resident s)\<rparr>"
      have "dict_has (cc_resident s) v" using Some by (metis find_Some_iff list.set_map nth_mem)
      then have "?s = drop_resident v s" by (simp add: drop_resident_def)
      then have "cc_inv env ?s" using drop_resident_inv [OF "1.prems"] by simp
      note IH = "1.IH" [OF over Some this]
      have "trim_resident name s = trim_resident name ?s" using over Some by (subst trim_resident.simps) simp
      then show ?thesis using IH by (simp add: same_config_def)
    qed
  qed
qed

lemma move_to_end_spec:
  assumes "dict_ok d"
  shows "dict_ok (move_to_end k d)" and "dict_get (move_to_end k d) n = dict_get d n"
    and "length (move_to_end k d) = length d" and "\<And>f. sum_list (map f (move_to_end k d)) = (sum_list (map f d) :: int)"
proof -
  have "dict_ok (move_to_end k d) \<and> dict_get (move_to_end k d) n = dict_get d n \<and> length (move_to_end k d) = length d
    \<and> (\<forall>f. sum_list (map f (move_to_end k d)) = (sum_list (map f d) :: int))"
  proof (cases "dict_get d k")
    case (Some v)
    have "\<not> dict_has (dict_del k d) k" by simp
    then have "dict_get (dict_del k d @ [(k, v)]) n = dict_get d n"
      using Some by (auto simp: map_add_def split: option.split)
    then show ?thesis
      using Some assms length_dict_del_present [OF assms Some] sum_dict_del [OF assms Some]
      by (auto simp: move_to_end_def)
  qed (use assms in \<open>simp add: move_to_end_def\<close>)
  then show "dict_ok (move_to_end k d)" "dict_get (move_to_end k d) n = dict_get d n"
    "length (move_to_end k d) = length d" "\<And>f. sum_list (map f (move_to_end k d)) = (sum_list (map f d) :: int)" by auto
qed

lemma lookup_spec:
  assumes "cc_inv env s" and "get_lookup name s = (r, s')"
  shows "cc_inv env s' \<and> same_config s s' \<and> cc_disk s' = cc_disk s \<and> (within_resident_budget s \<longrightarrow> within_resident_budget s')
    \<and> (\<forall>v. r = Inr (Some v) \<longrightarrow> dict_get (cc_resident s) name = Some v)
    \<and> (r = Inr None \<longrightarrow> dict_get (cc_resident s') name = None)"
proof -
  have ok: "dict_ok (cc_resident s)" using assms(1) by (simp add: cc_inv_def)
  note m = move_to_end_spec [OF ok, where k = name]
  show ?thesis
    using assms m
    by (auto simp: get_lookup_def cc_inv_def same_config_def within_resident_budget_def resident_sum_def expected_size_def
        split: sum.splits if_splits)
qed

lemma touch_spec:
  assumes "touch now name s = Inr s'" and "cc_inv env s"
  shows "cc_inv env s'" and "same_config s s'" and "shrinks (cc_disk s') (cc_disk s)"
    and "within_resident_budget s' = within_resident_budget s" and "cc_leased s' = cc_leased s"
  using assms
  by (auto simp: touch_def lstat_regular_def cc_inv_def same_config_def shrinks_def within_resident_budget_def
      resident_sum_def expected_size_def split: option.splits dentry.splits if_splits)

lemma publish_spec:
  assumes "cc_inv env s" and "dict_get (cc_expected s) name = Some info" and "verify_object env mm info"
    and "get_publish name mm s = (r, s')" and "within_resident_budget s"
  shows "cc_inv env s' \<and> same_config s s' \<and> cc_disk s' = cc_disk s \<and> within_resident_budget s'
    \<and> (\<forall>v b. r = Inr (v, b) \<longrightarrow> verify_object env v info)
    \<and> (dict_get (cc_resident s) name = None \<longrightarrow> (\<forall>v b. r = Inr (v, b) \<longrightarrow> b))"
proof (cases "cc_closed s")
  case True
  then show ?thesis using assms by (auto simp: get_publish_def)
next
  case open_: False
  have ok: "dict_ok (cc_resident s)" using assms(1) by (simp add: cc_inv_def)
  show ?thesis
  proof (cases "dict_get (cc_resident s) name")
    case (Some v)
    note m = move_to_end_spec [OF ok, where k = name]
    have "verify_object env v info" using assms(1,2) Some by (fastforce simp: cc_inv_def)
    then show ?thesis using assms open_ Some m
      by (auto simp: get_publish_def cc_inv_def same_config_def within_resident_budget_def resident_sum_def expected_size_def)
  next
    case None
    let ?s = "s\<lparr>cc_resident := dict_set name mm (cc_resident s), cc_resident_bytes := cc_resident_bytes s + int (expected_size s name)\<rparr>"
    have "dict_set name mm (cc_resident s) = cc_resident s @ [(name, mm)]" using None by (intro dict_set_new) (simp add: dict_has_iff)
    then have "resident_sum ?s = resident_sum s + int (expected_size s name)"
      by (simp add: resident_sum_def expected_size_def)
    moreover have "\<exists>i. dict_get (cc_expected s) n = Some i \<and> verify_object env m i"
      if "dict_get (dict_set name mm (cc_resident s)) n = Some m" for n m
      using that assms(1-3) by (cases "n = name") (auto simp: cc_inv_def)
    ultimately have "cc_inv env ?s" using assms(1) unfolding cc_inv_def by simp
    note t = trim_spec [OF this, of name]
    show ?thesis using assms open_ None t by (auto simp: get_publish_def same_config_def)
  qed
qed

text \<open>One whole call.\<close>

lemma cache_get_spec:
  assumes inv: "cc_inv env s" and res: "within_resident_budget s" and eq: "cache_get env now w room name s = (r, s')"
  shows "cc_inv env s' \<and> within_resident_budget s' \<and> same_config s s'
    \<and> (cc_leased s \<and> within_disk_budget s \<longrightarrow> within_disk_budget s')
    \<and> (\<forall>v. r = Inr v \<longrightarrow> (\<exists>info. dict_get (cc_expected s) name = Some info \<and> verify_object env v info))"
proof -
  obtain r1 s1 where l: "get_lookup name s = (r1, s1)" by (meson surj_pair)
  note ls = lookup_spec [OF inv l]
  have okd: "dict_ok (cc_disk s)" "dict_ok (cc_disk s1)" using inv ls by (simp_all add: cc_inv_def)
  have w1: "within_disk_budget s1" if "within_disk_budget s"
    by (rule within_shrinks [OF that]) (use ls okd in auto)
  have keep: "within_disk_budget t" if "within_disk_budget s" "cc_inv env t" "same_config s t" "shrinks (cc_disk t) (cc_disk s)" for t
    by (rule within_shrinks [OF that(1,3,4) okd(1)]) (use that(2) in \<open>simp add: cc_inv_def\<close>)
  have sc: "same_config s s2" if "same_config s1 s2" for s2 using ls that by (simp add: same_config_def)
  show ?thesis
  proof (cases r1)
    case (Inl e)
    then show ?thesis using eq l ls res w1 by (auto simp: cache_get_def)
  next
    case (Inr hit)
    show ?thesis
    proof (cases hit)
      case (Some v)
      have v: "\<exists>info. dict_get (cc_expected s) name = Some info \<and> verify_object env v info"
        using ls inv Inr Some unfolding cc_inv_def by blast
      show ?thesis
      proof (cases "cc_leased s1")
        case False
        then have "r = Inr v" "s' = s1" using eq l Inr Some by (simp_all add: cache_get_def)
        then show ?thesis using v ls res w1 by auto
      next
        case True
        show ?thesis
        proof (cases "touch now name s1")
          case (Inl e)
          then have "r = Inl e" "s' = s1" using eq l Inr Some True \<open>r1 = Inr hit\<close> by (simp_all add: cache_get_def)
          then show ?thesis using ls res w1 by auto
        next
          case (Inr s2)
          then have rs: "r = Inr v" "s' = s2" using eq l Some True \<open>r1 = Inr hit\<close> by (simp_all add: cache_get_def)
          note t = touch_spec [OF Inr, of env]
          have inv1: "cc_inv env s1" using ls by blast
          show ?thesis using rs v t [OF inv1] ls res keep sc by auto
        qed
      qed
    next
      case None
      obtain r2 s2 where e: "ensure env now w room name s1 = (r2, s2)" by (meson surj_pair)
      have es: "ensured env name s1 r2 s2" by (rule ensure_spec [OF e okd(2)])
      then obtain d where d: "s2 = s1\<lparr>cc_disk := d\<rparr>" "dict_ok d" by (auto simp: ensured_def)
      have inv2: "cc_inv env s2" and res2: "within_resident_budget s2" and sc2: "same_config s1 s2"
        using ls d res by (auto simp: cc_inv_def within_resident_budget_def resident_sum_def expected_size_def same_config_def)
      show ?thesis
      proof (cases r2)
        case (Inl eb)
        obtain er b where eb: "eb = (er, b)" by (cases eb)
        have rs: "r = Inl er" "s' = (if er = DownloadError \<and> b \<and> cc_leased s2 then enforce_disk_budget (Some name) s2 else s2)"
          using eq l \<open>r1 = Inr hit\<close> None e Inl eb by (simp_all add: cache_get_def)
        show ?thesis
        proof (cases "b \<and> cc_leased s2")
          case True
          then have s': "s' = enforce_disk_budget (Some name) s2" using rs es Inl eb by (simp add: ensured_def)
          note en = enforce_spec [OF inv2, of "Some name"]
          have "within_resident_budget s'" using res2 en(2,6,7) s' by (auto simp: within_resident_budget_def same_config_def)
          then show ?thesis using en s' rs True sc2 sc by (auto simp: same_config_def)
        next
          case False
          then have s': "s' = s2" using rs by auto
          have "cc_leased s \<longrightarrow> shrinks (cc_disk s2) (cc_disk s)"
            using False es Inl eb ls d(1) by (auto simp: ensured_def same_config_def)
          then show ?thesis using s' rs inv2 res2 sc2 sc keep by auto
        qed
      next
        case (Inr mm)
        obtain info t where mm: "dict_get (cc_expected s1) name = Some info" "verify_object env mm info"
          "dict_get (cc_disk s2) name = Some (Reg mm t)" using es Inr by (auto simp: ensured_def)
        obtain r3 s3 where p: "get_publish name mm s2 = (r3, s3)" by (meson surj_pair)
        have ex: "dict_get (cc_expected s2) name = Some info" using mm(1) d(1) by simp
        note ps = publish_spec [OF inv2 ex mm(2) p res2]
        have none: "dict_get (cc_resident s2) name = None" using ls \<open>r1 = Inr hit\<close> None d(1) by simp
        have ex0: "dict_get (cc_expected s) name = Some info" using mm(1) ls by (simp add: same_config_def)
        show ?thesis
        proof (cases r3)
          case (Inl er)
          then have closed: "cc_closed s2" "s3 = s2" using p none by (auto simp: get_publish_def split: if_splits)
          moreover have "cc_closed s1" using closed(1) d(1) by simp
          moreover have "\<not> cc_closed s1" using l \<open>r1 = Inr hit\<close>
            by (auto simp: get_lookup_def split: sum.splits if_splits)
          ultimately show ?thesis by simp
        next
          case (Inr vb)
          obtain v where vb: "vb = (v, True)" using ps none Inr by (cases vb) auto
          have v: "verify_object env v info" using ps Inr vb by auto
          show ?thesis
          proof (cases "cc_leased s3")
            case False
            then have "r = Inr v" "s' = s3" using eq l \<open>r1 = Inr hit\<close> None e \<open>r2 = Inr mm\<close> p Inr vb by (simp_all add: cache_get_def)
            then show ?thesis using ps v ex0 sc2 sc False by (auto simp: same_config_def)
          next
            case True
            have "dict_get (cc_disk s3) name = Some (Reg mm t)" using mm(3) ps by simp
            then obtain s4 where t4: "touch now name s3 = Inr s4" by (auto simp: touch_def lstat_regular_def)
            then have rs: "r = Inr v" "s' = enforce_disk_budget (Some name) s4"
              using eq l \<open>r1 = Inr hit\<close> None e \<open>r2 = Inr mm\<close> p Inr vb True by (simp_all add: cache_get_def)
            have inv3: "cc_inv env s3" using ps by blast
            note t = touch_spec [OF t4 inv3]
            note en = enforce_spec [OF t(1), of "Some name"]
            have "within_resident_budget s'" using ps t(4) en(2,6,7) rs(2) by (auto simp: within_resident_budget_def same_config_def)
            moreover have "same_config s s'" using sc2 sc ps t(2) en(2) rs(2) by (auto simp: same_config_def)
            ultimately show ?thesis using en rs v ex0 True t(5) by auto
          qed
        qed
      qed
    qed
  qed
qed

section \<open>Runs\<close>

definition cc_starts :: "cache_env \<Rightarrow> chunk_cache \<Rightarrow> bool" where
  "cc_starts env s \<longleftrightarrow> (\<exists>urls infos budget disk. dict_ok disk \<and> cache_new urls infos budget disk = Inr s)"

inductive cc_step :: "cache_env \<Rightarrow> chunk_cache \<Rightarrow> chunk_cache \<Rightarrow> bool" for env where
  get: "cc_step env s (snd (cache_get env now w room name s))"
| close: "cc_step env s (cache_close s)"

inductive_cases cc_stepE: "cc_step env s t"

definition cc_bounded :: "cache_env \<Rightarrow> chunk_cache \<Rightarrow> bool" where
  "cc_bounded env s \<longleftrightarrow> cc_inv env s \<and> within_resident_budget s \<and> (cc_leased s \<longrightarrow> within_disk_budget s)"

lemma cache_new_Inr:
  "cache_new urls infos budget disk = Inr s \<Longrightarrow> \<exists>ex b. s = enforce_disk_budget None
     \<lparr>cc_expected = ex, cc_urls = urls, cc_budget = b, cc_leased = urls \<noteq> [], cc_resident = [],
      cc_resident_bytes = 0, cc_closed = False, cc_disk = disk\<rparr>"
  by (cases "expect_all infos []"; cases "plain_int (Some budget)") (auto simp: cache_new_def split: if_splits)

lemma cc_starts_bounded: "cc_starts env s \<Longrightarrow> cc_bounded env s"
proof -
  assume "cc_starts env s"
  then obtain urls infos budget disk ex b where s: "dict_ok disk" "s = enforce_disk_budget None
     \<lparr>cc_expected = ex, cc_urls = urls, cc_budget = b, cc_leased = urls \<noteq> [], cc_resident = [],
      cc_resident_bytes = 0, cc_closed = False, cc_disk = disk\<rparr>"
    unfolding cc_starts_def using cache_new_Inr by metis
  let ?s = "\<lparr>cc_expected = ex, cc_urls = urls, cc_budget = b, cc_leased = urls \<noteq> [], cc_resident = [],
      cc_resident_bytes = 0, cc_closed = False, cc_disk = disk\<rparr>"
  have "cc_inv env ?s" using s(1) by (simp add: cc_inv_def resident_sum_def)
  note en = enforce_spec [OF this, of None]
  show ?thesis using en s(2) by (auto simp: cc_bounded_def within_resident_budget_def same_config_def)
qed

lemma cc_step_bounded: "cc_bounded env s \<Longrightarrow> cc_step env s t \<Longrightarrow> cc_bounded env t"
proof (erule cc_stepE)
  fix now w room name
  assume b: "cc_bounded env s" and t: "t = snd (cache_get env now w room name s)"
  obtain r where "cache_get env now w room name s = (r, t)" using t by (metis prod.collapse)
  from cache_get_spec [OF _ _ this] b show "cc_bounded env t" by (auto simp: cc_bounded_def same_config_def)
next
  assume b: "cc_bounded env s" and t: "t = cache_close s"
  have "entry_chunk (cache_close s) = entry_chunk s" by (intro ext entry_chunk_cong) (simp add: cache_close_def)
  then have "within_disk_budget (cache_close s)" if "within_disk_budget s"
    using within_shrinks [OF that, of "cache_close s"] b by (simp add: cache_close_def same_config_def cc_bounded_def cc_inv_def)
  then show "cc_bounded env t" using b t
    by (auto simp: cc_bounded_def cc_inv_def cache_close_def resident_sum_def within_resident_budget_def)
qed

interpretation cc_sys: transitions "cc_starts env" "cc_step env" "cc_bounded env" for env
  by unfold_locales (auto intro: cc_starts_bounded cc_step_bounded)

lemma get_preplaced:
  assumes "cc_urls s = []" and "\<not> cc_leased s"
  shows "cc_disk (snd (cache_get env now w room name s)) = cc_disk s
    \<and> cc_urls (snd (cache_get env now w room name s)) = [] \<and> \<not> cc_leased (snd (cache_get env now w room name s))"
proof -
  let ?same = "\<lambda>t. cc_disk t = cc_disk s \<and> cc_urls t = [] \<and> \<not> cc_leased t"
  have look: "?same (snd (get_lookup name s))" using assms by (auto simp: get_lookup_def split: sum.split)
  have trim: "?same (trim_resident name t)" if "?same t" for t
    using that
  proof (induction name t rule: trim_resident.induct)
    case (1 name t)
    then show ?case by (subst (1 2 3) trim_resident.simps) (auto split: option.split)
  qed
  have ens: "?same (snd (ensure env now w room name t))" if "?same t" for t
    using that by (auto simp: ensure_def Let_def split: sum.split option.split)
  have pub: "?same (snd (get_publish name mm t))" if "?same t" for mm t
    using that trim by (auto simp: get_publish_def split: option.split)
  obtain r1 s1 where 1: "get_lookup name s = (r1, s1)" by (meson surj_pair)
  obtain r2 s2 where 2: "ensure env now w room name s1 = (r2, s2)" by (meson surj_pair)
  have s1: "?same s1" using look 1 by simp
  have s2: "?same s2" using ens [OF s1] 2 by simp
  have s3: "?same s3" if "get_publish name mm s2 = (r3, s3)" for mm r3 s3 using pub [OF s2, of mm] that by simp
  show ?thesis using s1 s2 s3 1 2 by (auto simp: cache_get_def split: sum.splits option.splits prod.splits bool.splits)
qed

section \<open>Properties\<close>

text \<open>C22. Whatever a cache returns is the chunk the manifest names: in any run, whatever the network, the disk
  and other writers of the directory did, an object that \<open>get\<close> returns has the size and the hash of its
  manifest entry.\<close>

theorem cache_get_serves_verified:
  assumes "cc_starts env s0" and "(cc_step env)\<^sup>*\<^sup>* s0 s" and "cache_get env now w room name s = (Inr v, s')"
  shows "\<exists>info. dict_get (cc_expected s) name = Some info \<and> length v = ci_tokens info * TOKEN_BYTES \<and> ce_sha256 env v = ci_sha256 info"
  using cache_get_spec [OF _ _ assms(3)] cc_sys.reachable_invar [OF assms(1,2)]
  by (auto simp: cc_bounded_def verify_object_def chunk_size_def)

text \<open>C23. The budgets hold between any two calls: the mapped bytes are counted exactly and are within the budget
  unless a single object is mapped, and the managed files of a leasing cache (objects, partial downloads,
  journals) are within the budget unless all of them belong to one chunk.\<close>

theorem cache_budgets_hold:
  assumes "cc_starts env s0" and "(cc_step env)\<^sup>*\<^sup>* s0 s"
  shows "cc_resident_bytes s = sum_list (map (\<lambda>x. int (expected_size s (fst x))) (cc_resident s))
    \<and> (cc_resident_bytes s \<le> int (cc_budget s) \<or> length (cc_resident s) \<le> 1)
    \<and> (cc_leased s \<longrightarrow> managed_bytes s \<le> cc_budget s
         \<or> (\<exists>n. \<forall>e c t m. dict_get (cc_disk s) e = Some (Reg c t) \<longrightarrow> entry_chunk s e = Some m \<longrightarrow> m = n))"
  using cc_sys.reachable_invar [OF assms]
  by (auto simp: cc_bounded_def cc_inv_def resident_sum_def within_resident_budget_def within_disk_budget_def single_chunk_def)

text \<open>A cache without URLs (a pre-placed corpus) never writes, renames or deletes anything in its directory.\<close>

theorem preplaced_directory_untouched:
  assumes "cache_new [] infos budget disk = Inr s0" and "(cc_step env)\<^sup>*\<^sup>* s0 s"
  shows "cc_disk s = disk"
proof -
  have s0: "cc_disk s0 = disk" "cc_urls s0 = []" "\<not> cc_leased s0"
    using assms(1) by (auto simp: cache_new_def enforce_disk_budget_def split: sum.splits option.splits if_splits)
  from assms(2) have "cc_disk s = disk \<and> cc_urls s = [] \<and> \<not> cc_leased s"
  proof (induction rule: rtranclp_induct)
    case (step t u)
    from step(2) show ?case
      by (cases rule: cc_stepE) (use step(3) get_preplaced in \<open>auto simp: cache_close_def\<close>)
  qed (use s0 in simp)
  then show ?thesis by simp
qed

section \<open>Witnesses\<close>

definition cc_demo_env :: cache_env where
  "cc_demo_env = \<lparr>ce_sha256 = (\<lambda>b. ''h''), ce_js_load = (\<lambda>b. None), ce_js_dump = (\<lambda>v. []), ce_pid = ''7''\<rparr>"

definition cc_demo_info :: chunk_info where
  "cc_demo_info = \<lparr>ci_name = ''c0'', ci_tokens = 1, ci_sha256 = ''h''\<rparr>"

definition cc_demo :: "(string, string) dict \<Rightarrow> chunk_cache" where
  "cc_demo urls = \<lparr>cc_expected = [(''c0'', cc_demo_info)], cc_urls = urls, cc_budget = 4, cc_leased = urls \<noteq> [],
     cc_resident = [], cc_resident_bytes = 0, cc_closed = False, cc_disk = [(''c0'', Reg [1, 2, 3, 4] 0)]\<rparr>"

lemma cc_demo_new: "cache_new urls [cc_demo_info] (PInt 4) [(''c0'', Reg [1, 2, 3, 4] 0)] = Inr (cc_demo urls)"
proof -
  have v: "validate_chunk_name (Some (PStr ''c0'')) = Inr ''c0''" by code_simp
  have "\<not> over_budget None (cc_demo urls)"
    by (simp add: over_budget_def Let_def scan_managed_def cc_demo_def entry_chunk_def groups_bytes_def group_bytes_def dict_set_def)
  then have "enforce_disk_budget None (cc_demo urls) = cc_demo urls"
    by (simp add: enforce_disk_budget_def while_unfold)
  then show ?thesis using v
    by (simp add: cache_new_def cc_demo_info_def cc_demo_def dict_set_def)
qed

lemma cc_demo_starts: "cc_starts cc_demo_env (cc_demo urls)"
  unfolding cc_starts_def using cc_demo_new
  by (intro exI [of _ urls] exI [of _ "[cc_demo_info]"] exI [of _ "PInt 4"] exI [of _ "[(''c0'', Reg [1, 2, 3, 4] 0)]"]) simp

lemma cc_demo_get: "\<exists>s'. cache_get cc_demo_env 1 w room ''c0'' (cc_demo []) = (Inr [1, 2, 3, 4], s')"
proof -
  have v: "validate_chunk_name (Some (PStr ''c0'')) = Inr ''c0''" by code_simp
  show ?thesis
    using v by (simp add: cache_get_def get_lookup_def cc_demo_def move_to_end_def ensure_def lstat_regular_def Let_def
        verify_object_def chunk_size_def cc_demo_info_def TOKEN_BYTES_def cc_demo_env_def get_publish_def trim_resident.simps
        expected_size_def dict_set_def)
qed

lemma cache_get_serves_verified_witness:
  "\<exists>v. ce_sha256 cc_demo_env v = ''h'' \<and> length v = 4
     \<and> fst (cache_get cc_demo_env 1 \<lparr>wd_urlsplit = (\<lambda>u. None), wd_server = (\<lambda>n rq. NetError), wd_parse_qs = (\<lambda>q. []),
          wd_sdk = (\<lambda>n ps b k. NoBoto3), wd_file = NoFile\<rparr> 0 ''c0'' (cc_demo [])) = Inr v"
proof -
  let ?w = "\<lparr>wd_urlsplit = (\<lambda>u. None), wd_server = (\<lambda>n rq. NetError), wd_parse_qs = (\<lambda>q. []),
          wd_sdk = (\<lambda>n ps b k. NoBoto3), wd_file = NoFile\<rparr>"
  obtain s' where g: "cache_get cc_demo_env 1 ?w 0 ''c0'' (cc_demo []) = (Inr [1, 2, 3, 4], s')" using cc_demo_get by blast
  from cache_get_serves_verified [OF cc_demo_starts rtranclp.rtrancl_refl this] g show ?thesis
    by (auto simp: cc_demo_def cc_demo_info_def TOKEN_BYTES_def)
qed

lemma cache_budgets_hold_witness:
  "managed_bytes (cc_demo [(''c0'', ''u'')]) \<le> 4
   \<or> (\<exists>n. \<forall>e c t m. dict_get (cc_disk (cc_demo [(''c0'', ''u'')])) e = Some (Reg c t) \<longrightarrow> entry_chunk (cc_demo [(''c0'', ''u'')]) e = Some m \<longrightarrow> m = n)"
  using cache_budgets_hold [OF cc_demo_starts [of "[(''c0'', ''u'')]"] rtranclp.rtrancl_refl] by (simp add: cc_demo_def)

lemma preplaced_directory_untouched_witness:
  "cc_disk (cache_close (cc_demo [])) = [(''c0'', Reg [1, 2, 3, 4] 0)]"
  by (rule preplaced_directory_untouched [OF cc_demo_new, of cc_demo_env]) (auto intro: cc_step.close)

end
