(* ===== verification/PithosRuntimeProps.thy ===== *)
theory PithosRuntimeProps
  imports PithosRuntime PithosCacheProps PithosCorpusProps
begin

text \<open>
  Properties of reading. The locale \<open>chunk_source\<close> is what a reader relies on: a fetch either fails or
  returns the chunk asked for, and keeps the source's invariant. The locale \<open>corpus_reader\<close> adds the layout
  and the permutations and proves, once, what the three readers return; it is interpreted on the cache
  behind the prefetch pipeline. At the end the reader meets the writer: an epoch reads exactly the samples of
  the token stream that the chunk writer cut.
\<close>

section \<open>The interface of a source\<close>

locale chunk_source =
  fixes get_chunk :: "nat \<Rightarrow> 's \<Rightarrow> (pithos_error + bytes) \<times> 's"
    and src_ok :: "'s \<Rightarrow> bool"
    and chunk :: "nat \<Rightarrow> bytes"
    and n_chunks :: nat
  assumes get_chunk_law: "src_ok s \<Longrightarrow> k < n_chunks \<Longrightarrow> get_chunk k s = (r, s') \<Longrightarrow>
    src_ok s' \<and> (\<forall>b. r = Inr b \<longrightarrow> b = chunk k)"
begin

text \<open>An error that came out of the source.\<close>

definition source_error :: "pithos_error \<Rightarrow> bool" where
  "source_error e \<longleftrightarrow> (\<exists>k s s'. k < n_chunks \<and> src_ok s \<and> get_chunk k s = (Inl e, s'))"

lemma source_errorI: "k < n_chunks \<Longrightarrow> src_ok s \<Longrightarrow> get_chunk k s = (Inl e, s') \<Longrightarrow> source_error e"
  unfolding source_error_def by blast

end

text \<open>The sample at an absolute index.\<close>

definition sample_at :: "(int \<Rightarrow> int \<Rightarrow> nat \<Rightarrow> nat \<Rightarrow> nat list) \<Rightarrow> int \<Rightarrow> stream_layout \<Rightarrow> (nat \<Rightarrow> bytes) \<Rightarrow> nat \<Rightarrow> int list" where
  "sample_at perm_of seed L chunk i =
     (let epoch = i div sl_total_samples L; pos = i mod sl_total_samples L; k = pos div sl_samples_per_chunk L
      in take (sl_seq L + 1) (drop (perm_of seed (int epoch) k (sl_per_chunk L ! k) ! (pos mod sl_samples_per_chunk L) * sl_seq L) (i4 (chunk k))))"

definition perms_ok :: "(int \<Rightarrow> int \<Rightarrow> nat \<Rightarrow> nat \<Rightarrow> nat list) \<Rightarrow> bool" where
  "perms_ok perm_of \<longleftrightarrow> (\<forall>seed e k n. mset (perm_of seed e k n) = mset [0..<n])"

lemma perms_ok_nth:
  assumes "perms_ok perm_of" and "i < n"
  shows "length (perm_of seed e k n) = n" and "perm_of seed e k n ! i < n"
proof -
  have m: "mset (perm_of seed e k n) = mset [0..<n]" using assms(1) by (simp add: perms_ok_def)
  show len: "length (perm_of seed e k n) = n" using mset_eq_length [OF m] by simp
  have "perm_of seed e k n ! i \<in> set (perm_of seed e k n)" using len assms(2) by simp
  then show "perm_of seed e k n ! i < n" using mset_eq_setD [OF m] by simp
qed

text \<open>What the layout, the permutations and the sizes of the chunks must satisfy.\<close>

definition reader_ok :: "(int \<Rightarrow> int \<Rightarrow> nat \<Rightarrow> nat \<Rightarrow> nat list) \<Rightarrow> stream_layout \<Rightarrow> (nat \<Rightarrow> bytes) \<Rightarrow> nat \<Rightarrow> bool" where
  "reader_ok perm_of L chunk n_chunks \<longleftrightarrow> layout_ok L \<and> perms_ok perm_of \<and> length (sl_per_chunk L) = n_chunks
     \<and> (\<forall>k < n_chunks. sl_per_chunk L ! k * sl_seq L < length (i4 (chunk k)))"

locale corpus_reader = chunk_source get_chunk src_ok chunk n_chunks
  for get_chunk :: "nat \<Rightarrow> 's \<Rightarrow> (pithos_error + bytes) \<times> 's" and src_ok :: "'s \<Rightarrow> bool" and chunk :: "nat \<Rightarrow> bytes"
    and n_chunks :: nat +
  fixes L :: stream_layout and perm_of :: "int \<Rightarrow> int \<Rightarrow> nat \<Rightarrow> nat \<Rightarrow> nat list" and seed :: int
begin

abbreviation ready :: bool where
  "ready \<equiv> reader_ok perm_of L chunk n_chunks"

lemma ready_facts:
  assumes ready
  shows "layout_ok L" and "perms_ok perm_of" and "length (sl_per_chunk L) = n_chunks"
    and "k < n_chunks \<Longrightarrow> sl_per_chunk L ! k * sl_seq L < length (i4 (chunk k))"
  using assms by (auto simp: reader_ok_def)

abbreviation sample :: "nat \<Rightarrow> int list" where
  "sample \<equiv> sample_at perm_of seed L chunk"

definition corpus_ok :: "'s corpus \<Rightarrow> bool" where
  "corpus_ok C \<longleftrightarrow> ready \<and> cp_layout C = L \<and> cp_seed C = seed \<and> src_ok (cp_src C)
     \<and> (\<forall>e k p. cp_perm C = Some ((e, k), p) \<longrightarrow> p = perm_of seed e k (sl_per_chunk L ! k))"

lemma corpus_perm_law:
  assumes "corpus_ok C" and "corpus_perm perm_of e k C = (p, C')"
  shows "p = perm_of seed e k (sl_per_chunk L ! k) \<and> corpus_ok C' \<and> cp_src C' = cp_src C \<and> cp_closed C' = cp_closed C"
  using assms by (auto simp: corpus_perm_def corpus_ok_def Let_def split: option.splits prod.splits if_splits)

lemma located:
  assumes R: ready and "pos < sl_total_samples L" and "k = pos div sl_samples_per_chunk L" and "i = pos - sl_cumulative L ! k"
  shows "k < n_chunks" and "i = pos mod sl_samples_per_chunk L" and "i < sl_per_chunk L ! k"
  using layout_locates [OF ready_facts(1) [OF R] assms(2)] ready_facts(3) [OF R] assms(3,4) by auto

text \<open>A row read at a located position is the sample.\<close>

lemma sample_row_at:
  assumes R: ready and "k < n_chunks" and "i < sl_per_chunk L ! k"
  shows "sample_row (sl_seq L) (chunk k) (perm_of seed e k (sl_per_chunk L ! k)) i
    = Inr (take (sl_seq L + 1) (drop (perm_of seed e k (sl_per_chunk L ! k) ! i * sl_seq L) (i4 (chunk k))))"
proof -
  let ?p = "perm_of seed e k (sl_per_chunk L ! k)"
  have p: "length ?p = sl_per_chunk L ! k" "?p ! i < sl_per_chunk L ! k" using perms_ok_nth [OF ready_facts(2) [OF R] assms(3)] by auto
  have "(?p ! i + 1) * sl_seq L \<le> sl_per_chunk L ! k * sl_seq L" using p(2) by (intro mult_right_mono) auto
  then have "?p ! i * sl_seq L + (sl_seq L + 1) \<le> length (i4 (chunk k))"
    using ready_facts(4) [OF R assms(2)] by (simp add: algebra_simps)
  then show ?thesis using p(1) assms(3) by (simp add: sample_row_def Let_def)
qed

text \<open>Within a run the chunk and the epoch stay the same.\<close>

lemma sample_in_run:
  assumes R: ready and "pos = a mod sl_total_samples L" and "k = pos div sl_samples_per_chunk L" and "i = pos mod sl_samples_per_chunk L"
    and "i + t < sl_per_chunk L ! k"
  shows "sample (a + t) = take (sl_seq L + 1)
     (drop (perm_of seed (int (a div sl_total_samples L)) k (sl_per_chunk L ! k) ! (i + t) * sl_seq L) (i4 (chunk k)))"
proof -
  note layout = ready_facts(1) [OF R]
  let ?n = "sl_total_samples L" and ?s = "sl_samples_per_chunk L"
  have n: "0 < ?n" using layout by (simp add: layout_ok_def)
  have s: "0 < ?s" by (rule layout_total(2) [OF layout])
  have posn: "pos < ?n" using assms(2) n by simp
  have k: "k < length (sl_per_chunk L)" using layout_locates(1) [OF layout posn] assms(3) by simp
  have le: "sl_per_chunk L ! k \<le> ?s" using layout k by (simp add: layout_ok_def)
  have pos: "pos = k * ?s + i" using assms(3,4) by simp
  have end_: "k * ?s + sl_per_chunk L ! k \<le> ?n"
  proof -
    have "sum_list (take (Suc k) (sl_per_chunk L)) \<le> sum_list (sl_per_chunk L)"
      by (metis append_take_drop_id le_add1 sum_list_append)
    then show ?thesis
      using sum_take_full [OF layout k] k layout by (simp add: take_Suc_conv_app_nth layout_ok_def)
  qed
  then have "pos + t < ?n" using pos assms(5) by simp
  moreover have "a + t = a div ?n * ?n + (pos + t)" using assms(2) by simp
  ultimately have a: "(a + t) div ?n = a div ?n" "(a + t) mod ?n = pos + t"
    using n by (metis div_mult_self3 add.commute div_less add_0 less_not_refl) (metis mod_mult_self3 mod_less \<open>a + t = _\<close> \<open>pos + t < ?n\<close>)
  have "i + t < ?s" using assms(5) le by simp
  then have "(pos + t) div ?s = k" "(pos + t) mod ?s = i + t"
    using pos s by (simp_all add: add.assoc)
  then show ?thesis by (simp add: sample_at_def Let_def a)
qed

lemma sample_run_at:
  assumes R: ready and "pos = a mod sl_total_samples L" and "k = pos div sl_samples_per_chunk L" and "i = pos mod sl_samples_per_chunk L"
    and "k < n_chunks"
  shows "i + t0 + n \<le> sl_per_chunk L ! k \<Longrightarrow>
    sample_run (sl_seq L) (chunk k) (perm_of seed (int (a div sl_total_samples L)) k (sl_per_chunk L ! k)) (i + t0) n
      = Inr (map sample [a + t0..<a + t0 + n])"
proof (induction n arbitrary: t0)
  case (Suc n)
  have "i + t0 < sl_per_chunk L ! k" using Suc.prems by simp
  then have row: "sample_row (sl_seq L) (chunk k) (perm_of seed (int (a div sl_total_samples L)) k (sl_per_chunk L ! k)) (i + t0)
      = Inr (sample (a + t0))"
    using sample_row_at [OF R assms(5)] sample_in_run [OF R assms(2-4)] by simp
  have "i + Suc t0 + n \<le> sl_per_chunk L ! k" using Suc.prems by simp
  from Suc.IH [OF this] row show ?case by (simp add: upt_conv_Cons del: upt_Suc)
qed simp

lemma read_loop_law:
  "corpus_ok C \<Longrightarrow> length out \<le> rows \<Longrightarrow>
     \<exists>r C'. read_loop get_chunk perm_of start rows out C = Some (r, C') \<and> corpus_ok C' \<and> cp_closed C' = cp_closed C
       \<and> (case r of Inl e \<Rightarrow> source_error e | Inr ws \<Rightarrow> ws = out @ map sample [start + length out..<start + rows])"
proof (induction "rows - length out" arbitrary: out C rule: less_induct)
  case less
  show ?case
  proof (cases "length out < rows")
    case False
    then show ?thesis using less.prems by (subst read_loop.simps) simp
  next
    case True
    define a where "a = start + length out"
    define pos where "pos = a mod sl_total_samples L"
    define k where "k = pos div sl_samples_per_chunk L"
    define i where "i = pos - sl_cumulative L ! k"
    define run where "run = min (rows - length out) (sl_per_chunk L ! k - i)"
    have R: ready using less.prems(1) by (simp add: corpus_ok_def)
  have n: "0 < sl_total_samples L" using ready_facts(1) [OF R] by (simp add: layout_ok_def)
    have posn: "pos < sl_total_samples L" using n by (simp add: pos_def)
    note loc = located [OF R posn k_def i_def]
    have ok: "cp_layout C = L" "src_ok (cp_src C)" using less.prems(1) by (simp_all add: corpus_ok_def)
    obtain r s' where f: "get_chunk k (cp_src C) = (r, s')" by (meson surj_pair)
    note law = get_chunk_law [OF ok(2) loc(1) f]
    let ?C1 = "C\<lparr>cp_src := s'\<rparr>"
    have ok1: "corpus_ok ?C1" using less.prems(1) law by (simp add: corpus_ok_def)
    show ?thesis
    proof (cases r)
      case (Inl e)
      have "read_loop get_chunk perm_of start rows out C = Some (Inl e, ?C1)"
        using True f Inl ok(1) by (subst read_loop.simps) (simp add: Let_def a_def pos_def k_def)
      then show ?thesis using ok1 source_errorI [OF loc(1) ok(2)] f Inl by auto
    next
      case (Inr mm)
      then have mm: "mm = chunk k" using law by simp
      obtain p C2 where p: "corpus_perm perm_of (int (a div sl_total_samples L)) k ?C1 = (p, C2)" by (meson surj_pair)
      note pl = corpus_perm_law [OF ok1 p]
      have run: "0 < run" "i + run \<le> sl_per_chunk L ! k" "run \<le> rows - length out" using True loc(3) by (auto simp: run_def)
      have ws: "sample_run (sl_seq L) mm p i run = Inr (map sample [a..<a + run])"
        using sample_run_at [OF R pos_def k_def loc(2,1), of 0 run] run(2) pl mm by simp
      have eq: "read_loop get_chunk perm_of start rows out C = read_loop get_chunk perm_of start rows (out @ map sample [a..<a + run]) C2"
        using True f Inr ok(1) p ws
        by (subst read_loop.simps) (simp add: Let_def a_def [symmetric] pos_def [symmetric] k_def [symmetric] i_def [symmetric] run_def [symmetric])
      let ?out = "out @ map sample [a..<a + run]"
      have len: "length ?out = length out + run" by simp
      have dec: "rows - length ?out < rows - length out" "length ?out \<le> rows" unfolding len using run True by auto
      from less.hyps [OF dec(1) _ dec(2), of C2] pl obtain r' C' where
        IH: "read_loop get_chunk perm_of start rows ?out C2 = Some (r', C')" "corpus_ok C'" "cp_closed C' = cp_closed C2"
        "case r' of Inl e \<Rightarrow> source_error e | Inr ws \<Rightarrow> ws = ?out @ map sample [start + length ?out..<start + rows]" by blast
      have "map sample [a..<a + run] @ map sample [start + length ?out..<start + rows] = map sample [a..<start + rows]"
      proof -
        have "[a..<start + rows] = [a..<a + run] @ [a + run..<start + rows]"
          using upt_add_eq_append [of a "a + run" "start + rows - (a + run)"] run True by (simp add: a_def)
        then show ?thesis unfolding len by (simp add: a_def add.assoc)
      qed
      then show ?thesis using IH eq pl by (auto simp: a_def split: sum.splits)
    qed
  qed
qed

lemma strided_loop_law:
  "corpus_ok C \<Longrightarrow> (\<forall>e k mm p. active = Some ((e, k), mm, p) \<longrightarrow> mm = chunk k \<and> p = perm_of seed e k (sl_per_chunk L ! k)) \<Longrightarrow>
     strided_loop get_chunk perm_of samples active C = (r, C') \<Longrightarrow>
     corpus_ok C' \<and> cp_closed C' = cp_closed C \<and> (case r of Inl e \<Rightarrow> source_error e | Inr ws \<Rightarrow> ws = map sample samples)"
proof (induction samples arbitrary: active C r C')
  case (Cons a samples)
  define pos where "pos = a mod sl_total_samples L"
  define k where "k = pos div sl_samples_per_chunk L"
  define i where "i = pos - sl_cumulative L ! k"
  define e where "e = int (a div sl_total_samples L)"
  have R: ready using Cons.prems(1) by (simp add: corpus_ok_def)
  have n: "0 < sl_total_samples L" using ready_facts(1) [OF R] by (simp add: layout_ok_def)
  have posn: "pos < sl_total_samples L" using n by (simp add: pos_def)
  note loc = located [OF R posn k_def i_def]
  have ok: "cp_layout C = L" "src_ok (cp_src C)" using Cons.prems(1) by (simp_all add: corpus_ok_def)
  define row where "row mm perm C2 = (case sample_row (sl_seq L) mm perm i of
              Inl e \<Rightarrow> (Inl e, C2)
            | Inr w \<Rightarrow>
                (case strided_loop get_chunk perm_of samples (Some ((e, k), mm, perm)) C2 of
                   (Inl e, C3) \<Rightarrow> (Inl e, C3) | (Inr ws, C3) \<Rightarrow> (Inr (w # ws), C3)))" for mm perm and C2 :: "'s corpus"
  define load where "load = (case get_chunk k (cp_src C) of
                    (Inl e, s) \<Rightarrow> (Inl e, C\<lparr>cp_src := s\<rparr>)
                  | (Inr mm, s) \<Rightarrow> (case corpus_perm perm_of e k (C\<lparr>cp_src := s\<rparr>) of (perm, C2) \<Rightarrow> row mm perm C2))"
  have eq: "strided_loop get_chunk perm_of (a # samples) active C =
      (case active of None \<Rightarrow> load | Some (key, mm, perm) \<Rightarrow> if key = (e, k) then row mm perm C else load)"
    by (simp only: strided_loop.simps Let_def ok(1) load_def row_def k_def i_def e_def pos_def)
  have first: "sample_row (sl_seq L) (chunk k) (perm_of seed e k (sl_per_chunk L ! k)) i = Inr (sample a)"
    using sample_row_at [OF R loc(1,3), of e] sample_in_run [OF R pos_def k_def loc(2), of 0] loc(3) by (simp add: e_def)
  have good: "corpus_ok C'' \<and> cp_closed C'' = cp_closed C2 \<and> (case r' of Inl e \<Rightarrow> source_error e | Inr ws \<Rightarrow> ws = sample a # map sample samples)"
    if "row (chunk k) (perm_of seed e k (sl_per_chunk L ! k)) C2 = (r', C'')" "corpus_ok C2" for C2 r' C''
  proof -
    obtain r3 C3 where r3: "strided_loop get_chunk perm_of samples (Some ((e, k), chunk k, perm_of seed e k (sl_per_chunk L ! k))) C2 = (r3, C3)"
      by (meson surj_pair)
    from Cons.IH [OF that(2) _ r3] have "corpus_ok C3" "cp_closed C3 = cp_closed C2"
      "case r3 of Inl e \<Rightarrow> source_error e | Inr ws \<Rightarrow> ws = map sample samples" by auto
    then show ?thesis using that(1) first r3 by (auto simp: row_def split: sum.splits)
  qed
  have load: "corpus_ok C'' \<and> cp_closed C'' = cp_closed C \<and> (case r' of Inl e \<Rightarrow> source_error e | Inr ws \<Rightarrow> ws = sample a # map sample samples)"
    if "load = (r', C'')" for r' C''
  proof -
    obtain r1 s1 where f: "get_chunk k (cp_src C) = (r1, s1)" by (meson surj_pair)
    note law = get_chunk_law [OF ok(2) loc(1) f]
    have ok1: "corpus_ok (C\<lparr>cp_src := s1\<rparr>)" using Cons.prems(1) law by (simp add: corpus_ok_def)
    show ?thesis
    proof (cases r1)
      case (Inl er)
      then show ?thesis using that f ok1 source_errorI [OF loc(1) ok(2)] by (auto simp: load_def)
    next
      case (Inr mm)
      obtain p C2 where p: "corpus_perm perm_of e k (C\<lparr>cp_src := s1\<rparr>) = (p, C2)" by (meson surj_pair)
      note pl = corpus_perm_law [OF ok1 p]
      have "row (chunk k) (perm_of seed e k (sl_per_chunk L ! k)) C2 = (r', C'')"
        using that f Inr p pl law by (simp add: load_def)
      from good [OF this] pl show ?thesis by auto
    qed
  qed
  show ?case
  proof (cases "\<exists>mm p. active = Some ((e, k), mm, p)")
    case True
    then have "row (chunk k) (perm_of seed e k (sl_per_chunk L ! k)) C = (r, C')"
      using Cons.prems(2,3) unfolding eq by auto
    from good [OF this Cons.prems(1)] show ?thesis by (simp only: list.map)
  next
    case False
    then have "load = (r, C')" using Cons.prems(3) unfolding eq by (auto split: option.splits if_splits)
    from load [OF this] show ?thesis by (simp only: list.map)
  qed
qed (auto split: sum.splits)

lemma shard_samples_law:
  "corpus_ok C \<Longrightarrow> \<forall>x \<in> set xs. 0 \<le> x \<Longrightarrow> shard_samples get_chunk perm_of xs C = (r, C') \<Longrightarrow>
     corpus_ok C' \<and> (case r of Inl e \<Rightarrow> source_error e | Inr ws \<Rightarrow> ws = map (\<lambda>x. sample (nat x)) xs)"
proof (induction xs arbitrary: C r C')
  case (Cons x xs)
  define a where "a = nat x"
  have x: "x = int a" using Cons.prems(2) by (simp add: a_def)
  define pos where "pos = a mod sl_total_samples L"
  define k where "k = pos div sl_samples_per_chunk L"
  define i where "i = pos - sl_cumulative L ! k"
  define e where "e = int (a div sl_total_samples L)"
  have R: ready using Cons.prems(1) by (simp add: corpus_ok_def)
  have n: "0 < sl_total_samples L" using ready_facts(1) [OF R] by (simp add: layout_ok_def)
  have posn: "pos < sl_total_samples L" using n by (simp add: pos_def)
  note loc = located [OF R posn k_def i_def]
  have ok: "cp_layout C = L" using Cons.prems(1) by (simp add: corpus_ok_def)
  have epos: "x div int (sl_total_samples L) = e" "nat (x mod int (sl_total_samples L)) = pos"
    unfolding x e_def pos_def by (simp_all add: zdiv_int zmod_int [symmetric])
  obtain p C1 where p: "corpus_perm perm_of e k C = (p, C1)" by (meson surj_pair)
  note pl = corpus_perm_law [OF Cons.prems(1) p]
  obtain r1 s1 where f: "get_chunk k (cp_src C1) = (r1, s1)" by (meson surj_pair)
  have ok1: "src_ok (cp_src C1)" using conjunct1 [OF conjunct2 [OF pl]] by (simp add: corpus_ok_def)
  note law = get_chunk_law [OF ok1 loc(1) f]
  have ok2: "corpus_ok (C1\<lparr>cp_src := s1\<rparr>)" using pl law by (simp add: corpus_ok_def)
  have len: "\<not> length p \<le> i" using pl perms_ok_nth(1) [OF ready_facts(2) [OF R] loc(3)] loc(3) by simp
  have first: "sample_row (sl_seq L) (chunk k) p i = Inr (sample a)"
    using sample_row_at [OF R loc(1,3), of e] sample_in_run [OF R pos_def k_def loc(2), of 0] loc(3) pl by (simp add: e_def)
  then have w: "length (take (sl_seq L + 1) (drop (p ! i * sl_seq L) (i4 (chunk k)))) = sl_seq L + 1"
    "take (sl_seq L + 1) (drop (p ! i * sl_seq L) (i4 (chunk k))) = sample a"
    using len by (auto simp: sample_row_def Let_def split: if_splits)
  have one: "shard_sample get_chunk perm_of x C = (case r1 of Inl er \<Rightarrow> (Inl er, C1\<lparr>cp_src := s1\<rparr>) | Inr mm \<Rightarrow> (Inr (sample a), C1\<lparr>cp_src := s1\<rparr>))"
    using p f len w law
    by (auto simp: shard_sample_def Let_def ok epos k_def [symmetric] i_def [symmetric] split: sum.split)
  show ?case
  proof (cases r1)
    case (Inl er)
    then show ?thesis using one Cons.prems(3) ok2 source_errorI [OF loc(1) ok1] f by auto
  next
    case (Inr mm)
    obtain r2 C2 where r2: "shard_samples get_chunk perm_of xs (C1\<lparr>cp_src := s1\<rparr>) = (r2, C2)" by (meson surj_pair)
    from Cons.IH [OF ok2 _ r2] Cons.prems(2) have "corpus_ok C2" "case r2 of Inl e \<Rightarrow> source_error e | Inr ws \<Rightarrow> ws = map (\<lambda>x. sample (nat x)) xs"
      by auto
    then show ?thesis using one Inr r2 Cons.prems(3) by (auto simp: a_def split: sum.splits)
  qed
qed (auto split: sum.splits)

end

section \<open>The cache behind the prefetch pipeline is a source\<close>

text \<open>
  The objects of a corpus: \<open>obj\<close> gives each chunk a content that verifies, and no other content does. The
  second half is the collision resistance of the hash, for these chunks.
\<close>

definition corpus_objects :: "cache_env \<Rightarrow> manifest \<Rightarrow> (string \<Rightarrow> bytes) \<Rightarrow> bool" where
  "corpus_objects env m obj \<longleftrightarrow> distinct (mf_chunk_names m)
     \<and> (\<forall>c \<in> set (mf_chunks m). verify_object env (obj (ci_name c)) c
          \<and> (\<forall>v. verify_object env v c \<longrightarrow> v = obj (ci_name c)))"

definition cache_serves :: "cache_env \<Rightarrow> manifest \<Rightarrow> chunk_cache \<Rightarrow> bool" where
  "cache_serves env m s \<longleftrightarrow> cc_inv env s \<and> within_resident_budget s
     \<and> (\<forall>n info. dict_get (cc_expected s) n = Some info \<longrightarrow> info \<in> set (mf_chunks m) \<and> ci_name info = n)"

lemma io_get_law:
  assumes "corpus_objects env m obj" and "cache_serves env m c" and "io_get env orc name (c, t) = (r, c', t')"
  shows "cache_serves env m c' \<and> (\<forall>b. r = Inr b \<longrightarrow> b = obj name)"
proof -
  obtain r1 c1 where g: "cache_get env (or_now orc t) (or_world orc t) (or_room orc t) name c = (r1, c1)" by (meson surj_pair)
  then have rc: "r = r1" "c' = c1" using assms(3) by (simp_all add: io_get_def)
  have s: "cc_inv env c1" "within_resident_budget c1" "same_config c c1"
    "\<forall>v. r1 = Inr v \<longrightarrow> (\<exists>info. dict_get (cc_expected c) name = Some info \<and> verify_object env v info)"
    using cache_get_spec [OF _ _ g] assms(2) by (auto simp: cache_serves_def)
  have "cache_serves env m c1" using s(1-3) assms(2) by (simp add: cache_serves_def same_config_def)
  moreover have "b = obj name" if rb: "r1 = Inr b" for b
  proof -
    obtain info where "dict_get (cc_expected c) name = Some info" "verify_object env b info" using s(4) rb by blast
    then show ?thesis using assms(1,2) unfolding cache_serves_def corpus_objects_def by metis
  qed
  ultimately show ?thesis using rc by blast
qed

text \<open>
  The futures of the pipeline: \<open>nm\<close> names the object each future fetches. What is in flight has a future of its
  name that is queued or done, and what is done holds the object.
\<close>

definition pf_names :: "(string \<Rightarrow> bytes) \<Rightarrow> prefetch \<Rightarrow> (nat \<Rightarrow> string) \<Rightarrow> bool" where
  "pf_names obj pf nm \<longleftrightarrow>
     (\<forall>name n. dict_get (pf_inflight pf) name = Some n \<longrightarrow> nm n = name \<and> n < pf_next pf
        \<and> (dict_get (pf_results pf) n \<noteq> None \<or> n \<in> fst ` set (pf_queue pf)))
     \<and> (\<forall>(n, name) \<in> set (pf_queue pf). nm n = name \<and> n < pf_next pf)
     \<and> (\<forall>n b. dict_get (pf_results pf) n = Some (Inr b) \<longrightarrow> b = obj (nm n))
     \<and> (\<forall>n. dict_get (pf_results pf) n \<noteq> None \<longrightarrow> n < pf_next pf)"

lemma pf_namesI:
  assumes "\<And>name n. dict_get (pf_inflight pf) name = Some n \<Longrightarrow>
      nm n = name \<and> n < pf_next pf \<and> (dict_get (pf_results pf) n \<noteq> None \<or> n \<in> fst ` set (pf_queue pf))"
    and "\<And>n name. (n, name) \<in> set (pf_queue pf) \<Longrightarrow> nm n = name \<and> n < pf_next pf"
    and "\<And>n b. dict_get (pf_results pf) n = Some (Inr b) \<Longrightarrow> b = obj (nm n)"
    and "\<And>n. dict_get (pf_results pf) n \<noteq> None \<Longrightarrow> n < pf_next pf"
  shows "pf_names obj pf nm"
  unfolding pf_names_def using assms by blast

lemma pf_namesD:
  assumes "pf_names obj pf nm"
  shows "dict_get (pf_inflight pf) name = Some n \<Longrightarrow>
      nm n = name \<and> n < pf_next pf \<and> (dict_get (pf_results pf) n \<noteq> None \<or> n \<in> fst ` set (pf_queue pf))"
    and "(n, name) \<in> set (pf_queue pf) \<Longrightarrow> nm n = name \<and> n < pf_next pf"
    and "dict_get (pf_results pf) n = Some (Inr b) \<Longrightarrow> b = obj (nm n)"
    and "dict_get (pf_results pf) n \<noteq> None \<Longrightarrow> n < pf_next pf"
proof -
  note p = assms [unfolded pf_names_def]
  show "dict_get (pf_inflight pf) name = Some n \<Longrightarrow>
      nm n = name \<and> n < pf_next pf \<and> (dict_get (pf_results pf) n \<noteq> None \<or> n \<in> fst ` set (pf_queue pf))"
    using conjunct1 [OF p] by blast
  show "(n, name) \<in> set (pf_queue pf) \<Longrightarrow> nm n = name \<and> n < pf_next pf"
    using conjunct1 [OF conjunct2 [OF p]] by auto
  show "dict_get (pf_results pf) n = Some (Inr b) \<Longrightarrow> b = obj (nm n)"
    using conjunct1 [OF conjunct2 [OF conjunct2 [OF p]]] by blast
  show "dict_get (pf_results pf) n \<noteq> None \<Longrightarrow> n < pf_next pf"
    using conjunct2 [OF conjunct2 [OF conjunct2 [OF p]]] by blast
qed

lemma pf_request_law:
  assumes "pf_names obj pf nm"
  shows "\<exists>nm'. pf_names obj (snd (pf_request name pf)) nm'"
proof (cases "pf_closed pf \<or> dict_has (pf_inflight pf) name \<or> pf_depth pf \<le> length (pf_inflight pf)")
  case True
  then have "snd (pf_request name pf) = pf" by (auto simp: pf_request_def)
  then show ?thesis using assms by auto
next
  case False
  then have eq: "snd (pf_request name pf) = pf\<lparr>pf_inflight := dict_set name (pf_next pf) (pf_inflight pf),
       pf_queue := pf_queue pf @ [(pf_next pf, name)], pf_next := pf_next pf + 1\<rparr>" by (simp add: pf_request_def)
  note a = pf_namesD(1) [OF assms] and q = pf_namesD(2) [OF assms] and r = pf_namesD(3) [OF assms] and l = pf_namesD(4) [OF assms]
  let ?nm = "nm(pf_next pf := name)"
  have old: "?nm n = nm n" if "n < pf_next pf" for n using that by simp
  have 1: "?nm n = x \<and> n < pf_next pf + 1 \<and> (dict_get (pf_results pf) n \<noteq> None \<or> n \<in> fst ` set (pf_queue pf @ [(pf_next pf, name)]))"
    if d: "dict_get (dict_set name (pf_next pf) (pf_inflight pf)) x = Some n" for x n
  proof (cases "x = name")
    case True
    then show ?thesis using d by simp
  next
    case False
    then have "nm n = x \<and> n < pf_next pf \<and> (dict_get (pf_results pf) n \<noteq> None \<or> n \<in> fst ` set (pf_queue pf))" using d a by simp
    then show ?thesis using old by auto
  qed
  have 2: "?nm n = x \<and> n < pf_next pf + 1" if d: "(n, x) \<in> set (pf_queue pf @ [(pf_next pf, name)])" for n x
    
  proof (cases "(n, x) \<in> set (pf_queue pf)")
    case True
    then show ?thesis using q [OF True] old [of n] by simp
  next
    case False
    then show ?thesis using d by simp
  qed
  have 3: "b = obj (?nm n)" if d: "dict_get (pf_results pf) n = Some (Inr b)" for n b
    using r [OF d] l [of n] old [of n] d by simp
  have sel: "pf_inflight (snd (pf_request name pf)) = dict_set name (pf_next pf) (pf_inflight pf)"
    "pf_queue (snd (pf_request name pf)) = pf_queue pf @ [(pf_next pf, name)]"
    "pf_next (snd (pf_request name pf)) = pf_next pf + 1" "pf_results (snd (pf_request name pf)) = pf_results pf"
    by (simp_all add: eq)
  have "pf_names obj (snd (pf_request name pf)) ?nm"
  proof (rule pf_namesI, unfold sel)
    show "n < pf_next pf + 1" if "dict_get (pf_results pf) n \<noteq> None" for n using l [OF that] by simp
  qed (fact 1 2 3)+
  then show ?thesis by blast
qed

lemma pf_work_law:
  assumes co: "corpus_objects env m obj" and c: "cache_serves env m (fst ct)" and p: "pf_names obj pf nm"
    and eq: "pf_work (io_get env orc) (pf, ct) = (pf', ct')"
  shows "cache_serves env m (fst ct') \<and> pf_names obj pf' nm \<and> pf_queue pf' = tl (pf_queue pf)
    \<and> (\<forall>n. dict_get (pf_results pf) n \<noteq> None \<longrightarrow> dict_get (pf_results pf') n \<noteq> None)
    \<and> (\<forall>x. pf_queue pf \<noteq> [] \<and> fst (hd (pf_queue pf)) = x \<longrightarrow> dict_get (pf_results pf') x \<noteq> None)"
proof (cases "pf_queue pf")
  case Nil
  then show ?thesis using assms by auto
next
  case (Cons x q)
  obtain n name where x: "x = (n, name)" by (cases x)
  obtain r c1 t1 where g: "io_get env orc name (fst ct, snd ct) = (r, c1, t1)" by (metis surj_pair)
  note law = io_get_law [OF co c g]
  have eq': "pf' = pf\<lparr>pf_queue := q, pf_results := dict_set n r (pf_results pf)\<rparr>" "ct' = (c1, t1)"
    using eq Cons x g by auto
  have nq: "nm n = name" "n < pf_next pf" using p Cons x by (auto simp: pf_names_def)
  have "pf_names obj pf' nm"
    using p Cons x law nq unfolding eq'(1) pf_names_def by (auto split: if_splits)
  then show ?thesis using law eq' Cons x by auto
qed

lemma pf_await_law:
  assumes co: "corpus_objects env m obj"
  shows "cache_serves env m (fst ct) \<Longrightarrow> pf_names obj pf nm \<Longrightarrow> pf_await (io_get env orc) fuel n (pf, ct) = (r, pf', ct') \<Longrightarrow>
     dict_get (pf_results pf) n \<noteq> None \<or> n \<in> fst ` set (pf_queue pf) \<Longrightarrow> length (pf_queue pf) \<le> fuel \<Longrightarrow>
     cache_serves env m (fst ct') \<and> pf_names obj pf' nm \<and> (\<exists>v. r = Some v \<and> (\<forall>b. v = Inr b \<longrightarrow> b = obj (nm n)))"
proof (induction fuel arbitrary: pf ct)
  case 0
  then have "dict_get (pf_results pf) n \<noteq> None" "pf' = pf" "ct' = ct" "r = dict_get (pf_results pf) n" by auto
  then show ?case using 0 by (auto simp: pf_names_def)
next
  case (Suc fuel)
  show ?case
  proof (cases "dict_get (pf_results pf) n")
    case (Some v)
    then have "r = Some v" "pf' = pf" "ct' = ct" using Suc.prems(3) by auto
    moreover have "b = obj (nm n)" if "v = Inr b" for b using Suc.prems(2) Some that unfolding pf_names_def by blast
    ultimately show ?thesis using Suc.prems(1,2) by blast
  next
    case None
    obtain pf1 ct1 where w: "pf_work (io_get env orc) (pf, ct) = (pf1, ct1)" by (meson surj_pair)
    note wl = pf_work_law [OF co Suc.prems(1,2) w]
    have q: "n \<in> fst ` set (pf_queue pf)" using Suc.prems(4) None by simp
    then have ne: "pf_queue pf \<noteq> []" by auto
    have "dict_get (pf_results pf1) n \<noteq> None \<or> n \<in> fst ` set (pf_queue pf1)"
    proof (cases "fst (hd (pf_queue pf)) = n")
      case True
      then show ?thesis using wl ne by blast
    next
      case False
      then have "n \<in> fst ` set (tl (pf_queue pf))" using q ne by (cases "pf_queue pf") auto
      then show ?thesis using wl by simp
    qed
    moreover have "length (pf_queue pf1) \<le> fuel" using wl Suc.prems(5) by simp
    moreover have "pf_await (io_get env orc) fuel n (pf1, ct1) = (r, pf', ct')" using Suc.prems(3) None w by simp
    ultimately show ?thesis using Suc.IH [of ct1 pf1] wl by blast
  qed
qed

lemma pf_work_iter:
  assumes co: "corpus_objects env m obj"
  shows "cache_serves env m (fst ct) \<Longrightarrow> pf_names obj pf nm \<Longrightarrow> (pf_work (io_get env orc) ^^ j) (pf, ct) = (pf', ct') \<Longrightarrow>
     cache_serves env m (fst ct') \<and> pf_names obj pf' nm"
proof (induction j arbitrary: pf' ct')
  case (Suc j)
  obtain pf1 ct1 where w: "(pf_work (io_get env orc) ^^ j) (pf, ct) = (pf1, ct1)" by (meson surj_pair)
  have "pf_work (io_get env orc) (pf1, ct1) = (pf', ct')" using Suc.prems(3) w by simp
  from pf_work_law [OF co _ _ this] Suc.IH [OF Suc.prems(1,2) w] show ?case by blast
qed simp

lemma request_all_law: "pf_names obj pf nm \<Longrightarrow> \<exists>nm'. pf_names obj (request_all names pf) nm'"
proof (induction names arbitrary: pf nm)
  case (Cons n ns)
  from pf_request_law [OF Cons.prems, of n] Cons.IH show ?case by auto
qed auto

lemma pf_get_law:
  assumes co: "corpus_objects env m obj" and c: "cache_serves env m c" and p: "pf_names obj pf nm"
    and eq: "pf_get (io_get env orc) name (pf, c, t) = (r, pf', c', t')"
  shows "cache_serves env m c' \<and> pf_names obj pf' nm \<and> (\<exists>v. r = Some v \<and> (\<forall>b. v = Inr b \<longrightarrow> b = obj name))"
proof (cases "dict_get (pf_inflight pf) name")
  case None
  obtain r1 c1 t1 where g: "io_get env orc name (c, t) = (r1, c1, t1)" by (metis surj_pair)
  from io_get_law [OF co c g] show ?thesis using eq None g p by (auto simp: pf_get_def)
next
  case (Some n)
  let ?pf = "pf\<lparr>pf_inflight := dict_del name (pf_inflight pf)\<rparr>"
  have n: "nm n = name" "dict_get (pf_results pf) n \<noteq> None \<or> n \<in> fst ` set (pf_queue pf)"
    using p Some unfolding pf_names_def by blast+
  have "pf_names obj ?pf nm" using p unfolding pf_names_def by (auto split: if_splits)
  moreover have "pf_await (io_get env orc) (length (pf_queue ?pf)) n (?pf, c, t) = (r, pf', c', t')"
    using eq Some by (simp add: pf_get_def)
  moreover have "dict_get (pf_results ?pf) n \<noteq> None \<or> n \<in> fst ` set (pf_queue ?pf)" using n(2) by simp
  ultimately have "cache_serves env m (fst (c', t')) \<and> pf_names obj pf' nm \<and> (\<exists>v. r = Some v \<and> (\<forall>b. v = Inr b \<longrightarrow> b = obj (nm n)))"
    using c by (intro pf_await_law [OF co, of "(c, t)" ?pf nm orc "length (pf_queue ?pf)" n r pf' "(c', t')"]) auto
  then show ?thesis using n(1) by simp
qed

definition io_serves :: "cache_env \<Rightarrow> manifest \<Rightarrow> (string \<Rightarrow> bytes) \<Rightarrow> io_state \<Rightarrow> bool" where
  "io_serves env m obj io \<longleftrightarrow> corpus_objects env m obj \<and> cache_serves env m (io_cache io)
     \<and> (\<forall>pf. io_pf io = Some pf \<longrightarrow> (\<exists>nm. pf_names obj pf nm))"

lemma corpus_fetch_law:
  assumes io: "io_serves env m obj io" and eq: "corpus_fetch env orc (mf_chunk_names m) depth k io = (r, io')"
  shows "io_serves env m obj io' \<and> (\<forall>b. r = Inr b \<longrightarrow> b = obj (mf_chunk_names m ! k))"
proof (cases "io_pf io")
  case None
  obtain r1 c1 t1 where g: "io_get env orc (mf_chunk_names m ! k) (io_cache io, io_tick io) = (r1, c1, t1)" by (metis surj_pair)
  have "corpus_objects env m obj" "cache_serves env m (io_cache io)" using io by (simp_all add: io_serves_def)
  from io_get_law [OF this g] show ?thesis using eq None g io by (auto simp: corpus_fetch_def io_serves_def)
next
  case (Some pf)
  obtain nm where nm: "pf_names obj pf nm" using io Some by (auto simp: io_serves_def)
  have co: "corpus_objects env m obj" and c: "cache_serves env m (io_cache io)" using io by (simp_all add: io_serves_def)
  obtain pf1 c1 t1 where w: "(pf_work (io_get env orc) ^^ or_work orc (io_tick io)) (pf, io_cache io, io_tick io) = (pf1, c1, t1)"
    by (metis surj_pair)
  have 1: "cache_serves env m c1" "pf_names obj pf1 nm" using pf_work_iter [OF co _ nm w] c by auto
  obtain r2 pf2 c2 t2 where g: "pf_get (io_get env orc) (mf_chunk_names m ! k) (pf1, c1, t1) = (r2, pf2, c2, t2)" by (metis surj_pair)
  from pf_get_law [OF co 1 g] obtain v where v: "cache_serves env m c2" "pf_names obj pf2 nm" "r2 = Some v"
    "\<forall>b. v = Inr b \<longrightarrow> b = obj (mf_chunk_names m ! k)" by blast
  have "\<exists>nm. pf_names obj (case v of Inl e \<Rightarrow> pf2 | Inr b \<Rightarrow> request_all ns pf2) nm" for ns
    using v(2) request_all_law by (cases v) auto
  then show ?thesis using eq Some w g v co by (auto simp: corpus_fetch_def Let_def io_serves_def)
qed

interpretation fetching: corpus_reader "corpus_fetch env orc (mf_chunk_names m) depth" "io_serves env m obj"
  "\<lambda>k. obj (mf_chunk_names m ! k)" "length (mf_chunks m)" L perm_of seed
  for env orc m depth obj L perm_of seed
  by unfold_locales (use corpus_fetch_law in blast)

section \<open>Construction\<close>

lemma length_i4: "length (i4 b) = length b div 4"
  by (induction b rule: i4.induct) auto

lemma expect_all_Inr:
  "expect_all infos ex = Inr ex' \<Longrightarrow> dict_get ex' n = Some info \<Longrightarrow> info \<in> set infos \<and> ci_name info = n \<or> dict_get ex n = Some info"
  by (induction infos ex rule: expect_all.induct) (auto split: sum.splits if_splits)

lemma expect_all_tokens: "expect_all infos ex = Inr ex' \<Longrightarrow> info \<in> set infos \<Longrightarrow> 0 < ci_tokens info"
  by (induction infos ex rule: expect_all.induct) (auto split: sum.splits if_splits)

lemma cache_new_serves:
  assumes "cache_new urls (mf_chunks m) budget disk = Inr c" and "dict_ok disk"
  shows "cache_serves env m c"
proof -
  have "cc_starts env c" using assms unfolding cc_starts_def by blast
  then have b: "cc_bounded env c" by (rule cc_starts_bounded)
  obtain ex where ex: "expect_all (mf_chunks m) [] = Inr ex"
    using assms(1) by (cases "expect_all (mf_chunks m) []") (auto simp: cache_new_def)
  obtain b s0 where s0: "c = enforce_disk_budget None s0" "s0 = \<lparr>cc_expected = ex, cc_urls = urls, cc_budget = b, cc_leased = urls \<noteq> [],
      cc_resident = [], cc_resident_bytes = 0, cc_closed = False, cc_disk = disk\<rparr>"
    using assms(1) ex by (cases "plain_int (Some budget)") (auto simp: cache_new_def split: if_splits)
  have "cc_inv env s0" using s0(2) assms(2) by (simp add: cc_inv_def resident_sum_def)
  from enforce_spec(2) [OF this] have "cc_expected c = ex" using s0 by (simp add: same_config_def)
  then show ?thesis using b expect_all_Inr [OF ex] by (auto simp: cache_serves_def cc_bounded_def)
qed

lemma corpus_new_ok:
  assumes "corpus_new m eid locs sl sd cfg disk = Inr C" and "dict_ok disk" and co: "corpus_objects env m obj" and "perms_ok perm_of"
  shows "fetching.corpus_ok env m obj (cp_layout C) perm_of (cp_seed C) C" and "\<not> cp_closed C"
    and "manifest_layout m sl = Inr (cp_layout C)" and "sd = PInt (cp_seed C)"
proof -
  obtain L where L: "manifest_layout m sl = Inr L" using assms(1) by (cases "manifest_layout m sl") (auto simp: corpus_new_def split: if_splits)
  obtain sd' where sd: "plain_int (Some sd) = Some sd'" using assms(1) L
    by (cases "plain_int (Some sd)") (auto simp: corpus_new_def split: if_splits)
  let ?new = "cache_new (map (\<lambda>(k, v). (k, locator_text v)) locs) (mf_chunks m) (PInt (int (cf_budget_bytes cfg))) disk"
  obtain c where c: "?new = Inr c" using assms(1) L sd by (cases ?new) (auto simp: corpus_new_def split: if_splits)
  obtain ex where "expect_all (mf_chunks m) [] = Inr ex"
    using c by (cases "expect_all (mf_chunks m) []") (auto simp: cache_new_def)
  from expect_all_tokens [OF this] have tokens: "0 < ci_tokens (mf_chunks m ! k)" if "k < length (mf_chunks m)" for k
    using that by simp
  let ?pfs = "if 0 < cf_prefetch_depth cfg then map_sum id Some (pf_new (PInt (int (cf_prefetch_depth cfg)))) else Inr None"
  obtain pf where pf: "?pfs = Inr pf" using assms(1) L sd c by (cases ?pfs) (auto simp: corpus_new_def split: if_splits)
  have C: "C = \<lparr>cp_manifest = m, cp_layout = L, cp_seed = sd', cp_perm = None, cp_closed = False,
      cp_src = \<lparr>io_cache = c, io_pf = pf, io_tick = 0\<rparr>\<rparr>"
    using assms(1) L sd c pf by (simp add: corpus_new_def split: if_splits)
  have "\<exists>nm. pf_names obj p nm" if "pf = Some p" for p
    using pf that by (auto simp: pf_new_def pf_names_def split: if_splits)
  then have io: "io_serves env m obj (cp_src C)"
    using co cache_new_serves [OF c assms(2)] unfolding C by (simp add: io_serves_def)
  note lay = layout_ok_of [OF L]
  have "sl_per_chunk L ! k * sl_seq L < length (i4 (obj (mf_chunk_names m ! k)))" if k: "k < length (mf_chunks m)" for k
  proof -
    let ?c = "mf_chunks m ! k"
    have "verify_object env (obj (ci_name ?c)) ?c" using co k nth_mem unfolding corpus_objects_def by blast
    then have "length (obj (mf_chunk_names m ! k)) = 4 * ci_tokens ?c"
      using k by (simp add: verify_object_def chunk_size_def TOKEN_BYTES_def mf_chunk_names_def)
    then have i4: "length (i4 (obj (mf_chunk_names m ! k))) = ci_tokens ?c" by (simp add: length_i4)
    have "(ci_tokens ?c - 1) div sl_seq L * sl_seq L \<le> ci_tokens ?c - 1" by simp
    moreover have "0 < ci_tokens ?c" using tokens k by simp
    ultimately have "(ci_tokens ?c - 1) div sl_seq L * sl_seq L < ci_tokens ?c" by linarith
    then show ?thesis using lay(2) k i4 by simp
  qed
  then have "reader_ok perm_of L (\<lambda>k. obj (mf_chunk_names m ! k)) (length (mf_chunks m))"
    using lay(1,2) assms(4) by (simp add: reader_ok_def)
  then show "fetching.corpus_ok env m obj (cp_layout C) perm_of (cp_seed C) C"
    using io C by (simp add: fetching.corpus_ok_def)
  show "\<not> cp_closed C" "manifest_layout m sl = Inr (cp_layout C)" using C L by simp_all
  show "sd = PInt (cp_seed C)" using sd C by (cases sd) auto
qed

section \<open>Runs of a corpus\<close>

text \<open>A corpus in use: reads with any arguments, whatever the world answers.\<close>

inductive corpus_use :: "cache_env \<Rightarrow> (int \<Rightarrow> int \<Rightarrow> nat \<Rightarrow> nat \<Rightarrow> nat list) \<Rightarrow> manifest \<Rightarrow> nat \<Rightarrow> io_state corpus \<Rightarrow> io_state corpus \<Rightarrow> bool"
  for env perm_of m depth where
  read: "corpus_read (corpus_fetch env orc (mf_chunk_names m) depth) perm_of a b C = Some (r, C') \<Longrightarrow> corpus_use env perm_of m depth C C'"
| strided: "corpus_read_strided (corpus_fetch env orc (mf_chunk_names m) depth) perm_of a b c C = (r, C') \<Longrightarrow> corpus_use env perm_of m depth C C'"

lemma count_arg_Inr: "count_arg l (PInt (int n)) = (if int n < l then Inl CacheError else Inr n)"
  by (simp add: count_arg_def)

lemma corpus_use_ok:
  assumes "corpus_use env perm_of m depth C C'" and "fetching.corpus_ok env m obj L perm_of seed C \<and> \<not> cp_closed C"
  shows "fetching.corpus_ok env m obj L perm_of seed C' \<and> \<not> cp_closed C'"
  using assms
proof (induction rule: corpus_use.induct)
  case (read orc a b C r C')
  then have ok: "fetching.corpus_ok env m obj L perm_of seed C" "\<not> cp_closed C" by auto
  consider "C' = C" | s n where "n \<noteq> 0" "read_loop (corpus_fetch env orc (mf_chunk_names m) depth) perm_of s n [] C = Some (r, C')"
    using read(1) ok(2) by (auto simp: corpus_read_def split: sum.splits if_splits)
  then show ?case
  proof cases
    case 2
    from fetching.read_loop_law [OF ok(1), of "[]" n orc depth s] 2(2) ok(2) show ?thesis by auto
  qed (use ok in simp)
next
  case (strided orc a b c C r C')
  then have ok: "fetching.corpus_ok env m obj L perm_of seed C" "\<not> cp_closed C" by auto
  consider "C' = C" | xs where "strided_loop (corpus_fetch env orc (mf_chunk_names m) depth) perm_of xs None C = (r, C')"
    using strided(1) ok(2) by (auto simp: corpus_read_strided_def split: sum.splits)
  then show ?case
  proof cases
    case 2
    from fetching.strided_loop_law [OF ok(1) _ 2] ok(2) show ?thesis by auto
  qed (use ok in simp)
qed

lemma corpus_used:
  assumes "corpus_new m eid locs sl sd cfg disk = Inr C0" and "dict_ok disk" and "corpus_objects env m obj" and "perms_ok perm_of"
    and "(corpus_use env perm_of m depth)\<^sup>*\<^sup>* C0 C"
  shows "fetching.corpus_ok env m obj (cp_layout C0) perm_of (cp_seed C0) C \<and> \<not> cp_closed C"
  using assms(5)
proof (induction rule: rtranclp_induct)
  case base
  show ?case using corpus_new_ok(1,2) [OF assms(1-4)] by blast
next
  case (step C C')
  then show ?case using corpus_use_ok by blast
qed

text \<open>A fetch failed with this error.\<close>

definition fetch_failed :: "cache_env \<Rightarrow> io_answers \<Rightarrow> manifest \<Rightarrow> nat \<Rightarrow> pithos_error \<Rightarrow> bool" where
  "fetch_failed env orc m depth e \<longleftrightarrow> (\<exists>k io io'. corpus_fetch env orc (mf_chunk_names m) depth k io = (Inl e, io'))"

lemma fetch_failedI: "fetching.source_error env orc m depth obj e \<Longrightarrow> fetch_failed env orc m depth e"
  unfolding fetching.source_error_def fetch_failed_def by blast

section \<open>The stream in samples\<close>

lemma i4_short [simp]: "length b < 4 \<Longrightarrow> i4 b = []"
  by (cases b rule: i4.cases) auto

lemma four_bytes:
  assumes "\<not> length (b :: bytes) < 4"
  obtains x1 x2 x3 x4 rest where "b = x1 # x2 # x3 # x4 # rest"
  using assms by (cases b rule: i4.cases) auto

lemma i4_drop: "i4 (drop (4 * n) b) = drop n (i4 b)"
proof (induction n arbitrary: b)
  case (Suc n)
  show ?case
  proof (cases "length b < 4")
    case False
    then obtain x1 x2 x3 x4 rest where b: "b = x1 # x2 # x3 # x4 # rest" by (rule four_bytes)
    have "drop (4 * Suc n) b = drop (4 * n) rest" by (simp add: b eval_nat_numeral)
    then show ?thesis using Suc [of rest] by (simp add: b del: mult_Suc_right)
  qed simp
qed simp

lemma i4_take: "i4 (take (4 * n) b) = take n (i4 b)"
proof (induction n arbitrary: b)
  case (Suc n)
  show ?case
  proof (cases "length b < 4")
    case False
    then obtain x1 x2 x3 x4 rest where b: "b = x1 # x2 # x3 # x4 # rest" by (rule four_bytes)
    have "take (4 * Suc n) b = x1 # x2 # x3 # x4 # take (4 * n) rest" by (simp add: b eval_nat_numeral)
    then show ?thesis using Suc [of rest] by (simp add: b del: mult_Suc_right)
  qed simp
qed simp

lemma map_upt_shift: "map f [a..<a + n] = map (\<lambda>i. f (a + i)) [0..<n]"
  by (induction n) auto

lemma map_upt_sum:
  "map f [0..<sum_list ks] = concat (map (\<lambda>k. map (\<lambda>l. f (sum_list (take k ks) + l)) [0..<ks ! k]) [0..<length ks])"
proof (induction ks rule: rev_induct)
  case (snoc x ks)
  have "map f [0..<sum_list ks + x] = map f [0..<sum_list ks] @ map (\<lambda>l. f (sum_list ks + l)) [0..<x]"
    using map_upt_shift [of f "sum_list ks" x] by (simp only: upt_add_eq_append [OF le0] map_append add_0)
  moreover have "concat (map (\<lambda>k. map (\<lambda>l. f (sum_list (take k (ks @ [x])) + l)) [0..<(ks @ [x]) ! k]) [0..<length ks])
      = concat (map (\<lambda>k. map (\<lambda>l. f (sum_list (take k ks) + l)) [0..<ks ! k]) [0..<length ks])"
    by (intro arg_cong [of _ _ concat] map_cong) (auto simp: nth_append)
  ultimately show ?case using snoc by simp
qed simp

lemma map_upt_layout:
  assumes "layout_ok L"
  shows "map f [0..<sl_total_samples L]
    = concat (map (\<lambda>k. map (\<lambda>l. f (k * sl_samples_per_chunk L + l)) [0..<sl_per_chunk L ! k]) [0..<length (sl_per_chunk L)])"
proof -
  have "sl_total_samples L = sum_list (sl_per_chunk L)" using assms by (simp add: layout_ok_def)
  then have "map f [0..<sl_total_samples L] = concat (map (\<lambda>k. map (\<lambda>l. f (sum_list (take k (sl_per_chunk L)) + l))
      [0..<sl_per_chunk L ! k]) [0..<length (sl_per_chunk L)])" by (metis map_upt_sum)
  also have "\<dots> = concat (map (\<lambda>k. map (\<lambda>l. f (k * sl_samples_per_chunk L + l))
      [0..<sl_per_chunk L ! k]) [0..<length (sl_per_chunk L)])"
    by (intro arg_cong [of _ _ concat] map_cong refl) (simp add: sum_take_full [OF assms])
  finally show ?thesis .
qed

lemma mset_concat_cong: "(\<And>x. x \<in> set xs \<Longrightarrow> mset (f x) = mset (g x)) \<Longrightarrow> mset (concat (map f xs)) = mset (concat (map g xs))"
  by (induction xs) auto

text \<open>In an epoch the permutations only change the order.\<close>

lemma epoch_samples:
  assumes L: "layout_ok L" and P: "perms_ok perm_of"
  shows "mset (map (sample_at perm_of seed L chunk) [e * sl_total_samples L..<e * sl_total_samples L + sl_total_samples L])
    = mset (concat (map (\<lambda>k. map (\<lambda>j. take (sl_seq L + 1) (drop (j * sl_seq L) (i4 (chunk k)))) [0..<sl_per_chunk L ! k])
        [0..<length (sl_per_chunk L)]))"
proof -
  let ?n = "sl_total_samples L" and ?s = "sl_samples_per_chunk L" and ?per = "sl_per_chunk L"
  let ?W = "\<lambda>k j. take (sl_seq L + 1) (drop (j * sl_seq L) (i4 (chunk k)))"
  let ?P = "\<lambda>k. perm_of seed (int e) k (?per ! k)"
  have n: "0 < ?n" using L by (simp add: layout_ok_def)
  have s: "0 < ?s" by (rule layout_total(2) [OF L])
  have shift: "map (sample_at perm_of seed L chunk) [e * ?n..<e * ?n + ?n] = map (\<lambda>p. sample_at perm_of seed L chunk (e * ?n + p)) [0..<?n]"
    by (rule map_upt_shift)
  have at: "sample_at perm_of seed L chunk (e * ?n + (k * ?s + l)) = ?W k (?P k ! l)"
    if k: "k < length ?per" and l: "l < ?per ! k" for k l
  proof -
    have "?per ! k \<le> ?s" using L k by (simp add: layout_ok_def)
    then have ls: "l < ?s" using l by simp
    have "sum_list (take (Suc k) ?per) \<le> sum_list ?per" by (metis append_take_drop_id le_add1 sum_list_append)
    then have "k * ?s + l < ?n"
      using l k sum_take_full [OF L k] L by (simp add: take_Suc_conv_app_nth layout_ok_def)
    then have "(e * ?n + (k * ?s + l)) div ?n = e" "(e * ?n + (k * ?s + l)) mod ?n = k * ?s + l" using n by simp_all
    moreover have "(k * ?s + l) div ?s = k" "(k * ?s + l) mod ?s = l" using ls by simp_all
    ultimately show ?thesis by (simp add: sample_at_def Let_def)
  qed
  have perm: "mset (map (\<lambda>l. ?W k (?P k ! l)) [0..<?per ! k]) = mset (map (?W k) [0..<?per ! k])" for k
  proof -
    have m: "mset (?P k) = mset [0..<?per ! k]" using P by (simp add: perms_ok_def)
    have len: "length (?P k) = ?per ! k" using mset_eq_length [OF m] by simp
    have "map (\<lambda>l. ?W k (?P k ! l)) [0..<?per ! k] = map (?W k) (map ((!) (?P k)) [0..<length (?P k)])" by (simp add: len comp_def)
    also have "\<dots> = map (?W k) (?P k)" by (rule arg_cong [OF map_nth])
    finally have "mset (map (\<lambda>l. ?W k (?P k ! l)) [0..<?per ! k]) = image_mset (?W k) (mset (?P k))" by simp
    then show ?thesis by (simp add: m)
  qed
  have "mset (map (sample_at perm_of seed L chunk) [e * ?n..<e * ?n + ?n])
      = mset (concat (map (\<lambda>k. map (\<lambda>l. sample_at perm_of seed L chunk (e * ?n + (k * ?s + l))) [0..<?per ! k]) [0..<length ?per]))"
    unfolding shift by (simp only: map_upt_layout [OF L])
  also have "\<dots> = mset (concat (map (\<lambda>k. map (\<lambda>l. ?W k (?P k ! l)) [0..<?per ! k]) [0..<length ?per]))"
    by (intro mset_concat_cong arg_cong [of _ _ mset] map_cong refl) (use at in simp)
  also have "\<dots> = mset (concat (map (\<lambda>k. map (?W k) [0..<?per ! k]) [0..<length ?per]))"
    by (rule mset_concat_cong) (rule perm)
  finally show ?thesis .
qed

text \<open>The chunks of a stream, as the writer cut them, hold its samples in order.\<close>

definition written_from :: "bytes \<Rightarrow> manifest \<Rightarrow> (nat \<Rightarrow> bytes) \<Rightarrow> bool" where
  "written_from S m chunk \<longleftrightarrow> S \<noteq> [] \<and> length S mod 4 = 0
     \<and> length (mf_chunks m) = window_count (mf_chunk_tokens m) S
     \<and> (\<forall>k < length (mf_chunks m). chunk k = window (mf_chunk_tokens m) S k \<and> ci_tokens (mf_chunks m ! k) = length (chunk k) div 4)"

lemma written_samples:
  assumes w: "written_from S m chunk" and lay: "manifest_layout m sl = Inr L"
  shows "concat (map (\<lambda>k. map (\<lambda>j. take (sl_seq L + 1) (drop (j * sl_seq L) (i4 (chunk k)))) [0..<sl_per_chunk L ! k]) [0..<length (sl_per_chunk L)])
      = map (\<lambda>i. take (sl_seq L + 1) (drop (i * sl_seq L) (i4 S))) [0..<sl_total_samples L]"
proof -
  note lo = layout_ok_of [OF lay]
  let ?C = "mf_chunk_tokens m" and ?s = "sl_samples_per_chunk L" and ?q = "sl_seq L"
  have "take (?q + 1) (drop (j * ?q) (i4 (chunk k))) = take (?q + 1) (drop ((k * ?s + j) * ?q) (i4 S))"
    if k: "k < length (sl_per_chunk L)" and j: "j < sl_per_chunk L ! k" for k j
  proof -
    have "sl_per_chunk L ! k \<le> ?s" using lo(1) k by (simp add: layout_ok_def)
    then have "(j + 1) * ?q \<le> ?s * ?q" using j by (intro mult_right_mono) auto
    then have fit: "j * ?q + (?q + 1) \<le> ?C + 1" using lo(3) by (simp add: algebra_simps)
    have "chunk k = window ?C S k" using w k lo(2) by (simp add: written_from_def)
    then have "chunk k = take (4 * (?C + 1)) (drop (4 * (?C * k)) S)" by (simp add: window_def mult.assoc)
    then have "i4 (chunk k) = take (?C + 1) (drop (?C * k) (i4 S))" by (simp only: i4_take i4_drop)
    then have "drop (j * ?q) (i4 (chunk k)) = take (?C + 1 - j * ?q) (drop (?C * k + j * ?q) (i4 S))"
      by (simp add: drop_take add.commute)
    moreover have "?C * k + j * ?q = (k * ?s + j) * ?q" using lo(3) by (simp add: algebra_simps)
    ultimately show ?thesis using fit by (simp add: min_def)
  qed
  then show ?thesis unfolding map_upt_layout [OF lo(1)]
    by (intro arg_cong [of _ _ concat] map_cong refl) simp
qed

lemma written_total:
  assumes w: "written_from S m chunk" and lay: "manifest_layout m sl = Inr L"
  shows "sl_total_samples L = (length S div 4 - 1) div sl_seq L"
proof -
  note lo = layout_ok_of [OF lay]
  let ?C = "mf_chunk_tokens m" and ?s = "sl_samples_per_chunk L" and ?q = "sl_seq L"
  define n where "n = length (mf_chunks m)"
  define T where "T = length S div 4"
  have q: "0 < ?q" using lo(1) by (simp add: layout_ok_def)
  have S: "length S = 4 * T" using w by (auto simp: written_from_def T_def)
  moreover have "0 < length S" using w by (simp add: written_from_def)
  ultimately have S: "length S = 4 * T" "0 < T" by simp_all
  have len: "length (sl_per_chunk L) = n" using lo(2) by (simp add: n_def)
  have C: "0 < ?C" using lo(3) q layout_total(2) [OF lo(1)] by simp
  have n: "n = (T - 1) div ?C + 1" using w by (simp add: written_from_def window_count_def n_def T_def)
  then have npos: "n - 1 < length (mf_chunks m)" by (simp add: n_def)
  have before: "(n - 1) * ?C \<le> T - 1" using n by simp
  have "T - 1 < (n - 1) * ?C + ?C" using n dividend_less_div_times [OF C, of "T - 1"] by (simp add: add.commute)
  then have last: "T - (n - 1) * ?C \<le> ?C" by simp
  have "ci_tokens (mf_chunks m ! (n - 1)) = length (window ?C S (n - 1)) div 4" using w npos by (simp add: written_from_def)
  also have "length (window ?C S (n - 1)) = 4 * (T - (n - 1) * ?C)"
    using last S by (simp add: window_def min_def algebra_simps diff_mult_distrib2)
  finally have tok: "ci_tokens (mf_chunks m ! (n - 1)) = T - (n - 1) * ?C" by simp
  have "last (sl_per_chunk L) = sl_per_chunk L ! (n - 1)" using layout_total(1) [OF lo(1)] len by (simp add: last_conv_nth)
  also have "\<dots> = (T - (n - 1) * ?C - 1) div ?q" using lo(2) npos tok by simp
  finally have "sl_total_samples L = (n - 1) * ?s + (T - (n - 1) * ?C - 1) div ?q"
    using layout_total(3) [OF lo(1)] len by simp
  also have "\<dots> = ((n - 1) * ?s * ?q + (T - (n - 1) * ?C - 1)) div ?q" using q by simp
  also have "(n - 1) * ?s * ?q = (n - 1) * ?C" using lo(3) by simp
  also have "(n - 1) * ?C + (T - (n - 1) * ?C - 1) = T - 1" using before S(2) by simp
  finally show ?thesis by (simp add: T_def)
qed

section \<open>Properties\<close>

lemma corpus_read_law:
  assumes "corpus_new m eid locs sl sd cfg disk = Inr C0" and "dict_ok disk" and "corpus_objects env m obj" and "perms_ok perm_of"
    and "(corpus_use env perm_of m depth)\<^sup>*\<^sup>* C0 C"
  shows "\<exists>r C'. corpus_read (corpus_fetch env orc (mf_chunk_names m) depth) perm_of (PInt (int start)) (PInt (int rows)) C = Some (r, C')
    \<and> (case r of
         Inr ws \<Rightarrow> ws = map (sample_at perm_of (cp_seed C0) (cp_layout C0) (\<lambda>k. obj (mf_chunk_names m ! k))) [start..<start + rows]
       | Inl e \<Rightarrow> fetch_failed env orc m depth e)"
proof -
  note ok = corpus_used [OF assms]
  show ?thesis
  proof (cases "rows = 0")
    case True
    have "count_arg 0 (PInt 0) = Inr 0" by (simp add: count_arg_def)
    then show ?thesis using ok True by (simp add: corpus_read_def count_arg_Inr)
  next
    case False
    have "length ([] :: int list list) \<le> rows" by simp
    from fetching.read_loop_law [OF conjunct1 [OF ok] this, of orc depth start] obtain r C' where
      r: "read_loop (corpus_fetch env orc (mf_chunk_names m) depth) perm_of start rows [] C = Some (r, C')"
      "case r of Inl e \<Rightarrow> fetching.source_error env orc m depth obj e
        | Inr ws \<Rightarrow> ws = [] @ map (sample_at perm_of (cp_seed C0) (cp_layout C0) (\<lambda>k. obj (mf_chunk_names m ! k)))
            [start + length ([] :: int list list)..<start + rows]"
      by blast
    then have "corpus_read (corpus_fetch env orc (mf_chunk_names m) depth) perm_of (PInt (int start)) (PInt (int rows)) C = Some (r, C')"
      using ok False by (simp add: corpus_read_def count_arg_Inr)
    then show ?thesis using r(2) fetch_failedI by (cases r) auto
  qed
qed


text \<open>The strided read, which keeps one chunk and one permutation, returns the samples
  \<open>start, start + stride, ...\<close>, the same ones the sequential read returns at those indices.\<close>

theorem corpus_read_strided_serves_samples:
  assumes "corpus_new m eid locs sl sd cfg disk = Inr C0" and "dict_ok disk" and "corpus_objects env m obj" and "perms_ok perm_of"
    and "(corpus_use env perm_of m depth)\<^sup>*\<^sup>* C0 C" and "0 < stride"
    and "corpus_read_strided (corpus_fetch env orc (mf_chunk_names m) depth) perm_of (PInt (int start)) (PInt (int stride)) (PInt (int rows)) C = (r, C')"
  shows "case r of
         Inr ws \<Rightarrow> ws = map (\<lambda>i. sample_at perm_of (cp_seed C0) (cp_layout C0) (\<lambda>k. obj (mf_chunk_names m ! k)) (start + i * stride)) [0..<rows]
       | Inl e \<Rightarrow> fetch_failed env orc m depth e"
proof -
  note ok = corpus_used [OF assms(1-5)]
  have "strided_loop (corpus_fetch env orc (mf_chunk_names m) depth) perm_of (map (\<lambda>r. start + r * stride) [0..<rows]) None C = (r, C')"
    using assms(6,7) ok by (simp add: corpus_read_strided_def count_arg_Inr)
  from fetching.strided_loop_law [OF conjunct1 [OF ok] _ this] show ?thesis
    using fetch_failedI by (auto simp: comp_def split: sum.splits)
qed

text \<open>C25. The older reader and the corpus runtime agree: batch \<open>b\<close> of \<open>rows\<close> samples is what the runtime reads
  from sample \<open>b * rows\<close> on, provided both can fetch.\<close>

theorem shard_ids_equal_corpus_read:
  assumes "corpus_new m eid locs sl sd cfg disk = Inr C0" and "dict_ok disk" and "corpus_objects env m obj" and "perms_ok perm_of"
    and "(corpus_use env perm_of m depth)\<^sup>*\<^sup>* C0 C" and "0 < rows"
    and "shard_ids (corpus_fetch env orc (mf_chunk_names m) depth) perm_of (int b) rows C = (Inr ids, C1)"
    and "corpus_read (corpus_fetch env orc' (mf_chunk_names m) depth) perm_of (PInt (int (b * rows))) (PInt (int rows)) C = Some (Inr ws, C2)"
  shows "ids = ws"
proof -
  note ok = corpus_used [OF assms(1-5)]
  let ?sample = "sample_at perm_of (cp_seed C0) (cp_layout C0) (\<lambda>k. obj (mf_chunk_names m ! k))"
  let ?xs = "map (\<lambda>r. int b * int rows + int r) [0..<rows]"
  obtain r where "shard_samples (corpus_fetch env orc (mf_chunk_names m) depth) perm_of ?xs C = (Inr ids, C1)"
    using assms(7) by (auto simp: shard_ids_def split: prod.splits sum.splits if_splits)
  from fetching.shard_samples_law [OF conjunct1 [OF ok] _ this] have "ids = map (\<lambda>x. ?sample (nat x)) ?xs" by auto
  also have "\<dots> = map (\<lambda>r. ?sample (b * rows + r)) [0..<rows]"
  proof -
    have "nat (int b * int rows + int r) = b * rows + r" for r
      by (metis nat_int of_nat_add of_nat_mult)
    then show ?thesis by (simp add: comp_def)
  qed
  also have "\<dots> = map ?sample [b * rows..<b * rows + rows]" by (rule map_upt_shift [symmetric])
  also have "\<dots> = ws"
  proof -
    have "read_loop (corpus_fetch env orc' (mf_chunk_names m) depth) perm_of (b * rows) rows [] C = Some (Inr ws, C2)"
      using assms(6,8) ok by (simp add: corpus_read_def count_arg_Inr del: of_nat_mult)
    with fetching.read_loop_law [OF conjunct1 [OF ok], of "[]" rows orc' depth "b * rows"] show ?thesis by auto
  qed
  finally show ?thesis .
qed

text \<open>C26. What is written is what is read: over the chunks the writer cut from a token stream \<open>S\<close>, a corpus in any
  state of use that reads a whole epoch \<open>e\<close> returns, in some order, exactly the windows \<open>[i * seq, i * seq + seq]\<close>
  of the stream, each once, at every sequence length the layout accepts; nothing of the stream is left out but a
  tail shorter than one sample.\<close>

theorem epoch_reads_written_stream:
  assumes "corpus_new m eid locs sl sd cfg disk = Inr C0" and "dict_ok disk" and "corpus_objects env m obj" and "perms_ok perm_of"
    and "(corpus_use env perm_of m depth)\<^sup>*\<^sup>* C0 C" and "written_from S m (\<lambda>k. obj (mf_chunk_names m ! k))"
    and "corpus_read (corpus_fetch env orc (mf_chunk_names m) depth) perm_of (PInt (int (e * cp_total_samples C0)))
      (PInt (int (cp_total_samples C0))) C = Some (Inr ws, C')"
  shows "mset ws = mset (map (\<lambda>i. take (sl_seq (cp_layout C0) + 1) (drop (i * sl_seq (cp_layout C0)) (i4 S))) [0..<cp_total_samples C0])
    \<and> cp_total_samples C0 = (length S div 4 - 1) div sl_seq (cp_layout C0)"
proof -
  let ?L = "cp_layout C0" and ?chunk = "\<lambda>k. obj (mf_chunk_names m ! k)"
  have lay: "manifest_layout m sl = Inr ?L" by (rule corpus_new_ok(3) [OF assms(1-4)])
  have "ws = map (sample_at perm_of (cp_seed C0) ?L ?chunk) [e * sl_total_samples ?L..<e * sl_total_samples ?L + sl_total_samples ?L]"
    using corpus_read_law [OF assms(1-5), of orc "e * cp_total_samples C0" "cp_total_samples C0"] assms(7)
    by (auto simp: cp_total_samples_def)
  then show ?thesis
    using epoch_samples [OF layout_ok_of(1) [OF lay] assms(4), of "cp_seed C0" ?chunk e]
      written_samples [OF assms(6) lay] written_total [OF assms(6) lay] by (simp add: cp_total_samples_def)
qed

section \<open>Witnesses\<close>

text \<open>One chunk of three tokens, read two tokens at a time.\<close>

definition rt_bytes :: bytes where
  "rt_bytes = [1, 0, 0, 0, 2, 0, 0, 0, 3, 0, 0, 0]"

definition rt_env :: cache_env where
  "rt_env = \<lparr>ce_sha256 = (\<lambda>b. if b = rt_bytes then ''h'' else ''x''), ce_js_load = (\<lambda>b. None), ce_js_dump = (\<lambda>v. []), ce_pid = ''7''\<rparr>"

definition rt_manifest :: manifest where
  "rt_manifest = \<lparr>mf_format = LEGACY_STREAM_V1, mf_eos_id = 0, mf_chunk_tokens = 2,
     mf_chunks = [\<lparr>ci_name = ''c0'', ci_tokens = 3, ci_sha256 = ''h''\<rparr>], mf_identity = ''i''\<rparr>"

definition rt_layout :: stream_layout where
  "rt_layout = \<lparr>sl_seq = 1, sl_samples_per_chunk = 2, sl_per_chunk = [2], sl_cumulative = [0, 2], sl_total_samples = 2\<rparr>"

definition rt_cache :: chunk_cache where
  "rt_cache = \<lparr>cc_expected = [(''c0'', \<lparr>ci_name = ''c0'', ci_tokens = 3, ci_sha256 = ''h''\<rparr>)], cc_urls = [], cc_budget = 100,
     cc_leased = False, cc_resident = [], cc_resident_bytes = 0, cc_closed = False, cc_disk = [(''c0'', Reg rt_bytes 0)]\<rparr>"

definition rt_corpus :: "io_state corpus" where
  "rt_corpus = \<lparr>cp_manifest = rt_manifest, cp_layout = rt_layout, cp_seed = 5, cp_perm = None, cp_closed = False,
     cp_src = \<lparr>io_cache = rt_cache, io_pf = None, io_tick = 0\<rparr>\<rparr>"

definition rt_perm :: "int \<Rightarrow> int \<Rightarrow> nat \<Rightarrow> nat \<Rightarrow> nat list" where
  "rt_perm seed e k n = rev [0..<n]"

definition rt_answers :: io_answers where
  "rt_answers = \<lparr>or_now = of_nat, or_world = (\<lambda>n. \<lparr>wd_urlsplit = (\<lambda>u. None), wd_server = (\<lambda>n rq. NetError), wd_parse_qs = (\<lambda>q. []),
     wd_sdk = (\<lambda>n ps b k. NoBoto3), wd_file = NoFile\<rparr>), or_room = (\<lambda>n. 0), or_work = (\<lambda>n. 0)\<rparr>"

lemma rt_layout: "manifest_layout rt_manifest (PInt 1) = Inr rt_layout"
  by (simp add: manifest_layout_def rt_manifest_def rt_layout_def LEGACY_STREAM_V1_def PITHOS_STREAM_V1_def Let_def)

lemma rt_new:
  "corpus_new rt_manifest PNone [] (PInt 1) (PInt 5) \<lparr>cf_budget_bytes = 100, cf_prefetch_depth = 0\<rparr> [(''c0'', Reg rt_bytes 0)] = Inr rt_corpus"
proof -
  have v: "validate_chunk_name (Some (PStr ''c0'')) = Inr ''c0''" by code_simp
  have "cache_new [] (mf_chunks rt_manifest) (PInt 100) [(''c0'', Reg rt_bytes 0)] = Inr rt_cache"
    using v by (simp add: cache_new_def rt_manifest_def rt_cache_def dict_set_def enforce_disk_budget_def)
  then show ?thesis by (simp add: corpus_new_def rt_layout locators_ok_def rt_corpus_def)
qed

lemma rt_premises:
  shows rt_dict: "dict_ok [(''c0'', Reg rt_bytes 0)]"
    and rt_objects: "corpus_objects rt_env rt_manifest (\<lambda>_. rt_bytes)"
    and rt_perms: "perms_ok rt_perm"
  by (simp_all add: corpus_objects_def mf_chunk_names_def rt_manifest_def verify_object_def rt_env_def chunk_size_def TOKEN_BYTES_def
      rt_bytes_def perms_ok_def rt_perm_def)

lemma rt_used: "(corpus_use rt_env rt_perm rt_manifest 0)\<^sup>*\<^sup>* rt_corpus rt_corpus"
  by (rule rtranclp.rtrancl_refl)

lemmas rt_facts = rt_new rt_dict rt_objects rt_perms rt_used

lemma rt_names: "mf_chunk_names rt_manifest = [''c0'']"
  by (simp add: rt_manifest_def mf_chunk_names_def)

lemma rt_fetch: "\<exists>io. corpus_fetch rt_env orc [''c0''] 0 0 (cp_src rt_corpus) = (Inr rt_bytes, io)"
proof -
  have v: "validate_chunk_name (Some (PStr ''c0'')) = Inr ''c0''" by code_simp
  have "\<exists>c. cache_get rt_env now w room ''c0'' rt_cache = (Inr rt_bytes, c)" for now w room
    using v by (simp add: cache_get_def get_lookup_def rt_cache_def move_to_end_def ensure_def lstat_regular_def Let_def
        verify_object_def chunk_size_def TOKEN_BYTES_def rt_env_def get_publish_def trim_resident.simps
        expected_size_def dict_set_def) (simp add: rt_bytes_def)
  then show ?thesis by (simp add: corpus_fetch_def rt_corpus_def io_get_def Let_def split_beta) (metis fst_conv snd_conv)
qed

lemma rt_i4: "i4 rt_bytes = [1, 2, 3]"
  by (simp add: rt_bytes_def signed32_def)

lemma rt_perm2: "rt_perm s e k 2 = [1, 0]"
  by (simp add: rt_perm_def numeral_2_eq_2)

lemma rt_sample: "sample_at rt_perm (cp_seed rt_corpus) (cp_layout rt_corpus) (\<lambda>k. rt_bytes) 0 = [2, 3]"
  by (simp add: sample_at_def rt_corpus_def rt_layout_def rt_perm2 rt_i4 Let_def)


lemma corpus_read_strided_serves_samples_witness:
  "case fst (corpus_read_strided (corpus_fetch rt_env rt_answers [''c0''] 0) rt_perm (PInt 0) (PInt 2) (PInt 1) rt_corpus) of
     Inr ws \<Rightarrow> ws = [[2, 3]] | Inl e \<Rightarrow> fetch_failed rt_env rt_answers rt_manifest 0 e"
  using corpus_read_strided_serves_samples [OF rt_facts, of 2 rt_answers 0 1] by (auto simp: rt_names rt_sample prod_eq_iff split: sum.splits)

lemma shard_ids_equal_corpus_read_witness:
  "\<exists>C1 C2. shard_ids (corpus_fetch rt_env rt_answers [''c0''] 0) rt_perm 0 1 rt_corpus = (Inr [[2, 3]], C1)
     \<and> corpus_read (corpus_fetch rt_env rt_answers [''c0''] 0) rt_perm (PInt 0) (PInt 1) rt_corpus = Some (Inr [[2, 3]], C2)"
proof -
  obtain io where f: "corpus_fetch rt_env rt_answers [''c0''] 0 0 (cp_src rt_corpus) = (Inr rt_bytes, io)" using rt_fetch by blast
  obtain C1 ids where a: "shard_ids (corpus_fetch rt_env rt_answers [''c0''] 0) rt_perm (int 0) 1 rt_corpus = (Inr ids, C1)" "ids = [[2, 3]]"
    using f by (simp add: rt_i4 shard_ids_def shard_sample_def corpus_perm_def Let_def rt_corpus_def rt_layout_def rt_perm2)
  obtain C2 ws where b: "corpus_read (corpus_fetch rt_env rt_answers [''c0''] 0) rt_perm (PInt (int (0 * 1))) (PInt (int 1)) rt_corpus = Some (Inr ws, C2)"
    using f by (simp add: rt_i4 corpus_read_def count_arg_def read_loop.simps sample_row_def corpus_perm_def Let_def rt_corpus_def rt_layout_def
        rt_perm2)
  from shard_ids_equal_corpus_read [OF rt_facts _ a(1) [folded rt_names] b [folded rt_names]] a b show ?thesis by simp
qed

text \<open>The same with a chunk of two tokens.\<close>

definition rs_bytes :: bytes where
  "rs_bytes = [1, 0, 0, 0, 2, 0, 0, 0]"

definition rs_info :: chunk_info where
  "rs_info = \<lparr>ci_name = ''c0'', ci_tokens = 2, ci_sha256 = ''h''\<rparr>"

definition rs_corpus :: "io_state corpus" where
  "rs_corpus = \<lparr>cp_manifest = rt_manifest\<lparr>mf_chunks := [rs_info]\<rparr>,
     cp_layout = \<lparr>sl_seq = 1, sl_samples_per_chunk = 2, sl_per_chunk = [1], sl_cumulative = [0, 1], sl_total_samples = 1\<rparr>,
     cp_seed = 5, cp_perm = None, cp_closed = False,
     cp_src = \<lparr>io_cache = rt_cache\<lparr>cc_expected := [(''c0'', rs_info)], cc_disk := [(''c0'', Reg rs_bytes 0)]\<rparr>, io_pf = None, io_tick = 0\<rparr>\<rparr>"

lemma epoch_reads_written_stream_witness:
  "\<exists>C'. corpus_read (corpus_fetch (rt_env\<lparr>ce_sha256 := \<lambda>b. if b = rs_bytes then ''h'' else ''x''\<rparr>) rt_answers [''c0''] 0) rt_perm
      (PInt (3 * 1)) (PInt 1) rs_corpus = Some (Inr [[1, 2]], C')"
proof -
  let ?env = "rt_env\<lparr>ce_sha256 := \<lambda>b. if b = rs_bytes then ''h'' else ''x''\<rparr>" and ?m = "rt_manifest\<lparr>mf_chunks := [rs_info]\<rparr>"
  have v: "validate_chunk_name (Some (PStr ''c0'')) = Inr ''c0''" by code_simp
  have new: "corpus_new ?m PNone [] (PInt 1) (PInt 5) \<lparr>cf_budget_bytes = 100, cf_prefetch_depth = 0\<rparr> [(''c0'', Reg rs_bytes 0)] = Inr rs_corpus"
    using v by (simp add: corpus_new_def locators_ok_def rs_corpus_def manifest_layout_def rt_manifest_def LEGACY_STREAM_V1_def
        PITHOS_STREAM_V1_def Let_def cache_new_def rt_cache_def dict_set_def enforce_disk_budget_def rs_info_def)
  have obj: "corpus_objects ?env ?m (\<lambda>_. rs_bytes)"
    by (simp add: corpus_objects_def mf_chunk_names_def verify_object_def rt_env_def chunk_size_def TOKEN_BYTES_def rs_bytes_def rs_info_def)
  have wr: "written_from rs_bytes ?m (\<lambda>k. rs_bytes)"
    by (simp add: written_from_def rt_manifest_def window_count_def window_def rs_bytes_def rs_info_def)
  have names: "mf_chunk_names ?m = [''c0'']" by (simp add: mf_chunk_names_def rs_info_def)
  have "\<exists>c. cache_get ?env now w room ''c0'' (io_cache (cp_src rs_corpus)) = (Inr rs_bytes, c)" for now w room
    using v by (simp add: cache_get_def get_lookup_def rt_cache_def rs_corpus_def move_to_end_def ensure_def lstat_regular_def Let_def
        verify_object_def chunk_size_def TOKEN_BYTES_def rt_env_def get_publish_def trim_resident.simps rs_info_def
        expected_size_def dict_set_def) (simp add: rs_bytes_def)
  then obtain c where c: "cache_get ?env (or_now rt_answers 0) (or_world rt_answers 0) (or_room rt_answers 0) ''c0'' (io_cache (cp_src rs_corpus)) = (Inr rs_bytes, c)"
    by blast
  obtain io where f: "corpus_fetch ?env rt_answers [''c0''] 0 0 (cp_src rs_corpus) = (Inr rs_bytes, io)"
    using c by (simp add: corpus_fetch_def io_get_def Let_def rs_corpus_def)
  have i4: "i4 rs_bytes = [1, 2]" by (simp add: rs_bytes_def signed32_def)
  obtain ws C' where r: "corpus_read (corpus_fetch ?env rt_answers [''c0''] 0) rt_perm (PInt (3 * 1)) (PInt 1) rs_corpus = Some (Inr ws, C')"
    using f by (simp add: i4 corpus_read_def count_arg_def read_loop.simps sample_row_def corpus_perm_def Let_def rs_corpus_def rt_perm_def)
  have t: "cp_total_samples rs_corpus = 1" by (simp add: cp_total_samples_def rs_corpus_def)
  have "mset ws = {#[1, 2]#}"
    using epoch_reads_written_stream [OF new _ obj rt_perms rtranclp.rtrancl_refl, of rs_bytes rt_answers 0 3 ws C'] wr r
    by (simp add: names t i4) (simp add: rs_corpus_def)
  then show ?thesis using r by simp
qed

end
