(* ===== verification/HeadStreams.thy ===== *)
theory HeadStreams
  imports PithosRegistry PithosRuntimeProps
begin

text \<open>
  The data streams of a head worker (\<open>core/server/w2w_head_injector.py\<close>): where the corpus is, the validation of
  \<open>PithosBatchStream\<close> and \<open>PithosShardStream\<close>, and their iterators. A call of \<open>next\<close> has two parts, the read at the
  position found and the check that the position is still there, between which other threads may run; the stream
  and any number of its iterators are one system of steps. The library that repeats a call after a
  \<open>DownloadError\<close> is a parameter: its answer is that of the last of some calls of which all earlier ones failed so.
\<close>

section \<open>The location of the corpus\<close>

definition stream_error :: "pithos_error" where
  "stream_error = PyError ValueError"

definition resolve_corpus_location :: "(pyval \<Rightarrow> string) \<Rightarrow> registry_file \<Rightarrow> string option \<Rightarrow> pyval \<Rightarrow> string \<Rightarrow> nat \<Rightarrow> nat
    \<Rightarrow> pithos_error + string" where
  "resolve_corpus_location py_text doc name uri expected budget depth =
     (let given_uri = (case uri of PStr u \<Rightarrow> Some u | _ \<Rightarrow> None)
      in if uri \<noteq> PNone \<and> (given_uri = None \<or> given_uri = Some []) then Inl stream_error
         else
           case name of
             None \<Rightarrow> (case given_uri of None \<Rightarrow> Inl stream_error | Some u \<Rightarrow> Inr u)
           | Some n \<Rightarrow>
               (case resolve_corpus py_text doc n of
                  Inl e \<Rightarrow> Inl e
                | Inr en \<Rightarrow>
                    if en_identity en \<noteq> Some expected then Inl stream_error
                    else if en_budget en \<notin> {None, Some budget} then Inl stream_error
                    else if en_depth en \<notin> {None, Some depth} then Inl stream_error
                    else
                      case given_uri of
                        Some u \<Rightarrow> Inr u
                      | None \<Rightarrow> (case en_uri en of None \<Rightarrow> Inl stream_error | Some u \<Rightarrow> Inr u)))"

section \<open>The streams\<close>

record stream_config =
  sc_uri :: string
  sc_identity :: string
  sc_budget :: nat
  sc_depth :: nat
  sc_seq :: nat
  sc_seed :: int
  sc_batch :: nat

record batch_stream = stream_config +
  bs_count :: nat
  bs_idx :: nat

record shard_stream = stream_config +
  ss_index :: nat
  ss_count :: nat
  ss_per_head :: nat

definition at_least :: "int \<Rightarrow> pyval \<Rightarrow> nat option" where
  "at_least least v = (case plain_int (Some v) of None \<Rightarrow> None | Some i \<Rightarrow> if i < least then None else Some (nat i))"

text \<open>The checks both constructors make before their own ones; a failed check is a \<open>ValueError\<close>.\<close>

definition batch_stream_new :: "(pyval \<Rightarrow> string) \<Rightarrow> registry_file \<Rightarrow> string option \<Rightarrow> pyval \<Rightarrow> string \<Rightarrow> pyval \<Rightarrow> pyval \<Rightarrow> pyval
    \<Rightarrow> pyval \<Rightarrow> pyval \<Rightarrow> pyval \<Rightarrow> pyval \<Rightarrow> pithos_error + batch_stream" where
  "batch_stream_new py_text doc name uri identity budget depth seq seed cnt idx batch =
     (case (at_least 1 budget, at_least 1 seq, at_least 1 cnt, at_least 1 batch, at_least 0 depth, plain_int (Some seed), at_least 0 idx) of
        (Some b, Some q, Some n, Some r, Some d, Some sd, Some i) \<Rightarrow>
          if n \<le> i then Inl stream_error
          else
            (case resolve_corpus_location py_text doc name uri identity b d of
               Inl e \<Rightarrow> Inl e
             | Inr u \<Rightarrow> Inr \<lparr>sc_uri = u, sc_identity = identity, sc_budget = b, sc_depth = d, sc_seq = q, sc_seed = sd, sc_batch = r,
                             bs_count = n, bs_idx = i\<rparr>)
      | _ \<Rightarrow> Inl stream_error)"

definition shard_stream_new :: "(pyval \<Rightarrow> string) \<Rightarrow> registry_file \<Rightarrow> string option \<Rightarrow> pyval \<Rightarrow> string \<Rightarrow> pyval \<Rightarrow> pyval \<Rightarrow> pyval
    \<Rightarrow> pyval \<Rightarrow> pyval \<Rightarrow> pyval \<Rightarrow> pyval \<Rightarrow> pyval \<Rightarrow> pithos_error + shard_stream" where
  "shard_stream_new py_text doc name uri identity budget depth seq seed index cnt per_head batch =
     (case (at_least 1 budget, at_least 1 seq, at_least 1 cnt, at_least 1 per_head, at_least 1 batch, at_least 0 depth,
            plain_int (Some seed), at_least 0 index) of
        (Some b, Some q, Some n, Some h, Some r, Some d, Some sd, Some i) \<Rightarrow>
          if n < (i + 1) * h then Inl stream_error
          else
            (case resolve_corpus_location py_text doc name uri identity b d of
               Inl e \<Rightarrow> Inl e
             | Inr u \<Rightarrow> Inr \<lparr>sc_uri = u, sc_identity = identity, sc_budget = b, sc_depth = d, sc_seq = q, sc_seed = sd, sc_batch = r,
                             ss_index = i, ss_count = n, ss_per_head = h\<rparr>)
      | _ \<Rightarrow> Inl stream_error)"

text \<open>\<open>_open_corpus\<close>, over the manifest directory.\<close>

definition open_corpus :: "pub_env \<Rightarrow> time \<Rightarrow> 'a stream_config_scheme \<Rightarrow> directory \<Rightarrow> directory
    \<Rightarrow> (publication_error + io_state corpus) \<times> directory" where
  "open_corpus env now sc chunks disk =
     (case cache_config_of (PInt (int (sc_budget sc))) (PInt (int (sc_depth sc))) of
        Inl e \<Rightarrow> (Inl (PubError e), disk)
      | Inr cfg \<Rightarrow>
          corpus_from_uri env now (PStr (sc_uri sc)) (PInt (int (sc_seq sc))) (PInt (sc_seed sc)) cfg (PStr (sc_identity sc)) disk chunks)"

section \<open>Repeated calls\<close>

definition retriable :: "publication_error \<Rightarrow> bool" where
  "retriable e \<longleftrightarrow> e = PubError DownloadError"

text \<open>Calls that failed with a retriable error, and the last one; \<open>None\<close> is a call that does not return.\<close>

inductive attempts :: "('s \<Rightarrow> ((publication_error + 'a) \<times> 's) option) \<Rightarrow> 's \<Rightarrow> publication_error + 'a \<Rightarrow> 's \<Rightarrow> bool" for f where
  last: "f s = Some (r, s') \<Longrightarrow> attempts f s r s'"
| again: "f s = Some (Inl e, s1) \<Longrightarrow> retriable e \<Longrightarrow> attempts f s1 r s' \<Longrightarrow> attempts f s r s'"

type_synonym ('s, 'a) retrying = "('s \<Rightarrow> ((publication_error + 'a) \<times> 's) option) \<Rightarrow> 's \<Rightarrow> ((publication_error + 'a) \<times> 's) option"

definition retry_policy :: "('s, 'a) retrying \<Rightarrow> bool" where
  "retry_policy R \<longleftrightarrow> (\<forall>f s r s'. R f s = Some (r, s') \<longrightarrow> attempts f s r s')"

section \<open>What a stream reads\<close>

type_synonym chunk_getter = "nat \<Rightarrow> io_state \<Rightarrow> (pithos_error + bytes) \<times> io_state"
type_synonym permuter = "int \<Rightarrow> int \<Rightarrow> nat \<Rightarrow> nat \<Rightarrow> nat list"
type_synonym rows_read = "((publication_error + int list list) \<times> io_state corpus) option"

text \<open>The parts in which the two streams differ, over positions \<open>'p\<close>.\<close>

record 'p feed =
  fd_check :: "io_state corpus \<Rightarrow> publication_error option"
  fd_start :: "io_state corpus \<Rightarrow> 'p \<Rightarrow> nat"
  fd_stride :: nat
  fd_rows :: "io_state corpus \<Rightarrow> 'p \<Rightarrow> nat"
  fd_read :: "chunk_getter \<Rightarrow> nat \<Rightarrow> nat \<Rightarrow> io_state corpus \<Rightarrow> rows_read"
  fd_advance :: "io_state corpus \<Rightarrow> 'p \<Rightarrow> 'p"

definition batch_feed :: "permuter \<Rightarrow> batch_stream \<Rightarrow> nat feed" where
  "batch_feed perm_of bs =
     \<lparr>fd_check = (\<lambda>C. None),
      fd_start = (\<lambda>C off. bs_idx bs + off * bs_count bs),
      fd_stride = bs_count bs,
      fd_rows = (\<lambda>C off. sc_batch bs),
      fd_read = (\<lambda>get start rows C. case corpus_read_strided get perm_of (PInt (int start)) (PInt (int (bs_count bs))) (PInt (int rows)) C of
        (r, C1) \<Rightarrow> Some (map_sum PubError id r, C1)),
      fd_advance = (\<lambda>C off. off + sc_batch bs)\<rparr>"

definition shard_low :: "shard_stream \<Rightarrow> stream_layout \<Rightarrow> nat" where
  "shard_low ss L = ss_index ss * ss_per_head ss * sl_samples_per_chunk L"

definition shard_high :: "shard_stream \<Rightarrow> stream_layout \<Rightarrow> nat" where
  "shard_high ss L = min ((ss_index ss + 1) * ss_per_head ss * sl_samples_per_chunk L) (sl_total_samples L)"

definition shard_size :: "shard_stream \<Rightarrow> stream_layout \<Rightarrow> nat" where
  "shard_size ss L = shard_high ss L - shard_low ss L"

definition shard_rows :: "shard_stream \<Rightarrow> stream_layout \<Rightarrow> nat \<times> nat \<Rightarrow> nat" where
  "shard_rows ss L p = min (sc_batch ss) (shard_size ss L - snd p)"

definition shard_advance :: "shard_stream \<Rightarrow> stream_layout \<Rightarrow> nat \<times> nat \<Rightarrow> nat \<times> nat" where
  "shard_advance ss L p =
     (if shard_size ss L \<le> snd p + shard_rows ss L p then (fst p + 1, 0) else (fst p, snd p + shard_rows ss L p))"

definition shard_feed :: "permuter \<Rightarrow> shard_stream \<Rightarrow> (nat \<times> nat) feed" where
  "shard_feed perm_of ss =
     \<lparr>fd_check = (\<lambda>C. if ss_count ss \<noteq> cp_chunk_count C then Some (PubError stream_error)
        else if shard_size ss (cp_layout C) < 1 then Some (PubError stream_error) else None),
      fd_start = (\<lambda>C p. fst p * cp_total_samples C + shard_low ss (cp_layout C) + snd p),
      fd_stride = 1,
      fd_rows = (\<lambda>C. shard_rows ss (cp_layout C)),
      fd_read = (\<lambda>get start n C. case corpus_read get perm_of (PInt (int start)) (PInt (int n)) C of
        None \<Rightarrow> None | Some (r, C1) \<Rightarrow> Some (map_sum PubError id r, C1)),
      fd_advance = (\<lambda>C. shard_advance ss (cp_layout C))\<rparr>"

section \<open>Iterators\<close>

record 'p stream_state =
  fs_pos :: 'p
  fs_active :: bool

text \<open>A generator: not started, suspended at a \<open>yield\<close>, in the middle of a read, or finished.\<close>

datatype 'p phase = Fresh | Ready "io_state corpus" | Reading "io_state corpus" 'p "int list list" | Ended

type_synonym 'p iter = "'p phase \<times> bool"

definition release :: "'p stream_state \<Rightarrow> 'p stream_state" where
  "release st = st\<lparr>fs_active := False\<rparr>"

text \<open>\<open>__call__\<close>: the flag of the stream, then a fresh iterator.\<close>

definition new_iter :: "'p stream_state \<Rightarrow> error + 'p iter \<times> 'p stream_state" where
  "new_iter st = (if fs_active st then Inl RuntimeError else Inr ((Fresh, False), st\<lparr>fs_active := True\<rparr>))"

text \<open>The read of one round of the loop; an exception leaves the generator, which closes the corpus and releases.\<close>

definition read_round :: "'p feed \<Rightarrow> (io_state corpus, int list list) retrying \<Rightarrow> chunk_getter \<Rightarrow> io_state corpus \<Rightarrow> 'p stream_state
    \<Rightarrow> (publication_error option \<times> 'p stream_state \<times> 'p phase) option" where
  "read_round fd R get C st =
     (case R (fd_read fd get (fd_start fd C (fs_pos st)) (fd_rows fd C (fs_pos st))) C of
        None \<Rightarrow> None
      | Some (Inl e, C1) \<Rightarrow> Some (Some e, release st, Ended)
      | Some (Inr rows, C1) \<Rightarrow> Some (None, st, Reading C1 (fs_pos st) rows))"

text \<open>\<open>next\<close> up to the end of the read; \<open>opened\<close> is what opening the corpus gives when the generator starts.\<close>

definition begin_next :: "'p feed \<Rightarrow> string \<Rightarrow> (io_state corpus, int list list) retrying \<Rightarrow> chunk_getter
    \<Rightarrow> publication_error + io_state corpus \<Rightarrow> 'p phase \<Rightarrow> 'p stream_state
    \<Rightarrow> (publication_error option \<times> 'p stream_state \<times> 'p phase) option" where
  "begin_next fd identity R get opened ph st =
     (case ph of
        Fresh \<Rightarrow>
          (case opened of
             Inl e \<Rightarrow> Some (Some e, release st, Ended)
           | Inr C \<Rightarrow>
               if mf_identity (cp_manifest C) \<noteq> identity then Some (Some (PubError stream_error), release st, Ended)
               else
                 case fd_check fd C of
                   Some e \<Rightarrow> Some (Some e, release st, Ended)
                 | None \<Rightarrow> read_round fd R get C st)
      | Ready C \<Rightarrow> read_round fd R get C st
      | Reading C p rows \<Rightarrow> Some (Some (PubError stream_error), st, ph)
      | Ended \<Rightarrow> Some (None, st, Ended))"

text \<open>
  The rest of \<open>next\<close>: the position must still be the one that was read from. A batch is the start, the stride and
  the rows.
\<close>

type_synonym pithos_batch = "nat \<times> nat \<times> int list list"

fun end_next :: "'p feed \<Rightarrow> 'p phase \<Rightarrow> 'p stream_state \<Rightarrow> (error + pithos_batch) option \<times> 'p stream_state \<times> 'p phase" where
  "end_next fd (Reading C p rows) st =
     (if fs_pos st \<noteq> p then (Some (Inl RuntimeError), release st, Ended)
      else (Some (Inr (fd_start fd C p, fd_stride fd, rows)), st\<lparr>fs_pos := fd_advance fd C p\<rparr>, Ready C))"
| "end_next fd ph st = (None, st, ph)"

text \<open>
  \<open>close\<close>, also called when the iterator is collected. A generator that was started and not finished releases the
  stream when it is closed, one that is running cannot be closed.
\<close>

definition close_iter :: "'p iter \<Rightarrow> 'p stream_state \<Rightarrow> error option \<times> 'p iter \<times> 'p stream_state" where
  "close_iter it st =
     (if snd it then (None, it, st)
      else
        case fst it of
          Reading C p rows \<Rightarrow> (Some ValueError, (fst it, True), st)
        | _ \<Rightarrow> (None, (Ended, True), release st))"

text \<open>A stream with all iterators it ever gave out, and the batches they yielded.\<close>

record 'p stream_system =
  ys_state :: "'p stream_state"
  ys_iters :: "'p iter list"
  ys_batches :: "pithos_batch list"

definition system_new :: "'p \<Rightarrow> 'p stream_system" where
  "system_new p = \<lparr>ys_state = \<lparr>fs_pos = p, fs_active = False\<rparr>, ys_iters = [], ys_batches = []\<rparr>"

inductive system_step :: "'p feed \<Rightarrow> string \<Rightarrow> (io_state corpus, int list list) retrying \<Rightarrow> (chunk_getter \<Rightarrow> bool)
    \<Rightarrow> (io_state corpus \<Rightarrow> bool) \<Rightarrow> 'p stream_system \<Rightarrow> 'p stream_system \<Rightarrow> bool"
  for fd identity R getter opens where
  call: "new_iter (ys_state y) = Inr (it, st) \<Longrightarrow>
    system_step fd identity R getter opens y (y\<lparr>ys_state := st, ys_iters := ys_iters y @ [it]\<rparr>)"
| start: "i < length (ys_iters y) \<Longrightarrow> getter get \<Longrightarrow> \<forall>C. opened = Inr C \<longrightarrow> opens C \<Longrightarrow>
    begin_next fd identity R get opened (fst (ys_iters y ! i)) (ys_state y) = Some (e, st, ph) \<Longrightarrow>
    system_step fd identity R getter opens y (y\<lparr>ys_state := st, ys_iters := (ys_iters y)[i := (ph, snd (ys_iters y ! i))]\<rparr>)"
| finish: "i < length (ys_iters y) \<Longrightarrow> end_next fd (fst (ys_iters y ! i)) (ys_state y) = (out, st, ph) \<Longrightarrow>
    system_step fd identity R getter opens y (y\<lparr>ys_state := st, ys_iters := (ys_iters y)[i := (ph, snd (ys_iters y ! i))],
      ys_batches := ys_batches y @ (case out of Some (Inr b) \<Rightarrow> [b] | _ \<Rightarrow> [])\<rparr>)"
| close: "i < length (ys_iters y) \<Longrightarrow> close_iter (ys_iters y ! i) (ys_state y) = (e, it, st) \<Longrightarrow>
    system_step fd identity R getter opens y (y\<lparr>ys_state := st, ys_iters := (ys_iters y)[i := it]\<rparr>)"

section \<open>The positions a stream passes through\<close>

text \<open>
  A feed reads well on the corpora \<open>good\<close> of a layout: a read keeps them good and, if it ends, returns the samples
  of its position; start and advance depend on the layout only. \<open>row i\<close> is sample \<open>i\<close>.
\<close>

definition reads_well :: "'p feed \<Rightarrow> stream_layout \<Rightarrow> (chunk_getter \<Rightarrow> bool) \<Rightarrow> (io_state corpus \<Rightarrow> bool) \<Rightarrow> (nat \<Rightarrow> int list) \<Rightarrow> bool" where
  "reads_well fd L getter good row \<longleftrightarrow>
     (\<forall>get start n C r C'. getter get \<longrightarrow> good C \<longrightarrow> fd_read fd get start n C = Some (r, C') \<longrightarrow>
        good C' \<and> (\<forall>rows. r = Inr rows \<longrightarrow> rows = map (\<lambda>i. row (start + i * fd_stride fd)) [0..<n]))
     \<and> (\<forall>C. good C \<longrightarrow> cp_layout C = L)
     \<and> (\<forall>C C' p. cp_layout C = cp_layout C' \<longrightarrow> fd_start fd C p = fd_start fd C' p \<and> fd_rows fd C p = fd_rows fd C' p
          \<and> fd_advance fd C p = fd_advance fd C' p)"

text \<open>The batch at a position.\<close>

definition batch_at :: "'p feed \<Rightarrow> (nat \<Rightarrow> int list) \<Rightarrow> io_state corpus \<Rightarrow> 'p \<Rightarrow> pithos_batch" where
  "batch_at fd row C p =
     (fd_start fd C p, fd_stride fd, map (\<lambda>i. row (fd_start fd C p + i * fd_stride fd)) [0..<fd_rows fd C p])"

definition positions_ok :: "'p feed \<Rightarrow> (io_state corpus \<Rightarrow> bool) \<Rightarrow> (nat \<Rightarrow> int list) \<Rightarrow> io_state corpus \<Rightarrow> 'p \<Rightarrow> 'p stream_system \<Rightarrow> bool" where
  "positions_ok fd good row C0 p0 y \<longleftrightarrow>
     fs_pos (ys_state y) = (fd_advance fd C0 ^^ length (ys_batches y)) p0
     \<and> ys_batches y = map (\<lambda>k. batch_at fd row C0 ((fd_advance fd C0 ^^ k) p0)) [0..<length (ys_batches y)]
     \<and> (\<forall>it \<in> set (ys_iters y). case fst it of
          Ready C \<Rightarrow> good C
        | Reading C p rows \<Rightarrow> good C \<and> rows = map (\<lambda>i. row (fd_start fd C p + i * fd_stride fd)) [0..<fd_rows fd C p]
        | _ \<Rightarrow> True)"

lemma attempts_read:
  assumes "attempts f C r C'" and "good C"
    and "\<And>C r C'. good C \<Longrightarrow> f C = Some (r, C') \<Longrightarrow> good C' \<and> (\<forall>rows. r = Inr rows \<longrightarrow> rows = ws)"
  shows "good C' \<and> (\<forall>rows. r = Inr rows \<longrightarrow> rows = ws)"
  using assms(1,2) by (induction rule: attempts.induct) (use assms(3) in blast)+

lemma read_round_ok:
  assumes "read_round fd R get C st = Some (e, st', ph)" and "reads_well fd L getter good row" and "getter get" and "good C" and "retry_policy R"
  shows "fs_pos st' = fs_pos st \<and> (ph = Ended \<or> (\<exists>C1. ph = Reading C1 (fs_pos st)
      (map (\<lambda>i. row (fd_start fd C (fs_pos st) + i * fd_stride fd)) [0..<fd_rows fd C (fs_pos st)]) \<and> good C1))"
proof -
  let ?f = "fd_read fd get (fd_start fd C (fs_pos st)) (fd_rows fd C (fs_pos st))"
  let ?ws = "map (\<lambda>i. row (fd_start fd C (fs_pos st) + i * fd_stride fd)) [0..<fd_rows fd C (fs_pos st)]"
  obtain r C1 where R: "R ?f C = Some (r, C1)" using assms(1) by (cases "R ?f C") (auto simp: read_round_def)
  have f: "good C' \<and> (\<forall>rows. r = Inr rows \<longrightarrow> rows = ?ws)" if "good C2" "?f C2 = Some (r, C')" for C2 r C'
    using assms(2,3) that unfolding reads_well_def by blast
  have att: "attempts ?f C r C1" using assms(5) R by (simp add: retry_policy_def)
  have "good C1 \<and> (\<forall>rows. r = Inr rows \<longrightarrow> rows = ?ws)"
    by (rule attempts_read [of ?f C r C1 good ?ws, OF att assms(4)]) (rule f)
  then show ?thesis using assms(1) R by (cases r) (auto simp: read_round_def release_def)
qed

lemma phase_update:
  assumes "\<forall>it \<in> set its. P (fst it)" and "P ph"
  shows "\<forall>it \<in> set (its[i := (ph, b)]). P (fst it)"
  using assms set_update_subset_insert [of its i "(ph, b)"] by fastforce

lemma system_step_ok:
  assumes "system_step fd identity R getter opens y y'" and "positions_ok fd good row C0 p0 y"
    and w: "reads_well fd L getter good row" and R: "retry_policy R" and C0: "cp_layout C0 = L" and opens: "\<And>C. opens C \<Longrightarrow> mf_identity (cp_manifest C) = identity \<Longrightarrow> good C"
  shows "positions_ok fd good row C0 p0 y'"
proof -
  define P where "P = (\<lambda>ph. case ph of
          Ready C \<Rightarrow> good C
        | Reading C p rows \<Rightarrow> good C \<and> rows = map (\<lambda>i. row (fd_start fd C p + i * fd_stride fd)) [0..<fd_rows fd C p]
        | _ \<Rightarrow> True)"
  have ok: "fs_pos (ys_state y) = (fd_advance fd C0 ^^ length (ys_batches y)) p0"
      "ys_batches y = map (\<lambda>k. batch_at fd row C0 ((fd_advance fd C0 ^^ k) p0)) [0..<length (ys_batches y)]"
      "\<forall>it \<in> set (ys_iters y). P (fst it)"
    using assms(2) unfolding positions_ok_def P_def by blast+
  have same: "fd_start fd C p = fd_start fd C0 p" "fd_rows fd C p = fd_rows fd C0 p" "fd_advance fd C p = fd_advance fd C0 p"
    if "good C" for C p using w C0 that unfolding reads_well_def by metis+
  have okI: "positions_ok fd good row C0 p0 y'"
    if "fs_pos (ys_state y') = (fd_advance fd C0 ^^ length (ys_batches y')) p0"
      "ys_batches y' = map (\<lambda>k. batch_at fd row C0 ((fd_advance fd C0 ^^ k) p0)) [0..<length (ys_batches y')]"
      "\<forall>it \<in> set (ys_iters y'). P (fst it)" for y'
    using that by (simp add: positions_ok_def P_def)
  from assms(1) show ?thesis
  proof cases
    case (call it st)
    then show ?thesis using ok by (intro okI) (auto simp: new_iter_def P_def split: if_splits)
  next
    case (start i get opened e st ph)
    define st0 where "st0 = ys_state y"
    have "P (fst (ys_iters y ! i))" using ok(3) start(2) by simp
    have round: "fs_pos st = fs_pos st0 \<and> P ph" if "good C" "read_round fd R get C st0 = Some (e, st, ph)" for C
      using read_round_ok [OF that(2) w start(3) that(1) R] same that(1) by (auto simp: P_def)
    have "fs_pos st = fs_pos st0 \<and> P ph"
    proof (cases "fst (ys_iters y ! i)")
      case Fresh
      show ?thesis
      proof (cases "\<exists>C. opened = Inr C \<and> mf_identity (cp_manifest C) = identity \<and> fd_check fd C = None")
        case True
        then obtain C where C: "opened = Inr C" "mf_identity (cp_manifest C) = identity" "fd_check fd C = None" by blast
        then have "good C" "read_round fd R get C st0 = Some (e, st, ph)"
          using opens start(4,5) Fresh by (auto simp: begin_next_def st0_def)
        then show ?thesis by (rule round)
      next
        case False
        then show ?thesis using start(5) Fresh
          by (auto simp: begin_next_def release_def P_def st0_def split: sum.splits if_splits option.splits)
      qed
    next
      case (Ready C)
      then show ?thesis using start(5) \<open>P (fst (ys_iters y ! i))\<close> round [of C] by (simp add: begin_next_def P_def st0_def)
    next
      case (Reading C p rows)
      then show ?thesis using start(5) \<open>P (fst (ys_iters y ! i))\<close> by (auto simp: begin_next_def st0_def)
    next
      case Ended
      then show ?thesis using start(5) by (auto simp: begin_next_def st0_def P_def)
    qed
    then show ?thesis using ok start(1) phase_update [of "ys_iters y" P ph] by (intro okI) (auto simp: st0_def)
  next
    case (finish i out st ph)
    have Pi: "P (fst (ys_iters y ! i))" using ok(3) finish(2) by simp
    show ?thesis
    proof (cases "\<exists>b. out = Some (Inr b)")
      case False
      then have "fs_pos st = fs_pos (ys_state y) \<and> P ph"
        using finish(3) Pi by (cases "fst (ys_iters y ! i)") (auto simp: release_def P_def split: if_splits)
      then show ?thesis using False ok finish(1) phase_update [of "ys_iters y" P ph]
        by (intro okI) (auto split: option.splits sum.splits)
    next
      case True
      then obtain C p rows where r: "fst (ys_iters y ! i) = Reading C p rows" "fs_pos (ys_state y) = p" "ph = Ready C"
          "fs_pos st = fd_advance fd C p" "out = Some (Inr (fd_start fd C p, fd_stride fd, rows))"
        using finish(3) by (cases "fst (ys_iters y ! i)") (auto split: if_splits)
      have g: "good C" "rows = map (\<lambda>i. row (fd_start fd C p + i * fd_stride fd)) [0..<fd_rows fd C p]"
        using Pi r(1) by (auto simp: P_def)
      have b: "(fd_start fd C p, fd_stride fd, rows) = batch_at fd row C0 ((fd_advance fd C0 ^^ length (ys_batches y)) p0)"
        using g same [OF g(1)] ok(1) r(2) by (simp add: batch_at_def)
      show ?thesis
        using finish(1) r b ok g same [OF g(1)] phase_update [of "ys_iters y" P ph]
        by (intro okI) (auto simp: P_def)
    qed
  next
    case (close i e it st)
    have "fs_pos st = fs_pos (ys_state y) \<and> P (fst it)"
      using close(3) ok(3) close(2) by (auto simp: close_iter_def release_def P_def split: if_splits phase.splits dest!: nth_mem)
    then show ?thesis using ok close(1) phase_update [of "ys_iters y" P "fst it" i "snd it"] by (intro okI) auto
  qed
qed

end
