(* ===== verification/HeadInjector.thy ===== *)
theory HeadInjector
  imports HeadLedger DataPlane HeadStreams
begin

text \<open>
  The injector of a head (\<open>W2WHeadInjector\<close> in \<open>core/server/w2w_head_injector.py\<close>): the thread that
  reads batches, the loop that admits them one credit at a time, one task for each batch, the reaper that
  resolves the waiting tasks from snapshots of the ledger, and the reports of other processes. Each is a step
  relation on the shared state; the loop thread is interleaved more finely than its awaits, which only adds
  behaviours. The clock is read as an arbitrary argument of a step. Lists with the remark \<open>history\<close> are
  not part of the program.
\<close>

section \<open>A batch and its payload\<close>

datatype source_batch = CorpusBatch string nat nat "int list list" | TokenBatch "int list list"

fun batch_ids :: "source_batch \<Rightarrow> int list list" where
  "batch_ids (CorpusBatch manifest start stride ids) = ids"
| "batch_ids (TokenBatch ids) = ids"

text \<open>Hidden ids, labels and the weight of a token; a single token for each row makes the division fail, none at all
  the tensor.\<close>

definition inject_payload :: "int list list \<Rightarrow> error + int list list \<times> int list list \<times> real" where
  "inject_payload ids =
     (let rows = int (length ids); tokens = int (length (concat (take 1 ids))) - 1
      in if rows * tokens = 0 then Inl ZeroDivisionError
         else if tokens < 0 then Inl RuntimeError
         else Inr (map butlast ids, map tl ids, 1 / of_int (rows * tokens)))"

record inject_config =
  ij_uid :: uid
  ij_peer :: string
  ij_data_idx :: int
  ij_max_inflight :: int
  ij_prefetch :: int
  ij_stall :: time
  ij_batch_timeout :: time
  ij_driver :: dwconfig
  ij_dumps :: "pyval \<Rightarrow> bytes"
  ij_loads :: "bytes \<Rightarrow> pyval option"

definition inject_metadata :: "inject_config \<Rightarrow> int \<Rightarrow> source_batch \<Rightarrow> batch_metadata" where
  "inject_metadata cfg sq b =
     \<lparr>bm_trainer_uid = PStr (ij_uid cfg), bm_seq = PInt sq, bm_data_shard = PInt (ij_data_idx cfg), bm_purpose = NORMAL,
      bm_trainer_peer_id = Some (ij_peer cfg), bm_next_hop_uid = None, bm_next_hop_peer_id = None,
      bm_prev_hop_uid = None, bm_prev_hop_peer_id = None, bm_prev_hop_maddrs = None,
      bm_data_manifest = (case b of CorpusBatch m _ _ _ \<Rightarrow> Some m | TokenBatch _ \<Rightarrow> None),
      bm_sample_start = (case b of CorpusBatch _ start _ _ \<Rightarrow> Some (int start) | TokenBatch _ \<Rightarrow> None),
      bm_sample_stride = (case b of CorpusBatch _ _ stride _ \<Rightarrow> Some (int stride) | TokenBatch _ \<Rightarrow> None),
      bm_sample_rows = (case b of CorpusBatch _ _ _ ids \<Rightarrow> Some (int (length ids)) | TokenBatch _ \<Rightarrow> None)\<rparr>"

section \<open>The state\<close>

text \<open>How a batch ended; an aborted one was stopped before its slot was made.\<close>

datatype batch_end = Completed | Dropped | Rejected | Failed | Aborted

fun end_counter :: "batch_end \<Rightarrow> string option" where
  "end_counter Completed = Some ''completed''"
| "end_counter Dropped = Some ''dropped''"
| "end_counter Rejected = Some ''inject_rejected''"
| "end_counter Failed = Some ''inject_errors''"
| "end_counter Aborted = None"

text \<open>
  Where a task of \<open>_inject_one\<close> is: before its number, with number and start time, allowed to open its slot, with the slot
  while the driver admits it, dropping the slot of a refused one and after that, in \<open>handle_forward\<close>, waiting for its
  outcome, in the final clause with the fields still to be dropped, returned.
\<close>

datatype task =
    Starting source_batch
  | Prepared int time source_batch
  | Cleared int time source_batch
  | Offering int time source_batch
  | Refused int "ledger_field list"
  | Forwarding int time accepted_forward
  | Awaiting int time
  | Ending int "ledger_field list"
  | Returned

datatype loop_phase =
    LoopOff | LoopTop | LoopGet | LoopTake | LoopHave source_batch | LoopFull source_batch
  | LoopCleared source_batch | LoopParked source_batch | LoopReady source_batch | LoopDrain | LoopExited

datatype data_phase =
    Asking | Holding source_batch | Putting source_batch | Placed | Closing | Sealing | Gone

datatype reaper_phase = NoReaper | Resting | Snapped ledger | Ticking | SweepSnapped ledger | Sweeping nat

record injector =
  hi_ledger :: ledger
  hi_writers :: "(ledger_key \<times> ledger_value) list list"
  hi_credits :: "credits option"
  hi_reporter :: reporter
  hi_counters :: counters
  hi_driver :: driver
  hi_queue :: "source_batch option list"
  hi_stop :: bool
  hi_phase :: ghost_phase
  hi_wake :: bool
  hi_last_seq :: int
  hi_completions :: "(int, time) dict"
  hi_futures :: "(int, batch_outcome) dict"
  hi_orphans :: "int list"
  hi_countdown :: int
  hi_sweep_pops :: "ledger_key list"
  hi_first_ready :: bool
  hi_terminal :: "exn option"
  hi_terminal_set :: bool
  hi_tasks :: "task list"
  hi_loop :: loop_phase
  hi_data :: data_phase
  hi_reaper :: reaper_phase
  hi_taken :: "source_batch list"                   \<comment> \<open>history: the batches the source yielded\<close>
  hi_injected :: "(int \<times> source_batch) list"        \<comment> \<open>history: the batches that got a number\<close>
  hi_reports :: "report list"                       \<comment> \<open>history: the reports that passed the check\<close>
  hi_ends :: "(int \<times> batch_end) list"               \<comment> \<open>history: how batches ended\<close>
  hi_outcomes :: "(int \<times> batch_outcome) list"       \<comment> \<open>history: the outcomes tasks have seen\<close>

definition ORPHAN_SWEEP_TICKS :: int where
  "ORPHAN_SWEEP_TICKS = 200"

definition batch_timeout_of :: "time \<Rightarrow> time \<Rightarrow> int \<Rightarrow> time" where
  "batch_timeout_of fwd bwd stages = fwd * of_int stages + bwd * of_int (max 1 (stages - 1)) + 30"

definition stall_timeout_of :: "time \<Rightarrow> time \<Rightarrow> time" where
  "stall_timeout_of fwd bwd = max fwd bwd + 30"

fun positive_number :: "pyval \<Rightarrow> bool" where
  "positive_number (PInt i) = (0 < i)"
| "positive_number (PFloat x) = (0 < x)"
| "positive_number _ = False"

text \<open>Construction; \<open>base\<close> holds the arguments that are only stored.\<close>

definition injector_new :: "inject_config \<Rightarrow> int \<Rightarrow> int \<Rightarrow> time \<Rightarrow> time \<Rightarrow> int \<Rightarrow> bool \<Rightarrow> real \<Rightarrow> real \<Rightarrow> pyval \<Rightarrow> bool \<Rightarrow> ghost_phase
    \<Rightarrow> ledger \<Rightarrow> reporter \<Rightarrow> driver \<Rightarrow> error + inject_config \<times> injector" where
  "injector_new base max_inflight prefetch fwd bwd stages adaptive low high start_timeout has_optimizer ghost d rep drv =
     (if max_inflight < 1 then Inl AssertionError
      else if \<not> positive_number start_timeout then Inl ValueError
      else if \<not> has_optimizer then Inl ValueError
      else Inr
        (base\<lparr>ij_max_inflight := max_inflight, ij_prefetch := max 1 prefetch,
           ij_stall := stall_timeout_of fwd bwd, ij_batch_timeout := batch_timeout_of fwd bwd stages\<rparr>,
         \<lparr>hi_ledger = d, hi_writers = [],
          hi_credits = (if adaptive then Some (credits_new 1 max_inflight 10 low high) else None),
          hi_reporter = rep, hi_counters = [], hi_driver = drv, hi_queue = [], hi_stop = False, hi_phase = ghost,
          hi_wake = False, hi_last_seq = 0, hi_completions = [], hi_futures = [], hi_orphans = [],
          hi_countdown = ORPHAN_SWEEP_TICKS, hi_sweep_pops = [], hi_first_ready = False, hi_terminal = None,
          hi_terminal_set = False, hi_tasks = [], hi_loop = LoopOff, hi_data = Asking, hi_reaper = NoReaper,
          hi_taken = [], hi_injected = [], hi_reports = [], hi_ends = [], hi_outcomes = []\<rparr>))"

section \<open>The data thread\<close>

definition record_data_failure :: "exn \<Rightarrow> injector \<Rightarrow> injector" where
  "record_data_failure e s =
     (if hi_terminal s \<noteq> None then s
      else s\<lparr>hi_terminal := Some e, hi_first_ready := True, hi_terminal_set := True\<rparr>)"

definition queue_full :: "inject_config \<Rightarrow> injector \<Rightarrow> bool" where
  "queue_full cfg s \<longleftrightarrow> ij_prefetch cfg \<le> int (length (hi_queue s))"

inductive data_step :: "inject_config \<Rightarrow> injector \<Rightarrow> injector \<Rightarrow> bool" for cfg where
  yields: "hi_data s = Asking \<Longrightarrow> data_step cfg s (s\<lparr>hi_data := Holding b, hi_taken := hi_taken s @ [b]\<rparr>)"
| ends: "hi_data s = Asking \<Longrightarrow> \<not> hi_stop s
    \<Longrightarrow> data_step cfg s ((record_data_failure e s)\<lparr>hi_data := Closing\<rparr>)"
| unwinds: "hi_data s = Asking \<Longrightarrow> hi_stop s \<Longrightarrow> data_step cfg s (s\<lparr>hi_data := Closing\<rparr>)"
| tries: "hi_data s = Holding b \<Longrightarrow> \<not> hi_stop s \<Longrightarrow> data_step cfg s (s\<lparr>hi_data := Putting b\<rparr>)"
| gives_up: "hi_data s = Holding b \<Longrightarrow> hi_stop s \<Longrightarrow> data_step cfg s (s\<lparr>hi_data := Closing\<rparr>)"
| puts: "hi_data s = Putting b \<Longrightarrow> \<not> queue_full cfg s
    \<Longrightarrow> data_step cfg s (s\<lparr>hi_data := Placed, hi_queue := hi_queue s @ [Some b], hi_first_ready := True\<rparr>)"
| full: "hi_data s = Putting b \<Longrightarrow> data_step cfg s (s\<lparr>hi_data := Holding b\<rparr>)"
| goes_on: "hi_data s = Placed \<Longrightarrow> \<not> hi_stop s \<Longrightarrow> data_step cfg s (s\<lparr>hi_data := Asking\<rparr>)"
| leaves: "hi_data s = Placed \<Longrightarrow> hi_stop s \<Longrightarrow> data_step cfg s (s\<lparr>hi_data := Closing\<rparr>)"
| tries_end: "hi_data s = Closing \<Longrightarrow> \<not> hi_stop s \<Longrightarrow> data_step cfg s (s\<lparr>hi_data := Sealing\<rparr>)"
| stops: "hi_data s = Closing \<Longrightarrow> hi_stop s \<Longrightarrow> data_step cfg s (s\<lparr>hi_data := Gone\<rparr>)"
| seals: "hi_data s = Sealing \<Longrightarrow> \<not> queue_full cfg s
    \<Longrightarrow> data_step cfg s (s\<lparr>hi_data := Gone, hi_queue := hi_queue s @ [None]\<rparr>)"
| full_end: "hi_data s = Sealing \<Longrightarrow> data_step cfg s (s\<lparr>hi_data := Closing\<rparr>)"

section \<open>The injection loop\<close>

definition inflight_window :: "inject_config \<Rightarrow> injector \<Rightarrow> int" where
  "inflight_window cfg s =
     (case hi_credits s of None \<Rightarrow> ij_max_inflight cfg | Some c \<Rightarrow> min (cr_target c) (ij_max_inflight cfg))"

text \<open>\<open>_wait_until_injection_allowed\<close> answers in these two cases and sleeps otherwise.\<close>

definition allowed :: "injector \<Rightarrow> bool" where
  "allowed s \<longleftrightarrow> \<not> hi_stop s \<and> hi_phase s \<noteq> PHASE1"

text \<open>\<open>LoopOff\<close> is the wait for the first batch; a timeout is recorded as a failure of the data.\<close>

inductive loop_step :: "inject_config \<Rightarrow> injector \<Rightarrow> injector \<Rightarrow> bool" for cfg where
  first_batch: "hi_loop s = LoopOff \<Longrightarrow> hi_first_ready s \<Longrightarrow> hi_terminal s = None \<Longrightarrow> \<not> hi_stop s
    \<Longrightarrow> loop_step cfg s (s\<lparr>hi_loop := LoopTop\<rparr>)"
| no_first_batch: "hi_loop s = LoopOff \<Longrightarrow> hi_first_ready s \<Longrightarrow> hi_terminal s \<noteq> None \<or> hi_stop s
    \<Longrightarrow> loop_step cfg s (s\<lparr>hi_loop := LoopExited\<rparr>)"
| first_timeout: "hi_loop s = LoopOff \<Longrightarrow> \<not> hi_first_ready s
    \<Longrightarrow> loop_step cfg s ((record_data_failure ''TimeoutError'' s)\<lparr>hi_loop := LoopExited\<rparr>)"
| top: "hi_loop s = LoopTop \<Longrightarrow> allowed s \<Longrightarrow> loop_step cfg s (s\<lparr>hi_loop := LoopGet\<rparr>)"
| top_stop: "hi_loop s = LoopTop \<Longrightarrow> hi_stop s \<Longrightarrow> loop_step cfg s (s\<lparr>hi_loop := LoopDrain\<rparr>)"
| polls: "hi_loop s = LoopGet \<Longrightarrow> \<not> hi_stop s \<Longrightarrow> loop_step cfg s (s\<lparr>hi_loop := LoopTake\<rparr>)"
| get_stop: "hi_loop s = LoopGet \<Longrightarrow> hi_stop s \<Longrightarrow> loop_step cfg s (s\<lparr>hi_loop := LoopDrain\<rparr>)"
| takes: "hi_loop s = LoopTake \<Longrightarrow> hi_queue s = Some b # rest
    \<Longrightarrow> loop_step cfg s (s\<lparr>hi_loop := LoopHave b, hi_queue := rest\<rparr>)"
| takes_end: "hi_loop s = LoopTake \<Longrightarrow> hi_queue s = None # rest
    \<Longrightarrow> loop_step cfg s (s\<lparr>hi_loop := LoopDrain, hi_queue := rest\<rparr>)"
| empty: "hi_loop s = LoopTake \<Longrightarrow> loop_step cfg s (s\<lparr>hi_loop := LoopGet\<rparr>)"
| room: "hi_loop s = LoopHave b \<Longrightarrow> int (length (hi_tasks s)) < inflight_window cfg s
    \<Longrightarrow> loop_step cfg s (s\<lparr>hi_loop := LoopReady b\<rparr>)"
| no_room: "hi_loop s = LoopHave b \<Longrightarrow> inflight_window cfg s \<le> int (length (hi_tasks s))
    \<Longrightarrow> loop_step cfg s (s\<lparr>hi_loop := LoopFull b\<rparr>)"
| clears: "hi_loop s = LoopFull b \<Longrightarrow> loop_step cfg s (s\<lparr>hi_loop := LoopCleared b, hi_wake := False\<rparr>)"
| rechecks: "hi_loop s = LoopCleared b \<Longrightarrow> int (length (hi_tasks s)) < inflight_window cfg s
    \<Longrightarrow> loop_step cfg s (s\<lparr>hi_loop := LoopReady b\<rparr>)"
| parks: "hi_loop s = LoopCleared b \<Longrightarrow> inflight_window cfg s \<le> int (length (hi_tasks s))
    \<Longrightarrow> loop_step cfg s (s\<lparr>hi_loop := LoopParked b\<rparr>)"
| wakes: "hi_loop s = LoopParked b \<Longrightarrow> hi_wake s \<Longrightarrow> loop_step cfg s (s\<lparr>hi_loop := LoopHave b\<rparr>)"
| spawns: "hi_loop s = LoopReady b \<Longrightarrow> allowed s
    \<Longrightarrow> loop_step cfg s (s\<lparr>hi_loop := LoopTop, hi_tasks := hi_tasks s @ [Starting b]\<rparr>)"
| ready_stop: "hi_loop s = LoopReady b \<Longrightarrow> hi_stop s \<Longrightarrow> loop_step cfg s (s\<lparr>hi_loop := LoopDrain\<rparr>)"
| drained: "hi_loop s = LoopDrain \<Longrightarrow> list_all (\<lambda>t. t = Returned) (hi_tasks s)
    \<Longrightarrow> loop_step cfg s (s\<lparr>hi_loop := LoopExited\<rparr>)"

section \<open>One batch\<close>

text \<open>The end of a batch, where it is counted.\<close>

definition ended :: "batch_end \<Rightarrow> int \<Rightarrow> injector \<Rightarrow> injector" where
  "ended e q s =
     s\<lparr>hi_counters := (case end_counter e of Some n \<Rightarrow> bump n 1 (hi_counters s) | None \<Rightarrow> hi_counters s),
       hi_ends := hi_ends s @ [(q, e)]\<rparr>"

definition congested :: "time \<Rightarrow> injector \<Rightarrow> injector" where
  "congested now s = s\<lparr>hi_credits := map_option (on_congestion now) (hi_credits s)\<rparr>"

definition unregister :: "int \<Rightarrow> injector \<Rightarrow> injector" where
  "unregister q s = s\<lparr>hi_completions := dict_del q (hi_completions s)\<rparr>"

definition register :: "int \<Rightarrow> time \<Rightarrow> injector \<Rightarrow> injector" where
  "register q deadline s =
     s\<lparr>hi_reaper := (if hi_reaper s = NoReaper then Resting else hi_reaper s),
       hi_completions := dict_set q deadline (hi_completions s)\<rparr>"

text \<open>What a task does with its outcome: \<open>now\<close> and \<open>later\<close> are the readings of the reporter, \<open>done_at\<close> that of the
  credits.\<close>

definition settle_batch :: "time \<Rightarrow> time \<Rightarrow> time \<Rightarrow> int \<Rightarrow> time \<Rightarrow> batch_outcome \<Rightarrow> injector \<Rightarrow> injector" where
  "settle_batch now later done_at q started out s =
     (case out of
        CompletedWith loss \<Rightarrow>
          (case report_train_step now later loss (hi_reporter s) of
             (Some e, r) \<Rightarrow> ended Failed q (s\<lparr>hi_reporter := r\<rparr>)
           | (None, r) \<Rightarrow>
               let s1 = ended Completed q (s\<lparr>hi_reporter := r\<rparr>)
               in case hi_credits s of
                    None \<Rightarrow> s1
                  | Some c \<Rightarrow>
                      (case on_done (done_at - started) c of
                         Inr c1 \<Rightarrow> s1\<lparr>hi_credits := Some c1\<rparr>
                       | Inl e \<Rightarrow> ended Failed q s1))
      | _ \<Rightarrow> congested done_at (ended Dropped q s))"

inductive task_step :: "inject_config \<Rightarrow> task \<times> injector \<Rightarrow> task \<times> injector \<Rightarrow> bool" for cfg where
  start_stop: "hi_stop s \<Longrightarrow> task_step cfg (Starting b, s) (Returned, s)"
| start: "allowed s \<Longrightarrow> task_step cfg (Starting b, s)
    (Prepared (hi_last_seq s + 1) now b,
     s\<lparr>hi_last_seq := hi_last_seq s + 1, hi_injected := hi_injected s @ [(hi_last_seq s + 1, b)]\<rparr>)"
| bad_batch: "inject_payload (batch_ids b) = Inl e
    \<Longrightarrow> task_step cfg (Prepared q t b, s) (Ending q ledger_fields, ended Failed q s)"
| open_stop: "inject_payload (batch_ids b) = Inr p \<Longrightarrow> hi_stop s
    \<Longrightarrow> task_step cfg (Prepared q t b, s) (Ending q ledger_fields, ended Aborted q s)"
| open_allowed: "inject_payload (batch_ids b) = Inr p \<Longrightarrow> allowed s
    \<Longrightarrow> task_step cfg (Prepared q t b, s) (Cleared q t b, s)"
| opens: "task_step cfg (Cleared q t b, s)
    (Offering q t b, s\<lparr>hi_ledger := new_slot (ij_uid cfg) now q (hi_ledger s)\<rparr>)"
| accept_raises:
    "dw_accept_forward (ij_driver cfg) (ij_loads cfg) now (ij_uid cfg)
       (bm_to_bytes (ij_dumps cfg) (inject_metadata cfg q b)) (hi_driver s) = Inl e
    \<Longrightarrow> task_step cfg (Offering q t b, s) (Ending q ledger_fields, ended Failed q s)"
| refused:
    "dw_accept_forward (ij_driver cfg) (ij_loads cfg) now (ij_uid cfg)
       (bm_to_bytes (ij_dumps cfg) (inject_metadata cfg q b)) (hi_driver s) = Inr ((st, reason, acc), drv, evs)
    \<Longrightarrow> st \<noteq> ACCEPTED \<or> acc = None \<or> \<not> af_is_new (the acc)
    \<Longrightarrow> task_step cfg (Offering q t b, s) (Refused q ledger_fields, s\<lparr>hi_driver := drv\<rparr>)"
| refused_pop: "task_step cfg (Refused q (f # fs), s)
    (Refused q fs, s\<lparr>hi_ledger := dict_del (ij_uid cfg, q, f) (hi_ledger s)\<rparr>)"
| refused_end: "task_step cfg (Refused q [], s) (Ending q ledger_fields, congested now (ended Rejected q s))"
| accepted:
    "dw_accept_forward (ij_driver cfg) (ij_loads cfg) now (ij_uid cfg)
       (bm_to_bytes (ij_dumps cfg) (inject_metadata cfg q b)) (hi_driver s) = Inr ((ACCEPTED, reason, Some af), drv, evs)
    \<Longrightarrow> af_is_new af
    \<Longrightarrow> task_step cfg (Offering q t b, s)
      (Forwarding q t af, register q (later + ij_batch_timeout cfg) (s\<lparr>hi_driver := drv\<rparr>))"
| payload_raises:                                  \<comment> \<open>the activation cache or the serialisation\<close>
    "dw_accept_forward (ij_driver cfg) (ij_loads cfg) now (ij_uid cfg)
       (bm_to_bytes (ij_dumps cfg) (inject_metadata cfg q b)) (hi_driver s) = Inr ((ACCEPTED, reason, Some af), drv, evs)
    \<Longrightarrow> af_is_new af
    \<Longrightarrow> task_step cfg (Offering q t b, s) (Ending q ledger_fields, ended Failed q (s\<lparr>hi_driver := drv\<rparr>))"
| forwarded: "task_step cfg (Forwarding q t af, s) (Awaiting q t, s)"
| forward_raises: "task_step cfg (Forwarding q t af, s) (Ending q ledger_fields, ended Failed q (unregister q s))"
| resumes: "dict_get (hi_futures s) q = Some out
    \<Longrightarrow> task_step cfg (Awaiting q t, s)
      (Ending q ledger_fields,
       (settle_batch now later done_at q t out (unregister q s))\<lparr>hi_outcomes := hi_outcomes s @ [(q, out)]\<rparr>)"
| pops: "task_step cfg (Ending q (f # fs), s)
    (Ending q fs, s\<lparr>hi_ledger := dict_del (ij_uid cfg, q, f) (hi_ledger s)\<rparr>)"
| returns: "task_step cfg (Ending q [], s) (Returned, s)"

section \<open>The reaper\<close>

text \<open>What a snapshot says of a waiting batch: \<open>slot_outcome\<close>, or a timeout.\<close>

definition reap_outcome :: "inject_config \<Rightarrow> ledger \<Rightarrow> time \<Rightarrow> int \<Rightarrow> time \<Rightarrow> batch_outcome option" where
  "reap_outcome cfg snap now q deadline =
     (case slot_outcome (ij_uid cfg) (ij_stall cfg) now snap q of
        Some out \<Rightarrow> Some out
      | None \<Rightarrow> if deadline < now then Some TimedOut else None)"

definition reap_one :: "inject_config \<Rightarrow> ledger \<Rightarrow> time \<Rightarrow> int \<times> time \<Rightarrow> injector \<Rightarrow> injector" where
  "reap_one cfg snap now w s =
     (if dict_has (hi_futures s) (fst w) then unregister (fst w) s
      else
        case reap_outcome cfg snap now (fst w) (snd w) of
          Some out \<Rightarrow> unregister (fst w) (s\<lparr>hi_futures := dict_set (fst w) out (hi_futures s)\<rparr>)
        | None \<Rightarrow> s)"

definition reap_tick :: "inject_config \<Rightarrow> ledger \<Rightarrow> time \<Rightarrow> injector \<Rightarrow> injector" where
  "reap_tick cfg snap now s = fold (reap_one cfg snap now) (hi_completions s) s"

definition stale_seqs :: "inject_config \<Rightarrow> ledger \<Rightarrow> time \<Rightarrow> injector \<Rightarrow> int list" where
  "stale_seqs cfg snap now s =
     filter (\<lambda>q. \<not> dict_has (hi_completions s) q \<and> q \<le> hi_last_seq s
         \<and> (case progress_of snap (ij_uid cfg) q of None \<Rightarrow> True | Some t \<Rightarrow> ij_stall cfg < now - t))
       (remdups (map (\<lambda>kv. fst (snd (fst kv))) snap))"

definition confirmed_seqs :: "inject_config \<Rightarrow> ledger \<Rightarrow> time \<Rightarrow> injector \<Rightarrow> int list" where
  "confirmed_seqs cfg snap now s = filter (\<lambda>q. q \<in> set (hi_orphans s)) (stale_seqs cfg snap now s)"

text \<open>The drops of the confirmed slots run on another thread (\<open>hi_sweep_pops\<close>).\<close>

definition sweep_orphans :: "inject_config \<Rightarrow> ledger \<Rightarrow> time \<Rightarrow> injector \<Rightarrow> injector" where
  "sweep_orphans cfg snap now s =
     (let confirmed = confirmed_seqs cfg snap now s;
          s1 = s\<lparr>hi_orphans := filter (\<lambda>q. q \<notin> set confirmed) (stale_seqs cfg snap now s)\<rparr>
      in if confirmed = [] then s1\<lparr>hi_reaper := Resting\<rparr>
         else s1\<lparr>hi_reaper := Sweeping (length confirmed),
                hi_sweep_pops := hi_sweep_pops s
                  @ concat (map (\<lambda>q. map (\<lambda>f. (ij_uid cfg, q, f)) ledger_fields) confirmed)\<rparr>)"

inductive reaper_step :: "inject_config \<Rightarrow> injector \<Rightarrow> injector \<Rightarrow> bool" for cfg where
  snapshot: "hi_reaper s = Resting \<Longrightarrow> hi_completions s \<noteq> []
    \<Longrightarrow> reaper_step cfg s (s\<lparr>hi_reaper := Snapped (hi_ledger s)\<rparr>)"
| no_waiters: "hi_reaper s = Resting \<Longrightarrow> hi_completions s = [] \<Longrightarrow> reaper_step cfg s (s\<lparr>hi_reaper := Ticking\<rparr>)"
| reaps: "hi_reaper s = Snapped d \<Longrightarrow> reaper_step cfg s ((reap_tick cfg d now s)\<lparr>hi_reaper := Ticking\<rparr>)"
| ticks: "hi_reaper s = Ticking \<Longrightarrow> 0 < hi_countdown s - 1
    \<Longrightarrow> reaper_step cfg s (s\<lparr>hi_reaper := Resting, hi_countdown := hi_countdown s - 1\<rparr>)"
| sweep_due: "hi_reaper s = Ticking \<Longrightarrow> hi_countdown s - 1 \<le> 0
    \<Longrightarrow> reaper_step cfg s (s\<lparr>hi_reaper := SweepSnapped (hi_ledger s), hi_countdown := ORPHAN_SWEEP_TICKS\<rparr>)"
| sweeps: "hi_reaper s = SweepSnapped d \<Longrightarrow> reaper_step cfg s (sweep_orphans cfg d now s)"
| swept: "hi_reaper s = Sweeping n \<Longrightarrow> hi_sweep_pops s = []
    \<Longrightarrow> reaper_step cfg s (s\<lparr>hi_reaper := Resting, hi_counters := bump ''orphan_slots_swept'' (int n) (hi_counters s)\<rparr>)"
| tick_fails: "hi_reaper s \<noteq> NoReaper \<Longrightarrow> reaper_step cfg s (s\<lparr>hi_reaper := Resting\<rparr>)"
| cancelled: "hi_reaper s \<noteq> NoReaper \<Longrightarrow> hi_stop s \<Longrightarrow> reaper_step cfg s (s\<lparr>hi_reaper := NoReaper\<rparr>)"
| sweep_pop: "hi_sweep_pops s = k # ks
    \<Longrightarrow> reaper_step cfg s (s\<lparr>hi_ledger := dict_del k (hi_ledger s), hi_sweep_pops := ks\<rparr>)"

section \<open>The injector\<close>

text \<open>
  The reports of any process are checks and writes that interleave with all the rest; the training thread changes
  the ghost phase, other microbatches change the driver, and a shutdown may come at any time.
\<close>

inductive inject_step :: "inject_config \<Rightarrow> injector \<Rightarrow> injector \<Rightarrow> bool" for cfg where
  data: "data_step cfg s s1 \<Longrightarrow> inject_step cfg s s1"
| loop: "loop_step cfg s s1 \<Longrightarrow> inject_step cfg s s1"
| reaper: "reaper_step cfg s s1 \<Longrightarrow> inject_step cfg s s1"
| runs: "hi_tasks s = xs @ t # ys \<Longrightarrow> task_step cfg (t, s) (t1, s1)
    \<Longrightarrow> inject_step cfg s (s1\<lparr>hi_tasks := xs @ t1 # ys\<rparr>)"
| callback: "hi_tasks s = xs @ Returned # ys \<Longrightarrow> inject_step cfg s (s\<lparr>hi_tasks := xs @ ys, hi_wake := True\<rparr>)"
| report_checked: "report_known r (hi_ledger s)
    \<Longrightarrow> inject_step cfg s (s\<lparr>hi_writers := hi_writers s @ [report_writes now r], hi_reports := hi_reports s @ [r]\<rparr>)"
| report_write: "hi_writers s = xs @ (w # ws) # ys
    \<Longrightarrow> inject_step cfg s (s\<lparr>hi_ledger := ledger_write w (hi_ledger s), hi_writers := xs @ ws # ys\<rparr>)"
| ghost: "inject_step cfg s (s\<lparr>hi_phase := g\<rparr>)"
| traffic: "inject_step cfg s (s\<lparr>hi_driver := drv\<rparr>)"
| shutdown: "inject_step cfg s (s\<lparr>hi_stop := True, hi_first_ready := True, hi_terminal_set := True\<rparr>)"

inductive injecting :: "inject_config \<Rightarrow> injector \<Rightarrow> injector \<Rightarrow> bool" for cfg s0 where
  begins: "injecting cfg s0 s0"
| steps: "injecting cfg s0 s \<Longrightarrow> inject_step cfg s s1 \<Longrightarrow> injecting cfg s0 s1"

end
