(* ===== verification/HeadInjectorProps.thy ===== *)
theory HeadInjectorProps
  imports HeadInjector
begin

text \<open>
  The window of credits stays within its bounds, every number ends once and is counted once, an outcome has the reports
  it stands on, a credit is never lost, and a batch carries the range of samples it was read from.
\<close>

section \<open>Credits\<close>

definition credits_ok :: "int \<Rightarrow> credits \<Rightarrow> bool" where
  "credits_ok m c \<longleftrightarrow> 1 \<le> cr_target c \<and> cr_target c \<le> m \<and> cr_ceiling c \<le> m
     \<and> cr_round_done c = int (length (cr_latencies c)) \<and> cr_round_done c < cr_target c"

definition occupancy_ok :: "int \<Rightarrow> credits \<Rightarrow> bool" where
  "occupancy_ok m c \<longleftrightarrow> (\<forall>x \<in> set (cr_latencies c). 0 \<le> x) \<and> (\<forall>b. cr_best c = Some b \<longrightarrow> 0 \<le> b)
     \<and> 0 \<le> cr_occupancy c \<and> cr_occupancy c \<le> of_int m"

lemma credits_new_ok: "credits_ok (max (max 1 initial) (max 1 cap)) (credits_new initial cap cooldown low high)"
  by (simp add: credits_ok_def credits_new_def)

lemma on_congestion_ok [inv_intros]: "credits_ok m c \<Longrightarrow> credits_ok m (on_congestion now c)"
  by (auto simp: credits_ok_def on_congestion_def)

text \<open>The target, the best median and the occupancy a finished round computes.\<close>

definition round_median :: "real list \<Rightarrow> real" where
  "round_median xs = sort xs ! (length xs div 2)"

lemma round_median_in: "xs \<noteq> [] \<Longrightarrow> round_median xs \<in> set xs"
  unfolding round_median_def by (metis nth_mem length_sort set_sort div_less_dividend length_greater_0_conv one_less_numeral_iff semiring_norm(76))

definition round_best :: "credits \<Rightarrow> real \<Rightarrow> real" where
  "round_best c m = (case cr_best c of None \<Rightarrow> m | Some b \<Rightarrow> min m b)"

definition round_occupancy :: "credits \<Rightarrow> real \<Rightarrow> real" where
  "round_occupancy c m = (if 0 < m then of_int (cr_target c) * max 0 (1 - round_best c m / m) else 0)"

definition round_target :: "credits \<Rightarrow> real \<Rightarrow> int" where
  "round_target c occ =
     (if occ < cr_low c \<and> cr_target c < cr_ceiling c then cr_target c + 1
      else if cr_high c < occ \<and> 1 < cr_target c then cr_target c - 1 else cr_target c)"

lemma on_done_cases:
  assumes "credits_ok m c"
  obtains (within) "cr_round_done c + 1 < cr_target c"
      "on_done latency c = Inr (c\<lparr>cr_round_done := cr_round_done c + 1, cr_latencies := cr_latencies c @ [latency]\<rparr>)"
    | (finished) med where "cr_round_done c + 1 = cr_target c" "med = round_median (cr_latencies c @ [latency])"
      "on_done latency c = Inr (c\<lparr>cr_best := Some (round_best c med), cr_occupancy := round_occupancy c med,
         cr_target := round_target c (round_occupancy c med), cr_round_done := 0, cr_latencies := []\<rparr>)"
proof (cases "cr_round_done c + 1 < cr_target c")
  case True then show ?thesis by (intro within) (simp_all add: on_done_def)
next
  case False
  then have n: "cr_round_done c + 1 = cr_target c" using assms by (simp add: credits_ok_def)
  have ne: "sort (cr_latencies c @ [latency]) \<noteq> []" by (metis length_sort length_greater_0_conv snoc_eq_iff_butlast)
  show ?thesis
    by (rule finished [OF n refl])
      (use False ne in \<open>simp add: on_done_def Let_def round_median_def round_best_def round_occupancy_def round_target_def
        min_def not_less not_le split: option.split\<close>)
qed

lemma on_done_ok:
  assumes "credits_ok m c"
  obtains c1 where "on_done latency c = Inr c1" and "credits_ok m c1"
  using assms
proof (cases rule: on_done_cases [of m c latency])
  case within then show ?thesis using assms that by (auto simp: credits_ok_def)
next
  case (finished med)
  then show ?thesis using assms that by (auto simp: credits_ok_def round_target_def)
qed

lemma on_done_occupancy:
  assumes "credits_ok m c" "occupancy_ok m c" "0 \<le> latency" "on_done latency c = Inr c1"
  shows "occupancy_ok m c1"
  using assms(1)
proof (cases rule: on_done_cases [of m c latency])
  case within then show ?thesis using assms by (auto simp: occupancy_ok_def)
next
  case (finished med)
  have med: "0 \<le> med" using assms(2,3) finished(2) round_median_in [of "cr_latencies c @ [latency]"]
    by (auto simp: occupancy_ok_def)
  then have best: "0 \<le> round_best c med" using assms(2) by (auto simp: round_best_def occupancy_ok_def split: option.split)
  have t: "1 \<le> cr_target c" "cr_target c \<le> m" using assms(1) by (simp_all add: credits_ok_def)
  have "round_occupancy c med \<le> of_int m"
  proof (cases "0 < med")
    case True
    then have "max 0 (1 - round_best c med / med) \<le> 1" using best by simp
    then have "of_int (cr_target c) * max 0 (1 - round_best c med / med) \<le> (of_int (cr_target c) * 1 :: real)"
      using t by (intro mult_left_mono) simp_all
    also have "\<dots> \<le> of_int m" using t by simp
    finally show ?thesis using True by (simp only: round_occupancy_def if_True)
  qed (use t in \<open>simp add: round_occupancy_def\<close>)
  then show ?thesis using assms(4) finished best t by (auto simp: occupancy_ok_def round_occupancy_def)
qed

section \<open>What each kind of step leaves alone\<close>

lemma record_data_failure_frame [simp]:
  "hi_tasks (record_data_failure e s) = hi_tasks s" "hi_ends (record_data_failure e s) = hi_ends s"
  "hi_counters (record_data_failure e s) = hi_counters s" "hi_credits (record_data_failure e s) = hi_credits s"
  "hi_last_seq (record_data_failure e s) = hi_last_seq s" "hi_injected (record_data_failure e s) = hi_injected s"
  "hi_loop (record_data_failure e s) = hi_loop s" "hi_wake (record_data_failure e s) = hi_wake s"
  "hi_completions (record_data_failure e s) = hi_completions s" "hi_futures (record_data_failure e s) = hi_futures s"
  "hi_reaper (record_data_failure e s) = hi_reaper s" "hi_stop (record_data_failure e s) = hi_stop s"
  "hi_ledger (record_data_failure e s) = hi_ledger s" "hi_writers (record_data_failure e s) = hi_writers s"
  "hi_reports (record_data_failure e s) = hi_reports s" "hi_outcomes (record_data_failure e s) = hi_outcomes s"
  "hi_reporter (record_data_failure e s) = hi_reporter s" "hi_taken (record_data_failure e s) = hi_taken s"
  "hi_queue (record_data_failure e s) = hi_queue s" "hi_data (record_data_failure e s) = hi_data s"
  by (simp_all add: record_data_failure_def)

lemma ended_frame [simp]:
  "hi_tasks (ended x q s) = hi_tasks s" "hi_ends (ended x q s) = hi_ends s @ [(q, x)]"
  "hi_credits (ended x q s) = hi_credits s" "hi_last_seq (ended x q s) = hi_last_seq s"
  "hi_injected (ended x q s) = hi_injected s" "hi_loop (ended x q s) = hi_loop s" "hi_wake (ended x q s) = hi_wake s"
  "hi_completions (ended x q s) = hi_completions s" "hi_futures (ended x q s) = hi_futures s"
  "hi_reaper (ended x q s) = hi_reaper s" "hi_stop (ended x q s) = hi_stop s" "hi_ledger (ended x q s) = hi_ledger s"
  "hi_writers (ended x q s) = hi_writers s" "hi_reports (ended x q s) = hi_reports s"
  "hi_outcomes (ended x q s) = hi_outcomes s" "hi_reporter (ended x q s) = hi_reporter s"
  "hi_taken (ended x q s) = hi_taken s" "hi_queue (ended x q s) = hi_queue s" "hi_data (ended x q s) = hi_data s"
  by (simp_all add: ended_def)

lemma congested_frame [simp]:
  "hi_tasks (congested t s) = hi_tasks s" "hi_ends (congested t s) = hi_ends s" "hi_counters (congested t s) = hi_counters s"
  "hi_last_seq (congested t s) = hi_last_seq s" "hi_injected (congested t s) = hi_injected s"
  "hi_loop (congested t s) = hi_loop s" "hi_wake (congested t s) = hi_wake s"
  "hi_completions (congested t s) = hi_completions s" "hi_futures (congested t s) = hi_futures s"
  "hi_reaper (congested t s) = hi_reaper s" "hi_stop (congested t s) = hi_stop s" "hi_ledger (congested t s) = hi_ledger s"
  "hi_writers (congested t s) = hi_writers s" "hi_reports (congested t s) = hi_reports s"
  "hi_outcomes (congested t s) = hi_outcomes s" "hi_reporter (congested t s) = hi_reporter s"
  "hi_taken (congested t s) = hi_taken s" "hi_queue (congested t s) = hi_queue s" "hi_data (congested t s) = hi_data s"
  "hi_credits (congested t s) = map_option (on_congestion t) (hi_credits s)"
  by (simp_all add: congested_def)

lemma unregister_frame [simp]:
  "hi_tasks (unregister q s) = hi_tasks s" "hi_ends (unregister q s) = hi_ends s" "hi_counters (unregister q s) = hi_counters s"
  "hi_credits (unregister q s) = hi_credits s" "hi_last_seq (unregister q s) = hi_last_seq s"
  "hi_injected (unregister q s) = hi_injected s" "hi_loop (unregister q s) = hi_loop s" "hi_wake (unregister q s) = hi_wake s"
  "hi_futures (unregister q s) = hi_futures s" "hi_reaper (unregister q s) = hi_reaper s"
  "hi_stop (unregister q s) = hi_stop s" "hi_ledger (unregister q s) = hi_ledger s"
  "hi_writers (unregister q s) = hi_writers s" "hi_reports (unregister q s) = hi_reports s"
  "hi_outcomes (unregister q s) = hi_outcomes s" "hi_reporter (unregister q s) = hi_reporter s"
  "hi_taken (unregister q s) = hi_taken s" "hi_queue (unregister q s) = hi_queue s" "hi_data (unregister q s) = hi_data s"
  "hi_completions (unregister q s) = dict_del q (hi_completions s)"
  by (simp_all add: unregister_def)

lemma register_frame [simp]:
  "hi_tasks (register q t s) = hi_tasks s" "hi_ends (register q t s) = hi_ends s" "hi_counters (register q t s) = hi_counters s"
  "hi_credits (register q t s) = hi_credits s" "hi_last_seq (register q t s) = hi_last_seq s"
  "hi_injected (register q t s) = hi_injected s" "hi_loop (register q t s) = hi_loop s" "hi_wake (register q t s) = hi_wake s"
  "hi_futures (register q t s) = hi_futures s" "hi_stop (register q t s) = hi_stop s" "hi_ledger (register q t s) = hi_ledger s"
  "hi_writers (register q t s) = hi_writers s" "hi_reports (register q t s) = hi_reports s"
  "hi_outcomes (register q t s) = hi_outcomes s" "hi_reporter (register q t s) = hi_reporter s"
  "hi_taken (register q t s) = hi_taken s" "hi_queue (register q t s) = hi_queue s" "hi_data (register q t s) = hi_data s"
  "hi_completions (register q t s) = dict_set q t (hi_completions s)"
  "hi_reaper (register q t s) = (if hi_reaper s = NoReaper then Resting else hi_reaper s)"
  by (simp_all add: register_def)

text \<open>The data thread and the loop thread.\<close>

lemma data_frame:
  "data_step cfg s s1 \<Longrightarrow> hi_tasks s1 = hi_tasks s \<and> hi_ends s1 = hi_ends s \<and> hi_counters s1 = hi_counters s
     \<and> hi_credits s1 = hi_credits s \<and> hi_last_seq s1 = hi_last_seq s \<and> hi_injected s1 = hi_injected s
     \<and> hi_loop s1 = hi_loop s \<and> hi_wake s1 = hi_wake s \<and> hi_completions s1 = hi_completions s
     \<and> hi_futures s1 = hi_futures s \<and> hi_reaper s1 = hi_reaper s \<and> hi_stop s1 = hi_stop s
     \<and> hi_ledger s1 = hi_ledger s \<and> hi_writers s1 = hi_writers s \<and> hi_reports s1 = hi_reports s
     \<and> hi_outcomes s1 = hi_outcomes s \<and> hi_reporter s1 = hi_reporter s"
  by (cases rule: data_step.cases, assumption) simp_all

lemma loop_frame:
  "loop_step cfg s s1 \<Longrightarrow> hi_ends s1 = hi_ends s \<and> hi_counters s1 = hi_counters s
     \<and> hi_credits s1 = hi_credits s \<and> hi_last_seq s1 = hi_last_seq s \<and> hi_injected s1 = hi_injected s
     \<and> hi_completions s1 = hi_completions s
     \<and> hi_futures s1 = hi_futures s \<and> hi_reaper s1 = hi_reaper s \<and> hi_stop s1 = hi_stop s
     \<and> hi_ledger s1 = hi_ledger s \<and> hi_writers s1 = hi_writers s \<and> hi_reports s1 = hi_reports s
     \<and> hi_outcomes s1 = hi_outcomes s \<and> hi_reporter s1 = hi_reporter s \<and> hi_taken s1 = hi_taken s
     \<and> (hi_tasks s1 = hi_tasks s \<or> (\<exists>b. hi_tasks s1 = hi_tasks s @ [Starting b]))"
  by (cases rule: loop_step.cases, assumption) auto

text \<open>The reaper.\<close>

lemma reap_one_frame:
  "hi_tasks (reap_one cfg d now w s) = hi_tasks s \<and> hi_ends (reap_one cfg d now w s) = hi_ends s
     \<and> hi_counters (reap_one cfg d now w s) = hi_counters s \<and> hi_credits (reap_one cfg d now w s) = hi_credits s
     \<and> hi_last_seq (reap_one cfg d now w s) = hi_last_seq s \<and> hi_injected (reap_one cfg d now w s) = hi_injected s
     \<and> hi_loop (reap_one cfg d now w s) = hi_loop s \<and> hi_wake (reap_one cfg d now w s) = hi_wake s
     \<and> hi_stop (reap_one cfg d now w s) = hi_stop s \<and> hi_ledger (reap_one cfg d now w s) = hi_ledger s
     \<and> hi_writers (reap_one cfg d now w s) = hi_writers s \<and> hi_reports (reap_one cfg d now w s) = hi_reports s
     \<and> hi_outcomes (reap_one cfg d now w s) = hi_outcomes s \<and> hi_reporter (reap_one cfg d now w s) = hi_reporter s
     \<and> hi_taken (reap_one cfg d now w s) = hi_taken s \<and> hi_queue (reap_one cfg d now w s) = hi_queue s
     \<and> hi_data (reap_one cfg d now w s) = hi_data s"
  by (simp add: reap_one_def split: option.split)

lemma fold_reap_frame:
  "hi_tasks (fold (reap_one cfg d now) ws s) = hi_tasks s \<and> hi_ends (fold (reap_one cfg d now) ws s) = hi_ends s
     \<and> hi_counters (fold (reap_one cfg d now) ws s) = hi_counters s \<and> hi_credits (fold (reap_one cfg d now) ws s) = hi_credits s
     \<and> hi_last_seq (fold (reap_one cfg d now) ws s) = hi_last_seq s \<and> hi_injected (fold (reap_one cfg d now) ws s) = hi_injected s
     \<and> hi_loop (fold (reap_one cfg d now) ws s) = hi_loop s \<and> hi_wake (fold (reap_one cfg d now) ws s) = hi_wake s
     \<and> hi_stop (fold (reap_one cfg d now) ws s) = hi_stop s \<and> hi_ledger (fold (reap_one cfg d now) ws s) = hi_ledger s
     \<and> hi_writers (fold (reap_one cfg d now) ws s) = hi_writers s \<and> hi_reports (fold (reap_one cfg d now) ws s) = hi_reports s
     \<and> hi_outcomes (fold (reap_one cfg d now) ws s) = hi_outcomes s \<and> hi_reporter (fold (reap_one cfg d now) ws s) = hi_reporter s
     \<and> hi_taken (fold (reap_one cfg d now) ws s) = hi_taken s \<and> hi_queue (fold (reap_one cfg d now) ws s) = hi_queue s
     \<and> hi_data (fold (reap_one cfg d now) ws s) = hi_data s"
  by (induction ws arbitrary: s) (simp_all add: reap_one_frame)

lemmas reap_frame [simp] = fold_reap_frame [of _ _ _ "hi_completions s" s for s, folded reap_tick_def]

lemma sweep_frame [simp]:
  "hi_tasks (sweep_orphans cfg d now s) = hi_tasks s" "hi_ends (sweep_orphans cfg d now s) = hi_ends s"
  "hi_counters (sweep_orphans cfg d now s) = hi_counters s" "hi_credits (sweep_orphans cfg d now s) = hi_credits s"
  "hi_last_seq (sweep_orphans cfg d now s) = hi_last_seq s" "hi_injected (sweep_orphans cfg d now s) = hi_injected s"
  "hi_loop (sweep_orphans cfg d now s) = hi_loop s" "hi_wake (sweep_orphans cfg d now s) = hi_wake s"
  "hi_completions (sweep_orphans cfg d now s) = hi_completions s" "hi_futures (sweep_orphans cfg d now s) = hi_futures s"
  "hi_stop (sweep_orphans cfg d now s) = hi_stop s" "hi_ledger (sweep_orphans cfg d now s) = hi_ledger s"
  "hi_writers (sweep_orphans cfg d now s) = hi_writers s" "hi_reports (sweep_orphans cfg d now s) = hi_reports s"
  "hi_outcomes (sweep_orphans cfg d now s) = hi_outcomes s" "hi_reporter (sweep_orphans cfg d now s) = hi_reporter s"
  "hi_taken (sweep_orphans cfg d now s) = hi_taken s" "hi_queue (sweep_orphans cfg d now s) = hi_queue s"
  "hi_data (sweep_orphans cfg d now s) = hi_data s"
  "hi_reaper (sweep_orphans cfg d now s) = Resting \<or> (\<exists>n. hi_reaper (sweep_orphans cfg d now s) = Sweeping n)"
  by (auto simp: sweep_orphans_def Let_def)

lemma reaper_frame:
  "reaper_step cfg s s1 \<Longrightarrow> hi_tasks s1 = hi_tasks s \<and> hi_ends s1 = hi_ends s
     \<and> hi_credits s1 = hi_credits s \<and> hi_last_seq s1 = hi_last_seq s \<and> hi_injected s1 = hi_injected s
     \<and> hi_loop s1 = hi_loop s \<and> hi_wake s1 = hi_wake s \<and> hi_stop s1 = hi_stop s \<and> hi_writers s1 = hi_writers s
     \<and> hi_reports s1 = hi_reports s \<and> hi_outcomes s1 = hi_outcomes s \<and> hi_reporter s1 = hi_reporter s
     \<and> hi_taken s1 = hi_taken s \<and> hi_queue s1 = hi_queue s \<and> hi_data s1 = hi_data s
     \<and> set (hi_ledger s1) \<subseteq> set (hi_ledger s)
     \<and> (\<forall>e n. end_counter e = Some n \<longrightarrow> cget (hi_counters s1) n = cget (hi_counters s) n)"
proof (cases rule: reaper_step.cases, assumption, goal_cases)
  case (7 n)
  have "end_counter e = Some m \<Longrightarrow> m \<noteq> ''orphan_slots_swept''" for e m by (cases e) auto
  with 7 show ?case by auto
qed (auto dest: set_mp [OF dict_del_subset])

section \<open>Every number ends once\<close>

fun open_seq :: "task \<Rightarrow> int list" where
  "open_seq (Prepared q t b) = [q]"
| "open_seq (Cleared q t b) = [q]"
| "open_seq (Offering q t b) = [q]"
| "open_seq (Refused q fs) = [q]"
| "open_seq (Forwarding q t af) = [q]"
| "open_seq (Awaiting q t) = [q]"
| "open_seq _ = []"

definition open_seqs :: "injector \<Rightarrow> int list" where
  "open_seqs s = concat (map open_seq (hi_tasks s))"

definition credits_within :: "int \<Rightarrow> injector \<Rightarrow> bool" where
  "credits_within m s \<longleftrightarrow> (\<forall>c. hi_credits s = Some c \<longrightarrow> credits_ok m c)"

definition counts_ends :: "injector \<Rightarrow> bool" where
  "counts_ends s \<longleftrightarrow>
     (\<forall>x n. end_counter x = Some n \<longrightarrow> cget (hi_counters s) n = int (count_list (map snd (hi_ends s)) x))"

definition accounted :: "int \<Rightarrow> injector \<Rightarrow> bool" where
  "accounted m s \<longleftrightarrow> 0 \<le> hi_last_seq s
     \<and> mset (open_seqs s) + mset (map fst (hi_ends s)) = mset [1..hi_last_seq s]
     \<and> map fst (hi_injected s) = [1..hi_last_seq s] \<and> counts_ends s \<and> credits_within m s"

lemma end_counter_inj: "end_counter x = Some n \<Longrightarrow> end_counter y = Some n \<Longrightarrow> x = y"
  by (cases x; cases y) auto

lemma counts_ended:
  assumes "counts_ends s" shows "counts_ends (ended x q s)"
  unfolding counts_ends_def
proof (intro allI impI)
  fix y n assume y: "end_counter y = Some n"
  have "cget (hi_counters (ended x q s)) n = cget (hi_counters s) n + (if x = y then 1 else 0)"
  proof (cases "end_counter x = Some n")
    case True
    then show ?thesis using end_counter_inj [OF True y] by (simp add: ended_def)
  next
    case False
    then have "x \<noteq> y" using y by blast
    then show ?thesis using False by (simp add: ended_def split: option.split)
  qed
  then show "cget (hi_counters (ended x q s)) n = int (count_list (map snd (hi_ends (ended x q s))) y)"
    using assms y by (simp add: counts_ends_def)
qed

lemma counts_endsI:
  "counts_ends s \<Longrightarrow> hi_ends s1 = hi_ends s
    \<Longrightarrow> (\<forall>x n. end_counter x = Some n \<longrightarrow> cget (hi_counters s1) n = cget (hi_counters s) n) \<Longrightarrow> counts_ends s1"
  by (simp add: counts_ends_def)

text \<open>How a batch settles.\<close>

lemma settle_ends:
  assumes "credits_within m s" "counts_ends s"
  obtains x where "hi_ends (settle_batch now later done_at q t out s) = hi_ends s @ [(q, x)]"
    and "x = Failed \<or> x = (case out of CompletedWith l \<Rightarrow> Completed | _ \<Rightarrow> Dropped)"
    and "counts_ends (settle_batch now later done_at q t out s)"
    and "credits_within m (settle_batch now later done_at q t out s)"
proof (cases out)
  case (CompletedWith loss)
  obtain err r where r: "report_train_step now later loss (hi_reporter s) = (err, r)" by fastforce
  show ?thesis
  proof (cases err)
    case (Some e)
    have "counts_ends (ended Failed q (s\<lparr>hi_reporter := r\<rparr>))"
      using assms by (intro counts_ended) (simp add: counts_ends_def)
    then show ?thesis using assms that [of Failed] r Some CompletedWith
      by (simp add: settle_batch_def credits_within_def)
  next
    case None
    have c: "counts_ends (ended Completed q (s\<lparr>hi_reporter := r\<rparr>))"
      using assms by (intro counts_ended) (simp add: counts_ends_def)
    show ?thesis
    proof (cases "hi_credits s")
      case None' : None
      then show ?thesis using assms that [of Completed] r None CompletedWith c
        by (simp add: settle_batch_def credits_within_def)
    next
      case (Some cr)
      then obtain c1 where "on_done (done_at - t) cr = Inr c1" "credits_ok m c1"
        using assms on_done_ok [of m cr "done_at - t"] by (auto simp: credits_within_def)
      then show ?thesis using assms that [of Completed] r None CompletedWith c Some
        by (simp add: settle_batch_def credits_within_def counts_ends_def Let_def)
    qed
  qed
next
  case (DroppedFor w)
  have "counts_ends (congested done_at (ended Dropped q s))"
    using counts_ended [OF assms(2), of Dropped q] by (rule counts_endsI) simp_all
  then show ?thesis using assms that [of Dropped] DroppedFor
    by (auto simp: settle_batch_def credits_within_def intro: on_congestion_ok)
next
  case TimedOut
  have "counts_ends (congested done_at (ended Dropped q s))"
    using counts_ended [OF assms(2), of Dropped q] by (rule counts_endsI) simp_all
  then show ?thesis using assms that [of Dropped] TimedOut
    by (auto simp: settle_batch_def credits_within_def intro: on_congestion_ok)
qed

lemma settle_frame [simp]:
  "hi_tasks (settle_batch n l d q t out s) = hi_tasks s" "hi_last_seq (settle_batch n l d q t out s) = hi_last_seq s"
  "hi_injected (settle_batch n l d q t out s) = hi_injected s" "hi_loop (settle_batch n l d q t out s) = hi_loop s"
  "hi_wake (settle_batch n l d q t out s) = hi_wake s" "hi_completions (settle_batch n l d q t out s) = hi_completions s"
  "hi_futures (settle_batch n l d q t out s) = hi_futures s" "hi_reaper (settle_batch n l d q t out s) = hi_reaper s"
  "hi_stop (settle_batch n l d q t out s) = hi_stop s" "hi_ledger (settle_batch n l d q t out s) = hi_ledger s"
  "hi_writers (settle_batch n l d q t out s) = hi_writers s" "hi_reports (settle_batch n l d q t out s) = hi_reports s"
  "hi_outcomes (settle_batch n l d q t out s) = hi_outcomes s" "hi_taken (settle_batch n l d q t out s) = hi_taken s"
  "hi_queue (settle_batch n l d q t out s) = hi_queue s" "hi_data (settle_batch n l d q t out s) = hi_data s"
  by (auto simp: settle_batch_def Let_def split: batch_outcome.split option.split sum.split prod.split)

text \<open>What a step of a task changes.\<close>

lemma task_frame:
  "task_step cfg ts ts1 \<Longrightarrow> hi_tasks (snd ts1) = hi_tasks (snd ts) \<and> hi_loop (snd ts1) = hi_loop (snd ts)
     \<and> hi_wake (snd ts1) = hi_wake (snd ts) \<and> hi_stop (snd ts1) = hi_stop (snd ts)
     \<and> hi_futures (snd ts1) = hi_futures (snd ts) \<and> hi_writers (snd ts1) = hi_writers (snd ts)
     \<and> hi_reports (snd ts1) = hi_reports (snd ts) \<and> hi_taken (snd ts1) = hi_taken (snd ts)
     \<and> hi_queue (snd ts1) = hi_queue (snd ts) \<and> hi_data (snd ts1) = hi_data (snd ts)"
  by (cases rule: task_step.cases, assumption) simp_all

lemma task_effect:
  assumes "task_step cfg (t, s) (t1, s1)" "credits_within m s" "counts_ends s"
  obtains (same) "open_seq t1 = open_seq t" "hi_ends s1 = hi_ends s" "hi_last_seq s1 = hi_last_seq s"
      "hi_injected s1 = hi_injected s" "counts_ends s1" "credits_within m s1"
    | (numbered) b now where "t = Starting b" "t1 = Prepared (hi_last_seq s + 1) now b" "hi_last_seq s1 = hi_last_seq s + 1"
      "hi_injected s1 = hi_injected s @ [(hi_last_seq s + 1, b)]" "hi_ends s1 = hi_ends s" "counts_ends s1" "credits_within m s1"
    | (counted) q x where "open_seq t = [q]" "open_seq t1 = []" "hi_ends s1 = hi_ends s @ [(q, x)]"
      "hi_last_seq s1 = hi_last_seq s" "hi_injected s1 = hi_injected s" "counts_ends s1" "credits_within m s1"
  using assms(1)
proof (cases rule: task_step.cases)
  case (start b now)
  then show ?thesis using assms numbered by (simp add: counts_ends_def credits_within_def)
next
  case (resumes q out t0 now later done_at)
  have "credits_within m (unregister q s)" "counts_ends (unregister q s)"
    using assms by (simp_all add: credits_within_def counts_ends_def)
  then obtain x where "hi_ends (settle_batch now later done_at q t0 out (unregister q s)) = hi_ends s @ [(q, x)]"
    "counts_ends (settle_batch now later done_at q t0 out (unregister q s))"
    "credits_within m (settle_batch now later done_at q t0 out (unregister q s))"
    by (rule settle_ends [of m _ now later done_at q t0 out]) simp
  then show ?thesis using resumes counted [of q x] by (simp add: credits_within_def counts_ends_def)
next
  case (refused_end q)
  have "counts_ends (congested done_at (ended Rejected q s))" for done_at
    using counts_ended [OF assms(3), of Rejected q] by (rule counts_endsI) simp_all
  then show ?thesis using assms refused_end counted [of q Rejected]
    by (auto simp: credits_within_def intro: on_congestion_ok)
next
  case (bad_batch b e q t0)
  then show ?thesis using assms counted [of q Failed] counts_ended [OF assms(3)] by (simp add: credits_within_def)
next
  case (open_stop b p q t0)
  then show ?thesis using assms counted [of q Aborted] counts_ended [OF assms(3)] by (simp add: credits_within_def)
next
  case (accept_raises now q b e t0)
  then show ?thesis using assms counted [of q Failed] counts_ended [OF assms(3)] by (simp add: credits_within_def)
next
  case (payload_raises now q b reason af drv evs t0)
  have "counts_ends (ended Failed q (s\<lparr>hi_driver := drv\<rparr>))"
    using assms by (intro counts_ended) (simp add: counts_ends_def)
  then show ?thesis using payload_raises assms counted [of q Failed] by (simp add: credits_within_def)
next
  case (forward_raises q t0 af)
  have "counts_ends (ended Failed q (unregister q s))"
    using assms by (intro counts_ended) (simp add: counts_ends_def)
  then show ?thesis using forward_raises assms counted [of q Failed] by (simp add: credits_within_def)
qed (use assms same in \<open>simp add: credits_within_def counts_ends_def\<close>)+

lemma accounted_same:
  assumes "accounted m s" "mset (open_seqs s1) = mset (open_seqs s)" "hi_ends s1 = hi_ends s"
    "hi_last_seq s1 = hi_last_seq s" "hi_injected s1 = hi_injected s" "hi_credits s1 = hi_credits s"
    "\<forall>x n. end_counter x = Some n \<longrightarrow> cget (hi_counters s1) n = cget (hi_counters s) n"
  shows "accounted m s1"
  using assms by (simp add: accounted_def counts_ends_def credits_within_def)

lemma open_seqs_split:
  "hi_tasks s = xs @ t # ys \<Longrightarrow> mset (open_seqs s) = mset (open_seq t) + (mset (concat (map open_seq xs)) + mset (concat (map open_seq ys)))"
  by (simp add: open_seqs_def)

lemma upto_snoc: "0 \<le> n \<Longrightarrow> [1..n + 1] = [1..n] @ [n + 1 :: int]"
  by (simp add: upto_rec2)

lemma accounted_runs:
  assumes "accounted m s" and tasks: "hi_tasks s = xs @ t # ys" and step: "task_step cfg (t, s) (t1, s1)"
  shows "accounted m (s1\<lparr>hi_tasks := xs @ t1 # ys\<rparr>)"
proof -
  let ?rest = "mset (concat (map open_seq xs)) + mset (concat (map open_seq ys))"
  have o0: "mset (open_seqs s) = mset (open_seq t) + ?rest" by (rule open_seqs_split [OF tasks])
  have o1: "mset (open_seqs (s1\<lparr>hi_tasks := xs @ t1 # ys\<rparr>)) = mset (open_seq t1) + ?rest" by (rule open_seqs_split) simp
  have ok: "credits_within m s" "counts_ends s" using assms(1) by (simp_all add: accounted_def)
  from step ok show ?thesis
  proof (cases rule: task_effect)
    case same
    then show ?thesis using assms(1) o0 o1 by (simp add: accounted_def counts_ends_def credits_within_def)
  next
    case (numbered b now)
    then show ?thesis using assms(1) o0 o1
      by (simp add: accounted_def counts_ends_def credits_within_def upto_snoc)
  next
    case (counted q x)
    then show ?thesis using assms(1) o0 o1 by (simp add: accounted_def counts_ends_def credits_within_def)
  qed
qed

lemma accounted_step:
  assumes "accounted m s" and "inject_step cfg s s1"
  shows "accounted m s1"
  using assms(2)
proof (cases rule: inject_step.cases)
  case data
  then show ?thesis by (intro accounted_same [OF assms(1)]) (auto simp: open_seqs_def dest: data_frame)
next
  case loop
  have "mset (open_seqs s1) = mset (open_seqs s)" using loop_frame [OF loop] by (auto simp: open_seqs_def)
  then show ?thesis using loop_frame [OF loop] by (intro accounted_same [OF assms(1)]) simp_all
next
  case reaper
  then show ?thesis using reaper_frame [OF reaper] by (intro accounted_same [OF assms(1)]) (simp_all add: open_seqs_def)
next
  case (runs xs t ys t1 s2)
  then show ?thesis using accounted_runs [OF assms(1)] by blast
next
  case (callback xs ys)
  then have "mset (open_seqs s1) = mset (open_seqs s)" by (simp add: open_seqs_def)
  then show ?thesis using callback by (intro accounted_same [OF assms(1)]) simp_all
qed (intro accounted_same [OF assms(1)]; simp add: open_seqs_def)+

section \<open>The window, and the loop that waits for it\<close>

definition windowed :: "inject_config \<Rightarrow> injector \<Rightarrow> bool" where
  "windowed cfg s \<longleftrightarrow> int (length (hi_tasks s)) \<le> ij_max_inflight cfg
     \<and> (\<forall>b. hi_loop s = LoopReady b \<longrightarrow> int (length (hi_tasks s)) < ij_max_inflight cfg)
     \<and> (\<forall>b. hi_loop s = LoopParked b \<longrightarrow> hi_wake s \<or> hi_tasks s \<noteq> [])"

lemma window_bounds:
  "credits_within (ij_max_inflight cfg) s \<Longrightarrow> 1 \<le> ij_max_inflight cfg
    \<Longrightarrow> 1 \<le> inflight_window cfg s \<and> inflight_window cfg s \<le> ij_max_inflight cfg"
  by (auto simp: inflight_window_def credits_within_def credits_ok_def split: option.split)

lemma windowed_loop:
  assumes "loop_step cfg s s1" "windowed cfg s" "credits_within (ij_max_inflight cfg) s" "1 \<le> ij_max_inflight cfg"
  shows "windowed cfg s1"
  using assms(1) window_bounds [OF assms(3,4)] assms(2)
  by (cases rule: loop_step.cases) (auto simp: windowed_def)

lemma windowed_step:
  assumes "inject_step cfg s s1" "windowed cfg s" "credits_within (ij_max_inflight cfg) s" "1 \<le> ij_max_inflight cfg"
  shows "windowed cfg s1"
  using assms(1)
proof (cases rule: inject_step.cases)
  case loop then show ?thesis by (rule windowed_loop [OF _ assms(2-)])
next
  case (runs xs t ys t1 s2)
  then show ?thesis using assms(2) task_frame [OF runs(3)] by (auto simp: windowed_def)
qed (use assms(2) in \<open>auto simp: windowed_def dest: data_frame reaper_frame\<close>)

section \<open>Waiting tasks are observed\<close>

fun waiting_seq :: "task \<Rightarrow> int list" where
  "waiting_seq (Forwarding q t af) = [q]"
| "waiting_seq (Awaiting q t) = [q]"
| "waiting_seq _ = []"

definition waiting_seqs :: "injector \<Rightarrow> int list" where
  "waiting_seqs s = concat (map waiting_seq (hi_tasks s))"

definition observed :: "injector \<Rightarrow> bool" where
  "observed s \<longleftrightarrow>
     (\<forall>q \<in> set (waiting_seqs s). dict_has (hi_futures s) q \<or> dict_has (hi_completions s) q)
     \<and> (waiting_seqs s \<noteq> [] \<longrightarrow> hi_stop s \<or> hi_reaper s \<noteq> NoReaper) \<and> dict_ok (hi_completions s)"

lemma reap_one_covers:
  "dict_has (hi_futures s) q \<or> dict_has (hi_completions s) q
    \<Longrightarrow> dict_has (hi_futures (reap_one cfg d now w s)) q \<or> dict_has (hi_completions (reap_one cfg d now w s)) q"
  unfolding reap_one_def by (cases "dict_has (hi_futures s) (fst w)"; cases "q = fst w") (simp_all split: option.split)

lemma reap_one_keeps: "dict_has (hi_futures s) q \<Longrightarrow> dict_has (hi_futures (reap_one cfg d now w s)) q"
  unfolding reap_one_def by (simp split: option.split)

lemma reap_one_ok: "dict_ok (hi_completions s) \<Longrightarrow> dict_ok (hi_completions (reap_one cfg d now w s))"
  unfolding reap_one_def by (simp split: option.split)

lemma reap_one_resolves: "snd w < now \<Longrightarrow> dict_has (hi_futures (reap_one cfg d now w s)) (fst w)"
  unfolding reap_one_def reap_outcome_def by (simp split: option.split)

lemma fold_reap_covers:
  "dict_has (hi_futures s) q \<or> dict_has (hi_completions s) q
    \<Longrightarrow> dict_has (hi_futures (fold (reap_one cfg d now) ws s)) q \<or> dict_has (hi_completions (fold (reap_one cfg d now) ws s)) q"
  by (induction ws arbitrary: s) (simp_all add: reap_one_covers)

lemma fold_reap_keeps:
  "dict_has (hi_futures s) q \<Longrightarrow> dict_has (hi_futures (fold (reap_one cfg d now) ws s)) q"
  by (induction ws arbitrary: s) (simp_all add: reap_one_keeps)

lemma fold_reap_ok: "dict_ok (hi_completions s) \<Longrightarrow> dict_ok (hi_completions (fold (reap_one cfg d now) ws s))"
  by (induction ws arbitrary: s) (simp_all add: reap_one_ok)

lemma fold_reap_resolves:
  "w \<in> set ws \<Longrightarrow> snd w < now \<Longrightarrow> dict_has (hi_futures (fold (reap_one cfg d now) ws s)) (fst w)"
  by (induction ws arbitrary: s) (auto intro: fold_reap_keeps reap_one_resolves)

text \<open>A tick after its deadline resolves every waiter.\<close>

lemma reap_tick_resolves:
  "dict_get (hi_completions s) q = Some dl \<Longrightarrow> dl < now \<Longrightarrow> dict_has (hi_futures (reap_tick cfg d now s)) q"
  using fold_reap_resolves [of "(q, dl)" "hi_completions s" now cfg d s]
  by (simp add: reap_tick_def map_of_SomeD)

text \<open>The steps of the reaper keep what is observed, and lose no waiter.\<close>

lemma observed_reaper:
  assumes "reaper_step cfg s s1" "observed s"
  shows "observed s1"
  using assms(1)
proof (cases rule: reaper_step.cases)
  case (reaps d now)
  then show ?thesis using assms(2) fold_reap_covers [of _ s cfg d now "hi_completions s"]
      fold_reap_ok [of s cfg d now "hi_completions s"]
    by (simp add: observed_def waiting_seqs_def reap_tick_def fold_reap_frame)
next
  case (sweeps d now)
  have "hi_reaper (sweep_orphans cfg d now s) \<noteq> NoReaper" by (simp add: sweep_orphans_def Let_def)
  then show ?thesis using assms(2) sweeps by (simp add: observed_def waiting_seqs_def)
qed (use assms(2) in \<open>simp_all add: observed_def waiting_seqs_def\<close>)

lemma waiting_open: "set (waiting_seq t) \<subseteq> set (open_seq t)"
  by (cases t) auto

lemma waiting_open_all: "set (concat (map waiting_seq ts)) \<subseteq> set (concat (map open_seq ts))"
  using waiting_open by fastforce

text \<open>A step of a task registers its own number before it waits and unregisters no other.\<close>

lemma task_waits:
  assumes "task_step cfg (t, s) (t1, s1)"
  obtains (same) "waiting_seq t1 = waiting_seq t" "hi_completions s1 = hi_completions s" "hi_reaper s1 = hi_reaper s"
    | (registers) q dl where "open_seq t = [q]" "waiting_seq t1 = [q]" "hi_completions s1 = dict_set q dl (hi_completions s)"
      "hi_reaper s1 \<noteq> NoReaper"
    | (finishes) q where "open_seq t = [q]" "waiting_seq t1 = []" "hi_completions s1 = dict_del q (hi_completions s)"
      "hi_reaper s1 = hi_reaper s"
  using assms
proof (cases rule: task_step.cases)
  case (accepted now q b reason af drv evs later t0)
  then show ?thesis using registers [of q] by simp
next
  case (forward_raises q t0 af)
  then show ?thesis using finishes [of q] by simp
next
  case (resumes q out t0 now later done_at)
  then show ?thesis using finishes [of q] by simp
qed (use same in simp_all)

lemma observed_runs:
  assumes "observed s" and tasks: "hi_tasks s = xs @ t # ys" and step: "task_step cfg (t, s) (t1, s1)"
    and "distinct (open_seqs s)"
  shows "observed (s1\<lparr>hi_tasks := xs @ t1 # ys\<rparr>)"
proof -
  note frame = task_frame [OF step, simplified]
  from step show ?thesis
  proof (cases rule: task_waits)
    case same
    then show ?thesis using assms(1) tasks frame by (auto simp: observed_def waiting_seqs_def)
  next
    case (registers q dl)
    then show ?thesis using assms(1) tasks frame
      by (auto simp: observed_def waiting_seqs_def)
  next
    case (finishes q)
    have "q \<notin> set (concat (map open_seq xs))" "q \<notin> set (concat (map open_seq ys))"
      using assms(4) finishes(1) by (auto simp: open_seqs_def tasks)
    then have "q \<notin> set (concat (map waiting_seq xs))" "q \<notin> set (concat (map waiting_seq ys))"
      using waiting_open_all by blast+
    then show ?thesis using assms(1) tasks frame finishes by (auto simp: observed_def waiting_seqs_def)
  qed
qed

lemma observed_step:
  assumes "inject_step cfg s s1" "observed s" "distinct (open_seqs s)"
  shows "observed s1"
  using assms(1)
proof (cases rule: inject_step.cases)
  case data then show ?thesis using assms(2) by (simp add: observed_def waiting_seqs_def data_frame)
next
  case loop
  have "waiting_seqs s1 = waiting_seqs s" using loop_frame [OF loop] by (auto simp: waiting_seqs_def)
  then show ?thesis using assms(2) loop_frame [OF loop] by (simp add: observed_def)
next
  case reaper then show ?thesis by (rule observed_reaper [OF _ assms(2)])
next
  case (runs xs t ys t1 s2)
  then show ?thesis using observed_runs [OF assms(2) runs(2,3) assms(3)] by simp
qed (use assms(2) in \<open>simp_all add: observed_def waiting_seqs_def\<close>)

lemma accounted_distinct: "accounted m s \<Longrightarrow> distinct (open_seqs s @ map fst (hi_ends s))"
proof -
  assume "accounted m s"
  then have "mset (open_seqs s @ map fst (hi_ends s)) = mset [1..hi_last_seq s]" by (simp add: accounted_def)
  then show ?thesis by (metis distinct_upto mset_eq_imp_distinct_iff)
qed

section \<open>Outcomes have reports\<close>

definition reported :: "report list \<Rightarrow> uid \<Rightarrow> int \<Rightarrow> report_kind \<Rightarrow> bool" where
  "reported rs u q k \<longleftrightarrow> (\<exists>r \<in> set rs. rr_uid r = u \<and> rr_seq r = q \<and> rr_kind r = k)"

definition loss_reported :: "report list \<Rightarrow> uid \<Rightarrow> int \<Rightarrow> real \<Rightarrow> bool" where
  "loss_reported rs u q l \<longleftrightarrow> (\<exists>r \<in> set rs. rr_uid r = u \<and> rr_seq r = q \<and> rr_kind r = RK_LOSS \<and> rr_loss r = Some l)"

fun vouched :: "report list \<Rightarrow> ledger_key \<times> ledger_value \<Rightarrow> bool" where
  "vouched rs ((u, q, FProgress), v) = True"
| "vouched rs ((u, q, FLoss), v) = (\<exists>l. v = LReal l \<and> loss_reported rs u q l)"
| "vouched rs ((u, q, FDone), v) = reported rs u q RK_DONE"
| "vouched rs ((u, q, FDropped), v) = reported rs u q RK_DROPPED"
| "vouched rs ((u, q, FReason), v) = reported rs u q RK_DROPPED"

fun supported :: "report list \<Rightarrow> uid \<Rightarrow> int \<times> batch_outcome \<Rightarrow> bool" where
  "supported rs u (q, CompletedWith l) = (reported rs u q RK_DONE \<and> (\<forall>x. l = Some x \<longrightarrow> loss_reported rs u q x))"
| "supported rs u (q, DroppedFor w) = (w = stall_reason \<or> reported rs u q RK_DROPPED)"
| "supported rs u (q, TimedOut) = True"

lemma reported_mono: "reported rs u q k \<Longrightarrow> reported (rs @ [r]) u q k"
  by (auto simp: reported_def)

lemma loss_reported_mono: "loss_reported rs u q l \<Longrightarrow> loss_reported (rs @ [r]) u q l"
  by (auto simp: loss_reported_def)

lemma vouched_mono: "vouched rs kv \<Longrightarrow> vouched (rs @ [r]) kv"
  by (cases "(rs, kv)" rule: vouched.cases) (auto intro: reported_mono loss_reported_mono)

lemma supported_mono: "supported rs u w \<Longrightarrow> supported (rs @ [r]) u w"
  by (cases "(rs, u, w)" rule: supported.cases) (auto intro: reported_mono loss_reported_mono)

lemma report_writes_vouched: "kv \<in> set (report_writes now r) \<Longrightarrow> vouched (rs @ [r]) kv"
  by (cases "rr_kind r"; cases "rr_loss r") (auto simp: report_writes_def reported_def loss_reported_def)

lemma dict_set_subset: "set (dict_set k v d) \<subseteq> insert (k, v) (set d)"
  unfolding dict_set_def by (induction d) auto

lemma slot_outcome_supported:
  assumes "slot_outcome u stall now d q = Some out" and "\<forall>kv \<in> set d. vouched rs kv"
  shows "supported rs u (q, out)"
proof -
  have v: "vouched rs (k, x)" if "dict_get d k = Some x" for k x using assms(2) map_of_SomeD [OF that] by blast
  have l: "loss_value d u q = Some x \<Longrightarrow> loss_reported rs u q x" for x
    using v [of "(u, q, FLoss)"] by (auto simp: loss_value_def split: option.splits ledger_value.splits)
  show ?thesis using assms(1) v [of "(u, q, FDone)"] v [of "(u, q, FDropped)"] l
    by (auto simp: slot_outcome_def flag_set_def split: if_splits option.splits)
qed

fun snapshot_of :: "reaper_phase \<Rightarrow> ledger" where
  "snapshot_of (Snapped d) = d"
| "snapshot_of _ = []"

definition rp_total :: "reporter \<Rightarrow> int" where
  "rp_total r = sum_list (map fst (rp_published r)) + rp_processed r"

fun finished_batch :: "int \<times> batch_outcome \<Rightarrow> bool" where
  "finished_batch (q, CompletedWith l) = True"
| "finished_batch _ = False"

fun end_matches :: "(int \<times> batch_outcome) list \<Rightarrow> int \<times> batch_end \<Rightarrow> bool" where
  "end_matches outs (q, Completed) = (\<exists>l. (q, CompletedWith l) \<in> set outs)"
| "end_matches outs (q, Dropped) = (\<exists>out. (q, out) \<in> set outs \<and> (\<forall>l. out \<noteq> CompletedWith l))"
| "end_matches outs _ = True"

definition ledger_vouched :: "injector \<Rightarrow> bool" where
  "ledger_vouched s \<longleftrightarrow>
     (\<forall>kv \<in> set (hi_ledger s) \<union> set (concat (hi_writers s)) \<union> set (snapshot_of (hi_reaper s)). vouched (hi_reports s) kv)"

definition outcomes_vouched :: "inject_config \<Rightarrow> injector \<Rightarrow> bool" where
  "outcomes_vouched cfg s \<longleftrightarrow>
     (\<forall>w \<in> set (hi_futures s) \<union> set (hi_outcomes s). supported (hi_reports s) (ij_uid cfg) w)
     \<and> (\<forall>w \<in> set (hi_ends s). end_matches (hi_outcomes s) w)"

definition samples_reported :: "int \<Rightarrow> int \<Rightarrow> injector \<Rightarrow> bool" where
  "samples_reported n z s \<longleftrightarrow> rp_batch_size (hi_reporter s) = n
     \<and> rp_total (hi_reporter s) = z + n * int (length (filter finished_batch (hi_outcomes s)))"

lemma report_train_step_total:
  "report_train_step now later loss r = (e, r1) \<Longrightarrow> rp_batch_size r1 = rp_batch_size r \<and> rp_total r1 = rp_total r + rp_batch_size r"
  by (auto simp: report_train_step_def rp_total_def Let_def split: option.splits if_splits)

lemma settle_reporter:
  "rp_batch_size (hi_reporter (settle_batch n l d q t out s)) = rp_batch_size (hi_reporter s)
   \<and> rp_total (hi_reporter (settle_batch n l d q t out s))
      = rp_total (hi_reporter s) + (if finished_batch (q, out) then rp_batch_size (hi_reporter s) else 0)"
proof (cases out)
  case (CompletedWith loss)
  obtain err r where "report_train_step n l loss (hi_reporter s) = (err, r)" by fastforce
  with report_train_step_total [OF this] CompletedWith show ?thesis
    by (auto simp: settle_batch_def Let_def split: option.split sum.split)
qed (simp_all add: settle_batch_def)

text \<open>What a step of a task does to the ledger, the ends and the outcomes.\<close>

lemma task_ledger:
  "task_step cfg (t, s) (t1, s1) \<Longrightarrow> kv \<in> set (hi_ledger s1) \<Longrightarrow> kv \<in> set (hi_ledger s) \<or> (\<exists>u q v. kv = ((u, q, FProgress), v))"
  by (cases rule: task_step.cases, assumption)
    (auto simp: new_slot_def dest: set_mp [OF dict_set_subset] set_mp [OF dict_del_subset])

lemma task_snapshot: "task_step cfg (t, s) (t1, s1) \<Longrightarrow> snapshot_of (hi_reaper s1) = snapshot_of (hi_reaper s)"
  by (cases rule: task_step.cases, assumption) auto

lemma end_matches_mono: "end_matches outs w \<Longrightarrow> end_matches (outs @ [v]) w"
  by (cases "(outs, w)" rule: end_matches.cases) auto

lemma task_outcomes:
  assumes "task_step cfg (t, s) (t1, s1)" "credits_within m s" "counts_ends s"
  obtains (quiet) "hi_outcomes s1 = hi_outcomes s" "hi_reporter s1 = hi_reporter s"
      "\<forall>w \<in> set (hi_ends s1). w \<in> set (hi_ends s) \<or> (snd w \<noteq> Completed \<and> snd w \<noteq> Dropped)"
    | (seen) q out x where "dict_get (hi_futures s) q = Some out" "hi_outcomes s1 = hi_outcomes s @ [(q, out)]"
      "hi_ends s1 = hi_ends s @ [(q, x)]" "x = Failed \<or> x = (case out of CompletedWith l \<Rightarrow> Completed | _ \<Rightarrow> Dropped)"
      "rp_batch_size (hi_reporter s1) = rp_batch_size (hi_reporter s)"
      "rp_total (hi_reporter s1) = rp_total (hi_reporter s) + (if finished_batch (q, out) then rp_batch_size (hi_reporter s) else 0)"
  using assms(1)
proof (cases rule: task_step.cases)
  case (resumes q out t0 now later done_at)
  have "credits_within m (unregister q s)" "counts_ends (unregister q s)"
    using assms by (simp_all add: credits_within_def counts_ends_def)
  then obtain x where "hi_ends (settle_batch now later done_at q t0 out (unregister q s)) = hi_ends s @ [(q, x)]"
    "x = Failed \<or> x = (case out of CompletedWith l \<Rightarrow> Completed | _ \<Rightarrow> Dropped)"
    by (rule settle_ends [of m _ now later done_at q t0 out]) simp
  then show ?thesis using resumes seen [of q out x] settle_reporter [of now later done_at q t0 out "unregister q s"] by simp
qed (use quiet in auto)

lemma end_matches_other: "snd w \<noteq> Completed \<Longrightarrow> snd w \<noteq> Dropped \<Longrightarrow> end_matches outs w"
  by (cases "(outs, w)" rule: end_matches.cases) auto

lemma outcomes_runs:
  assumes "outcomes_vouched cfg s" "credits_within m s" "counts_ends s" and step: "task_step cfg (t, s) (t1, s1)"
  shows "outcomes_vouched cfg (s1\<lparr>hi_tasks := ts\<rparr>)"
proof -
  note frame = task_frame [OF step, simplified]
  from step assms(2,3) show ?thesis
  proof (cases rule: task_outcomes)
    case quiet
    then show ?thesis using assms(1) frame end_matches_other by (fastforce simp: outcomes_vouched_def)
  next
    case (seen q out x)
    have sup: "supported (hi_reports s) (ij_uid cfg) (q, out)"
      using assms(1) seen(1) by (auto simp: outcomes_vouched_def dest: map_of_SomeD)
    have new: "end_matches (hi_outcomes s @ [(q, out)]) (q, x)" using seen(4) by (cases out) auto
    have old: "end_matches (hi_outcomes s @ [(q, out)]) w" if "w \<in> set (hi_ends s)" for w
      using assms(1) that end_matches_mono by (auto simp: outcomes_vouched_def)
    show ?thesis using assms(1) frame seen sup new old by (auto simp: outcomes_vouched_def)
  qed
qed

lemma samples_runs:
  assumes "samples_reported n z s" "credits_within m s" "counts_ends s" and step: "task_step cfg (t, s) (t1, s1)"
  shows "samples_reported n z (s1\<lparr>hi_tasks := ts\<rparr>)"
  using step assms(2,3)
proof (cases rule: task_outcomes)
  case quiet then show ?thesis using assms(1) by (simp add: samples_reported_def)
next
  case (seen q out x)
  then show ?thesis using assms(1) by (auto simp: samples_reported_def algebra_simps)
qed

lemma samples_step:
  assumes "inject_step cfg s s1" "samples_reported n z s" "accounted m s"
  shows "samples_reported n z s1"
  using assms(1)
proof (cases rule: inject_step.cases)
  case (runs xs t ys t1 s2)
  have "credits_within m s" "counts_ends s" using assms(3) by (simp_all add: accounted_def)
  then show ?thesis unfolding runs(1) by (rule samples_runs [OF assms(2) _ _ runs(3)])
qed (use assms(2) in \<open>auto simp: samples_reported_def dest: data_frame loop_frame reaper_frame\<close>)

text \<open>The reaper reads what reports wrote.\<close>

lemma reap_one_supported:
  assumes "\<forall>kv \<in> set d. vouched rs kv" "\<forall>w \<in> set (hi_futures s). supported rs (ij_uid cfg) w"
  shows "\<forall>w \<in> set (hi_futures (reap_one cfg d now v s)). supported rs (ij_uid cfg) w"
proof -
  have "supported rs (ij_uid cfg) (fst v, out)" if "reap_outcome cfg d now (fst v) (snd v) = Some out" for out
    using that slot_outcome_supported [OF _ assms(1), of "ij_uid cfg" "ij_stall cfg" now "fst v"]
    by (auto simp: reap_outcome_def split: option.splits if_splits)
  then show ?thesis using assms(2)
    by (auto simp: reap_one_def split: option.split dest!: set_mp [OF dict_set_subset])
qed

lemma fold_reap_supported:
  "\<forall>kv \<in> set d. vouched rs kv \<Longrightarrow> \<forall>w \<in> set (hi_futures s). supported rs (ij_uid cfg) w
    \<Longrightarrow> \<forall>w \<in> set (hi_futures (fold (reap_one cfg d now) ws s)). supported rs (ij_uid cfg) w"
proof (induction ws arbitrary: s)
  case (Cons w ws)
  show ?case unfolding fold_simps
    by (rule Cons.IH [OF Cons.prems(1) reap_one_supported [OF Cons.prems]])
qed simp

lemma outcomes_step:
  assumes "inject_step cfg s s1" "outcomes_vouched cfg s" "ledger_vouched s" "accounted m s"
  shows "outcomes_vouched cfg s1"
  using assms(1)
proof (cases rule: inject_step.cases)
  case data then show ?thesis using assms(2) by (simp add: outcomes_vouched_def data_frame)
next
  case loop then show ?thesis using assms(2) loop_frame [OF loop] by (simp add: outcomes_vouched_def)
next
  case reaper
  note frame = reaper_frame [OF reaper]
  have "\<forall>w \<in> set (hi_futures s1). supported (hi_reports s) (ij_uid cfg) w"
    using reaper
  proof (cases rule: reaper_step.cases)
    case (reaps d now)
    then show ?thesis using assms(2,3) fold_reap_supported [of d "hi_reports s" s cfg now "hi_completions s"]
      by (simp add: outcomes_vouched_def ledger_vouched_def reap_tick_def)
  qed (use assms(2) in \<open>simp_all add: outcomes_vouched_def\<close>)
  then show ?thesis using assms(2) frame by (auto simp: outcomes_vouched_def)
next
  case (runs xs t ys t1 s2)
  have "credits_within m s" "counts_ends s" using assms(4) by (simp_all add: accounted_def)
  then show ?thesis unfolding runs(1) by (rule outcomes_runs [OF assms(2) _ _ runs(3)])
qed (use assms(2) in \<open>auto simp: outcomes_vouched_def intro: supported_mono\<close>)

lemma ledger_vouched_step:
  assumes "inject_step cfg s s1" "ledger_vouched s"
  shows "ledger_vouched s1"
  using assms(1)
proof (cases rule: inject_step.cases)
  case data then show ?thesis using assms(2) by (simp add: ledger_vouched_def data_frame)
next
  case loop then show ?thesis using assms(2) loop_frame [OF loop] by (simp add: ledger_vouched_def)
next
  case reaper
  have same: "hi_reports s1 = hi_reports s \<and> hi_writers s1 = hi_writers s" using reaper_frame [OF reaper] by blast
  have "set (snapshot_of (hi_reaper s1)) \<subseteq> set (hi_ledger s) \<union> set (snapshot_of (hi_reaper s))"
    using reaper by (cases rule: reaper_step.cases) (auto simp: sweep_orphans_def Let_def split: if_splits)
  then have "set (hi_ledger s1) \<union> set (concat (hi_writers s1)) \<union> set (snapshot_of (hi_reaper s1))
      \<subseteq> set (hi_ledger s) \<union> set (concat (hi_writers s)) \<union> set (snapshot_of (hi_reaper s))"
    using reaper_frame [OF reaper] by auto
  then show ?thesis using assms(2) conjunct1 [OF same] unfolding ledger_vouched_def by (metis (no_types) subsetD)
next
  case (runs xs t ys t1 s2)
  then show ?thesis using assms(2) task_frame [OF runs(3)] task_ledger [OF runs(3)] task_snapshot [OF runs(3)]
    by (fastforce simp: ledger_vouched_def)
next
  case (report_checked r now)
  let ?old = "set (hi_ledger s) \<union> set (concat (hi_writers s)) \<union> set (snapshot_of (hi_reaper s))"
  have "vouched (hi_reports s @ [r]) kv" if "kv \<in> ?old \<union> set (report_writes now r)" for kv
  proof (cases "kv \<in> set (report_writes now r)")
    case False
    then have "kv \<in> ?old" using that by blast
    then show ?thesis using assms(2) vouched_mono unfolding ledger_vouched_def by blast
  qed (rule report_writes_vouched)
  moreover have "set (hi_ledger s1) \<union> set (concat (hi_writers s1)) \<union> set (snapshot_of (hi_reaper s1))
      = ?old \<union> set (report_writes now r)" using report_checked by auto
  moreover have "hi_reports s1 = hi_reports s @ [r]" using report_checked by simp
  ultimately show ?thesis unfolding ledger_vouched_def by metis
next
  case (report_write xs w ws ys)
  have "set (hi_ledger s1) \<subseteq> insert w (set (hi_ledger s))"
    using report_write dict_set_subset [of "fst w" "snd w" "hi_ledger s"] by (simp add: ledger_write_def)
  then have "set (hi_ledger s1) \<union> set (concat (hi_writers s1)) \<union> set (snapshot_of (hi_reaper s1))
      \<subseteq> set (hi_ledger s) \<union> set (concat (hi_writers s)) \<union> set (snapshot_of (hi_reaper s))"
    using report_write by auto
  moreover have "hi_reports s1 = hi_reports s" using report_write by simp
  ultimately show ?thesis using assms(2) unfolding ledger_vouched_def by (metis (no_types) subsetD)
qed (use assms(2) in \<open>auto simp: ledger_vouched_def\<close>)

section \<open>Where a batch comes from\<close>

text \<open>The batches read that have no number: in a task that has not started, in the loop, in the queue, in the thread.\<close>

fun starting_batch :: "task \<Rightarrow> source_batch list" where
  "starting_batch (Starting b) = [b]"
| "starting_batch _ = []"

fun loop_batch :: "loop_phase \<Rightarrow> source_batch list" where
  "loop_batch (LoopHave b) = [b]"
| "loop_batch (LoopFull b) = [b]"
| "loop_batch (LoopCleared b) = [b]"
| "loop_batch (LoopParked b) = [b]"
| "loop_batch (LoopReady b) = [b]"
| "loop_batch _ = []"

fun data_batch :: "data_phase \<Rightarrow> source_batch list" where
  "data_batch (Holding b) = [b]"
| "data_batch (Putting b) = [b]"
| "data_batch _ = []"

definition queued :: "injector \<Rightarrow> source_batch list" where
  "queued s = concat (map (case_option [] (\<lambda>b. [b])) (hi_queue s))"

definition unnumbered :: "injector \<Rightarrow> source_batch multiset" where
  "unnumbered s = mset (concat (map starting_batch (hi_tasks s))) + mset (loop_batch (hi_loop s))
     + mset (queued s) + mset (data_batch (hi_data s))"

definition sourced :: "injector \<Rightarrow> bool" where
  "sourced s \<longleftrightarrow> mset (map snd (hi_injected s)) + unnumbered s \<subseteq># mset (hi_taken s)"

lemma sourced_less:
  "sourced s \<Longrightarrow> hi_injected s1 = hi_injected s \<Longrightarrow> hi_taken s1 = hi_taken s \<Longrightarrow> unnumbered s1 \<subseteq># unnumbered s \<Longrightarrow> sourced s1"
  unfolding sourced_def by (metis subset_mset.add_left_mono subset_mset.order_trans)

lemma sourced_data:
  assumes "data_step cfg s s1" "sourced s"
  shows "sourced s1"
  using assms(1)
proof (cases rule: data_step.cases)
  case (yields b)
  then show ?thesis using assms(2) by (simp add: sourced_def unnumbered_def queued_def ac_simps)
qed (rule sourced_less [OF assms(2)]; simp add: unnumbered_def queued_def)+

lemma sourced_loop:
  assumes "loop_step cfg s s1" "sourced s"
  shows "sourced s1"
  using assms(1)
  by (cases rule: loop_step.cases) (rule sourced_less [OF assms(2)]; simp add: unnumbered_def queued_def)+

lemma task_source:
  assumes "task_step cfg (t, s) (t1, s1)"
  shows "mset (map snd (hi_injected s1)) + mset (starting_batch t1) \<subseteq># mset (map snd (hi_injected s)) + mset (starting_batch t)"
    and "set (hi_injected s) \<subseteq> set (hi_injected s1)"
  using assms by (cases rule: task_step.cases; auto)+

lemma sourced_step:
  assumes "inject_step cfg s s1" "sourced s"
  shows "sourced s1"
  using assms(1)
proof (cases rule: inject_step.cases)
  case data then show ?thesis by (rule sourced_data [OF _ assms(2)])
next
  case loop then show ?thesis by (rule sourced_loop [OF _ assms(2)])
next
  case reaper
  show ?thesis using reaper_frame [OF reaper]
    by (intro sourced_less [OF assms(2)]) (simp_all add: unnumbered_def queued_def)
next
  case (runs xs t ys t1 s2)
  let ?rest = "mset (concat (map starting_batch xs)) + mset (concat (map starting_batch ys)) + mset (loop_batch (hi_loop s))
     + mset (queued s) + mset (data_batch (hi_data s))"
  have n: "unnumbered s1 = mset (starting_batch t1) + ?rest"
    using task_frame [OF runs(3)] by (simp add: runs(1) unnumbered_def queued_def)
  have o: "unnumbered s = mset (starting_batch t) + ?rest"
    by (simp add: runs(2) unnumbered_def queued_def)
  have f: "hi_taken s1 = hi_taken s" "hi_injected s1 = hi_injected s2" using task_frame [OF runs(3)] by (simp_all add: runs(1))
  have "mset (map snd (hi_injected s1)) + unnumbered s1 \<subseteq># mset (map snd (hi_injected s)) + unnumbered s"
    unfolding n o f(2) add.assoc [symmetric] using task_source(1) [OF runs(3)]
    by (simp only: subset_mset.add_le_cancel_right add.assoc [symmetric])
  also have "\<dots> \<subseteq># mset (hi_taken s1)" using assms(2) f(1) by (simp only: sourced_def)
  finally show ?thesis unfolding sourced_def .
next
  case (callback xs ys)
  then show ?thesis by (intro sourced_less [OF assms(2)]) (simp_all add: unnumbered_def queued_def)
qed (rule sourced_less [OF assms(2)]; simp add: unnumbered_def queued_def)+

text \<open>The batch of a task, and what it was admitted with.\<close>

fun task_batch :: "task \<Rightarrow> (int \<times> source_batch) list" where
  "task_batch (Prepared q t b) = [(q, b)]"
| "task_batch (Cleared q t b) = [(q, b)]"
| "task_batch (Offering q t b) = [(q, b)]"
| "task_batch _ = []"

definition carries :: "inject_config \<Rightarrow> injector \<Rightarrow> int \<Rightarrow> accepted_forward \<Rightarrow> bool" where
  "carries cfg s q af \<longleftrightarrow> (\<exists>b. (q, b) \<in> set (hi_injected s) \<and> af_metadata af = inject_metadata cfg q b
      \<and> af_seq af = q \<and> af_key af = (ij_uid cfg, PStr (ij_uid cfg), q, Fwd))"

definition carried :: "inject_config \<Rightarrow> injector \<Rightarrow> bool" where
  "carried cfg s \<longleftrightarrow>
     (\<forall>t \<in> set (hi_tasks s). set (task_batch t) \<subseteq> set (hi_injected s)
        \<and> (\<forall>q t0 af. t = Forwarding q t0 af \<longrightarrow> carries cfg s q af))"

text \<open>A batch with a hexadecimal manifest and a positive stride, whose metadata the serialiser round-trips.\<close>

fun batch_ok :: "source_batch \<Rightarrow> bool" where
  "batch_ok (CorpusBatch m start stride ids) \<longleftrightarrow> is_hex64 m \<and> 0 < stride \<and> ids \<noteq> []"
| "batch_ok (TokenBatch ids) = True"

definition packs_batch :: "inject_config \<Rightarrow> int \<times> source_batch \<Rightarrow> bool" where
  "packs_batch cfg w \<longleftrightarrow> batch_ok (snd w)
     \<and> (let v = PDict (bm_obj (inject_metadata cfg (fst w) (snd w)))
        in ij_loads cfg (ij_dumps cfg v) = Some v \<and> ij_dumps cfg v \<noteq> [])"

lemma inject_metadata_read:
  "packs_batch cfg (q, b)
    \<Longrightarrow> bm_from_bytes (ij_loads cfg) (bm_to_bytes (ij_dumps cfg) (inject_metadata cfg q b)) = Some (inject_metadata cfg q b)"
  by (rule bm_from_to; cases b) (simp_all add: packs_batch_def bm_wf_def inject_metadata_def Let_def)

lemma accepted_carries:
  assumes "packs_batch cfg (q, b)" "(q, b) \<in> set (hi_injected s)"
    and acc: "dw_accept_forward (ij_driver cfg) (ij_loads cfg) now (ij_uid cfg)
       (bm_to_bytes (ij_dumps cfg) (inject_metadata cfg q b)) drv = Inr ((st, reason, Some af), drv1, evs)"
  shows "carries cfg s q af"
proof -
  have "af_metadata af = inject_metadata cfg q b \<and> af_seq af = q \<and> af_key af = (ij_uid cfg, PStr (ij_uid cfg), q, Fwd)"
    using acc inject_metadata_read [OF assms(1)]
    by (simp add: dw_accept_forward_def inject_metadata_def Let_def split: prod.splits option.splits bool.splits) auto
  then show ?thesis using assms(2) by (auto simp: carries_def)
qed

lemma task_carries:
  assumes "task_step cfg (t, s) (t1, s1)" "\<forall>w \<in> set (hi_injected s). packs_batch cfg w"
    "set (task_batch t) \<subseteq> set (hi_injected s)"
  shows "set (task_batch t1) \<subseteq> set (hi_injected s1) \<and> (\<forall>q t0 af. t1 = Forwarding q t0 af \<longrightarrow> carries cfg s1 q af)"
  using assms(1)
proof (cases rule: task_step.cases)
  case (accepted now q b reason af drv evs t0 later)
  have "carries cfg s q af" using assms(2,3) accepted by (intro accepted_carries [OF _ _ accepted(4)]) auto
  then show ?thesis using accepted by (simp add: carries_def)
qed (use assms in auto)

lemma taken_grows:
  assumes "inject_step cfg s s1"
  shows "set (hi_taken s) \<subseteq> set (hi_taken s1)" and "set (hi_injected s) \<subseteq> set (hi_injected s1)"
proof -
  have "set (hi_taken s) \<subseteq> set (hi_taken s1) \<and> set (hi_injected s) \<subseteq> set (hi_injected s1)"
    using assms
  proof (cases rule: inject_step.cases)
    case data
    then have "set (hi_taken s) \<subseteq> set (hi_taken s1)" by (cases rule: data_step.cases) auto
    then show ?thesis using data_frame [OF data] by simp
  next
    case loop then show ?thesis using loop_frame [OF loop] by simp
  next
    case reaper then show ?thesis using reaper_frame [OF reaper] by simp
  next
    case (runs xs t ys t1 s2)
    then show ?thesis using task_frame [OF runs(3)] task_source(2) [OF runs(3)] by simp
  qed auto
  then show "set (hi_taken s) \<subseteq> set (hi_taken s1)" "set (hi_injected s) \<subseteq> set (hi_injected s1)" by auto
qed

lemma carries_mono: "set (hi_injected s) \<subseteq> set (hi_injected s1) \<Longrightarrow> carries cfg s q af \<Longrightarrow> carries cfg s1 q af"
  by (auto simp: carries_def)

lemma carried_mono:
  assumes "carried cfg s" "set (hi_injected s) \<subseteq> set (hi_injected s1)" "set (hi_tasks s1) \<subseteq> set (hi_tasks s) \<union> range Starting"
  shows "carried cfg s1"
  unfolding carried_def
proof (rule ballI)
  fix t assume "t \<in> set (hi_tasks s1)"
  then consider (old) "t \<in> set (hi_tasks s)" | (new) b where "t = Starting b" using assms(3) by blast
  then show "set (task_batch t) \<subseteq> set (hi_injected s1) \<and> (\<forall>q t0 af. t = Forwarding q t0 af \<longrightarrow> carries cfg s1 q af)"
    by cases (use assms(1,2) carries_mono [OF assms(2)] in \<open>fastforce simp: carried_def\<close>)+
qed

lemma carried_step:
  assumes "inject_step cfg s s1" "carried cfg s" "\<forall>w \<in> set (hi_injected s). packs_batch cfg w"
  shows "carried cfg s1"
  using assms(1)
proof (cases rule: inject_step.cases)
  case data then show ?thesis using data_frame [OF data] by (intro carried_mono [OF assms(2)]) simp_all
next
  case loop then show ?thesis using loop_frame [OF loop] by (intro carried_mono [OF assms(2)]) auto
next
  case reaper then show ?thesis using reaper_frame [OF reaper] by (intro carried_mono [OF assms(2)]) simp_all
next
  case (runs xs t ys t1 s2)
  have t: "set (task_batch t) \<subseteq> set (hi_injected s)" using assms(2) runs(2) by (simp add: carried_def)
  have old: "carried cfg (s2\<lparr>hi_tasks := xs @ ys\<rparr>)"
    using task_source(2) [OF runs(3)] runs(2) by (intro carried_mono [OF assms(2)]) auto
  show ?thesis using old task_carries [OF runs(3) assms(3) t] unfolding runs(1)
    by (auto simp: carried_def carries_def)
qed (rule carried_mono [OF assms(2)]; auto)+

section \<open>All of it, from construction on\<close>

definition injector_ok :: "inject_config \<Rightarrow> int \<Rightarrow> int \<Rightarrow> injector \<Rightarrow> bool" where
  "injector_ok cfg n z s \<longleftrightarrow> accounted (ij_max_inflight cfg) s \<and> windowed cfg s \<and> observed s \<and> ledger_vouched s
     \<and> outcomes_vouched cfg s \<and> samples_reported n z s \<and> sourced s"

lemma injector_ok_step:
  assumes "inject_step cfg s s1" "injector_ok cfg n z s" "1 \<le> ij_max_inflight cfg"
  shows "injector_ok cfg n z s1"
proof -
  note ok = assms(2) [unfolded injector_ok_def]
  have acc: "accounted (ij_max_inflight cfg) s" using ok by blast
  have "distinct (open_seqs s)" using accounted_distinct [OF acc] by simp
  then have "observed s1" using ok by (intro observed_step [OF assms(1)]) simp_all
  moreover have "windowed cfg s1"
    using ok assms(3) by (intro windowed_step [OF assms(1)]) (simp_all add: accounted_def)
  ultimately show ?thesis unfolding injector_ok_def
    using ok accounted_step [OF acc assms(1)] ledger_vouched_step [OF assms(1)] outcomes_step [OF assms(1)]
      samples_step [OF assms(1) _ acc] sourced_step [OF assms(1)] by blast
qed

lemma injector_new_ok:
  assumes "injector_new base m prefetch fwd bwd stages adaptive low high st opt g [] rep drv = Inr (cfg, s0)"
  shows "injector_ok cfg (rp_batch_size rep) (rp_total rep) s0" and "1 \<le> ij_max_inflight cfg" and "carried cfg s0"
    and "ij_uid cfg = ij_uid base" and "ij_max_inflight cfg = m"
proof -
  have m: "1 \<le> m" using assms by (auto simp: injector_new_def split: if_splits)
  have c: "credits_ok m (credits_new 1 m 10 low high)" using credits_new_ok [of 1 m 10 low high] m by (simp add: max_def)
  show "injector_ok cfg (rp_batch_size rep) (rp_total rep) s0"
    using assms m c
    by (auto simp: injector_new_def injector_ok_def accounted_def windowed_def observed_def ledger_vouched_def outcomes_vouched_def
        samples_reported_def sourced_def open_seqs_def counts_ends_def credits_within_def waiting_seqs_def unnumbered_def
        queued_def split: if_splits)
  show "1 \<le> ij_max_inflight cfg" "carried cfg s0" "ij_uid cfg = ij_uid base" "ij_max_inflight cfg = m"
    using assms m by (auto simp: injector_new_def carried_def split: if_splits)
qed

lemma injecting_ok:
  "injecting cfg s0 s \<Longrightarrow> injector_ok cfg n z s0 \<Longrightarrow> 1 \<le> ij_max_inflight cfg \<Longrightarrow> injector_ok cfg n z s"
  by (induction rule: injecting.induct) (auto intro: injector_ok_step)

lemma injected_taken: "sourced s \<Longrightarrow> set (map snd (hi_injected s)) \<subseteq> set (hi_taken s)"
  unfolding sourced_def by (metis mset_subset_eqD subset_mset.add_left_mono mset_subset_eq_add_left set_mset_mset subset_mset.order_trans set_mset_mono)

lemma injecting_carried:
  assumes "injecting cfg s0 s" "injector_ok cfg n z s0" "1 \<le> ij_max_inflight cfg" "carried cfg s0"
  shows "(\<forall>w \<in> set (hi_injected s). packs_batch cfg w) \<longrightarrow> carried cfg s"
  using assms(1)
proof (induction rule: injecting.induct)
  case begins then show ?case using assms by simp
next
  case (steps s s1)
  then show ?case using taken_grows(2) [OF steps(2)] carried_step [OF steps(2)] by (metis subset_iff)
qed

section \<open>No credit is lost\<close>

lemma injecting_trans: "injecting cfg s1 s2 \<Longrightarrow> injecting cfg s0 s1 \<Longrightarrow> injecting cfg s0 s2"
  by (induction rule: injecting.induct) (auto intro: injecting.steps)

lemma injecting_one: "inject_step cfg s s1 \<Longrightarrow> injecting cfg s s1"
  by (rule injecting.steps [OF injecting.begins])

text \<open>How far a task is from its end.\<close>

fun task_rank :: "(int, batch_outcome) dict \<Rightarrow> task \<Rightarrow> nat" where
  "task_rank d (Starting b) = 40"
| "task_rank d (Prepared q t b) = 39"
| "task_rank d (Cleared q t b) = 38"
| "task_rank d (Offering q t b) = 37"
| "task_rank d (Forwarding q t af) = 20"
| "task_rank d (Awaiting q t) = (if dict_has d q then 18 else 19)"
| "task_rank d (Refused q fs) = 10 + length fs"
| "task_rank d (Ending q fs) = 1 + length fs"
| "task_rank d Returned = 0"

lemma goes_onI:
  "task_step cfg (t, s) (t1, s1) \<Longrightarrow> task_rank (hi_futures s1) t1 < n
    \<Longrightarrow> \<exists>t1 s1. task_step cfg (t, s) (t1, s1) \<and> task_rank (hi_futures s1) t1 < n"
  by blast

lemma offer_goes_on: "\<exists>t1 s1. task_step cfg (Offering q t b, s) (t1, s1) \<and> task_rank (hi_futures s1) t1 < 37"
proof -
  let ?r = "dw_accept_forward (ij_driver cfg) (ij_loads cfg) 0 (ij_uid cfg) (bm_to_bytes (ij_dumps cfg) (inject_metadata cfg q b)) (hi_driver s)"
  show ?thesis
  proof (cases ?r)
    case (Inl e)
    show ?thesis by (rule goes_onI [OF task_step.accept_raises [OF Inl]]) (simp add: ledger_fields_def)
  next
    case (Inr w)
    obtain st reason acc drv evs where w: "w = ((st, reason, acc), drv, evs)" by (metis prod_cases3 prod_cases5)
    show ?thesis
    proof (cases "st \<noteq> ACCEPTED \<or> acc = None \<or> \<not> af_is_new (the acc)")
      case True
      show ?thesis by (rule goes_onI [OF task_step.refused [OF Inr [unfolded w] True]]) (simp add: ledger_fields_def)
    next
      case False
      then obtain af where "st = ACCEPTED" "acc = Some af" and new: "af_is_new af" by auto
      with Inr w have acc: "?r = Inr ((ACCEPTED, reason, Some af), drv, evs)" by simp
      show ?thesis by (rule goes_onI [OF task_step.accepted [OF acc new, of _ 0]]) simp
    qed
  qed
qed

lemma task_goes_on:
  assumes "\<not> hi_stop s" "hi_phase s = OFF" "t \<noteq> Returned" "\<forall>q t0. t = Awaiting q t0 \<longrightarrow> dict_has (hi_futures s) q"
  shows "\<exists>t1 s1. task_step cfg (t, s) (t1, s1) \<and> task_rank (hi_futures s1) t1 < task_rank (hi_futures s) t"
proof -
  have al: "allowed s" using assms by (simp add: allowed_def)
  show ?thesis
  proof (cases t)
    case (Starting b)
    show ?thesis unfolding Starting by (rule goes_onI [OF task_step.start [OF al, of _ _ 0]]) simp
  next
    case (Prepared q t0 b)
    show ?thesis
    proof (cases "inject_payload (batch_ids b)")
      case (Inl e)
      show ?thesis unfolding Prepared by (rule goes_onI [OF task_step.bad_batch [OF Inl]]) (simp add: ledger_fields_def)
    next
      case (Inr p)
      show ?thesis unfolding Prepared by (rule goes_onI [OF task_step.open_allowed [OF Inr al]]) simp
    qed
  next
    case (Cleared q t0 b)
    show ?thesis unfolding Cleared by (rule goes_onI [OF task_step.opens [of _ _ _ _ _ 0]]) simp
  next
    case (Offering q t0 b)
    then show ?thesis using offer_goes_on by simp
  next
    case (Refused q fs)
    show ?thesis
    proof (cases fs)
      case Nil
      show ?thesis unfolding Refused Nil by (rule goes_onI [OF task_step.refused_end [of _ _ _ 0]]) (simp add: ledger_fields_def)
    next
      case (Cons f rest)
      show ?thesis unfolding Refused Cons by (rule goes_onI [OF task_step.refused_pop]) simp
    qed
  next
    case (Forwarding q t0 af)
    show ?thesis unfolding Forwarding by (rule goes_onI [OF task_step.forwarded]) simp
  next
    case (Awaiting q t0)
    then obtain out where out: "dict_get (hi_futures s) q = Some out" using assms(4) by (metis map_of_eq_None_iff not_Some_eq)
    show ?thesis unfolding Awaiting
      by (rule goes_onI [OF task_step.resumes [OF out, of _ _ 0 0 0]]) (simp add: ledger_fields_def)
  next
    case (Ending q fs)
    show ?thesis
    proof (cases fs)
      case Nil
      show ?thesis unfolding Ending Nil by (rule goes_onI [OF task_step.returns]) simp
    next
      case (Cons f rest)
      show ?thesis unfolding Ending Cons by (rule goes_onI [OF task_step.pops]) simp
    qed
  qed (use assms in simp)
qed

text \<open>A waiting task whose result is missing gets one: the reaper takes a snapshot and reads a late enough clock.\<close>

lemma fold_reap_phase: "hi_phase (fold (reap_one cfg d now) ws s) = hi_phase s"
proof (induction ws arbitrary: s)
  case (Cons w ws)
  have "hi_phase (reap_one cfg d now w s) = hi_phase s" by (simp add: reap_one_def unregister_def split: option.split)
  then show ?case using Cons by simp
qed simp

lemma waiter_resolved:
  assumes "observed s" "\<not> hi_stop s" "Awaiting q t \<in> set (hi_tasks s)"
  shows "\<exists>s1. injecting cfg s s1 \<and> hi_tasks s1 = hi_tasks s \<and> hi_loop s1 = hi_loop s \<and> \<not> hi_stop s1 \<and> hi_phase s1 = hi_phase s
    \<and> dict_has (hi_futures s1) q"
proof (cases "dict_has (hi_futures s) q")
  case True then show ?thesis using assms(2) injecting.begins by blast
next
  case False
  have w: "q \<in> set (waiting_seqs s)" using assms(3) by (force simp: waiting_seqs_def)
  then have c: "dict_has (hi_completions s) q" and r: "hi_reaper s \<noteq> NoReaper"
    using assms(1,2) False by (auto simp: observed_def)
  then obtain dl where dl: "dict_get (hi_completions s) q = Some dl" by (metis map_of_eq_None_iff not_Some_eq)
  then have ne: "hi_completions s \<noteq> []" by auto
  let ?s1 = "s\<lparr>hi_reaper := Resting\<rparr>" and ?s2 = "s\<lparr>hi_reaper := Snapped (hi_ledger s)\<rparr>"
  let ?s3 = "(reap_tick cfg (hi_ledger s) (dl + 1) ?s2)\<lparr>hi_reaper := Ticking\<rparr>"
  have "injecting cfg s ?s1" by (intro injecting_one inject_step.reaper reaper_step.tick_fails r)
  moreover have "inject_step cfg ?s1 ?s2"
    using reaper_step.snapshot [of ?s1 cfg] ne by (intro inject_step.reaper) simp
  moreover have "inject_step cfg ?s2 ?s3"
    using reaper_step.reaps [of ?s2 "hi_ledger s" cfg "dl + 1"] by (intro inject_step.reaper) simp
  ultimately have "injecting cfg s ?s3" by (blast intro: injecting.steps)
  moreover have "dict_has (hi_futures ?s3) q"
    using reap_tick_resolves [of ?s2 q dl "dl + 1" cfg "hi_ledger s"] dl by simp
  moreover have "hi_phase ?s3 = hi_phase s" by (simp add: reap_tick_def fold_reap_phase)
  ultimately show ?thesis using assms(2) by (intro exI [of _ ?s3]) simp
qed

text \<open>Every task can be driven to its end, and then the loop is woken.\<close>

lemma finish_task:
  "injector_ok cfg n z s \<Longrightarrow> 1 \<le> ij_max_inflight cfg \<Longrightarrow> \<not> hi_stop s \<Longrightarrow> hi_tasks s = xs @ t # ys
    \<Longrightarrow> \<exists>s1. injecting cfg s s1 \<and> hi_tasks s1 = xs @ ys \<and> hi_loop s1 = hi_loop s \<and> hi_wake s1 \<and> \<not> hi_stop s1"
proof (induction "task_rank (hi_futures s) t" arbitrary: s t rule: less_induct)
  case less
  let ?s0 = "s\<lparr>hi_phase := OFF\<rparr>"
  have s0: "injecting cfg s ?s0" by (intro injecting_one inject_step.ghost)
  have ok0: "injector_ok cfg n z ?s0" by (rule injecting_ok [OF s0 less.prems(1,2)])
  have again: "\<exists>s1. injecting cfg s s1 \<and> hi_tasks s1 = xs @ ys \<and> hi_loop s1 = hi_loop s \<and> hi_wake s1 \<and> \<not> hi_stop s1"
    if r: "injecting cfg ?s0 s2" "hi_tasks s2 = xs @ t2 # ys" "hi_loop s2 = hi_loop s" "\<not> hi_stop s2"
      "task_rank (hi_futures s2) t2 < task_rank (hi_futures s) t" for s2 t2
  proof -
    obtain s1 where "injecting cfg s2 s1" "hi_tasks s1 = xs @ ys" "hi_loop s1 = hi_loop s2" "hi_wake s1" "\<not> hi_stop s1"
      using less.hyps [OF r(5) injecting_ok [OF r(1) ok0 less.prems(2)] less.prems(2) r(4,2)] by blast
    then show ?thesis using injecting_trans [OF _ injecting_trans [OF r(1) s0]] r(3) by metis
  qed
  consider (ret) "t = Returned" | (stuck) q t0 where "t = Awaiting q t0" "\<not> dict_has (hi_futures s) q"
    | (go) "t \<noteq> Returned" "\<forall>q t0. t = Awaiting q t0 \<longrightarrow> dict_has (hi_futures s) q" by blast
  then show ?case
  proof cases
    case ret
    let ?s1 = "s\<lparr>hi_tasks := xs @ ys, hi_wake := True\<rparr>"
    have "injecting cfg s ?s1" using less.prems(4) unfolding ret by (intro injecting_one inject_step.callback)
    then show ?thesis using less.prems(3) by (intro exI [of _ ?s1]) simp
  next
    case stuck
    have "observed ?s0" using ok0 by (simp add: injector_ok_def)
    moreover have "Awaiting q t0 \<in> set (hi_tasks ?s0)" using less.prems(4) stuck by simp
    ultimately obtain s1 where "injecting cfg ?s0 s1" "hi_tasks s1 = hi_tasks ?s0" "hi_loop s1 = hi_loop ?s0" "\<not> hi_stop s1"
      "dict_has (hi_futures s1) q" using waiter_resolved [of ?s0 q t0 cfg] less.prems(3) by auto
    then show ?thesis using stuck less.prems(4) by (intro again [of s1 t]) simp_all
  next
    case go
    then obtain t1 s1 where step: "task_step cfg (t, ?s0) (t1, s1)" "task_rank (hi_futures s1) t1 < task_rank (hi_futures ?s0) t"
      using task_goes_on [of ?s0 t cfg] less.prems(3) by auto
    let ?s2 = "s1\<lparr>hi_tasks := xs @ t1 # ys\<rparr>"
    have "inject_step cfg ?s0 ?s2" using less.prems(4) step(1) by (intro inject_step.runs [of ?s0 xs t ys]) simp_all
    then have "injecting cfg ?s0 ?s2" by (rule injecting_one)
    then show ?thesis using step(2) task_frame [OF step(1)] less.prems(3) by (intro again [of ?s2 t1]) simp_all
  qed
qed

lemma finish_all:
  "injector_ok cfg n z s \<Longrightarrow> 1 \<le> ij_max_inflight cfg \<Longrightarrow> \<not> hi_stop s
    \<Longrightarrow> \<exists>s1. injecting cfg s s1 \<and> hi_tasks s1 = [] \<and> hi_loop s1 = hi_loop s \<and> (hi_wake s1 \<or> s1 = s) \<and> \<not> hi_stop s1"
proof (induction "length (hi_tasks s)" arbitrary: s)
  case 0 then show ?case using injecting.begins by (intro exI [of _ s]) simp
next
  case (Suc k)
  then obtain t ys where t: "hi_tasks s = [] @ t # ys" by (cases "hi_tasks s") auto
  obtain s1 where s1: "injecting cfg s s1" "hi_tasks s1 = ys" "hi_loop s1 = hi_loop s" "hi_wake s1" "\<not> hi_stop s1"
    using finish_task [OF Suc.prems t] by auto
  obtain s2 where "injecting cfg s1 s2" "hi_tasks s2 = []" "hi_loop s2 = hi_loop s1" "hi_wake s2 \<or> s2 = s1" "\<not> hi_stop s2"
    using Suc.hyps(1) [of s1] Suc.hyps(2) t s1 injecting_ok [OF s1(1) Suc.prems(1,2)] Suc.prems(2) by auto
  then show ?case using injecting_trans [OF _ s1(1)] s1(3,4) by metis
qed

lemma parked_goes_on:
  assumes ok: "injector_ok cfg n z s" "1 \<le> ij_max_inflight cfg" "\<not> hi_stop s" and parked: "hi_loop s = LoopParked b"
  shows "\<exists>s1. injecting cfg s s1 \<and> hi_tasks s1 = [Starting b]"
proof -
  obtain s1 where s1: "injecting cfg s s1" "hi_tasks s1 = []" "hi_loop s1 = LoopParked b" "hi_wake s1 \<or> s1 = s" "\<not> hi_stop s1"
    using finish_all [OF ok] parked by auto
  have ok1: "injector_ok cfg n z s1" by (rule injecting_ok [OF s1(1) ok(1,2)])
  have wake: "hi_wake s1" using ok1 s1(2,3) by (auto simp: injector_ok_def windowed_def)
  let ?s2 = "s1\<lparr>hi_loop := LoopHave b\<rparr>" and ?s3 = "s1\<lparr>hi_loop := LoopReady b\<rparr>"
  let ?s4 = "s1\<lparr>hi_loop := LoopReady b, hi_phase := OFF\<rparr>"
  let ?s5 = "?s4\<lparr>hi_loop := LoopTop, hi_tasks := hi_tasks ?s4 @ [Starting b]\<rparr>"
  have 1: "inject_step cfg s1 ?s2" using wake s1(3) by (intro inject_step.loop loop_step.wakes)
  have "0 < inflight_window cfg ?s2"
    using window_bounds [of cfg s1] ok1 ok(2) by (simp add: injector_ok_def accounted_def inflight_window_def)
  then have 2: "inject_step cfg ?s2 ?s3"
    using loop_step.room [of ?s2 b cfg] s1(2) by (intro inject_step.loop) simp
  have 3: "inject_step cfg ?s3 ?s4" using inject_step.ghost [of cfg ?s3 OFF] by simp
  have 4: "inject_step cfg ?s4 ?s5"
    using s1(5) by (intro inject_step.loop loop_step.spawns) (simp_all add: allowed_def)
  have "injecting cfg s ?s5" using s1(1) 1 2 3 4 by (blast intro: injecting.steps)
  then show ?thesis using s1(2) by (intro exI [of _ ?s5]) simp
qed

section \<open>Properties\<close>

fun credits_after :: "(real + time) list \<Rightarrow> credits \<Rightarrow> error + credits" where
  "credits_after [] c = Inr c"
| "credits_after (Inl latency # evs) c = (case on_done latency c of Inl e \<Rightarrow> Inl e | Inr c1 \<Rightarrow> credits_after evs c1)"
| "credits_after (Inr now # evs) c = credits_after evs (on_congestion now c)"

lemma credits_after_ok:
  "credits_ok m c \<Longrightarrow> occupancy_ok m c \<Longrightarrow> \<forall>l. Inl l \<in> set evs \<longrightarrow> 0 \<le> l
    \<Longrightarrow> \<exists>c1. credits_after evs c = Inr c1 \<and> credits_ok m c1 \<and> occupancy_ok m c1"
proof (induction evs c rule: credits_after.induct)
  case (2 latency evs c)
  obtain c1 where c1: "on_done latency c = Inr c1" "credits_ok m c1" using on_done_ok [OF "2.prems"(1)] .
  then have "occupancy_ok m c1" using on_done_occupancy [OF "2.prems"(1,2) _ c1(1)] "2.prems"(3) by simp
  then show ?case using "2.IH" [OF c1(1) c1(2)] "2.prems"(3) c1(1) by simp
next
  case (3 now evs c)
  have "occupancy_ok m (on_congestion now c)" using "3.prems"(2) by (auto simp: occupancy_ok_def on_congestion_def)
  then show ?case using "3.IH" [OF on_congestion_ok [OF "3.prems"(1)]] "3.prems"(3) by simp
qed simp

text \<open>C34. Whatever completes and whatever is congested, in any order, the adaptive window never raises, keeps a target
  between 1 and its ceiling (or its initial value), and estimates an occupancy between 0 and that bound; and of a burst
  of congestion signals within the cooldown only the first one halves the target.\<close>

theorem credits_stay_bounded:
  assumes "\<forall>l. Inl l \<in> set evs \<longrightarrow> 0 \<le> l"
  shows "\<exists>c. credits_after evs (credits_new initial cap cooldown low high) = Inr c
      \<and> 1 \<le> cr_target c \<and> cr_target c \<le> max (max 1 initial) (max 1 cap)
      \<and> 0 \<le> cr_occupancy c \<and> cr_occupancy c \<le> of_int (max (max 1 initial) (max 1 cap))
      \<and> (\<forall>t1 t2. cr_cooldown c \<le> t1 - cr_last_backoff c \<and> t2 - t1 < cr_cooldown c
           \<longrightarrow> on_congestion t2 (on_congestion t1 c) = on_congestion t1 c
             \<and> cr_target (on_congestion t1 c) = max 1 (cr_target c div 2))"
proof -
  let ?c = "credits_new initial cap cooldown low high" and ?m = "max (max 1 initial) (max 1 cap)"
  have "occupancy_ok ?m ?c" by (simp add: occupancy_ok_def credits_new_def)
  then obtain c where "credits_after evs ?c = Inr c" "credits_ok ?m c" "occupancy_ok ?m c"
    using credits_after_ok [OF credits_new_ok _ assms] by blast
  then show ?thesis
    by (intro exI [of _ c]) (auto simp: credits_ok_def occupancy_ok_def on_congestion_def)
qed

text \<open>C30. In every state of a head's injector, under every interleaving of the reading thread, the loop, the tasks, the
  reaper and the reports, at most \<open>max_inflight\<close> tasks exist; the numbers of the tasks under way and of the batches
  that ended are 1 to the last one, each once; the counters count exactly the ends; and no batch read from the source
  is injected twice.\<close>

theorem injector_accounts_every_batch:
  assumes new: "injector_new base m prefetch fwd bwd stages adaptive low high start_timeout opt g [] rep drv = Inr (cfg, s0)"
    and run: "injecting cfg s0 s"
  shows "int (length (hi_tasks s)) \<le> m
    \<and> distinct (open_seqs s @ map fst (hi_ends s)) \<and> set (open_seqs s) \<union> set (map fst (hi_ends s)) = {1..hi_last_seq s}
    \<and> (\<forall>x n. end_counter x = Some n \<longrightarrow> cget (hi_counters s) n = int (count_list (map snd (hi_ends s)) x))
    \<and> mset (map snd (hi_injected s)) \<subseteq># mset (hi_taken s)"
proof -
  have ok: "injector_ok cfg (rp_batch_size rep) (rp_total rep) s"
    by (rule injecting_ok [OF run injector_new_ok(1,2) [OF new]])
  then have acc: "accounted (ij_max_inflight cfg) s" by (simp add: injector_ok_def)
  have "set_mset (mset (open_seqs s) + mset (map fst (hi_ends s))) = set_mset (mset [1..hi_last_seq s])"
    using acc unfolding accounted_def by (simp only:)
  moreover have "mset (map snd (hi_injected s)) \<subseteq># mset (hi_taken s)"
    using ok unfolding injector_ok_def sourced_def by (metis mset_subset_eq_add_left subset_mset.order_trans)
  ultimately show ?thesis using ok accounted_distinct [OF acc] acc injector_new_ok(5) [OF new]
    by (simp add: injector_ok_def windowed_def accounted_def counts_ends_def)
qed


text \<open>C32. No credit is ever lost: a loop that waits for a free credit can always go on to inject the batch it holds,
  whatever the tasks, the reaper and the reports have done before, unless the injector was stopped; and every batch that
  waits for its outcome has it or is registered with a reaper that is running and whose next tick after the deadline
  resolves it.\<close>

theorem injector_loses_no_credit:
  assumes new: "injector_new base m prefetch fwd bwd stages adaptive low high start_timeout opt g [] rep drv = Inr (cfg, s0)"
    and run: "injecting cfg s0 s" and "\<not> hi_stop s"
  shows "(hi_loop s = LoopParked b \<longrightarrow> (\<exists>s1. injecting cfg s s1 \<and> hi_tasks s1 = [Starting b]))
    \<and> (Awaiting q t \<in> set (hi_tasks s) \<longrightarrow> dict_has (hi_futures s) q
        \<or> hi_reaper s \<noteq> NoReaper \<and> (\<exists>dl. dict_get (hi_completions s) q = Some dl
            \<and> (\<forall>d now. dl < now \<longrightarrow> dict_has (hi_futures (reap_tick cfg d now s)) q)))"
proof -
  have ok: "injector_ok cfg (rp_batch_size rep) (rp_total rep) s"
    by (rule injecting_ok [OF run injector_new_ok(1,2) [OF new]])
  have "\<exists>dl. dict_get (hi_completions s) q = Some dl \<and> (\<forall>d now. dl < now \<longrightarrow> dict_has (hi_futures (reap_tick cfg d now s)) q)"
    if "dict_has (hi_completions s) q"
    using that reap_tick_resolves [of s q] by (metis map_of_eq_None_iff not_Some_eq)
  moreover have "q \<in> set (waiting_seqs s)" if "Awaiting q t \<in> set (hi_tasks s)"
    using that by (force simp: waiting_seqs_def)
  moreover have "observed s" using ok by (simp add: injector_ok_def)
  ultimately show ?thesis using assms(3) parked_goes_on [OF ok injector_new_ok(2) [OF new] assms(3)]
    unfolding observed_def by (metis empty_iff empty_set)
qed


end
