(* ===== verification/HeadInjectorDemo.thy ===== *)
theory HeadInjectorDemo
  imports HeadInjectorProps
begin

text \<open>
  A run of the injector: two batches are read, the first is injected while the window of one credit keeps the second
  waiting, a worker reports the first one done and the reaper resolves it. The witnesses of the injector's properties
  use its states.
\<close>

definition hj_batch :: source_batch where
  "hj_batch = CorpusBatch (replicate 64 CHR ''a'') 6 2 [[1, 2, 3], [4, 5, 6]]"

definition hj_batch2 :: source_batch where
  "hj_batch2 = TokenBatch [[7, 8]]"

definition hj_md :: batch_metadata where
  "hj_md = \<lparr>bm_trainer_uid = PStr ''head.0'', bm_seq = PInt 1, bm_data_shard = PInt 3, bm_purpose = NORMAL,
     bm_trainer_peer_id = Some ''peer'', bm_next_hop_uid = None, bm_next_hop_peer_id = None, bm_prev_hop_uid = None,
     bm_prev_hop_peer_id = None, bm_prev_hop_maddrs = None, bm_data_manifest = Some (replicate 64 CHR ''a''),
     bm_sample_start = Some 6, bm_sample_stride = Some 2, bm_sample_rows = Some 2\<rparr>"

definition hj_dw :: dwconfig where
  "hj_dw = \<lparr>dc_max_entries = 2, dc_forward_timeout = 60, dc_backward_timeout = 60, dc_trainerless = True,
     dc_has_router = True, dc_has_ledger = True, dc_own_peer_id = Some ''peer''\<rparr>"

definition hj_base :: inject_config where
  "hj_base = \<lparr>ij_uid = ''head.0'', ij_peer = ''peer'', ij_data_idx = 3, ij_max_inflight = 1, ij_prefetch = 4, ij_stall = 130,
     ij_batch_timeout = 330, ij_driver = hj_dw, ij_dumps = (\<lambda>_. [1]), ij_loads = (\<lambda>_. Some (PDict (bm_obj hj_md)))\<rparr>"

definition hj_cfg :: inject_config where
  "hj_cfg = hj_base"

definition hj_reporter :: reporter where
  "hj_reporter = \<lparr>rp_batch_size = 2, rp_seq_length = None, rp_expiration = 60, rp_last_update = 0, rp_last_loss = None,
     rp_processed = 0, rp_tokens = 0, rp_published = []\<rparr>"

definition hj_driver0 :: driver where
  "hj_driver0 = \<lparr>dw_entries = [], dw_prev_hops = [], dw_counters = []\<rparr>"

definition hj_driver1 :: driver where
  "hj_driver1 = \<lparr>dw_entries = [((''head.0'', PStr ''head.0'', 1, Fwd), 0)], dw_prev_hops = [],
     dw_counters = [(''accepted_forward'', 1)]\<rparr>"

definition hj_accepted :: accepted_forward where
  "hj_accepted = \<lparr>af_metadata = hj_md, af_seq = 1, af_key = (''head.0'', PStr ''head.0'', 1, Fwd), af_is_new = True\<rparr>"

definition hj_done :: report where
  "hj_done = \<lparr>rr_uid = ''head.0'', rr_seq = 1, rr_kind = RK_DONE, rr_loss = None, rr_reason = None\<rparr>"

definition hj_ledger :: ledger where
  "hj_ledger = [((''head.0'', 1, FProgress), LTime 1), ((''head.0'', 1, FDone), LTrue)]"

definition hj_s0 :: injector where
  "hj_s0 = snd (projr (injector_new hj_base 1 4 100 100 2 True 4 10 (PInt 900) True OFF [] hj_reporter hj_driver0))"

lemma hj_new:
  "injector_new hj_base 1 4 100 100 2 True 4 10 (PInt 900) True OFF [] hj_reporter hj_driver0 = Inr (hj_cfg, hj_s0)"
proof -
  have "batch_timeout_of 100 100 2 = 330" "stall_timeout_of 100 100 = 130"
    by (simp_all add: batch_timeout_of_def stall_timeout_of_def)
  then show ?thesis by (simp add: injector_new_def hj_s0_def hj_cfg_def hj_base_def)
qed

lemma hj_s0_fields:
  "hi_ledger hj_s0 = []" "hi_writers hj_s0 = []" "hi_credits hj_s0 = Some (credits_new 1 1 10 4 10)" "hi_reporter hj_s0 = hj_reporter"
  "hi_counters hj_s0 = []" "hi_driver hj_s0 = hj_driver0" "hi_queue hj_s0 = []" "\<not> hi_stop hj_s0" "hi_phase hj_s0 = OFF"
  "hi_last_seq hj_s0 = 0" "hi_completions hj_s0 = []" "hi_futures hj_s0 = []" "hi_terminal hj_s0 = None" "hi_tasks hj_s0 = []"
  "hi_loop hj_s0 = LoopOff" "hi_data hj_s0 = Asking" "hi_reaper hj_s0 = NoReaper" "hi_taken hj_s0 = []"
  "hi_injected hj_s0 = []" "hi_reports hj_s0 = []" "hi_ends hj_s0 = []" "hi_outcomes hj_s0 = []"
  by (simp_all add: hj_s0_def injector_new_def)

lemma hj_payload: "inject_payload (batch_ids hj_batch) = Inr ([[1, 2], [4, 5]], [[2, 3], [5, 6]], 1 / 4)"
  by (simp add: inject_payload_def hj_batch_def)

lemma hj_metadata: "inject_metadata hj_cfg 1 hj_batch = hj_md"
  by (simp add: inject_metadata_def hj_batch_def hj_md_def hj_cfg_def hj_base_def)

lemma hj_packs: "packs_batch hj_cfg (1, hj_batch)"
  unfolding packs_batch_def by (simp add: hj_metadata Let_def)
    (simp add: hj_cfg_def hj_base_def hj_batch_def is_hex64_def hex_chars_def list_all_iff)

lemma hj_accept:
  "dw_accept_forward (ij_driver hj_cfg) (ij_loads hj_cfg) 0 (ij_uid hj_cfg)
     (bm_to_bytes (ij_dumps hj_cfg) (inject_metadata hj_cfg 1 hj_batch)) hj_driver0
   = Inr ((ACCEPTED, [], Some hj_accepted), hj_driver1, [SpawnReport RK_ACCEPTED ''head.0'' None])"
  using inject_metadata_read [OF hj_packs]
  by (simp add: dw_accept_forward_def hj_metadata Let_def)
    (simp add: hj_md_def dw_admit_def hj_cfg_def hj_base_def hj_dw_def hj_driver0_def hj_driver1_def hj_accepted_def
      dw_bump_def bump_def cget_def dict_set_def Let_def)

lemma hj_accept_at: "hi_driver s = hj_driver0 \<Longrightarrow>
  dw_accept_forward (ij_driver hj_cfg) (ij_loads hj_cfg) 0 (ij_uid hj_cfg)
     (bm_to_bytes (ij_dumps hj_cfg) (inject_metadata hj_cfg 1 hj_batch)) (hi_driver s)
   = Inr ((ACCEPTED, [], Some hj_accepted), hj_driver1, [SpawnReport RK_ACCEPTED ''head.0'' None])"
  using hj_accept by simp

section \<open>The run\<close>

definition hj_s1 :: injector where
  "hj_s1 = hj_s0\<lparr>hi_data := Holding hj_batch, hi_taken := hi_taken hj_s0 @ [hj_batch]\<rparr>"

definition hj_s2 :: injector where
  "hj_s2 = hj_s1\<lparr>hi_data := Putting hj_batch\<rparr>"

definition hj_s3 :: injector where
  "hj_s3 = hj_s2\<lparr>hi_data := Placed, hi_queue := hi_queue hj_s2 @ [Some hj_batch], hi_first_ready := True\<rparr>"

definition hj_s4 :: injector where
  "hj_s4 = hj_s3\<lparr>hi_data := Asking\<rparr>"

definition hj_s5 :: injector where
  "hj_s5 = hj_s4\<lparr>hi_data := Holding hj_batch2, hi_taken := hi_taken hj_s4 @ [hj_batch2]\<rparr>"

definition hj_s6 :: injector where
  "hj_s6 = hj_s5\<lparr>hi_data := Putting hj_batch2\<rparr>"

definition hj_s7 :: injector where
  "hj_s7 = hj_s6\<lparr>hi_data := Placed, hi_queue := hi_queue hj_s6 @ [Some hj_batch2], hi_first_ready := True\<rparr>"

definition hj_s8 :: injector where
  "hj_s8 = hj_s7\<lparr>hi_data := Asking\<rparr>"

definition hj_s9 :: injector where
  "hj_s9 = hj_s8\<lparr>hi_loop := LoopTop\<rparr>"

definition hj_s10 :: injector where
  "hj_s10 = hj_s9\<lparr>hi_loop := LoopGet\<rparr>"

definition hj_s11 :: injector where
  "hj_s11 = hj_s10\<lparr>hi_loop := LoopTake\<rparr>"

definition hj_s12 :: injector where
  "hj_s12 = hj_s11\<lparr>hi_loop := LoopHave hj_batch, hi_queue := [Some hj_batch2]\<rparr>"

definition hj_s13 :: injector where
  "hj_s13 = hj_s12\<lparr>hi_loop := LoopReady hj_batch\<rparr>"

definition hj_s14 :: injector where
  "hj_s14 = hj_s13\<lparr>hi_loop := LoopTop, hi_tasks := hi_tasks hj_s13 @ [Starting hj_batch]\<rparr>"

definition hj_s15 :: injector where
  "hj_s15 = (hj_s14\<lparr>hi_last_seq := hi_last_seq hj_s14 + 1, hi_injected := hi_injected hj_s14 @ [(hi_last_seq hj_s14 + 1, hj_batch)]\<rparr>)\<lparr>hi_tasks := [] @ Prepared (hi_last_seq hj_s14 + 1) 0 hj_batch # []\<rparr>"

definition hj_s16 :: injector where
  "hj_s16 = (hj_s15)\<lparr>hi_tasks := [] @ Cleared 1 0 hj_batch # []\<rparr>"

definition hj_s17 :: injector where
  "hj_s17 = (hj_s16\<lparr>hi_ledger := new_slot (ij_uid hj_cfg) 0 1 (hi_ledger hj_s16)\<rparr>)\<lparr>hi_tasks := [] @ Offering 1 0 hj_batch # []\<rparr>"

definition hj_s18 :: injector where
  "hj_s18 = (register 1 (0 + ij_batch_timeout hj_cfg) (hj_s17\<lparr>hi_driver := hj_driver1\<rparr>))\<lparr>hi_tasks := [] @ Forwarding 1 0 hj_accepted # []\<rparr>"

definition hj_s19 :: injector where
  "hj_s19 = hj_s18\<lparr>hi_loop := LoopGet\<rparr>"

definition hj_s20 :: injector where
  "hj_s20 = hj_s19\<lparr>hi_loop := LoopTake\<rparr>"

definition hj_s21 :: injector where
  "hj_s21 = hj_s20\<lparr>hi_loop := LoopHave hj_batch2, hi_queue := []\<rparr>"

definition hj_s22 :: injector where
  "hj_s22 = hj_s21\<lparr>hi_loop := LoopFull hj_batch2\<rparr>"

definition hj_s23 :: injector where
  "hj_s23 = hj_s22\<lparr>hi_loop := LoopCleared hj_batch2, hi_wake := False\<rparr>"

definition hj_s24 :: injector where
  "hj_s24 = hj_s23\<lparr>hi_loop := LoopParked hj_batch2\<rparr>"

definition hj_s25 :: injector where
  "hj_s25 = (hj_s24)\<lparr>hi_tasks := [] @ Awaiting 1 0 # []\<rparr>"

definition hj_s26 :: injector where
  "hj_s26 = hj_s25\<lparr>hi_writers := hi_writers hj_s25 @ [report_writes 1 hj_done], hi_reports := hi_reports hj_s25 @ [hj_done]\<rparr>"

definition hj_s27 :: injector where
  "hj_s27 = hj_s26\<lparr>hi_ledger := ledger_write ((rr_uid hj_done, 1, FProgress), LTime 1) (hi_ledger hj_s26), hi_writers := [] @ [((rr_uid hj_done, 1, FDone), LTrue)] # []\<rparr>"

definition hj_s28 :: injector where
  "hj_s28 = hj_s27\<lparr>hi_ledger := ledger_write ((rr_uid hj_done, 1, FDone), LTrue) (hi_ledger hj_s27), hi_writers := [] @ [] # []\<rparr>"

definition hj_s29 :: injector where
  "hj_s29 = hj_s28\<lparr>hi_reaper := Snapped (hi_ledger hj_s28)\<rparr>"

definition hj_s30 :: injector where
  "hj_s30 = (reap_tick hj_cfg hj_ledger 2 hj_s29)\<lparr>hi_reaper := Ticking\<rparr>"

definition hj_s31 :: injector where
  "hj_s31 = ((settle_batch 0 0 0 1 0 (CompletedWith None) (unregister 1 hj_s30))\<lparr>hi_outcomes := hi_outcomes hj_s30 @ [(1, CompletedWith None)]\<rparr>)\<lparr>hi_tasks := [] @ Ending 1 ledger_fields # []\<rparr>"

lemmas hj_states = hj_s1_def hj_s2_def hj_s3_def hj_s4_def hj_s5_def hj_s6_def hj_s7_def hj_s8_def hj_s9_def hj_s10_def hj_s11_def hj_s12_def hj_s13_def hj_s14_def hj_s15_def
  hj_s16_def hj_s17_def hj_s18_def hj_s19_def hj_s20_def hj_s21_def hj_s22_def hj_s23_def hj_s24_def hj_s25_def hj_s26_def hj_s27_def hj_s28_def hj_s29_def hj_s30_def hj_s31_def hj_s0_fields

lemmas hj_simps = hj_cfg_def hj_base_def queue_full_def allowed_def inflight_window_def credits_new_def hj_accepted_def
  register_def report_known_def hj_done_def hj_ledger_def ledger_write_def new_slot_def dict_set_def report_writes_def

lemma hj_step1: "inject_step hj_cfg hj_s0 hj_s1"
  unfolding hj_s1_def by (intro inject_step.data data_step.yields; simp add: hj_simps hj_states)

lemma hj_step2: "inject_step hj_cfg hj_s1 hj_s2"
  unfolding hj_s2_def by (intro inject_step.data data_step.tries; simp add: hj_simps hj_states)

lemma hj_step3: "inject_step hj_cfg hj_s2 hj_s3"
  unfolding hj_s3_def by (intro inject_step.data data_step.puts; simp add: hj_simps hj_states)

lemma hj_step4: "inject_step hj_cfg hj_s3 hj_s4"
  unfolding hj_s4_def by (intro inject_step.data data_step.goes_on; simp add: hj_simps hj_states)

lemma hj_step5: "inject_step hj_cfg hj_s4 hj_s5"
  unfolding hj_s5_def by (intro inject_step.data data_step.yields; simp add: hj_simps hj_states)

lemma hj_step6: "inject_step hj_cfg hj_s5 hj_s6"
  unfolding hj_s6_def by (intro inject_step.data data_step.tries; simp add: hj_simps hj_states)

lemma hj_step7: "inject_step hj_cfg hj_s6 hj_s7"
  unfolding hj_s7_def by (intro inject_step.data data_step.puts; simp add: hj_simps hj_states)

lemma hj_step8: "inject_step hj_cfg hj_s7 hj_s8"
  unfolding hj_s8_def by (intro inject_step.data data_step.goes_on; simp add: hj_simps hj_states)

lemma hj_step9: "inject_step hj_cfg hj_s8 hj_s9"
  unfolding hj_s9_def by (intro inject_step.loop loop_step.first_batch; simp add: hj_simps hj_states)

lemma hj_step10: "inject_step hj_cfg hj_s9 hj_s10"
  unfolding hj_s10_def by (intro inject_step.loop loop_step.top; simp add: hj_simps hj_states)

lemma hj_step11: "inject_step hj_cfg hj_s10 hj_s11"
  unfolding hj_s11_def by (intro inject_step.loop loop_step.polls; simp add: hj_simps hj_states)

lemma hj_step12: "inject_step hj_cfg hj_s11 hj_s12"
  unfolding hj_s12_def by (intro inject_step.loop loop_step.takes; simp add: hj_simps hj_states)

lemma hj_step13: "inject_step hj_cfg hj_s12 hj_s13"
  unfolding hj_s13_def by (intro inject_step.loop loop_step.room; simp add: hj_simps hj_states)

lemma hj_step14: "inject_step hj_cfg hj_s13 hj_s14"
  unfolding hj_s14_def by (intro inject_step.loop loop_step.spawns; simp add: hj_simps hj_states)

lemma hj_step15: "inject_step hj_cfg hj_s14 hj_s15"
  unfolding hj_s15_def by (rule inject_step.runs [where xs = "[]" and ys = "[]" and t = "Starting hj_batch"], simp add: hj_simps hj_states,
      (rule task_step.start; simp add: hj_simps hj_states))

lemma hj_step16: "inject_step hj_cfg hj_s15 hj_s16"
  unfolding hj_s16_def by (rule inject_step.runs [where xs = "[]" and ys = "[]" and t = "Prepared 1 0 hj_batch"], simp add: hj_simps hj_states,
      (rule task_step.open_allowed [OF hj_payload]; simp add: hj_simps hj_states))

lemma hj_step17: "inject_step hj_cfg hj_s16 hj_s17"
  unfolding hj_s17_def by (rule inject_step.runs [where xs = "[]" and ys = "[]" and t = "Cleared 1 0 hj_batch"], simp add: hj_simps hj_states,
      (rule task_step.opens; simp add: hj_simps hj_states))

lemma hj_step18: "inject_step hj_cfg hj_s17 hj_s18"
  unfolding hj_s18_def by (rule inject_step.runs [where xs = "[]" and ys = "[]" and t = "Offering 1 0 hj_batch"], simp add: hj_simps hj_states,
      (rule task_step.accepted [OF hj_accept_at]; simp add: hj_simps hj_states))

lemma hj_step19: "inject_step hj_cfg hj_s18 hj_s19"
  unfolding hj_s19_def by (intro inject_step.loop loop_step.top; simp add: hj_simps hj_states)

lemma hj_step20: "inject_step hj_cfg hj_s19 hj_s20"
  unfolding hj_s20_def by (intro inject_step.loop loop_step.polls; simp add: hj_simps hj_states)

lemma hj_step21: "inject_step hj_cfg hj_s20 hj_s21"
  unfolding hj_s21_def by (intro inject_step.loop loop_step.takes; simp add: hj_simps hj_states)

lemma hj_step22: "inject_step hj_cfg hj_s21 hj_s22"
  unfolding hj_s22_def by (intro inject_step.loop loop_step.no_room; simp add: hj_simps hj_states)

lemma hj_step23: "inject_step hj_cfg hj_s22 hj_s23"
  unfolding hj_s23_def by (intro inject_step.loop loop_step.clears; simp add: hj_simps hj_states)

lemma hj_step24: "inject_step hj_cfg hj_s23 hj_s24"
  unfolding hj_s24_def by (intro inject_step.loop loop_step.parks; simp add: hj_simps hj_states)

lemma hj_step25: "inject_step hj_cfg hj_s24 hj_s25"
  unfolding hj_s25_def by (rule inject_step.runs [where xs = "[]" and ys = "[]" and t = "Forwarding 1 0 hj_accepted"], simp add: hj_simps hj_states,
      (rule task_step.forwarded; simp add: hj_simps hj_states))

lemma hj_step26: "inject_step hj_cfg hj_s25 hj_s26"
  unfolding hj_s26_def by (intro inject_step.report_checked; simp add: hj_simps hj_states)

lemma hj_step27: "inject_step hj_cfg hj_s26 hj_s27"
  unfolding hj_s27_def by (rule inject_step.report_write) (simp add: hj_simps hj_states report_writes_def)

lemma hj_step28: "inject_step hj_cfg hj_s27 hj_s28"
  unfolding hj_s28_def by (rule inject_step.report_write) (simp add: hj_simps hj_states report_writes_def)

lemma hj_step29: "inject_step hj_cfg hj_s28 hj_s29"
  unfolding hj_s29_def by (intro inject_step.reaper reaper_step.snapshot; simp add: hj_simps hj_states)

lemma hj_step30: "inject_step hj_cfg hj_s29 hj_s30"
  unfolding hj_s30_def by (intro inject_step.reaper reaper_step.reaps; simp add: hj_simps hj_states)

text \<open>What the reaper found.\<close>

lemma hj_at18: "hi_completions hj_s18 = [(1, 330)]" "hi_futures hj_s18 = []" "hi_tasks hj_s18 = [Forwarding 1 0 hj_accepted]"
  "hi_reporter hj_s18 = hj_reporter" "hi_credits hj_s18 = Some (credits_new 1 1 10 4 10)" "hi_ends hj_s18 = []"
  "hi_outcomes hj_s18 = []" "hi_reports hj_s18 = []" "\<not> hi_stop hj_s18" "hi_last_seq hj_s18 = 1" "hi_writers hj_s18 = []"
  "hi_injected hj_s18 = [(1, hj_batch)]" "hi_taken hj_s18 = [hj_batch, hj_batch2]"
  by (simp_all add: hj_states register_def hj_cfg_def hj_base_def dict_set_def)

lemma hj_before: "hi_completions hj_s29 = [(1, 330)]" "hi_futures hj_s29 = []" "hi_tasks hj_s29 = [Awaiting 1 0]"
  "hi_reporter hj_s29 = hj_reporter" "hi_credits hj_s29 = Some (credits_new 1 1 10 4 10)" "hi_ends hj_s29 = []"
  "hi_outcomes hj_s29 = []" "hi_reports hj_s29 = [hj_done]"
  by (simp_all add: hj_at18 hj_s19_def hj_s20_def hj_s21_def hj_s22_def hj_s23_def hj_s24_def hj_s25_def hj_s26_def hj_s27_def
    hj_s28_def hj_s29_def)

lemma hj_outcome: "reap_outcome hj_cfg hj_ledger 2 1 330 = Some (CompletedWith None)"
  by (simp add: reap_outcome_def slot_outcome_def flag_set_def loss_value_def hj_ledger_def hj_cfg_def hj_base_def)

lemma hj_resolved: "hi_futures hj_s30 = [(1, CompletedWith None)]" "hi_tasks hj_s30 = [Awaiting 1 0]"
  "hi_reporter hj_s30 = hj_reporter" "hi_credits hj_s30 = Some (credits_new 1 1 10 4 10)" "hi_ends hj_s30 = []"
  "hi_outcomes hj_s30 = []" "hi_reports hj_s30 = [hj_done]"
  by (simp_all add: hj_s30_def hj_before)
    (simp add: reap_tick_def hj_before reap_one_def hj_outcome dict_set_def)

lemma hj_step31: "inject_step hj_cfg hj_s30 hj_s31"
  unfolding hj_s31_def by (rule inject_step.runs [where xs = "[]" and ys = "[]" and t = "Awaiting 1 0"], simp add: hj_resolved,
      rule task_step.resumes) (simp add: hj_resolved)

lemma hj_finished: "hi_ends hj_s31 = [(1, Completed)]" "hi_outcomes hj_s31 = [(1, CompletedWith None)]"
  "hi_reports hj_s31 = [hj_done]"
proof -
  obtain c where "on_done (0 - 0) (credits_new 1 1 10 4 10) = Inr c"
    using on_done_ok [OF credits_new_ok [of 1 1 10 4 10]] by blast
  then show "hi_ends hj_s31 = [(1, Completed)]" "hi_outcomes hj_s31 = [(1, CompletedWith None)]" "hi_reports hj_s31 = [hj_done]"
    by (simp_all add: hj_s31_def hj_resolved settle_batch_def report_train_step_def hj_reporter_def Let_def)
qed

lemma hj_run_parked: "injecting hj_cfg hj_s0 hj_s24"
  by (intro injecting.steps [OF _ hj_step24] injecting.steps [OF _ hj_step23] injecting.steps [OF _ hj_step22] injecting.steps [OF _ hj_step21] injecting.steps [OF _ hj_step20] injecting.steps [OF _ hj_step19] injecting.steps [OF _ hj_step18] injecting.steps [OF _ hj_step17] injecting.steps [OF _ hj_step16] injecting.steps [OF _ hj_step15] injecting.steps [OF _ hj_step14] injecting.steps [OF _ hj_step13] 
    injecting.steps [OF _ hj_step12] injecting.steps [OF _ hj_step11] injecting.steps [OF _ hj_step10] injecting.steps [OF _ hj_step9] injecting.steps [OF _ hj_step8] injecting.steps [OF _ hj_step7] injecting.steps [OF _ hj_step6] injecting.steps [OF _ hj_step5] injecting.steps [OF _ hj_step4] injecting.steps [OF _ hj_step3] injecting.steps [OF _ hj_step2] injecting.steps [OF _ hj_step1] injecting.begins)

lemma hj_run_finished: "injecting hj_cfg hj_s0 hj_s31"
  by (intro injecting.steps [OF _ hj_step31] injecting.steps [OF _ hj_step30] injecting.steps [OF _ hj_step29]
    injecting.steps [OF _ hj_step28] injecting.steps [OF _ hj_step27] injecting.steps [OF _ hj_step26]
    injecting.steps [OF _ hj_step25] hj_run_parked)

lemma hj_parked: "hi_loop hj_s24 = LoopParked hj_batch2" "hi_tasks hj_s24 = [Forwarding 1 0 hj_accepted]" "\<not> hi_stop hj_s24"
  "hi_injected hj_s24 = [(1, hj_batch)]"
  by (simp_all add: hj_at18 hj_s19_def hj_s20_def hj_s21_def hj_s22_def hj_s23_def hj_s24_def)

section \<open>Witnesses\<close>

lemma credits_stay_bounded_witness:
  "\<exists>c. credits_after [Inl 2, Inl 3, Inr 50, Inl 1] (credits_new 1 8 10 4 10) = Inr c \<and> 1 \<le> cr_target c"
proof -
  have "\<forall>l. Inl l \<in> set [Inl 2, Inl 3, Inr 50, Inl 1 :: real + time] \<longrightarrow> 0 \<le> l" by auto
  from credits_stay_bounded [OF this, of 1 8 10 4 10] show ?thesis by blast
qed

lemma injector_accounts_every_batch_witness:
  "injecting hj_cfg hj_s0 hj_s24 \<and> hi_tasks hj_s24 = [Forwarding 1 0 hj_accepted]
    \<and> int (length (hi_tasks hj_s24)) \<le> 1 \<and> mset (map snd (hi_injected hj_s24)) \<subseteq># mset (hi_taken hj_s24)"
  using injector_accounts_every_batch [OF hj_new hj_run_parked] hj_run_parked hj_parked(2) by blast


lemma injector_loses_no_credit_witness:
  "hi_loop hj_s24 = LoopParked hj_batch2 \<and> (\<exists>s1. injecting hj_cfg hj_s24 s1 \<and> hi_tasks s1 = [Starting hj_batch2])"
  using injector_loses_no_credit [OF hj_new hj_run_parked hj_parked(3)] hj_parked(1) by blast


end
