(* ===== verification/HeadStreamsProps.thy ===== *)
theory HeadStreamsProps
  imports HeadStreams
begin

text \<open>
  What the streams of the heads yield: over any interleaving of reads, failures, retries, closed and reopened
  iterators, the batches are those of consecutive positions. Together the heads read every sample once.
\<close>

section \<open>Corpora that a stream opens\<close>

definition head_getter :: "cache_env \<Rightarrow> manifest \<Rightarrow> nat \<Rightarrow> chunk_getter \<Rightarrow> bool" where
  "head_getter env m depth get \<longleftrightarrow> (\<exists>orc. get = corpus_fetch env orc (mf_chunk_names m) depth)"

definition stream_opens :: "pub_env \<Rightarrow> 'a stream_config_scheme \<Rightarrow> io_state corpus \<Rightarrow> bool" where
  "stream_opens penv sc C \<longleftrightarrow> (\<exists>now chunks disk disk'. dict_ok chunks \<and> open_corpus penv now sc chunks disk = (Inr C, disk'))"

text \<open>The identity determines the manifest (no two manifests with one hash).\<close>

definition identifies :: "pub_env \<Rightarrow> string \<Rightarrow> manifest \<Rightarrow> bool" where
  "identifies penv i m \<longleftrightarrow> (\<forall>b m'. manifest_from_bytes penv b = Inr m' \<longrightarrow> mf_identity m' = i \<longrightarrow> m' = m)"

abbreviation good_corpus :: "cache_env \<Rightarrow> manifest \<Rightarrow> (string \<Rightarrow> bytes) \<Rightarrow> permuter \<Rightarrow> stream_layout \<Rightarrow> int \<Rightarrow> io_state corpus \<Rightarrow> bool" where
  "good_corpus env m obj perm_of L seed C \<equiv> fetching.corpus_ok env m obj L perm_of seed C \<and> \<not> cp_closed C"

lemma corpus_from_uri_new:
  assumes "corpus_from_uri env now uri seq seed cfg expected disk chunks = (Inr C, disk')"
  shows "\<exists>m locs b. corpus_new m expected locs seq seed cfg chunks = Inr C \<and> manifest_from_bytes env b = Inr m"
proof -
  obtain pb :: publication and d1 m where f: "manifest_load env d1 (pb_manifest_path pb) = Inr m"
      "map_sum PubError id (corpus_new m expected (map (\<lambda>(n, u). (n, PStr u)) (pb_locators pb)) seq seed cfg chunks) = Inr C"
    using assms by (auto simp: corpus_from_uri_def split: sum.splits prod.splits)
  then have "corpus_new m expected (map (\<lambda>(n, u). (n, PStr u)) (pb_locators pb)) seq seed cfg chunks = Inr C"
    by (cases "corpus_new m expected (map (\<lambda>(n, u). (n, PStr u)) (pb_locators pb)) seq seed cfg chunks") auto
  then show ?thesis using manifest_load_read [OF f(1)] by blast
qed

lemma opened_good:
  assumes "stream_opens penv sc C" and "identifies penv (sc_identity sc) m" and "corpus_objects env m obj" and "perms_ok perm_of"
    and "manifest_layout m (PInt (int (sc_seq sc))) = Inr L"
  shows "good_corpus env m obj perm_of L (sc_seed sc) C"
proof -
  obtain now chunks disk disk' where o: "dict_ok chunks" "open_corpus penv now sc chunks disk = (Inr C, disk')"
    using assms(1) by (auto simp: stream_opens_def)
  then obtain cfg where "corpus_from_uri penv now (PStr (sc_uri sc)) (PInt (int (sc_seq sc))) (PInt (sc_seed sc)) cfg (PStr (sc_identity sc)) disk chunks
      = (Inr C, disk')" by (auto simp: open_corpus_def split: sum.splits)
  from corpus_from_uri_new [OF this] obtain m' locs b where n:
    "corpus_new m' (PStr (sc_identity sc)) locs (PInt (int (sc_seq sc))) (PInt (sc_seed sc)) cfg chunks = Inr C"
    "manifest_from_bytes penv b = Inr m'" by blast
  have m: "m' = m" using corpus_new_identity [OF n(1)] n(2) assms(2) by (auto simp: identifies_def)
  note ok = corpus_new_ok [OF n(1) [unfolded m] o(1) assms(3,4)]
  show ?thesis using ok assms(5) by simp
qed

section \<open>The feeds read well\<close>

lemma reads_wellI:
  assumes "\<And>orc C start n r C'. good C \<Longrightarrow> fd_read fd (corpus_fetch env orc (mf_chunk_names m) depth) start n C = Some (r, C') \<Longrightarrow>
      good C' \<and> (\<forall>rows. r = Inr rows \<longrightarrow> rows = map (\<lambda>i. row (start + i * fd_stride fd)) [0..<n])"
    and "\<And>C. good C \<Longrightarrow> cp_layout C = L"
    and "\<And>C C' p. cp_layout C = cp_layout C' \<Longrightarrow> fd_start fd C p = fd_start fd C' p \<and> fd_rows fd C p = fd_rows fd C' p
          \<and> fd_advance fd C p = fd_advance fd C' p"
  shows "reads_well fd L (head_getter env m depth) good row"
  unfolding reads_well_def head_getter_def using assms by blast

lemma batch_feed_reads:
  assumes "0 < bs_count bs"
  shows "reads_well (batch_feed perm_of bs) L (head_getter env m depth) (good_corpus env m obj perm_of L seed)
    (sample_at perm_of seed L (\<lambda>k. obj (mf_chunk_names m ! k)))"
proof (rule reads_wellI)
  let ?row = "sample_at perm_of seed L (\<lambda>k. obj (mf_chunk_names m ! k))"
  fix orc C start n r C'
  let ?get = "corpus_fetch env orc (mf_chunk_names m) depth"
  assume g: "good_corpus env m obj perm_of L seed C" and r: "fd_read (batch_feed perm_of bs) ?get start n C = Some (r, C')"
  obtain r0 where s: "strided_loop ?get perm_of (map (\<lambda>i. start + i * bs_count bs) [0..<n]) None C = (r0, C')" "r = map_sum PubError id r0"
    using g r assms by (auto simp: batch_feed_def corpus_read_strided_def count_arg_Inr split: prod.splits)
  from fetching.strided_loop_law [OF conjunct1 [OF g] _ s(1)] g s(2)
  show "good_corpus env m obj perm_of L seed C'
      \<and> (\<forall>rows. r = Inr rows \<longrightarrow> rows = map (\<lambda>i. ?row (start + i * fd_stride (batch_feed perm_of bs))) [0..<n])"
    by (cases r0) (auto simp: comp_def batch_feed_def)
qed (simp_all add: fetching.corpus_ok_def batch_feed_def)

lemma shard_feed_reads:
  "reads_well (shard_feed perm_of ss) L (head_getter env m depth) (good_corpus env m obj perm_of L seed)
    (sample_at perm_of seed L (\<lambda>k. obj (mf_chunk_names m ! k)))"
proof (rule reads_wellI)
  let ?row = "sample_at perm_of seed L (\<lambda>k. obj (mf_chunk_names m ! k))" and ?fd = "shard_feed perm_of ss"
  have stride: "fd_stride ?fd = 1" by (simp add: shard_feed_def)
  fix orc C start n r C'
  let ?get = "corpus_fetch env orc (mf_chunk_names m) depth"
  assume g: "good_corpus env m obj perm_of L seed C" and r: "fd_read ?fd ?get start n C = Some (r, C')"
  show "good_corpus env m obj perm_of L seed C' \<and> (\<forall>rows. r = Inr rows \<longrightarrow> rows = map (\<lambda>i. ?row (start + i * fd_stride ?fd)) [0..<n])"
  proof (cases "n = 0")
    case True
    have "count_arg 0 (PInt 0) = Inr 0" by (simp add: count_arg_def)
    then show ?thesis using True g r by (auto simp: shard_feed_def corpus_read_def count_arg_Inr)
  next
    case False
    have "length ([] :: int list list) \<le> n" by simp
    from fetching.read_loop_law [OF conjunct1 [OF g] this, of orc depth start] obtain r0 C0 where s:
      "read_loop ?get perm_of start n [] C = Some (r0, C0)" "fetching.corpus_ok env m obj L perm_of seed C0" "cp_closed C0 = cp_closed C"
      "case r0 of Inl e \<Rightarrow> fetching.source_error env orc m depth obj e
        | Inr ws \<Rightarrow> ws = [] @ map ?row [start + length ([] :: int list list)..<start + n]" by blast
    have "r = map_sum PubError id r0 \<and> C' = C0"
      using g r s(1) False by (simp add: shard_feed_def corpus_read_def count_arg_Inr)
    then show ?thesis using g s(2-4) map_upt_shift [of ?row start n] stride by (cases r0) auto
  qed
qed (simp_all add: fetching.corpus_ok_def shard_feed_def cp_total_samples_def)

section \<open>Runs\<close>

lemma run_positions:
  assumes "(system_step fd identity R getter opens)\<^sup>*\<^sup>* (system_new p0) y"
    and "reads_well fd L getter good row" and "retry_policy R" and "cp_layout C0 = L"
    and "\<And>C. opens C \<Longrightarrow> mf_identity (cp_manifest C) = identity \<Longrightarrow> good C"
  shows "positions_ok fd good row C0 p0 y"
  using assms(1)
proof (induction rule: rtranclp_induct)
  case base
  show ?case by (simp add: positions_ok_def system_new_def)
next
  case (step y y')
  show ?case by (rule system_step_ok [OF step(2,3) assms(2-4)]) (rule assms(5))
qed

text \<open>Interleaving \<open>n\<close> sequences of stride \<open>n\<close> gives all numbers.\<close>

lemma mset_strides:
  "mset (concat (map (\<lambda>d. map (\<lambda>j. f (d + j * n)) [0..<M]) [0..<n])) = mset (map f [0..<n * M])"
proof (induction M)
  case (Suc M)
  have split: "mset (concat (map (\<lambda>d. map (g d) [0..<Suc M]) ds))
      = mset (concat (map (\<lambda>d. map (g d) [0..<M]) ds)) + mset (map (\<lambda>d. g d M) ds)" for g :: "nat \<Rightarrow> nat \<Rightarrow> 'a" and ds
    by (induction ds) auto
  have "[0..<n * Suc M] = [0..<n * M] @ [n * M..<n * M + n]"
    using upt_add_eq_append [OF le0, of "n * M" n] by (simp add: add.commute)
  then have "mset (map f [0..<n * Suc M]) = mset (map f [0..<n * M]) + mset (map f [n * M..<n * M + n])" by simp
  also have "map f [n * M..<n * M + n] = map (\<lambda>d. f (d + M * n)) [0..<n]"
    using map_upt_shift [of f "n * M" n] by (simp add: add.commute mult.commute)
  finally show ?case using Suc.IH by (simp only: split)
qed simp

lemma concat_windows: "concat (map (\<lambda>k. map (\<lambda>i. f (k * b + i)) [0..<b]) [0..<K]) = map f [0..<K * b]"
proof (induction K)
  case (Suc K)
  have "map f [K * b..<K * b + b] = map (\<lambda>i. f (K * b + i)) [0..<b]" by (rule map_upt_shift)
  moreover have "[0..<Suc K * b] = [0..<K * b] @ [K * b..<K * b + b]"
    using upt_add_eq_append [OF le0, of "K * b" b] by (simp add: add.commute)
  ultimately show ?case using Suc by simp
qed simp

definition batch_row :: "permuter \<Rightarrow> int \<Rightarrow> stream_layout \<Rightarrow> manifest \<Rightarrow> (string \<Rightarrow> bytes) \<Rightarrow> nat \<Rightarrow> int list" where
  "batch_row perm_of seed L m obj = sample_at perm_of seed L (\<lambda>k. obj (mf_chunk_names m ! k))"

text \<open>What one stream yields.\<close>

lemma batch_stream_yields:
  assumes "identifies penv (sc_identity bs) m" and "corpus_objects env m obj" and "perms_ok perm_of"
    and lay: "manifest_layout m (PInt (int (sc_seq bs))) = Inr L" and "retry_policy R" and "0 < bs_count bs"
    and "(system_step (batch_feed perm_of bs) (sc_identity bs) R (head_getter env m depth) (stream_opens penv bs))\<^sup>*\<^sup>* (system_new 0) y"
  shows "ys_batches y = map (\<lambda>k. (bs_idx bs + k * sc_batch bs * bs_count bs, bs_count bs,
      map (\<lambda>i. batch_row perm_of (sc_seed bs) L m obj (bs_idx bs + (k * sc_batch bs + i) * bs_count bs)) [0..<sc_batch bs])) [0..<length (ys_batches y)]"
proof -
  let ?fd = "batch_feed perm_of bs" and ?row = "batch_row perm_of (sc_seed bs) L m obj"
  let ?C0 = "rt_corpus\<lparr>cp_layout := L\<rparr>"
  have C0: "cp_layout ?C0 = L" by simp
  have "positions_ok ?fd (good_corpus env m obj perm_of L (sc_seed bs)) ?row ?C0 0 y"
    unfolding batch_row_def
    by (rule run_positions [OF assms(7) batch_feed_reads [OF assms(6)] assms(5) C0]) (rule opened_good [OF _ assms(1-4)])
  moreover have "(fd_advance ?fd ?C0 ^^ k) 0 = k * sc_batch bs" for k by (induction k) (auto simp: batch_feed_def)
  moreover have "batch_at ?fd ?row ?C0 p = (bs_idx bs + p * bs_count bs, bs_count bs,
      map (\<lambda>i. ?row (bs_idx bs + (p + i) * bs_count bs)) [0..<sc_batch bs])" for p
    by (simp add: batch_at_def batch_feed_def algebra_simps)
  ultimately show ?thesis by (simp add: positions_ok_def)
qed

section \<open>Properties\<close>

text \<open>C28. The heads share the corpus without overlap or gap: over any interleaving of reads, failed reads, retries and
  closed or reopened iterators, head \<open>d\<close> of \<open>n\<close> yields exactly the samples \<open>d, d + n, d + 2 n, ...\<close> in order, and
  when each of the \<open>n\<close> heads has yielded \<open>K\<close> batches of \<open>b\<close> rows, every sample below \<open>n * K * b\<close> was read exactly
  once.\<close>

theorem batch_streams_partition_samples:
  assumes "identifies penv (sc_identity bs) m" and "corpus_objects env m obj" and "perms_ok perm_of"
    and "manifest_layout m (PInt (int (sc_seq bs))) = Inr L" and "retry_policy R"
    and "\<And>d. d < bs_count bs \<Longrightarrow> (system_step (batch_feed perm_of (bs\<lparr>bs_idx := d\<rparr>)) (sc_identity bs) R (head_getter env m depth)
      (stream_opens penv bs))\<^sup>*\<^sup>* (system_new 0) (y d)"
    and "\<And>d. d < bs_count bs \<Longrightarrow> length (ys_batches (y d)) = K"
  shows "(\<forall>d < bs_count bs. ys_batches (y d) = map (\<lambda>k. (d + k * sc_batch bs * bs_count bs, bs_count bs,
        map (\<lambda>i. batch_row perm_of (sc_seed bs) L m obj (d + (k * sc_batch bs + i) * bs_count bs)) [0..<sc_batch bs])) [0..<K])
    \<and> mset (concat (map (\<lambda>d. concat (map (snd \<circ> snd) (ys_batches (y d)))) [0..<bs_count bs]))
      = mset (map (batch_row perm_of (sc_seed bs) L m obj) [0..<bs_count bs * (K * sc_batch bs)])"
proof -
  let ?n = "bs_count bs" and ?b = "sc_batch bs" and ?row = "batch_row perm_of (sc_seed bs) L m obj"
  have y: "ys_batches (y d) = map (\<lambda>k. (d + k * ?b * ?n, ?n, map (\<lambda>i. ?row (d + (k * ?b + i) * ?n)) [0..<?b])) [0..<K]" if "d < ?n" for d
  proof -
    let ?bs = "bs\<lparr>bs_idx := d\<rparr>"
    have o: "stream_opens penv ?bs = stream_opens penv bs" by (simp add: fun_eq_iff stream_opens_def open_corpus_def cong: sum.case_cong)
    show ?thesis
      using batch_stream_yields [of penv ?bs m env obj perm_of L R depth "y d"] assms that unfolding o by simp
  qed
  have "concat (map (snd \<circ> snd) (ys_batches (y d))) = map (\<lambda>j. ?row (d + j * ?n)) [0..<K * ?b]" if "d < ?n" for d
    using concat_windows [of "\<lambda>j. ?row (d + j * ?n)" ?b K] y [OF that] by (simp add: comp_def)
  then have e: "map (\<lambda>d. concat (map (snd \<circ> snd) (ys_batches (y d)))) [0..<?n] = map (\<lambda>d. map (\<lambda>j. ?row (d + j * ?n)) [0..<K * ?b]) [0..<?n]"
    by (intro map_cong refl) simp
  show ?thesis by (intro conjI allI impI y) (simp_all only: e mset_strides)
qed

text \<open>
  The samples of a shard, one epoch after the other: number \<open>j\<close> is sample \<open>j mod size\<close> of the shard in epoch
  \<open>j div size\<close>.
\<close>

definition shard_sample_at :: "shard_stream \<Rightarrow> stream_layout \<Rightarrow> nat \<Rightarrow> nat" where
  "shard_sample_at ss L j = j div shard_size ss L * sl_total_samples L + shard_low ss L + j mod shard_size ss L"

definition shard_read :: "shard_stream \<Rightarrow> stream_layout \<Rightarrow> nat \<times> nat \<Rightarrow> nat" where
  "shard_read ss L p = fst p * shard_size ss L + snd p"

lemma shard_positions:
  assumes "0 < shard_size ss L" and "0 < sc_batch ss" and "fd = shard_feed perm_of ss" and "cp_layout C = L"
  defines "pos \<equiv> \<lambda>k. (fd_advance fd C ^^ k) (0, 0)"
  shows "snd (pos K) < shard_size ss L
    \<and> concat (map (\<lambda>k. snd (snd (batch_at fd row C (pos k)))) [0..<K]) = map (row \<circ> shard_sample_at ss L) [0..<shard_read ss L (pos K)]"
proof (induction K)
  case 0
  show ?case using assms(1) by (simp add: pos_def shard_read_def)
next
  case (Suc K)
  let ?n = "shard_size ss L" and ?p = "pos K"
  let ?r = "shard_rows ss L ?p"
  have off: "snd ?p < ?n" using Suc by blast
  have r: "0 < ?r" "snd ?p + ?r \<le> ?n" using off assms(2) by (auto simp: shard_rows_def)
  have next_: "pos (Suc K) = shard_advance ss L ?p" using assms(3,4) by (simp add: pos_def shard_feed_def)
  have "snd (snd (batch_at fd row C ?p)) = map (\<lambda>i. row (fst ?p * sl_total_samples L + shard_low ss L + snd ?p + i)) [0..<?r]"
    using assms(3,4) by (simp add: batch_at_def shard_feed_def cp_total_samples_def)
  also have "\<dots> = map (\<lambda>i. (row \<circ> shard_sample_at ss L) (shard_read ss L ?p + i)) [0..<?r]"
  proof (intro map_cong refl)
    fix i assume "i \<in> set [0..<?r]"
    then have "snd ?p + i < ?n" using r(2) by simp
    then have "(fst ?p * ?n + (snd ?p + i)) div ?n = fst ?p" "(fst ?p * ?n + (snd ?p + i)) mod ?n = snd ?p + i" by simp_all
    then show "row (fst ?p * sl_total_samples L + shard_low ss L + snd ?p + i) = (row \<circ> shard_sample_at ss L) (shard_read ss L ?p + i)"
      by (simp add: shard_sample_at_def shard_read_def add.assoc)
  qed
  also have "\<dots> = map (row \<circ> shard_sample_at ss L) [shard_read ss L ?p..<shard_read ss L ?p + ?r]"
    by (rule map_upt_shift [symmetric])
  finally have rows: "snd (snd (batch_at fd row C ?p)) = map (row \<circ> shard_sample_at ss L) [shard_read ss L ?p..<shard_read ss L ?p + ?r]" .
  have read: "shard_read ss L (pos (Suc K)) = shard_read ss L ?p + ?r" "snd (pos (Suc K)) < ?n"
    using r off assms(1) unfolding next_ by (auto simp: shard_advance_def shard_read_def)
  have "[0..<shard_read ss L ?p + ?r] = [0..<shard_read ss L ?p] @ [shard_read ss L ?p..<shard_read ss L ?p + ?r]"
    by (rule upt_add_eq_append [OF le0])
  then show ?case using Suc rows read by simp
qed

text \<open>The shards of the heads are consecutive ranges.\<close>

lemma shard_bounds:
  assumes "layout_ok L" and "ss_count ss = length (sl_per_chunk L)" and "H * ss_per_head ss = ss_count ss"
  shows "d \<le> H \<Longrightarrow> mset (concat (map (\<lambda>h. [shard_low (ss\<lparr>ss_index := h\<rparr>) L..<shard_high (ss\<lparr>ss_index := h\<rparr>) L]) [0..<d]))
    = mset [0..<min (d * ss_per_head ss * sl_samples_per_chunk L) (sl_total_samples L)]"
proof (induction d)
  case (Suc d)
  let ?u = "ss_per_head ss * sl_samples_per_chunk L" and ?n = "sl_total_samples L"
  have b: "min (d * ss_per_head ss * sl_samples_per_chunk L) ?n \<le> min (Suc d * ss_per_head ss * sl_samples_per_chunk L) ?n"
    by (intro min.mono) simp_all
  have split: "[0..<min (Suc d * ss_per_head ss * sl_samples_per_chunk L) ?n]
      = [0..<min (d * ss_per_head ss * sl_samples_per_chunk L) ?n]
        @ [min (d * ss_per_head ss * sl_samples_per_chunk L) ?n..<min (Suc d * ss_per_head ss * sl_samples_per_chunk L) ?n]"
    using upt_add_eq_append [OF le0, of "min (d * ss_per_head ss * sl_samples_per_chunk L) ?n"
        "min (Suc d * ss_per_head ss * sl_samples_per_chunk L) ?n - min (d * ss_per_head ss * sl_samples_per_chunk L) ?n"] b by simp
  have "[shard_low (ss\<lparr>ss_index := d\<rparr>) L..<shard_high (ss\<lparr>ss_index := d\<rparr>) L]
      = [min (d * ss_per_head ss * sl_samples_per_chunk L) ?n..<min (Suc d * ss_per_head ss * sl_samples_per_chunk L) ?n]"
    by (cases "d * ss_per_head ss * sl_samples_per_chunk L \<le> ?n") (simp_all add: shard_low_def shard_high_def)
  then show ?case using Suc split by simp
qed simp

lemma mset_concat_append: "mset (concat (map (\<lambda>h. f h @ g h) hs)) = mset (concat (map f hs)) + mset (concat (map g hs))"
  by (induction hs) auto

lemma layout_covered:
  assumes "layout_ok L"
  shows "sl_total_samples L \<le> length (sl_per_chunk L) * sl_samples_per_chunk L"
proof -
  have "sum_list ks \<le> length ks * b" if "\<forall>k < length ks. ks ! k \<le> b" for ks :: "nat list" and b
    using that
  proof (induction ks)
    case (Cons x ks)
    have "x \<le> b" using Cons.prems by force
    moreover have "\<forall>k < length ks. ks ! k \<le> b" using Cons.prems by force
    ultimately show ?case using Cons.IH by simp
  qed simp
  then show ?thesis using assms by (simp add: layout_ok_def)
qed

lemma shard_epoch:
  "map (f \<circ> shard_sample_at ss L) [E * shard_size ss L..<E * shard_size ss L + shard_size ss L]
    = map (\<lambda>i. f (E * sl_total_samples L + i)) [shard_low ss L..<shard_high ss L]"
proof -
  let ?n = "shard_size ss L"
  have "map (f \<circ> shard_sample_at ss L) [E * ?n..<E * ?n + ?n] = map (\<lambda>i. (f \<circ> shard_sample_at ss L) (E * ?n + i)) [0..<?n]"
    by (rule map_upt_shift)
  also have "\<dots> = map (\<lambda>i. f (E * sl_total_samples L + (shard_low ss L + i))) [0..<?n]"
    by (intro map_cong refl) (simp add: shard_sample_at_def add.assoc)
  also have "\<dots> = map (\<lambda>i. f (E * sl_total_samples L + i)) [shard_low ss L..<shard_low ss L + ?n]"
    by (rule map_upt_shift [symmetric])
  also have "[shard_low ss L..<shard_low ss L + ?n] = [shard_low ss L..<shard_high ss L]"
    by (cases "shard_low ss L \<le> shard_high ss L") (simp_all add: shard_size_def)
  finally show ?thesis .
qed

lemma shards_cover:
  assumes "layout_ok L" and "ss_count ss = length (sl_per_chunk L)" and "H * ss_per_head ss = ss_count ss"
  shows "mset (concat (map (\<lambda>h. map (f \<circ> shard_sample_at (ss\<lparr>ss_index := h\<rparr>) L) [0..<E * shard_size (ss\<lparr>ss_index := h\<rparr>) L]) [0..<H]))
    = mset (map f [0..<E * sl_total_samples L])"
proof (induction E)
  case 0
  show ?case by (induction H) auto
next
  case (Suc E)
  let ?s = "\<lambda>h. ss\<lparr>ss_index := h\<rparr>" and ?n = "sl_total_samples L"
  have "[0..<Suc E * m] = [0..<E * m] @ [E * m..<E * m + m]" for m
    using upt_add_eq_append [OF le0, of "E * m" m] by (simp add: add.commute)
  then have split: "map g [0..<Suc E * m] = map g [0..<E * m] @ map g [E * m..<E * m + m]" for g :: "nat \<Rightarrow> 'a" and m
    by simp
  have ranges: "mset (concat (map (\<lambda>h. [shard_low (?s h) L..<shard_high (?s h) L]) [0..<H])) = mset [0..<?n]"
    using shard_bounds [OF assms, of H] layout_covered [OF assms(1)] assms(2,3) by (simp add: min_def)
  have "mset (concat (map (\<lambda>h. map (\<lambda>i. f (E * ?n + i)) [shard_low (?s h) L..<shard_high (?s h) L]) [0..<H]))
      = image_mset (\<lambda>i. f (E * ?n + i)) (mset (concat (map (\<lambda>h. [shard_low (?s h) L..<shard_high (?s h) L]) [0..<H])))"
    by (induction H) auto
  also have "\<dots> = mset (map (\<lambda>i. f (E * ?n + i)) [0..<?n])" by (simp only: ranges mset_map)
  also have "\<dots> = mset (map f [E * ?n..<E * ?n + ?n])" by (simp only: map_upt_shift [of f "E * ?n" ?n])
  finally show ?case unfolding split mset_concat_append shard_epoch Suc.IH by simp
qed

text \<open>What one shard stream yields.\<close>

lemma shard_stream_yields:
  assumes "identifies penv (sc_identity ss) m" and "corpus_objects env m obj" and "perms_ok perm_of"
    and lay: "manifest_layout m (PInt (int (sc_seq ss))) = Inr L" and "retry_policy R" and "0 < sc_batch ss" and "0 < shard_size ss L"
    and run: "(system_step (shard_feed perm_of ss) (sc_identity ss) R (head_getter env m depth) (stream_opens penv ss))\<^sup>*\<^sup>* (system_new (0, 0)) y"
  shows "concat (map (snd \<circ> snd) (ys_batches y))
    = map (batch_row perm_of (sc_seed ss) L m obj \<circ> shard_sample_at ss L) [0..<shard_read ss L (fs_pos (ys_state y))]"
proof -
  let ?fd = "shard_feed perm_of ss" and ?row = "batch_row perm_of (sc_seed ss) L m obj"
  let ?C0 = "rt_corpus\<lparr>cp_layout := L\<rparr>"
  have C0: "cp_layout ?C0 = L" by simp
  have p: "positions_ok ?fd (good_corpus env m obj perm_of L (sc_seed ss)) ?row ?C0 (0, 0) y"
    unfolding batch_row_def
    by (rule run_positions [OF run shard_feed_reads assms(5) C0]) (rule opened_good [OF _ assms(1-4)])
  let ?K = "length (ys_batches y)"
  have "concat (map (snd \<circ> snd) (ys_batches y))
      = concat (map (\<lambda>k. snd (snd (batch_at ?fd ?row ?C0 ((fd_advance ?fd ?C0 ^^ k) (0, 0))))) [0..<?K])"
  proof -
    have "ys_batches y = map (\<lambda>k. batch_at ?fd ?row ?C0 ((fd_advance ?fd ?C0 ^^ k) (0, 0))) [0..<?K]"
      using p unfolding positions_ok_def by blast
    from arg_cong [OF this, of "map (snd \<circ> snd)"] show ?thesis by (simp only: map_map comp_def)
  qed
  moreover have "fs_pos (ys_state y) = (fd_advance ?fd ?C0 ^^ ?K) (0, 0)" using p unfolding positions_ok_def by blast
  ultimately show ?thesis
    using shard_positions [OF assms(7,6) refl C0, where row = ?row and perm_of = perm_of and K = ?K] by simp
qed

text \<open>C29. Shards partition the corpus: over any interleaving of reads, failures, retries and reopened iterators, the
  samples a shard's head has yielded are, epoch after epoch and in order, those of its range of chunks, and when all
  \<open>H\<close> heads have finished \<open>E\<close> epochs, every sample of each of the \<open>E\<close> epochs was read exactly once.\<close>

theorem shard_streams_partition_epochs:
  assumes "identifies penv (sc_identity ss) m" and "corpus_objects env m obj" and "perms_ok perm_of"
    and "manifest_layout m (PInt (int (sc_seq ss))) = Inr L" and "retry_policy R" and "0 < sc_batch ss"
    and "ss_count ss = length (sl_per_chunk L)" and "H * ss_per_head ss = ss_count ss"
    and "\<And>h. h < H \<Longrightarrow> 0 < shard_size (ss\<lparr>ss_index := h\<rparr>) L"
    and "\<And>h. h < H \<Longrightarrow> (system_step (shard_feed perm_of (ss\<lparr>ss_index := h\<rparr>)) (sc_identity ss) R (head_getter env m depth)
      (stream_opens penv ss))\<^sup>*\<^sup>* (system_new (0, 0)) (y h)"
    and "\<And>h. h < H \<Longrightarrow> fs_pos (ys_state (y h)) = (E, 0)"
  shows "(\<forall>h < H. concat (map (snd \<circ> snd) (ys_batches (y h)))
        = map (batch_row perm_of (sc_seed ss) L m obj \<circ> shard_sample_at (ss\<lparr>ss_index := h\<rparr>) L) [0..<E * shard_size (ss\<lparr>ss_index := h\<rparr>) L])
    \<and> mset (concat (map (\<lambda>h. concat (map (snd \<circ> snd) (ys_batches (y h)))) [0..<H]))
      = mset (map (batch_row perm_of (sc_seed ss) L m obj) [0..<E * sl_total_samples L])"
proof -
  let ?row = "batch_row perm_of (sc_seed ss) L m obj"
  have y: "concat (map (snd \<circ> snd) (ys_batches (y h)))
      = map (?row \<circ> shard_sample_at (ss\<lparr>ss_index := h\<rparr>) L) [0..<E * shard_size (ss\<lparr>ss_index := h\<rparr>) L]" if "h < H" for h
  proof -
    let ?ss = "ss\<lparr>ss_index := h\<rparr>"
    have o: "stream_opens penv ?ss = stream_opens penv ss" by (simp add: fun_eq_iff stream_opens_def open_corpus_def cong: sum.case_cong)
    show ?thesis
      using shard_stream_yields [of penv ?ss m env obj perm_of L R depth "y h"] assms that unfolding o by (simp add: shard_read_def)
  qed
  then have e: "map (\<lambda>h. concat (map (snd \<circ> snd) (ys_batches (y h)))) [0..<H]
      = map (\<lambda>h. map (?row \<circ> shard_sample_at (ss\<lparr>ss_index := h\<rparr>) L) [0..<E * shard_size (ss\<lparr>ss_index := h\<rparr>) L]) [0..<H]"
    by (intro map_cong refl) simp
  show ?thesis
    using shards_cover [OF layout_ok_of(1) [OF assms(4)] assms(7,8), of ?row E]
    by (intro conjI allI impI y) (simp_all only: e)
qed

section \<open>Witnesses\<close>

text \<open>A head that reads the two samples of a corpus of one chunk.\<close>

definition hs_config :: stream_config where
  "hs_config = \<lparr>sc_uri = ''/c'', sc_identity = rg_hex, sc_budget = 100, sc_depth = 0, sc_seq = 1, sc_seed = 5, sc_batch = 2\<rparr>"

definition hs_batch :: batch_stream where
  "hs_batch = stream_config.extend hs_config \<lparr>bs_count = 1, bs_idx = 0\<rparr>"

definition hs_shard :: shard_stream where
  "hs_shard = stream_config.extend hs_config \<lparr>ss_index = 0, ss_count = 1, ss_per_head = 1\<rparr>"

definition hs_manifest :: manifest where
  "hs_manifest = \<lparr>mf_format = LEGACY_STREAM_V1, mf_eos_id = 0, mf_chunk_tokens = 2,
     mf_chunks = [\<lparr>ci_name = ''c0'', ci_tokens = 3, ci_sha256 = rg_hex\<rparr>], mf_identity = rg_hex\<rparr>"

definition hs_env :: cache_env where
  "hs_env = \<lparr>ce_sha256 = (\<lambda>b. if b = rt_bytes then rg_hex else ''x''), ce_js_load = (\<lambda>b. None), ce_js_dump = (\<lambda>v. []), ce_pid = ''7''\<rparr>"

definition hs_corpus :: "io_state corpus" where
  "hs_corpus = \<lparr>cp_manifest = hs_manifest, cp_layout = rt_layout, cp_seed = 5, cp_perm = None, cp_closed = False,
     cp_src = \<lparr>io_cache = rt_cache\<lparr>cc_expected := [(''c0'', \<lparr>ci_name = ''c0'', ci_tokens = 3, ci_sha256 = rg_hex\<rparr>)]\<rparr>, io_pf = None, io_tick = 0\<rparr>\<rparr>"

definition hs_once :: "(io_state corpus, int list list) retrying" where
  "hs_once f s = f s"

lemma hs_once: "retry_policy hs_once"
  by (auto simp: retry_policy_def hs_once_def intro: attempts.last)

lemma hs_identifies: "identifies rg_env rg_hex hs_manifest"
  by (simp add: identifies_def manifest_from_bytes_def rg_env_def rg_manifest_of hs_manifest_def)

lemma hs_objects: "corpus_objects hs_env hs_manifest (\<lambda>_. rt_bytes)"
proof -
  have ne: "''x'' \<noteq> rg_hex"
  proof
    assume "''x'' = rg_hex"
    from arg_cong [OF this, of length] show False by (simp add: rg_hex_def)
  qed
  have "length rt_bytes = 12" by (simp add: rt_bytes_def)
  then show ?thesis
    using ne by (simp add: corpus_objects_def mf_chunk_names_def hs_manifest_def verify_object_def hs_env_def chunk_size_def TOKEN_BYTES_def)
qed

lemma hs_layout: "manifest_layout hs_manifest (PInt (int 1)) = Inr rt_layout"
  by (simp add: manifest_layout_def hs_manifest_def rt_layout_def LEGACY_STREAM_V1_def PITHOS_STREAM_V1_def Let_def)

lemma hs_names: "mf_chunk_names hs_manifest = [''c0'']"
  by (simp add: hs_manifest_def mf_chunk_names_def)

lemma hs_open: "open_corpus rg_env 0 hs_config [(''c0'', Reg rt_bytes 0)] [] = (Inr hs_corpus, [])"
proof -
  have v: "validate_chunk_name (Some (PStr ''c0'')) = Inr ''c0''" by code_simp
  have hex: "is_hex64 rg_hex" by (simp add: is_hex64_def rg_hex_def list_all_iff hex_chars_def)
  have m: "manifest_from_bytes rg_env b = Inr hs_manifest" for b
    by (simp add: manifest_from_bytes_def rg_env_def rg_manifest_of hs_manifest_def)
  have i: "mf_identity hs_manifest = rg_hex" by (simp add: hs_manifest_def)
  have field: "pe_read rg_env p = Some []" "pe_root_of rg_env p = pe_cache_root rg_env" for p by (simp_all add: rg_env_def)
  have rl: "read_local rg_env ''/c/manifest.json'' (Some rg_hex) = Inr \<lparr>pb_manifest_path = LocalPath ''/c/manifest.json'', pb_locators = []\<rparr>"
    using m i by (simp add: read_local_def read_limited_def Let_def field)
  then have lp: "local_publication rg_env ''/c'' (Some rg_hex) = Inr \<lparr>pb_manifest_path = LocalPath ''/c/manifest.json'', pb_locators = []\<rparr>"
    by (simp add: local_publication_def rg_env_def lower_def MANIFEST_NAME_def)
  have "resolve_checked rg_env 0 ''/c'' (Some rg_hex) [] = (map_sum PubError id (local_publication rg_env ''/c'' (Some rg_hex)), [])"
    by (simp add: resolve_checked_def rg_env_def lower_def)
  then have pb: "resolve_publication rg_env 0 (PStr ''/c'') (PStr rg_hex) [] =
      (Inr \<lparr>pb_manifest_path = LocalPath ''/c/manifest.json'', pb_locators = []\<rparr>, [])"
    using hex lp by (simp add: resolve_publication_def)
  have ml: "manifest_load rg_env [] (LocalPath ''/c/manifest.json'') = Inr hs_manifest"
    by (simp add: manifest_load_def rg_env_def rg_manifest_of hs_manifest_def)
  have "corpus_new hs_manifest (PStr rg_hex) [] (PInt (int 1)) (PInt 5) \<lparr>cf_budget_bytes = 100, cf_prefetch_depth = 0\<rparr> [(''c0'', Reg rt_bytes 0)]
      = Inr hs_corpus"
    using v by (simp add: corpus_new_def hs_layout [unfolded of_nat_1] locators_ok_def hs_corpus_def i)
      (simp add: cache_new_def hs_manifest_def rt_cache_def dict_set_def enforce_disk_budget_def)
  then show ?thesis using pb ml by (simp add: open_corpus_def hs_config_def cache_config_of_def corpus_from_uri_def)
qed

lemma hs_fields:
  "sc_uri hs_batch = sc_uri hs_config" "sc_identity hs_batch = rg_hex" "sc_budget hs_batch = sc_budget hs_config"
  "sc_depth hs_batch = sc_depth hs_config" "sc_seq hs_batch = 1" "sc_seed hs_batch = 5" "sc_batch hs_batch = 2"
  "bs_count hs_batch = 1" "bs_idx hs_batch = 0" "sc_identity hs_config = rg_hex" "sc_seq hs_config = 1" "sc_seed hs_config = 5"
  "sc_uri hs_shard = sc_uri hs_config" "sc_identity hs_shard = rg_hex" "sc_budget hs_shard = sc_budget hs_config"
  "sc_depth hs_shard = sc_depth hs_config" "sc_seq hs_shard = 1" "sc_seed hs_shard = 5" "sc_batch hs_shard = 2"
  "ss_index hs_shard = 0" "ss_count hs_shard = 1" "ss_per_head hs_shard = 1"
  by (simp_all add: hs_batch_def hs_shard_def hs_config_def stream_config.defs)

lemma hs_opens: "stream_opens rg_env hs_batch hs_corpus" "stream_opens rg_env hs_shard hs_corpus"
proof -
  have o: "open_corpus rg_env 0 hs_batch = open_corpus rg_env 0 hs_config" "open_corpus rg_env 0 hs_shard = open_corpus rg_env 0 hs_config"
    by (simp_all add: fun_eq_iff open_corpus_def hs_fields cong: sum.case_cong)
  have "\<exists>now chunks disk disk'. dict_ok chunks \<and> open_corpus rg_env now hs_batch chunks disk = (Inr hs_corpus, disk')"
    unfolding o by (intro exI [of _ 0] exI [of _ "[(''c0'', Reg rt_bytes 0)]"] exI [of _ "[]"]) (simp add: o hs_open)
  then show "stream_opens rg_env hs_batch hs_corpus" by (simp add: stream_opens_def)
  have "\<exists>now chunks disk disk'. dict_ok chunks \<and> open_corpus rg_env now hs_shard chunks disk = (Inr hs_corpus, disk')"
    unfolding o by (intro exI [of _ 0] exI [of _ "[(''c0'', Reg rt_bytes 0)]"] exI [of _ "[]"]) (simp add: o hs_open)
  then show "stream_opens rg_env hs_shard hs_corpus" by (simp add: stream_opens_def)
qed

lemma hs_fetch: "\<exists>io. corpus_fetch hs_env rt_answers [''c0''] 0 0 (cp_src hs_corpus) = (Inr rt_bytes, io)"
proof -
  have v: "validate_chunk_name (Some (PStr ''c0'')) = Inr ''c0''" by code_simp
  have "\<exists>c. cache_get hs_env now w room ''c0'' (io_cache (cp_src hs_corpus)) = (Inr rt_bytes, c)" for now w room
    using v by (simp add: cache_get_def get_lookup_def rt_cache_def hs_corpus_def move_to_end_def ensure_def lstat_regular_def Let_def
        verify_object_def chunk_size_def TOKEN_BYTES_def hs_env_def get_publish_def trim_resident.simps
        expected_size_def dict_set_def) (simp add: rt_bytes_def)
  then obtain c where c: "cache_get hs_env (or_now rt_answers 0) (or_world rt_answers 0) (or_room rt_answers 0) ''c0'' (io_cache (cp_src hs_corpus))
      = (Inr rt_bytes, c)" by blast
  then show ?thesis by (simp add: corpus_fetch_def hs_corpus_def io_get_def Let_def)
qed

text \<open>One call, one read, one batch.\<close>

lemma one_batch:
  assumes "fd_check fd C = None" and "mf_identity (cp_manifest C) = identity" and "getter get" and "opens C"
    and "fd_read fd get (fd_start fd C p0) (fd_rows fd C p0) C = Some (Inr rows, C1)" and "cp_layout C1 = cp_layout C"
  shows "\<exists>y. (system_step fd identity hs_once getter opens)\<^sup>*\<^sup>* (system_new p0) y
    \<and> ys_batches y = [(fd_start fd C1 p0, fd_stride fd, rows)] \<and> fs_pos (ys_state y) = fd_advance fd C1 p0"
proof -
  let ?y1 = "\<lparr>ys_state = \<lparr>fs_pos = p0, fs_active = True\<rparr>, ys_iters = [(Fresh, False)], ys_batches = []\<rparr>"
  let ?y2 = "\<lparr>ys_state = \<lparr>fs_pos = p0, fs_active = True\<rparr>, ys_iters = [(Reading C1 p0 rows, False)], ys_batches = []\<rparr>"
  let ?y3 = "\<lparr>ys_state = \<lparr>fs_pos = fd_advance fd C1 p0, fs_active = True\<rparr>, ys_iters = [(Ready C1, False)],
      ys_batches = [(fd_start fd C1 p0, fd_stride fd, rows)]\<rparr>"
  let ?R = "system_step fd identity hs_once getter opens"
  have 1: "?R (system_new p0) ?y1"
    using system_step.call [of "system_new p0"] by (simp add: new_iter_def system_new_def)
  have 2: "?R ?y1 ?y2"
    using system_step.start [of 0 ?y1 getter get "Inr C" opens fd identity hs_once None "\<lparr>fs_pos = p0, fs_active = True\<rparr>" "Reading C1 p0 rows"] assms
    by (simp add: begin_next_def read_round_def hs_once_def)
  have 3: "?R ?y2 ?y3"
    using system_step.finish [of 0 ?y2 fd "Some (Inr (fd_start fd C1 p0, fd_stride fd, rows))"
        "\<lparr>fs_pos = fd_advance fd C1 p0, fs_active = True\<rparr>" "Ready C1"] by simp
  show ?thesis using 1 2 3 by (intro exI [of _ ?y3]) (auto intro: rtranclp.rtrancl_into_rtrancl)
qed

lemma hs_perm: "rt_perm s e k (Suc (Suc 0)) = [1, 0]"
  by (simp add: rt_perm_def)

lemma hs_read:
  shows hs_batch_read: "\<exists>rows C1. fd_read (batch_feed rt_perm hs_batch) (corpus_fetch hs_env rt_answers [''c0''] 0) 0 2 hs_corpus = Some (Inr rows, C1)
      \<and> cp_layout C1 = rt_layout"
    and hs_shard_read: "\<exists>rows C1. fd_read (shard_feed rt_perm hs_shard) (corpus_fetch hs_env rt_answers [''c0''] 0) 0 2 hs_corpus = Some (Inr rows, C1)
      \<and> cp_layout C1 = rt_layout"
proof -
  obtain io where f: "corpus_fetch hs_env rt_answers [''c0''] 0 0 (cp_src hs_corpus) = (Inr rt_bytes, io)" using hs_fetch by blast
  show "\<exists>rows C1. fd_read (batch_feed rt_perm hs_batch) (corpus_fetch hs_env rt_answers [''c0''] 0) 0 2 hs_corpus = Some (Inr rows, C1)
      \<and> cp_layout C1 = rt_layout"
    using f by (simp add: batch_feed_def hs_fields corpus_read_strided_def count_arg_def sample_row_def rt_i4 corpus_perm_def Let_def
        hs_corpus_def rt_layout_def hs_perm numeral_2_eq_2)
  show "\<exists>rows C1. fd_read (shard_feed rt_perm hs_shard) (corpus_fetch hs_env rt_answers [''c0''] 0) 0 2 hs_corpus = Some (Inr rows, C1)
      \<and> cp_layout C1 = rt_layout"
    using f by (simp add: shard_feed_def corpus_read_def count_arg_def read_loop.simps sample_row_def rt_i4 corpus_perm_def Let_def
        hs_corpus_def rt_layout_def hs_perm numeral_2_eq_2)
qed

lemma hs_rows: "map (batch_row rt_perm 5 rt_layout hs_manifest (\<lambda>_. rt_bytes)) [0..<2] = [[2, 3], [1, 2]]"
  by (simp add: batch_row_def sample_at_def rt_layout_def hs_perm rt_i4 Let_def numeral_2_eq_2)

lemma batch_streams_partition_samples_witness:
  "\<exists>y. (system_step (batch_feed rt_perm hs_batch) rg_hex hs_once (head_getter hs_env hs_manifest 0) (stream_opens rg_env hs_batch))\<^sup>*\<^sup>* (system_new 0) y
     \<and> length (ys_batches y) = 1 \<and> mset (concat (map (snd \<circ> snd) (ys_batches y))) = {#[2, 3], [1, 2]#}"
proof -
  obtain rows C1 where r: "fd_read (batch_feed rt_perm hs_batch) (corpus_fetch hs_env rt_answers [''c0''] 0) 0 2 hs_corpus = Some (Inr rows, C1)"
    "cp_layout C1 = rt_layout" using hs_batch_read by blast
  have g: "head_getter hs_env hs_manifest 0 (corpus_fetch hs_env rt_answers [''c0''] 0)" using hs_names by (auto simp: head_getter_def)
  obtain y where y: "(system_step (batch_feed rt_perm hs_batch) rg_hex hs_once (head_getter hs_env hs_manifest 0) (stream_opens rg_env hs_batch))\<^sup>*\<^sup>* (system_new 0) y"
      "length (ys_batches y) = 1"
    using one_batch [of "batch_feed rt_perm hs_batch" hs_corpus rg_hex "head_getter hs_env hs_manifest 0"
        "corpus_fetch hs_env rt_answers [''c0''] 0" "stream_opens rg_env hs_batch" 0 rows C1] g hs_opens(1) r
    by (auto simp: batch_feed_def hs_fields) (auto simp: hs_corpus_def hs_manifest_def)
  have upd: "hs_batch\<lparr>bs_idx := d\<rparr> = hs_batch" if "d < 1" for d using that by (simp add: hs_batch_def stream_config.defs)
  have "mset (concat (map (\<lambda>d. concat (map (snd \<circ> snd) (ys_batches y))) [0..<bs_count hs_batch]))
      = mset (map (batch_row rt_perm (sc_seed hs_batch) rt_layout hs_manifest (\<lambda>_. rt_bytes)) [0..<bs_count hs_batch * (1 * sc_batch hs_batch)])"
    by (rule conjunct2 [OF batch_streams_partition_samples [where y = "\<lambda>_. y" and R = hs_once and depth = 0]])
      (use y hs_identifies hs_objects rt_perms hs_layout hs_once in \<open>auto simp: hs_fields upd\<close>)
  then show ?thesis using y by (auto simp: hs_fields hs_rows)
qed

lemma shard_streams_partition_epochs_witness:
  "\<exists>y. (system_step (shard_feed rt_perm hs_shard) rg_hex hs_once (head_getter hs_env hs_manifest 0) (stream_opens rg_env hs_shard))\<^sup>*\<^sup>* (system_new (0, 0)) y
     \<and> fs_pos (ys_state y) = (1, 0) \<and> mset (concat (map (snd \<circ> snd) (ys_batches y))) = {#[2, 3], [1, 2]#}"
proof -
  obtain rows C1 where r: "fd_read (shard_feed rt_perm hs_shard) (corpus_fetch hs_env rt_answers [''c0''] 0) 0 2 hs_corpus = Some (Inr rows, C1)"
    "cp_layout C1 = rt_layout" using hs_shard_read by blast
  have g: "head_getter hs_env hs_manifest 0 (corpus_fetch hs_env rt_answers [''c0''] 0)" using hs_names by (auto simp: head_getter_def)
  have size: "shard_size hs_shard rt_layout = 2" "shard_low hs_shard rt_layout = 0" "shard_rows hs_shard rt_layout (0, 0) = 2"
    by (simp_all add: shard_size_def shard_low_def shard_high_def shard_rows_def hs_fields rt_layout_def)
  have lay: "cp_layout hs_corpus = rt_layout" "cp_chunk_count hs_corpus = 1" by (simp_all add: hs_corpus_def cp_chunk_count_def rt_layout_def)
  have feed: "fd_check (shard_feed rt_perm hs_shard) hs_corpus = None" "fd_start (shard_feed rt_perm hs_shard) hs_corpus (0, 0) = 0"
      "fd_rows (shard_feed rt_perm hs_shard) hs_corpus (0, 0) = 2"
      "fd_advance (shard_feed rt_perm hs_shard) C1 (0, 0) = (1, 0)"
    using size lay r(2) by (simp_all add: shard_feed_def hs_fields shard_advance_def)
  obtain y where y: "(system_step (shard_feed rt_perm hs_shard) rg_hex hs_once (head_getter hs_env hs_manifest 0) (stream_opens rg_env hs_shard))\<^sup>*\<^sup>* (system_new (0, 0)) y"
      "fs_pos (ys_state y) = (1, 0)"
    using one_batch [of "shard_feed rt_perm hs_shard" hs_corpus rg_hex "head_getter hs_env hs_manifest 0"
        "corpus_fetch hs_env rt_answers [''c0''] 0" "stream_opens rg_env hs_shard" "(0, 0)" rows C1] g hs_opens(2) r feed lay
    by (auto simp: hs_corpus_def hs_manifest_def)
  have upd: "hs_shard\<lparr>ss_index := h\<rparr> = hs_shard" if "h < 1" for h using that by (simp add: hs_shard_def stream_config.defs)
  have "mset (concat (map (\<lambda>h. concat (map (snd \<circ> snd) (ys_batches y))) [0..<1]))
      = mset (map (batch_row rt_perm (sc_seed hs_shard) rt_layout hs_manifest (\<lambda>_. rt_bytes)) [0..<1 * sl_total_samples rt_layout])"
    by (rule conjunct2 [OF shard_streams_partition_epochs [where y = "\<lambda>_. y" and R = hs_once and depth = 0 and ss = hs_shard and H = 1]])
      (use y hs_identifies hs_objects rt_perms hs_layout hs_once size in \<open>auto simp: hs_fields upd rt_layout_def\<close>)
  moreover have "1 * sl_total_samples rt_layout = 2" by (simp add: rt_layout_def)
  ultimately have "mset (concat (map (snd \<circ> snd) (ys_batches y))) = {#[2, 3], [1, 2]#}"
    using hs_rows by (simp only: hs_fields) simp
  then show ?thesis using y by blast
qed

text \<open>
  The flag of the stream does not know whose it is: an iterator that has failed releases the stream a second time when
  it is closed or collected, so that a stream whose second iterator is in use gives out a third one.
\<close>

lemma closed_iterator_frees_anothers_stream:
  assumes "getter get"
  shows "\<exists>y. (system_step fd identity R getter opens)\<^sup>*\<^sup>* (system_new p) y \<and> map fst (ys_iters y) = [Ended, Fresh, Fresh]"
proof -
  let ?R = "system_step fd identity R getter opens"
  let ?st = "\<lambda>b. \<lparr>fs_pos = p, fs_active = b\<rparr>"
  let ?y = "\<lambda>b its. \<lparr>ys_state = ?st b, ys_iters = its, ys_batches = []\<rparr>"
  have 1: "?R (system_new p) (?y True [(Fresh, False)])"
    using system_step.call [of "system_new p"] by (simp add: new_iter_def system_new_def)
  have 2: "?R (?y True [(Fresh, False)]) (?y False [(Ended, False)])"
    using system_step.start [of 0 "?y True [(Fresh, False)]" getter get "Inl (PubError DownloadError)" opens fd identity R] assms
    by (simp add: begin_next_def release_def)
  have 3: "?R (?y False [(Ended, False)]) (?y True [(Ended, False), (Fresh, False)])"
    using system_step.call [of "?y False [(Ended, False)]"] by (simp add: new_iter_def)
  have 4: "?R (?y True [(Ended, False), (Fresh, False)]) (?y False [(Ended, True), (Fresh, False)])"
    using system_step.close [of 0 "?y True [(Ended, False), (Fresh, False)]"] by (simp add: close_iter_def release_def)
  have 5: "?R (?y False [(Ended, True), (Fresh, False)]) (?y True [(Ended, True), (Fresh, False), (Fresh, False)])"
    using system_step.call [of "?y False [(Ended, True), (Fresh, False)]"] by (simp add: new_iter_def)
  from 1 2 3 4 5 have "?R\<^sup>*\<^sup>* (system_new p) (?y True [(Ended, True), (Fresh, False), (Fresh, False)])"
    by (meson rtranclp.rtrancl_into_rtrancl rtranclp.rtrancl_refl)
  then show ?thesis by (intro exI) auto
qed

end
