(* ===== verification/AllReduce.thy ===== *)
theory AllReduce
  imports Prelude
begin

text \<open>
  The data structures of an all-reduce (\<open>core/all_reduce/partition.py\<close>): the container that cuts the local
  tensors into parts, assigns each part to the peer that averages it and reassembles the answers, and the reducer that
  averages the parts of all senders. A tensor is the list of its values; the shape is put back by \<open>reshape\<close>,
  which only needs the number of values. The bytes of one value (element size and compression ratio) are an argument.
\<close>

section \<open>Parts and pivots\<close>

text \<open>\<open>split\<close> of a flat tensor; an empty tensor is one empty part.\<close>

function split_parts :: "nat \<Rightarrow> 'a list \<Rightarrow> 'a list list" where
  "split_parts n xs = (if n = 0 \<or> length xs \<le> n then [xs] else take n xs # split_parts n (drop n xs))"
  by pat_completeness auto
termination by (relation "measure (\<lambda>(n, xs). length xs)") auto

declare split_parts.simps [simp del]

text \<open>\<open>CompressionInfo\<close> of a part: the number of its tensor, its own, and the size of a full part.\<close>

type_synonym part_info = "nat \<times> nat \<times> nat"
type_synonym part = "real list \<times> part_info"

definition part_size_values :: "real \<Rightarrow> real \<Rightarrow> error + nat" where
  "part_size_values part_bytes value_bytes =
     (if value_bytes = 0 then Inl ZeroDivisionError else Inr (nat \<lfloor>part_bytes / value_bytes\<rfloor>))"

definition tensor_parts :: "real \<Rightarrow> nat \<Rightarrow> real list \<Rightarrow> real \<Rightarrow> error + part list" where
  "tensor_parts part_bytes i xs value_bytes =
     (case part_size_values part_bytes value_bytes of
        Inl e \<Rightarrow> Inl e
      | Inr n \<Rightarrow>
          if n = 0 \<and> xs \<noteq> [] then Inl RuntimeError
          else Inr (map (\<lambda>(k, p). (p, i, k, n)) (enumerate 0 (split_parts n xs))))"

fun all_parts :: "real \<Rightarrow> nat \<Rightarrow> (real list \<times> real) list \<Rightarrow> error + part list list" where
  "all_parts part_bytes i [] = Inr []"
| "all_parts part_bytes i ((xs, vb) # ts) =
     (case tensor_parts part_bytes i xs vb of
        Inl e \<Rightarrow> Inl e
      | Inr ps \<Rightarrow> (case all_parts part_bytes (Suc i) ts of Inl e \<Rightarrow> Inl e | Inr rest \<Rightarrow> Inr (ps # rest)))"

fun cumsum :: "real \<Rightarrow> real list \<Rightarrow> real list" where
  "cumsum a [] = []"
| "cumsum a (x # xs) = (a + x) # cumsum (a + x) xs"

text \<open>Where the share of each peer ends. The fractions have a positive sum.\<close>

definition pivots :: "real list \<Rightarrow> nat \<Rightarrow> int list" where
  "pivots fractions numel =
     (map (\<lambda>c. \<lfloor>c / sum_list fractions * of_nat numel\<rfloor>) (cumsum 0 fractions))[length fractions - 1 := int numel]"

text \<open>The inner loop: move on while the part ends behind the share of the peer, noting the intersections.\<close>

function overlaps :: "int list \<Rightarrow> int \<Rightarrow> nat \<Rightarrow> int list \<Rightarrow> error + nat \<times> int list" where
  "overlaps pv ends k acc =
     (if length pv \<le> k then Inl IndexError
      else if pv ! k < ends then
        (if length pv \<le> Suc k then Inl IndexError
         else overlaps pv ends (Suc k) (acc @ [min ends (pv ! Suc k) - pv ! k]))
      else Inr (k, acc))"
  by pat_completeness auto
termination by (relation "measure (\<lambda>(pv, ends, k, acc). length pv - k)") auto

declare overlaps.simps [simp del]

fun argmax_from :: "nat \<Rightarrow> nat \<times> int \<Rightarrow> int list \<Rightarrow> nat" where
  "argmax_from i (b, m) [] = b"
| "argmax_from i (b, m) (x # xs) = (if m < x then argmax_from (Suc i) (i, x) xs else argmax_from (Suc i) (b, m) xs)"

fun argmax :: "int list \<Rightarrow> nat" where
  "argmax [] = 0"
| "argmax (x # xs) = argmax_from 1 (0, x) xs"

text \<open>The peer of one part that starts at \<open>start\<close>, and the peer reached.\<close>

definition place :: "int list \<Rightarrow> nat \<Rightarrow> int \<Rightarrow> int \<Rightarrow> error + nat \<times> nat" where
  "place pv k start len =
     (if length pv \<le> k then Inl IndexError
      else if pv ! k < start + len then
        (case overlaps pv (start + len) k [pv ! k - start] of
           Inl e \<Rightarrow> Inl e
         | Inr (k1, shares) \<Rightarrow> Inr (k + argmax shares, k1))
      else Inr (k, k))"

fun place_all :: "int list \<Rightarrow> nat \<Rightarrow> int \<Rightarrow> part list \<Rightarrow> error + nat list" where
  "place_all pv k start [] = Inr []"
| "place_all pv k start (p # ps) =
     (case place pv k start (int (length (fst p))) of
        Inl e \<Rightarrow> Inl e
      | Inr (j, k1) \<Rightarrow>
          (case place_all pv k1 (start + int (length (fst p))) ps of Inl e \<Rightarrow> Inl e | Inr js \<Rightarrow> Inr (j # js)))"

section \<open>The container\<close>

datatype failure_reason = SENDER_TIMEOUT | REDUCER_TIMEOUT | SENDER_UNRESPONSIVE | CONNECTION_ERROR | PROTOCOL_VIOLATION
  | INTERNAL_ERROR | CANCELLED | BAD_GROUP_ID | UNKNOWN_REASON

record container =
  tc_tensors :: "real list list"
  tc_peers :: "peer list"
  tc_deltas :: bool
  tc_inputs :: "part list list"
  tc_outputs :: "real list list list"
  tc_inputs_consumed :: "bool list"
  tc_registered :: "nat list"
  tc_outputs_consumed :: bool
  tc_failures :: "(peer, nat) dict"
  tc_reasons :: "(peer, failure_reason) dict"
  tc_failed_size :: nat
  tc_by_tensor :: "nat list"
  tc_by_peer :: "nat list"
  tc_finished :: bool

definition of_peer :: "nat list \<Rightarrow> part list \<Rightarrow> nat \<Rightarrow> part list" where
  "of_peer js ps j = map snd (filter (\<lambda>w. fst w = j) (zip js ps))"

definition container_new :: "(real list \<times> real) list \<Rightarrow> real list \<Rightarrow> peer list \<Rightarrow> real \<Rightarrow> bool \<Rightarrow> error + container" where
  "container_new tensors fractions peers part_bytes deltas =
     (let group = length fractions;
          numel = sum_list (map (length \<circ> fst) tensors)
      in if group = 0 then Inl IndexError
         else
           case all_parts part_bytes 0 tensors of
             Inl e \<Rightarrow> Inl e
           | Inr pss \<Rightarrow>
               (case place_all (pivots fractions numel) 0 0 (concat pss) of
                  Inl e \<Rightarrow> Inl e
                | Inr js \<Rightarrow>
                    let inputs = map (of_peer js (concat pss)) [0..<group]
                    in Inr \<lparr>tc_tensors = map fst tensors, tc_peers = peers, tc_deltas = deltas, tc_inputs = inputs,
                         tc_outputs = replicate group [], tc_inputs_consumed = replicate group False,
                         tc_registered = replicate group 0, tc_outputs_consumed = False, tc_failures = [], tc_reasons = [],
                         tc_failed_size = 0, tc_by_tensor = map length pss, tc_by_peer = map length inputs,
                         tc_finished = False\<rparr>))"

text \<open>Reading the parts for a peer, for the local reducer or for the network, happens once.\<close>

definition input_parts_for :: "nat \<Rightarrow> container \<Rightarrow> error + part list \<times> container" where
  "input_parts_for j c =
     (if tc_inputs_consumed c ! j then Inl AssertionError
      else Inr (tc_inputs c ! j, c\<lparr>tc_inputs_consumed := (tc_inputs_consumed c)[j := True]\<rparr>))"

definition register_processed_part :: "nat \<Rightarrow> nat \<Rightarrow> real list \<Rightarrow> container \<Rightarrow> error + container" where
  "register_processed_part j i part c =
     (if i \<noteq> tc_registered c ! j then Inl ValueError
      else Inr (c\<lparr>tc_outputs := (tc_outputs c)[j := tc_outputs c ! j @ [part]],
                 tc_registered := (tc_registered c)[j := Suc (tc_registered c ! j)]\<rparr>))"

text \<open>The part that stands for one a failed peer did not answer: our own, or no difference.\<close>

definition own_part :: "bool \<Rightarrow> part \<Rightarrow> real list" where
  "own_part deltas p = (if deltas then replicate (length (fst p)) 0 else fst p)"

fun register_own :: "nat \<Rightarrow> nat list \<Rightarrow> container \<Rightarrow> error + container" where
  "register_own j [] c = Inr c"
| "register_own j (i # is) c =
     (if length (tc_inputs c ! j) \<le> i then Inl IndexError
      else
        let own = own_part (tc_deltas c) (tc_inputs c ! j ! i); pid = tc_peers c ! j
        in case register_processed_part j i own c of
             Inl e \<Rightarrow> Inl e
           | Inr c1 \<Rightarrow>
               register_own j is (c1\<lparr>tc_failures := dict_set pid (case dict_get (tc_failures c1) pid of None \<Rightarrow> 1 | Some n \<Rightarrow> Suc n) (tc_failures c1),
                 tc_failed_size := tc_failed_size c1 + length own\<rparr>))"

definition register_failed_reducer :: "nat \<Rightarrow> failure_reason \<Rightarrow> container \<Rightarrow> error + container" where
  "register_failed_reducer j reason c =
     register_own j [tc_registered c ! j..<tc_by_peer c ! j]
       (c\<lparr>tc_reasons := dict_set (tc_peers c ! j) reason (tc_reasons c)\<rparr>)"

text \<open>
  \<open>iterate_output_tensors\<close>: the inner loop collects the parts of one tensor from the queues, moving on to the next peer
  when all parts of one are read; it waits (\<open>None\<close>) when the next part is not there.
\<close>

type_synonym out_queues = "real list list list"

function take_parts :: "nat list \<Rightarrow> nat \<Rightarrow> nat \<Rightarrow> nat \<Rightarrow> out_queues \<Rightarrow> real list list
    \<Rightarrow> (error + real list list \<times> nat \<times> nat \<times> out_queues) option" where
  "take_parts by_peer want j seen queues acc =
     (if want \<le> length acc then Some (Inr (acc, j, seen, queues))
      else if length by_peer \<le> j then Some (Inl IndexError)
      else if by_peer ! j \<le> seen then take_parts by_peer want (Suc j) 0 queues acc
      else
        case queues ! j of
          [] \<Rightarrow> None
        | p # rest \<Rightarrow> take_parts by_peer want j (Suc seen) (queues[j := rest]) (acc @ [p]))"
  by pat_completeness auto
termination
  by (relation "measures [\<lambda>(by_peer, want, j, seen, queues, acc). length by_peer - j,
      \<lambda>(by_peer, want, j, seen, queues, acc). want - length acc]") auto

declare take_parts.simps [simp del]

text \<open>The tensors it yields before it waits or ends, and whether it ended; \<open>reshape\<close> wants the number of values of the tensor.\<close>

fun output_tensors :: "nat list \<Rightarrow> (nat \<times> nat) list \<Rightarrow> nat \<Rightarrow> nat \<Rightarrow> out_queues \<Rightarrow> error + real list list \<times> bool" where
  "output_tensors by_peer [] j seen queues = Inr ([], True)"
| "output_tensors by_peer ((want, numel) # rest) j seen queues =
     (case take_parts by_peer want j seen queues [] of
        None \<Rightarrow> Inr ([], False)
      | Some (Inl e) \<Rightarrow> Inl e
      | Some (Inr (ps, j1, seen1, queues1)) \<Rightarrow>
          if length (concat ps) \<noteq> numel then Inl RuntimeError
          else (case output_tensors by_peer rest j1 seen1 queues1 of
             Inl e \<Rightarrow> Inl e
           | Inr (ts, whole) \<Rightarrow> Inr (concat ps # ts, whole)))"

definition iterate_output_tensors :: "container \<Rightarrow> error + real list list \<times> bool" where
  "iterate_output_tensors c =
     (if tc_outputs_consumed c then Inl AssertionError
      else output_tensors (tc_by_peer c) (zip (tc_by_tensor c) (map length (tc_tensors c))) 0 0 (tc_outputs c))"

definition container_finalize :: "container \<Rightarrow> container" where
  "container_finalize c =
     (if tc_finished c then c
      else c\<lparr>tc_inputs_consumed := map (\<lambda>_. True) (tc_inputs_consumed c), tc_inputs := map (\<lambda>_. []) (tc_inputs c),
             tc_outputs := map (\<lambda>_. []) (tc_outputs c), tc_outputs_consumed := True, tc_finished := True\<rparr>)"

text \<open>
  One peer's stream of answers (\<open>_communicate_with_peer\<close>, core/all_reduce/ar_runner.py): each is registered under
  the next number; a failure of the stream, or another number of answers than parts, is made up for.
\<close>

fun register_answers :: "nat \<Rightarrow> nat \<Rightarrow> real list list \<Rightarrow> container \<Rightarrow> bool \<times> container" where
  "register_answers j i [] c = (True, c)"
| "register_answers j i (a # as) c =
     (case register_processed_part j i a c of
        Inl e \<Rightarrow> (False, c)
      | Inr c1 \<Rightarrow> register_answers j (Suc i) as c1)"

definition communicate_with :: "nat \<Rightarrow> real list list \<times> failure_reason option \<Rightarrow> container \<Rightarrow> error + container" where
  "communicate_with j outcome c =
     (case register_answers j 0 (fst outcome) c of
        (False, c1) \<Rightarrow> register_failed_reducer j UNKNOWN_REASON c1
      | (True, c1) \<Rightarrow>
          (case snd outcome of
             Some reason \<Rightarrow> register_failed_reducer j reason c1
           | None \<Rightarrow>
               if length (fst outcome) \<noteq> tc_by_peer c1 ! j then register_failed_reducer j UNKNOWN_REASON c1
               else Inr c1))"

text \<open>The streams of several peers, one after the other: each works on its own entries of the container.\<close>

fun communicate_all :: "(nat \<Rightarrow> real list list \<times> failure_reason option) \<Rightarrow> nat list \<Rightarrow> container \<Rightarrow> error + container" where
  "communicate_all outcomes [] c = Inr c"
| "communicate_all outcomes (j # js) c =
     (case communicate_with j (outcomes j) c of
        Inl e \<Rightarrow> Inl e
      | Inr c1 \<Rightarrow> communicate_all outcomes js c1)"

section \<open>The reducer\<close>

text \<open>\<open>rd_failed_after\<close> is \<open>None\<close> for infinity; \<open>rd_results\<close> holds the averages the futures of the parts were set to,
  \<open>None\<close> for a division by the weight 0. The accumulator is deleted at the end.\<close>

datatype part_future = Pending | Resolved | CancelledFuture

datatype reducer_error = InvalidPart | ShapeMismatch | AccumulatorDeleted | InvalidFutureState | Terminated | InvalidCount

record reducer =
  rd_sizes :: "nat list"
  rd_senders :: nat
  rd_current :: int
  rd_accumulated_from :: nat
  rd_accumulator :: "real list"
  rd_denominator :: real
  rd_future :: part_future
  rd_received :: "nat list"
  rd_failed_after :: "nat option list"
  rd_num_current :: nat
  rd_finished :: bool
  rd_results :: "real list option list"

definition rd_finalize :: "reducer \<Rightarrow> reducer" where
  "rd_finalize r =
     (if rd_finished r then r
      else r\<lparr>rd_future := (if rd_future r = Pending then CancelledFuture else rd_future r), rd_finished := True\<rparr>)"

definition still_sends :: "nat \<Rightarrow> nat option \<Rightarrow> bool" where
  "still_sends i f = (case f of None \<Rightarrow> True | Some n \<Rightarrow> i < n)"

text \<open>\<open>reset_accumulators\<close>: the next part, or the end. An operation gives the exception it ends with, if any, and the state.\<close>

type_synonym reducer_outcome = "reducer_error option \<times> reducer"

definition rd_reset :: "reducer \<Rightarrow> reducer_outcome" where
  "rd_reset r =
     (if \<not> (rd_accumulated_from r = rd_num_current r \<or> rd_current r = -1) then (Some InvalidCount, r)
      else if int (length (rd_sizes r)) - 1 \<le> rd_current r then (None, rd_finalize r)
      else
        let i = nat (rd_current r + 1)
        in (None, r\<lparr>rd_current := rd_current r + 1, rd_accumulated_from := 0, rd_future := Pending,
             rd_num_current := length (filter (still_sends i) (rd_failed_after r)),
             rd_accumulator := replicate (rd_sizes r ! i) 0, rd_denominator := 0\<rparr>))"

definition reducer_new :: "nat list \<Rightarrow> nat \<Rightarrow> reducer_outcome" where
  "reducer_new sizes senders =
     rd_reset \<lparr>rd_sizes = sizes, rd_senders = senders, rd_current = -1, rd_accumulated_from = 0, rd_accumulator = [],
       rd_denominator = 0, rd_future = Pending, rd_received = replicate senders 0,
       rd_failed_after = replicate senders None, rd_num_current = senders, rd_finished = False, rd_results = []\<rparr>"

text \<open>The average of the part is computed before the future is set.\<close>

definition rd_check_finished :: "reducer \<Rightarrow> reducer_outcome" where
  "rd_check_finished r =
     (if rd_num_current r < rd_accumulated_from r then (Some InvalidCount, r)
      else if rd_accumulated_from r = rd_num_current r then
        (let average = (if rd_denominator r = 0 then None else Some (map (\<lambda>x. x / rd_denominator r) (rd_accumulator r)));
             r1 = r\<lparr>rd_accumulator := map (\<lambda>x. x / rd_denominator r) (rd_accumulator r)\<rparr>
         in if rd_future r \<noteq> Pending then (Some InvalidFutureState, r1)
            else rd_reset (r1\<lparr>rd_future := Resolved, rd_results := rd_results r @ [average]\<rparr>))
      else (None, r))"

text \<open>\<open>add_\<close> with a factor: one value is added to all, any other length must be the same.\<close>

definition add_weighted :: "real \<Rightarrow> real list \<Rightarrow> real list \<Rightarrow> reducer_error + real list" where
  "add_weighted weight part acc =
     (if length part = length acc then Inr (map2 (\<lambda>a x. a + weight * x) acc part)
      else if length part = 1 then Inr (map (\<lambda>a. a + weight * hd part) acc)
      else Inl ShapeMismatch)"

text \<open>A part arrives: it may have to wait for earlier parts, be refused, or be added; whoever sent an added part waits for
  the future of the part.\<close>

datatype arrival = Waits reducer | Refused reducer_error reducer | Banned reducer | Added reducer

definition accumulate_part :: "nat \<Rightarrow> nat \<Rightarrow> real list \<Rightarrow> real \<Rightarrow> reducer \<Rightarrow> arrival" where
  "accumulate_part s i part weight r =
     (if rd_senders r \<le> s \<or> length (rd_sizes r) \<le> i then Refused InvalidPart r
      else
        let r1 = r\<lparr>rd_received := (rd_received r)[s := Suc (rd_received r ! s)]\<rparr>
        in if rd_current r < int i then (if rd_finished r then Refused Terminated r1 else Waits r1)
           else if rd_failed_after r ! s \<noteq> None then Banned r1
           else if int i \<noteq> rd_current r then Refused InvalidPart r1
           else if rd_finished r then Refused AccumulatorDeleted r1
           else
             case add_weighted weight part (rd_accumulator r1) of
               Inl e \<Rightarrow> Refused e r1
             | Inr acc \<Rightarrow>
                 let r2 = r1\<lparr>rd_accumulator := acc, rd_accumulated_from := Suc (rd_accumulated_from r1),
                            rd_denominator := rd_denominator r1 + weight\<rparr>
                 in case rd_check_finished r2 of (Some e, r3) \<Rightarrow> Refused e r3 | (None, r3) \<Rightarrow> Added r3)"

definition on_sender_failed :: "nat \<Rightarrow> reducer \<Rightarrow> reducer_outcome" where
  "on_sender_failed s r =
     (let r1 = r\<lparr>rd_failed_after := (rd_failed_after r)[s := Some (rd_received r ! s)]\<rparr>
      in if rd_finished r then (None, r1)
         else if rd_current r1 = int (rd_received r ! s)
         then rd_check_finished (r1\<lparr>rd_num_current := rd_num_current r1 - 1\<rparr>)
         else (None, r1))"

text \<open>The task that waits for the future of the current part is cancelled: so is the future, which is the same for all.\<close>

definition cancel_waiter :: "reducer \<Rightarrow> reducer" where
  "cancel_waiter r = (if rd_future r = Pending then r\<lparr>rd_future := CancelledFuture\<rparr> else r)"

section \<open>The rounds of a reducer\<close>

text \<open>
  What happens at one reducer: a sender's next part is added (the streams are read one part at a time, so a part is
  offered when the one before has its average), is refused with an exception, or the sender is banned, which happens
  once.
\<close>

datatype round_event = Adds nat "real list" real | Refuses nat "real list" real | Bans nat

inductive rd_step :: "reducer \<Rightarrow> round_event \<Rightarrow> reducer \<Rightarrow> bool" where
  adds: "accumulate_part s (rd_received r ! s) part weight r = Added r' \<Longrightarrow> rd_step r (Adds s part weight) r'"
| refuses: "accumulate_part s (rd_received r ! s) part weight r = Refused e r' \<Longrightarrow> rd_step r (Refuses s part weight) r'"
| bans: "s < rd_senders r \<Longrightarrow> rd_failed_after r ! s = None \<Longrightarrow> on_sender_failed s r = (e, r') \<Longrightarrow> rd_step r (Bans s) r'"

inductive rd_run :: "reducer \<Rightarrow> round_event list \<Rightarrow> reducer \<Rightarrow> bool" where
  rd_start: "rd_run r [] r"
| rd_more: "rd_run r es r1 \<Longrightarrow> rd_step r1 e r2 \<Longrightarrow> rd_run r (es @ [e]) r2"

inductive_cases rd_stepE: "rd_step r e r'"
inductive_simps rd_run_nil: "rd_run r [] r'"

end
