(* ===== verification/AllReduceProps.thy ===== *)
theory AllReduceProps
  imports AllReduce
begin

text \<open>
  The parts of the peers, in the order of the peers, are the parts of the tensors in order; each part overlaps the
  share of its peer; the answers are put back where the parts came from; and what a reducer answers is the weighted
  average of the senders that sent the part. Together: the peers agree on the average of their tensors.
\<close>

section \<open>The assignment of parts\<close>

lemma argmax_from_best:
  "b < i \<Longrightarrow> argmax_from i (b, m) xs < i + length xs
    \<and> (argmax_from i (b, m) xs = b \<and> (\<forall>x \<in> set xs. x \<le> m)
       \<or> i \<le> argmax_from i (b, m) xs \<and> m < xs ! (argmax_from i (b, m) xs - i)
          \<and> (\<forall>x \<in> set xs. x \<le> xs ! (argmax_from i (b, m) xs - i)))"
proof (induction xs arbitrary: i b m)
  case (Cons x xs)
  show ?case
  proof (cases "m < x")
    case True
    have IH: "argmax_from (Suc i) (i, x) xs < Suc i + length xs
        \<and> (argmax_from (Suc i) (i, x) xs = i \<and> (\<forall>y \<in> set xs. y \<le> x)
         \<or> Suc i \<le> argmax_from (Suc i) (i, x) xs \<and> x < xs ! (argmax_from (Suc i) (i, x) xs - Suc i)
           \<and> (\<forall>y \<in> set xs. y \<le> xs ! (argmax_from (Suc i) (i, x) xs - Suc i)))"
      using Cons.IH [of i "Suc i" x] by simp
    show ?thesis using True IH by (auto simp: nth_Cons' Suc_diff_le)
  next
    case False
    have IH: "argmax_from (Suc i) (b, m) xs < Suc i + length xs
        \<and> (argmax_from (Suc i) (b, m) xs = b \<and> (\<forall>y \<in> set xs. y \<le> m)
         \<or> Suc i \<le> argmax_from (Suc i) (b, m) xs \<and> m < xs ! (argmax_from (Suc i) (b, m) xs - Suc i)
           \<and> (\<forall>y \<in> set xs. y \<le> xs ! (argmax_from (Suc i) (b, m) xs - Suc i)))"
      using Cons.IH [of b "Suc i" m] Cons.prems by simp
    show ?thesis using False IH by (auto simp: nth_Cons')
  qed
qed simp

lemma argmax_best:
  assumes "xs \<noteq> []"
  shows "argmax xs < length xs" and "\<forall>x \<in> set xs. x \<le> xs ! argmax xs"
proof -
  obtain x ys where xs: "xs = x # ys" using assms by (cases xs) auto
  show "argmax xs < length xs" "\<forall>x \<in> set xs. x \<le> xs ! argmax xs"
    using argmax_from_best [of 0 1 x ys] by (auto simp: xs nth_Cons')
qed

text \<open>The pivots of a group: monotone, from 0 on, the last one is all.\<close>

definition pivots_ok :: "int list \<Rightarrow> int \<Rightarrow> bool" where
  "pivots_ok pv n \<longleftrightarrow> pv \<noteq> [] \<and> sorted pv \<and> 0 \<le> hd pv \<and> last pv = n"

definition share_start :: "int list \<Rightarrow> nat \<Rightarrow> int" where
  "share_start pv j = (if j = 0 then 0 else pv ! (j - 1))"

lemma overlaps_result:
  assumes "k < length pv" "ends \<le> last pv"
  obtains k1 where "overlaps pv ends k acc = Inr (k1, acc @ map (\<lambda>i. min ends (pv ! Suc i) - pv ! i) [k..<k1])"
    "k \<le> k1" "k1 < length pv" "ends \<le> pv ! k1" "\<forall>i. k \<le> i \<and> i < k1 \<longrightarrow> pv ! i < ends"
proof -
  have "\<exists>k1. overlaps pv ends k acc = Inr (k1, acc @ map (\<lambda>i. min ends (pv ! Suc i) - pv ! i) [k..<k1])
      \<and> k \<le> k1 \<and> k1 < length pv \<and> ends \<le> pv ! k1 \<and> (\<forall>i. k \<le> i \<and> i < k1 \<longrightarrow> pv ! i < ends)"
    using assms
  proof (induction pv ends k acc rule: overlaps.induct)
    case (1 pv ends k acc)
    show ?case
    proof (cases "pv ! k < ends")
      case False
      then show ?thesis using "1.prems" by (intro exI [of _ k]) (simp add: overlaps.simps [of pv ends k acc])
    next
      case True
      have "k \<noteq> length pv - 1" using True "1.prems" last_conv_nth [of pv] by fastforce
      then have k: "Suc k < length pv" using "1.prems" by simp
      obtain k1 where IH: "overlaps pv ends (Suc k) (acc @ [min ends (pv ! Suc k) - pv ! k])
          = Inr (k1, (acc @ [min ends (pv ! Suc k) - pv ! k]) @ map (\<lambda>i. min ends (pv ! Suc i) - pv ! i) [Suc k..<k1])"
        "Suc k \<le> k1" "k1 < length pv" "ends \<le> pv ! k1" "\<forall>i. Suc k \<le> i \<and> i < k1 \<longrightarrow> pv ! i < ends"
        using "1.IH" [OF _ True _ k "1.prems"(2)] k by auto
      have "overlaps pv ends k acc = overlaps pv ends (Suc k) (acc @ [min ends (pv ! Suc k) - pv ! k])"
        using k True by (subst overlaps.simps) simp
      moreover have "[k..<k1] = k # [Suc k..<k1]" using IH(2) by (simp add: upt_conv_Cons)
      moreover have "\<forall>i. k \<le> i \<and> i < k1 \<longrightarrow> pv ! i < ends"
        using IH(5) True by (metis Suc_leI le_neq_implies_less)
      ultimately show ?thesis using IH by (intro exI [of _ k1]) simp
    qed
  qed
  then show ?thesis using that by blast
qed

text \<open>The intersections add up to the part.\<close>

lemma overlap_sum:
  assumes "k \<le> k1" "\<forall>i. k \<le> i \<and> i < k1 \<longrightarrow> pv ! i < ends" "ends \<le> (pv ! k1 :: int)"
  shows "(\<Sum>i \<leftarrow> [k..<k1]. min ends (pv ! Suc i) - pv ! i) = (if k < k1 then ends - pv ! k else 0)"
  using assms
proof (induction "k1 - k" arbitrary: k)
  case (Suc d)
  then have k: "k < k1" by simp
  have "(\<Sum>i \<leftarrow> [Suc k..<k1]. min ends (pv ! Suc i) - pv ! i) = (if Suc k < k1 then ends - pv ! Suc k else 0)"
    using Suc.hyps(2) Suc.prems k by (intro Suc.hyps(1)) auto
  moreover have "min ends (pv ! Suc k) = (if Suc k < k1 then pv ! Suc k else ends)"
  proof (cases "Suc k < k1")
    case True
    then have "pv ! Suc k < ends" using Suc.prems(2) by simp
    then have "min ends (pv ! Suc k) = pv ! Suc k" by linarith
    then show ?thesis using True by simp
  next
    case False
    then have "k1 = Suc k" using k by simp
    then show ?thesis using Suc.prems(3) by simp
  qed
  ultimately show ?case using k by (simp add: upt_conv_Cons)
qed simp

lemma sum_list_pos: "0 < sum_list xs \<Longrightarrow> \<exists>x \<in> set xs. 0 < (x :: int)"
proof (rule ccontr)
  assume "0 < sum_list xs" and "\<not> (\<exists>x \<in> set xs. 0 < x)"
  then show False using sum_list_nonpos [of xs] by force
qed

text \<open>One part: the peer it goes to, between the peer before and the peer reached; a part that has values overlaps the
  share of its peer.\<close>

lemma place_result:
  assumes "sorted pv" and "k < length pv" "start + len \<le> last pv" "share_start pv k \<le> start" "start \<le> pv ! k" "0 \<le> len"
  obtains j k1 where "place pv k start len = Inr (j, k1)" "k \<le> j" "j \<le> k1" "k1 < length pv"
    "share_start pv k1 \<le> start + len" "start + len \<le> pv ! k1"
    "0 < len \<Longrightarrow> share_start pv j < start + len \<and> start < pv ! j \<and> share_start pv j < pv ! j"
proof (cases "pv ! k < start + len")
  case False
  show ?thesis
    by (rule that [of k k]) (use False assms in \<open>auto simp: place_def\<close>)
next
  case True
  let ?e = "start + len"
  obtain k1 where o0: "overlaps pv ?e k [pv ! k - start] = Inr (k1, [pv ! k - start] @ map (\<lambda>i. min ?e (pv ! Suc i) - pv ! i) [k..<k1])"
    and k1: "k \<le> k1" "k1 < length pv" "?e \<le> pv ! k1" "\<forall>i. k \<le> i \<and> i < k1 \<longrightarrow> pv ! i < ?e"
    by (rule overlaps_result [OF assms(2,3), of "[pv ! k - start]"])
  have o: "overlaps pv ?e k [pv ! k - start] = Inr (k1, (pv ! k - start) # map (\<lambda>i. min ?e (pv ! Suc i) - pv ! i) [k..<k1])"
    using o0 by simp
  have lt: "k < k1" using True k1 by (metis le_neq_implies_less not_less)
  let ?xs = "(pv ! k - start) # map (\<lambda>i. min ?e (pv ! Suc i) - pv ! i) [k..<k1]"
  let ?a = "argmax ?xs"
  have a: "?a < length ?xs" "\<forall>x \<in> set ?xs. x \<le> ?xs ! ?a" using argmax_best [of ?xs] by auto
  have eq: "place pv k start len = Inr (k + ?a, k1)" using True o assms(2) by (simp add: place_def)
  have s1: "share_start pv k1 \<le> ?e" using lt k1(4) by (simp add: share_start_def less_imp_le)
  have share: "share_start pv (k + ?a) < ?e \<and> start < pv ! (k + ?a) \<and> share_start pv (k + ?a) < pv ! (k + ?a)" if "0 < len"
  proof -
    have "sum_list ?xs = len" using overlap_sum [OF k1(1,4,3)] lt by simp
    then have "\<exists>x \<in> set ?xs. 0 < x" using that sum_list_pos [of ?xs] by simp
    then have pos: "0 < ?xs ! ?a" using a(2) by fastforce
    show ?thesis
    proof (cases "?a = 0")
      case True
      then show ?thesis using pos assms(4) that by simp
    next
      case False
      then obtain i where i: "?a = Suc i" by (cases ?a) auto
      then have "i < k1 - k" using a(1) by (simp del: argmax.simps)
      then have "?xs ! ?a = min ?e (pv ! Suc (k + i)) - pv ! (k + i)" using i by simp
      then have "pv ! (k + i) < ?e" "pv ! (k + i) < pv ! Suc (k + i)" using pos by linarith+
      moreover have "k + i < length pv" using \<open>i < k1 - k\<close> k1(2) by simp
      then have "start \<le> pv ! (k + i)"
        using assms(5) sorted_nth_mono [OF assms(1), of k "k + i"] by simp
      ultimately show ?thesis using i by (simp add: share_start_def)
    qed
  qed
  have "length ?xs = Suc (k1 - k)" by simp
  then have "k + ?a \<le> k1" using a(1) k1(1) by linarith
  then show ?thesis by (intro that [OF eq _ _ k1(2) s1 k1(3) share]) simp_all
qed

text \<open>Part number \<open>i\<close> of a list of parts that starts at \<open>start\<close>, against the share of its peer.\<close>

definition part_start :: "int \<Rightarrow> part list \<Rightarrow> nat \<Rightarrow> int" where
  "part_start start ps i = start + int (sum_list (map (length \<circ> fst) (take i ps)))"

definition overlaps_share :: "int list \<Rightarrow> int \<Rightarrow> part list \<Rightarrow> nat list \<Rightarrow> nat \<Rightarrow> bool" where
  "overlaps_share pv start ps js i \<longleftrightarrow>
     share_start pv (js ! i) < part_start start ps i + int (length (fst (ps ! i)))
     \<and> part_start start ps i < pv ! (js ! i) \<and> share_start pv (js ! i) < pv ! (js ! i)"

lemma part_start_Cons [simp]:
  "part_start start (p # ps) 0 = start"
  "part_start start (p # ps) (Suc i) = part_start (start + int (length (fst p))) ps i"
  by (simp_all add: part_start_def)

lemma place_all_result:
  assumes "sorted pv" "k < length pv" "start + int (sum_list (map (length \<circ> fst) ps)) \<le> last pv"
    "share_start pv k \<le> start" "start \<le> pv ! k"
  shows "\<exists>js. place_all pv k start ps = Inr js \<and> length js = length ps \<and> sorted js
    \<and> (\<forall>j \<in> set js. k \<le> j \<and> j < length pv)
    \<and> (\<forall>i < length ps. fst (ps ! i) \<noteq> [] \<longrightarrow> overlaps_share pv start ps js i)"
  using assms(2-)
proof (induction ps arbitrary: k start)
  case (Cons p ps)
  let ?len = "int (length (fst p))"
  have fin: "start + ?len + int (sum_list (map (length \<circ> fst) ps)) \<le> last pv"
    using Cons.prems(2) by (simp add: comp_def)
  then have "start + ?len \<le> last pv" by linarith
  then obtain j k1 where p: "place pv k start ?len = Inr (j, k1)" "k \<le> j" "j \<le> k1" "k1 < length pv"
    "share_start pv k1 \<le> start + ?len" "start + ?len \<le> pv ! k1"
    "0 < ?len \<Longrightarrow> share_start pv j < start + ?len \<and> start < pv ! j \<and> share_start pv j < pv ! j"
    using place_result [OF assms(1) Cons.prems(1) _ Cons.prems(3,4)] by (metis of_nat_0_le_iff)
  obtain js where js: "place_all pv k1 (start + ?len) ps = Inr js" "length js = length ps" "sorted js"
    "\<forall>j \<in> set js. k1 \<le> j \<and> j < length pv"
    "\<forall>i < length ps. fst (ps ! i) \<noteq> [] \<longrightarrow> overlaps_share pv (start + ?len) ps js i"
    using Cons.IH [OF p(4) fin p(5,6)] by blast
  have "overlaps_share pv start (p # ps) (j # js) i" if "i < length (p # ps)" "fst ((p # ps) ! i) \<noteq> []" for i
    using that p(7) js(5) by (cases i) (auto simp: overlaps_share_def)
  moreover have "sorted (j # js)" using js(3,4) p(3) by auto
  ultimately show ?case using p(1-4) js(1,2,4) by (intro exI [of _ "j # js"]) auto
qed simp

text \<open>Sorted assignments cut a list without changing its order.\<close>

lemma filter_below_Suc:
  "sorted (map f xs) \<Longrightarrow> filter (\<lambda>x. f x < n) xs @ filter (\<lambda>x. f x = n) xs = filter (\<lambda>x. f x < Suc n) xs"
proof (induction xs)
  case (Cons x xs)
  show ?case
  proof (cases "f x < n")
    case False
    then have "filter (\<lambda>x. f x < n) xs = []" using Cons.prems by (auto simp: filter_empty_conv)
    then show ?thesis using Cons False by auto
  qed (use Cons in auto)
qed simp

lemma concat_filter_sorted:
  "sorted (map f xs) \<Longrightarrow> concat (map (\<lambda>j. filter (\<lambda>x. f x = j) xs) [0..<n]) = filter (\<lambda>x. f x < n) xs"
  by (induction n) (simp_all add: filter_below_Suc)

lemma of_peer_concat:
  assumes "sorted js" "length js = length ps" "\<forall>j \<in> set js. j < n"
  shows "concat (map (of_peer js ps) [0..<n]) = ps"
proof -
  have f: "map fst (zip js ps) = js" "map snd (zip js ps) = ps" using assms(2) by simp_all
  have "concat (map (of_peer js ps) [0..<n]) = map snd (concat (map (\<lambda>j. filter (\<lambda>x. fst x = j) (zip js ps)) [0..<n]))"
    unfolding map_concat map_map by (rule arg_cong [where f = concat]) (simp add: of_peer_def)
  also have "\<dots> = map snd (filter (\<lambda>x. fst x < n) (zip js ps))"
    using assms(1) f by (simp add: concat_filter_sorted)
  also have "filter (\<lambda>x. fst x < n) (zip js ps) = zip js ps"
    using assms(3) by (auto simp: filter_id_conv dest: set_zip_leftD)
  finally show ?thesis using f by simp
qed

text \<open>The pivots of fractions that are not negative and not all zero.\<close>

lemma cumsum_sorted: "\<forall>x \<in> set xs. 0 \<le> x \<Longrightarrow> sorted (cumsum a xs) \<and> (\<forall>c \<in> set (cumsum a xs). a \<le> c \<and> c \<le> a + sum_list xs)"
proof (induction xs arbitrary: a)
  case (Cons x xs)
  have "0 \<le> sum_list xs" using Cons.prems by (intro sum_list_nonneg) auto
  then show ?case using Cons.IH [of "a + x"] Cons.prems by fastforce
qed simp

lemma length_cumsum [simp]: "length (cumsum a xs) = length xs"
  by (induction xs arbitrary: a) simp_all

lemma sorted_update_last:
  "sorted xs \<Longrightarrow> \<forall>x \<in> set xs. x \<le> y \<Longrightarrow> sorted (xs[length xs - 1 := y])"
  by (induction xs rule: rev_induct) (auto simp: sorted_append list_update_append)

lemma pivots_are_ok:
  assumes "fractions \<noteq> []" "\<forall>x \<in> set fractions. 0 \<le> x" "0 < sum_list fractions"
  shows "pivots_ok (pivots fractions n) (int n)" and "length (pivots fractions n) = length fractions"
proof -
  let ?s = "sum_list fractions"
  let ?ps = "map (\<lambda>c. \<lfloor>c / ?s * of_nat n\<rfloor>) (cumsum 0 fractions)"
  have c: "sorted (cumsum 0 fractions)" "\<forall>c \<in> set (cumsum 0 fractions). 0 \<le> c \<and> c \<le> ?s"
    using cumsum_sorted [OF assms(2), of 0] by auto
  have mono: "\<lfloor>c / ?s * of_nat n\<rfloor> \<le> \<lfloor>d / ?s * of_nat n\<rfloor>" if "c \<le> d" for c d
    using that assms(3) by (intro floor_mono mult_right_mono divide_right_mono) simp_all
  have "sorted ?ps" using c(1) mono by (auto simp: sorted_map intro: sorted_wrt_mono_rel [of _ "(\<le>)"])
  moreover have bound: "\<forall>p \<in> set ?ps. 0 \<le> p \<and> p \<le> int n"
  proof (clarsimp simp: image_iff)
    fix d assume "d \<in> set (cumsum 0 fractions)"
    then have "0 \<le> d" "d \<le> ?s" using c(2) by auto
    then have "0 \<le> d / ?s * n" "\<lfloor>d / ?s * n\<rfloor> \<le> \<lfloor>?s / ?s * n\<rfloor>" using assms(3) mono [of d ?s] by simp_all
    then show "0 \<le> d * real n / ?s \<and> \<lfloor>d * real n / ?s\<rfloor> \<le> int n" using assms(3) by simp
  qed
  ultimately have "sorted (?ps[length ?ps - 1 := int n])" by (intro sorted_update_last) auto
  moreover have ne: "cumsum 0 fractions \<noteq> []" using assms(1) length_cumsum [of 0 fractions] by (metis length_0_conv)
  have "last (pivots fractions n) = int n" "pivots fractions n \<noteq> []"
    using assms(1) ne by (simp_all add: pivots_def last_list_update)
  moreover have "0 \<le> hd (pivots fractions n)"
  proof -
    have "set (pivots fractions n) \<subseteq> insert (int n) (set ?ps)" unfolding pivots_def by (rule set_update_subset_insert)
    then show ?thesis using bound \<open>pivots fractions n \<noteq> []\<close> hd_in_set by (metis insertE of_nat_0_le_iff subsetD)
  qed
  ultimately show "pivots_ok (pivots fractions n) (int n)" by (simp add: pivots_ok_def pivots_def)
  show "length (pivots fractions n) = length fractions" by (simp add: pivots_def)
qed

section \<open>The container\<close>

lemma split_parts_concat [simp]: "concat (split_parts n xs) = xs"
  by (induction n xs rule: split_parts.induct) (subst split_parts.simps, simp)

lemma split_parts_lengths: "length xs = length ys \<Longrightarrow> map length (split_parts n xs) = map length (split_parts n ys)"
proof (induction n xs arbitrary: ys rule: split_parts.induct)
  case (1 n xs)
  show ?case
  proof (cases "n = 0 \<or> length xs \<le> n")
    case True
    then show ?thesis using "1.prems" by (simp add: split_parts.simps [of n])
  next
    case False
    have "map length (split_parts n (drop n xs)) = map length (split_parts n (drop n ys))"
      by (rule "1.IH" [OF False]) (simp add: "1.prems")
    then show ?thesis using False "1.prems" by (simp add: split_parts.simps [of n xs] split_parts.simps [of n ys])
  qed
qed

text \<open>The part size is at least one value of each tensor that has any.\<close>

definition cuttable :: "real \<Rightarrow> (real list \<times> real) list \<Rightarrow> bool" where
  "cuttable part_bytes tensors = list_all (\<lambda>(xs, vb). 0 < vb \<and> (xs \<noteq> [] \<longrightarrow> vb \<le> part_bytes)) tensors"

lemma tensor_parts_result:
  assumes "0 < vb" "xs \<noteq> [] \<longrightarrow> vb \<le> part_bytes"
  obtains ps where "tensor_parts part_bytes i xs vb = Inr ps" "concat (map fst ps) = xs"
    "map fst ps = split_parts (nat \<lfloor>part_bytes / vb\<rfloor>) xs"
proof -
  let ?n = "nat \<lfloor>part_bytes / vb\<rfloor>"
  let ?ps = "map (\<lambda>(k, p). (p, i, k, ?n)) (enumerate 0 (split_parts ?n xs))"
  have n: "?n \<noteq> 0 \<or> xs = []"
  proof (cases "xs = []")
    case False
    then have "1 \<le> part_bytes / vb" using assms by simp
    then have "1 \<le> \<lfloor>part_bytes / vb\<rfloor>" by linarith
    then show ?thesis by linarith
  qed simp
  have fst: "map fst ?ps = split_parts ?n xs"
    by (simp add: enumerate_eq_zip case_prod_unfold comp_def)
  have "tensor_parts part_bytes i xs vb = Inr ?ps"
    using n assms(1) by (auto simp: tensor_parts_def part_size_values_def)
  then show ?thesis using that [of ?ps] fst by simp
qed

lemma all_parts_result:
  "cuttable part_bytes tensors \<Longrightarrow> \<exists>pss. all_parts part_bytes i tensors = Inr pss
    \<and> map (\<lambda>ps. concat (map fst ps)) pss = map fst tensors
    \<and> map (map fst) pss = map (\<lambda>(xs, vb). split_parts (nat \<lfloor>part_bytes / vb\<rfloor>) xs) tensors"
proof (induction tensors arbitrary: i)
  case (Cons t tensors)
  obtain xs vb where t: "t = (xs, vb)" by fastforce
  have vb: "0 < vb" "xs \<noteq> [] \<longrightarrow> vb \<le> part_bytes" and c: "cuttable part_bytes tensors"
    using Cons.prems by (simp_all add: cuttable_def t)
  obtain ps where "tensor_parts part_bytes i xs vb = Inr ps" "concat (map fst ps) = xs"
    "map fst ps = split_parts (nat \<lfloor>part_bytes / vb\<rfloor>) xs"
    by (rule tensor_parts_result [OF vb])
  moreover obtain pss where "all_parts part_bytes (Suc i) tensors = Inr pss"
    "map (\<lambda>ps. concat (map fst ps)) pss = map fst tensors"
    "map (map fst) pss = map (\<lambda>(xs, vb). split_parts (nat \<lfloor>part_bytes / vb\<rfloor>) xs) tensors"
    using Cons.IH [OF c] by blast
  ultimately show ?case by (simp add: t)
qed simp

lemma cumsum_zero:
  "fractions ! j = 0 \<Longrightarrow> 0 < j \<Longrightarrow> j < length fractions \<Longrightarrow> cumsum a fractions ! j = cumsum a fractions ! (j - 1)"
proof (induction fractions arbitrary: j a)
  case (Cons x xs)
  then obtain i where j: "j = Suc i" by (cases j) auto
  show ?case
  proof (cases "i = 0")
    case True
    then show ?thesis using Cons.prems j by (cases xs) auto
  next
    case False
    then show ?thesis using Cons.IH [of i "a + x"] Cons.prems j by (simp add: nth_Cons')
  qed
qed simp

lemma cumsum_last: "xs \<noteq> [] \<Longrightarrow> cumsum a xs ! (length xs - 1) = a + sum_list xs"
proof (induction xs arbitrary: a)
  case (Cons x xs)
  show ?case
  proof (cases "xs = []")
    case False
    then show ?thesis using Cons.IH [of "a + x"] by (simp add: nth_Cons' add.assoc)
  qed simp
qed simp

lemma nth_pivots:
  assumes "j < length fractions" "0 < sum_list fractions"
  shows "pivots fractions n ! j = \<lfloor>cumsum 0 fractions ! j / sum_list fractions * n\<rfloor>"
proof (cases "j = length fractions - 1")
  case True
  then have "cumsum 0 fractions ! j = sum_list fractions" using cumsum_last [of fractions 0] assms(1) by (cases fractions) simp_all
  moreover have "pivots fractions n ! j = int n" using True assms(1) by (simp add: pivots_def)
  ultimately show ?thesis using assms(2) by simp
next
  case False
  then show ?thesis using assms(1) by (simp add: pivots_def)
qed

text \<open>A peer without a fraction has no share.\<close>

lemma no_share:
  assumes "fractions ! j = 0" "j < length fractions" "0 < sum_list fractions"
  shows "share_start (pivots fractions n) j = pivots fractions n ! j"
proof (cases "j = 0")
  case True
  then have "cumsum 0 fractions ! j = 0" using assms(1,2) by (cases fractions) auto
  then show ?thesis using True nth_pivots [OF assms(2,3)] by (simp add: share_start_def)
next
  case False
  then show ?thesis
    using cumsum_zero [OF assms(1) _ assms(2)] nth_pivots [OF assms(2,3)] nth_pivots [of "j - 1" fractions n] assms(2,3)
    by (simp add: share_start_def)
qed

lemma concat_parts: "map (\<lambda>ps. concat (map fst ps)) pss = xss \<Longrightarrow> concat (map fst (concat pss)) = concat xss"
  by (induction pss arbitrary: xss) auto

text \<open>The container of a group, with its parts and their peers.\<close>

lemma container_new_result:
  assumes "fractions \<noteq> []" "\<forall>x \<in> set fractions. 0 \<le> x" "0 < sum_list fractions" "cuttable part_bytes tensors"
  obtains c pss js where "container_new tensors fractions peers part_bytes deltas = Inr c"
    "all_parts part_bytes 0 tensors = Inr pss"
    "map (\<lambda>ps. concat (map fst ps)) pss = map fst tensors"
    "map (map fst) pss = map (\<lambda>(xs, vb). split_parts (nat \<lfloor>part_bytes / vb\<rfloor>) xs) tensors"
    "place_all (pivots fractions (sum_list (map (length \<circ> fst) tensors))) 0 0 (concat pss) = Inr js"
    "length js = length (concat pss)" "sorted js" "\<forall>j \<in> set js. j < length fractions"
    "\<forall>i < length js. fst (concat pss ! i) \<noteq> [] \<longrightarrow>
       overlaps_share (pivots fractions (sum_list (map (length \<circ> fst) tensors))) 0 (concat pss) js i"
    "c = \<lparr>tc_tensors = map fst tensors, tc_peers = peers, tc_deltas = deltas,
       tc_inputs = map (of_peer js (concat pss)) [0..<length fractions],
       tc_outputs = replicate (length fractions) [], tc_inputs_consumed = replicate (length fractions) False,
       tc_registered = replicate (length fractions) 0, tc_outputs_consumed = False, tc_failures = [], tc_reasons = [],
       tc_failed_size = 0, tc_by_tensor = map length pss,
       tc_by_peer = map length (map (of_peer js (concat pss)) [0..<length fractions]), tc_finished = False\<rparr>"
proof -
  let ?n = "sum_list (map (length \<circ> fst) tensors)"
  let ?pv = "pivots fractions ?n"
  obtain pss where pss: "all_parts part_bytes 0 tensors = Inr pss"
    "map (\<lambda>ps. concat (map fst ps)) pss = map fst tensors"
    "map (map fst) pss = map (\<lambda>(xs, vb). split_parts (nat \<lfloor>part_bytes / vb\<rfloor>) xs) tensors"
    using all_parts_result [OF assms(4), of 0] by blast
  have pv: "pivots_ok ?pv (int ?n)" "length ?pv = length fractions" by (rule pivots_are_ok [OF assms(1-3)])+
  have "concat (map fst (concat pss)) = concat (map fst tensors)"
    by (rule concat_parts [OF pss(2)])
  then have "length (concat (map fst (concat pss))) = length (concat (map fst tensors))" by simp
  then have n: "sum_list (map (length \<circ> fst) (concat pss)) = ?n" by (simp add: length_concat comp_def)
  have "0 \<le> ?pv ! 0" using pv(1) unfolding pivots_ok_def by (metis hd_conv_nth)
  then obtain js where js: "place_all ?pv 0 0 (concat pss) = Inr js" "length js = length (concat pss)" "sorted js"
    "\<forall>j \<in> set js. j < length fractions"
    "\<forall>i < length (concat pss). fst (concat pss ! i) \<noteq> [] \<longrightarrow> overlaps_share ?pv 0 (concat pss) js i"
    using place_all_result [of ?pv 0 0 "concat pss"] pv assms(1) n by (auto simp: pivots_ok_def share_start_def)
  show ?thesis by (rule that [OF _ pss js(1-4)]) (use js pss(1) assms(1) in \<open>simp_all add: container_new_def Let_def\<close>)
qed

lemma in_of_peer:
  assumes "p \<in> set (of_peer js ps j)"
  obtains i where "i < length js" "i < length ps" "js ! i = j" "ps ! i = p"
  using assms by (auto simp: of_peer_def in_set_zip)

text \<open>The parts of the peers, in their order, are the tensors in their order, so every value is averaged once, and a
  peer with the fraction 0, a client, is given no value.\<close>

lemma container_parts:
  assumes "fractions \<noteq> []" "\<forall>x \<in> set fractions. 0 \<le> x" "0 < sum_list fractions" "cuttable part_bytes tensors"
  shows "\<exists>c. container_new tensors fractions peers part_bytes deltas = Inr c
    \<and> length (tc_inputs c) = length fractions
    \<and> concat (map fst (concat (tc_inputs c))) = concat (map fst tensors)
    \<and> (\<forall>j < length fractions. fractions ! j = 0 \<longrightarrow> (\<forall>p \<in> set (tc_inputs c ! j). fst p = []))"
proof -
  let ?pv = "pivots fractions (sum_list (map (length \<circ> fst) tensors))"
  obtain c pss js where c: "container_new tensors fractions peers part_bytes deltas = Inr c"
    "map (\<lambda>ps. concat (map fst ps)) pss = map fst tensors"
    "length js = length (concat pss)" "sorted js" "\<forall>j \<in> set js. j < length fractions"
    "\<forall>i < length js. fst (concat pss ! i) \<noteq> [] \<longrightarrow> overlaps_share ?pv 0 (concat pss) js i"
    "tc_inputs c = map (of_peer js (concat pss)) [0..<length fractions]"
    by (rule container_new_result [OF assms, of peers deltas]) simp
  have "concat (tc_inputs c) = concat pss" using of_peer_concat [OF c(4,3,5)] by (simp add: c(7))
  then have "concat (map fst (concat (tc_inputs c))) = concat (map fst tensors)"
    by (simp add: concat_parts [OF c(2)])
  moreover have "fst p = []" if j: "j < length fractions" "fractions ! j = 0" and p: "p \<in> set (tc_inputs c ! j)" for j p
  proof (rule ccontr)
    assume "fst p \<noteq> []"
    moreover obtain i where "i < length js" "js ! i = j" "concat pss ! i = p"
      using j(1) p in_of_peer [of p js "concat pss" j] by (auto simp: c(7))
    ultimately have "share_start ?pv j < ?pv ! j" using c(6) by (auto simp: overlaps_share_def)
    then show False using no_share [OF j(2,1) assms(3)] by simp
  qed
  ultimately show ?thesis using c(1,7) by auto
qed

end
