(* ===== verification/AllReduceRebuild.thy ===== *)
theory AllReduceRebuild
  imports AllReduceProps
begin

text \<open>
  Reading the answers of a round back: whatever the streams of the reducers did, every part has an answer, of its reducer
  or our own, and the output tensors are the answers put together in the order of the tensors.
\<close>

section \<open>Reading the queues\<close>

text \<open>How many parts of peer \<open>k\<close> are not read yet, when \<open>seen\<close> parts of peer \<open>j\<close> are.\<close>

definition left_of :: "nat list \<Rightarrow> nat \<Rightarrow> nat \<Rightarrow> nat \<Rightarrow> nat" where
  "left_of by_peer j seen k = by_peer ! k - (if k = j then seen else 0)"

definition rest_parts :: "nat list \<Rightarrow> nat \<Rightarrow> nat \<Rightarrow> out_queues \<Rightarrow> real list list" where
  "rest_parts by_peer j seen queues = concat (map (\<lambda>k. take (left_of by_peer j seen k) (queues ! k)) [j..<length by_peer])"

definition queues_full :: "nat list \<Rightarrow> nat \<Rightarrow> nat \<Rightarrow> out_queues \<Rightarrow> bool" where
  "queues_full by_peer j seen queues \<longleftrightarrow> length queues = length by_peer
     \<and> (\<forall>k. j \<le> k \<and> k < length by_peer \<longrightarrow> left_of by_peer j seen k \<le> length (queues ! k))"

lemma rest_parts_next_peer:
  assumes "j < length by_peer" "by_peer ! j \<le> seen"
  shows "rest_parts by_peer (Suc j) 0 queues = rest_parts by_peer j seen queues"
proof -
  have "concat (map (\<lambda>k. take (left_of by_peer j seen k) (queues ! k)) [Suc j..<length by_peer])
      = concat (map (\<lambda>k. take (left_of by_peer (Suc j) 0 k) (queues ! k)) [Suc j..<length by_peer])"
    by (rule arg_cong [where f = concat], rule map_cong [OF refl]) (auto simp: left_of_def)
  moreover have "left_of by_peer j seen j = 0" using assms(2) by (simp add: left_of_def)
  ultimately show ?thesis using assms(1) by (simp add: rest_parts_def upt_conv_Cons [of j])
qed

lemma rest_parts_next_part:
  assumes "j < length by_peer" "seen < by_peer ! j" "queues ! j = p # rest" "j < length queues"
  shows "rest_parts by_peer j seen queues = p # rest_parts by_peer j (Suc seen) (queues[j := rest])"
proof -
  have "concat (map (\<lambda>k. take (left_of by_peer j seen k) (queues ! k)) [Suc j..<length by_peer])
      = concat (map (\<lambda>k. take (left_of by_peer j (Suc seen) k) (queues[j := rest] ! k)) [Suc j..<length by_peer])"
    by (rule arg_cong [where f = concat], rule map_cong [OF refl]) (auto simp: left_of_def)
  moreover have "left_of by_peer j seen j = Suc (left_of by_peer j (Suc seen) j)" using assms(2) by (simp add: left_of_def)
  ultimately show ?thesis using assms(1,3,4) by (simp add: rest_parts_def upt_conv_Cons [of j])
qed

lemma queues_full_next_peer:
  assumes "queues_full by_peer j seen queues"
  shows "queues_full by_peer (Suc j) 0 queues"
proof -
  have "left_of by_peer (Suc j) 0 k \<le> length (queues ! k)" if "Suc j \<le> k" "k < length by_peer" for k
  proof -
    have "left_of by_peer j seen k \<le> length (queues ! k)" using assms that by (simp add: queues_full_def)
    then show ?thesis using that by (simp add: left_of_def)
  qed
  then show ?thesis using assms by (simp add: queues_full_def)
qed

lemma queues_full_next_part:
  assumes "queues_full by_peer j seen queues" "queues ! j = p # rest" "j < length by_peer"
  shows "queues_full by_peer j (Suc seen) (queues[j := rest])"
proof -
  have "left_of by_peer j (Suc seen) k \<le> length (queues[j := rest] ! k)" if "j \<le> k" "k < length by_peer" for k
  proof -
    have "left_of by_peer j seen k \<le> length (queues ! k)" using assms that by (simp add: queues_full_def)
    then show ?thesis using that assms by (auto simp: left_of_def nth_list_update queues_full_def)
  qed
  then show ?thesis using assms by (simp add: queues_full_def)
qed

lemma take_parts_result:
  "queues_full by_peer j seen queues \<Longrightarrow> want - length acc \<le> length (rest_parts by_peer j seen queues) \<Longrightarrow> length acc \<le> want \<Longrightarrow>
     \<exists>j1 seen1 queues1. take_parts by_peer want j seen queues acc
         = Some (Inr (acc @ take (want - length acc) (rest_parts by_peer j seen queues), j1, seen1, queues1))
       \<and> queues_full by_peer j1 seen1 queues1
       \<and> rest_parts by_peer j1 seen1 queues1 = drop (want - length acc) (rest_parts by_peer j seen queues)"
proof (induction by_peer want j seen queues acc rule: take_parts.induct)
  case (1 by_peer want j seen queues acc)
  note full = "1.prems"(1) and enough = "1.prems"(2) and acc = "1.prems"(3)
  show ?case
  proof (cases "want \<le> length acc")
    case True
    then show ?thesis using full by (simp add: take_parts.simps [of by_peer want j])
  next
    case want: False
    then have j: "j < length by_peer" using enough by (cases "j < length by_peer") (simp_all add: rest_parts_def)
    show ?thesis
    proof (cases "by_peer ! j \<le> seen")
      case True
      have "queues_full by_peer (Suc j) 0 queues" by (rule queues_full_next_peer [OF full])
      then show ?thesis
        using "1.IH"(1) [OF want _ True] want j True enough acc
        by (simp add: take_parts.simps [of by_peer want j] rest_parts_next_peer [OF j True])
    next
      case seen: False
      have lq: "left_of by_peer j seen j \<le> length (queues ! j)" "j < length queues" using full j by (auto simp: queues_full_def)
      then obtain p rest where q: "queues ! j = p # rest"
        using seen by (cases "queues ! j") (simp_all add: left_of_def)
      have R: "rest_parts by_peer j seen queues = p # rest_parts by_peer j (Suc seen) (queues[j := rest])"
        using rest_parts_next_part [OF j _ q lq(2)] seen by simp
      have full1: "queues_full by_peer j (Suc seen) (queues[j := rest])"
        by (rule queues_full_next_part [OF full q j])
      have "want - length acc = Suc (want - length (acc @ [p]))" using want by simp
      then show ?thesis
        using "1.IH"(2) [OF want _ seen q full1] want j seen q R enough acc
        by (simp add: take_parts.simps [of by_peer want j])
    qed
  qed
qed

lemma output_tensors_result:
  "queues_full by_peer j seen queues \<Longrightarrow> rest_parts by_peer j seen queues = concat groups \<Longrightarrow>
   output_tensors by_peer (map (\<lambda>g. (length g, length (concat g))) groups) j seen queues = Inr (map concat groups, True)"
proof (induction groups arbitrary: j seen queues)
  case (Cons g groups)
  obtain j1 seen1 queues1 where t: "take_parts by_peer (length g) j seen queues [] = Some (Inr (g, j1, seen1, queues1))"
    "queues_full by_peer j1 seen1 queues1" "rest_parts by_peer j1 seen1 queues1 = concat groups"
    using take_parts_result [OF Cons.prems(1), of "length g" "[]"] Cons.prems(2) by auto
  show ?case using t(1) Cons.IH [OF t(2,3)] by simp
qed simp

text \<open>Cutting a list into groups of given sizes.\<close>

fun cut :: "nat list \<Rightarrow> 'a list \<Rightarrow> 'a list list" where
  "cut [] xs = []"
| "cut (n # ns) xs = take n xs # cut ns (drop n xs)"

lemma concat_cut: "length xs = sum_list ns \<Longrightarrow> concat (cut ns xs) = xs"
  by (induction ns arbitrary: xs) auto

lemma map_length_cut: "length xs = sum_list ns \<Longrightarrow> map length (cut ns xs) = ns"
  by (induction ns arbitrary: xs) auto

lemma cut_concat: "cut (map length xss) (concat xss) = xss"
  by (induction xss) auto

lemma map_cut: "cut ns (map f xs) = map (map f) (cut ns xs)"
  by (induction ns arbitrary: xs) (auto simp: take_map drop_map)

lemma zip_map_both: "zip (map f xs) (map g xs) = map (\<lambda>x. (f x, g x)) xs"
  by (induction xs) simp_all

lemma concat_map_concat: "concat (map concat xss) = concat (concat xss)"
  by (induction xss) simp_all

text \<open>Full queues whose parts have the sizes of the parts of the tensors.\<close>

lemma iterate_full_queues:
  assumes "\<not> tc_outputs_consumed c" "length (tc_outputs c) = length (tc_by_peer c)"
    "\<forall>j < length (tc_by_peer c). tc_by_peer c ! j \<le> length (tc_outputs c ! j)"
    and outs: "outs = concat (map (\<lambda>j. take (tc_by_peer c ! j) (tc_outputs c ! j)) [0..<length (tc_by_peer c)])"
    and sizes: "map length outs = map length (concat pss)"
    and shape: "tc_by_tensor c = map length pss" "map length (tc_tensors c) = map (length \<circ> concat) pss"
  shows "\<exists>ts. iterate_output_tensors c = Inr (ts, True) \<and> concat ts = concat outs
    \<and> map length ts = map length (tc_tensors c)"
proof -
  have len: "length outs = sum_list (map length pss)" using sizes by (metis length_concat length_map)
  obtain groups where g: "concat groups = outs" "map length groups = map length pss"
    "map (map length) groups = map (map length) pss"
  proof (rule that [of "cut (map length pss) outs"])
    have "map (map length) (cut (map length pss) outs) = cut (map length pss) (map length (concat pss))"
      by (simp add: sizes flip: map_cut)
    also have "\<dots> = map (map length) pss" by (simp add: map_cut cut_concat)
    finally show "map (map length) (cut (map length pss) outs) = map (map length) pss" .
  qed (simp_all add: concat_cut map_length_cut len)
  have sum: "map (length \<circ> concat) groups = map (length \<circ> concat) pss"
    using arg_cong [OF g(3), of "map sum_list"] by (simp add: length_concat comp_def)
  have "zip (tc_by_tensor c) (map length (tc_tensors c)) = map (\<lambda>g. (length g, length (concat g))) groups"
    unfolding shape g(2) [symmetric] sum [symmetric] by (simp add: zip_map_both)
  moreover have "queues_full (tc_by_peer c) 0 0 (tc_outputs c)" using assms(2,3) by (simp add: queues_full_def left_of_def)
  moreover have "rest_parts (tc_by_peer c) 0 0 (tc_outputs c) = concat groups"
    unfolding rest_parts_def g(1) outs by (rule arg_cong [where f = concat], rule map_cong [OF refl]) (simp add: left_of_def)
  ultimately have "iterate_output_tensors c = Inr (map concat groups, True)"
    using assms(1) output_tensors_result [of "tc_by_peer c" 0 0 "tc_outputs c" groups] by (simp add: iterate_output_tensors_def)
  moreover have "concat (map concat groups) = concat outs" by (simp add: concat_map_concat flip: g(1))
  ultimately show ?thesis using sum by (simp add: shape(2) comp_def)
qed

section \<open>The streams of the reducers\<close>

text \<open>What a step for peer \<open>j\<close> leaves as it was, and the answers it leaves for the peer.\<close>

definition answered :: "nat \<Rightarrow> real list list \<Rightarrow> container \<Rightarrow> container \<Rightarrow> bool" where
  "answered j outs c c' \<longleftrightarrow> tc_outputs c' = (tc_outputs c)[j := outs]
     \<and> length (tc_registered c') = length (tc_registered c)
     \<and> (\<forall>k. k \<noteq> j \<longrightarrow> tc_registered c' ! k = tc_registered c ! k)
     \<and> tc_inputs c' = tc_inputs c \<and> tc_tensors c' = tc_tensors c \<and> tc_by_peer c' = tc_by_peer c
     \<and> tc_by_tensor c' = tc_by_tensor c \<and> tc_deltas c' = tc_deltas c \<and> tc_outputs_consumed c' = tc_outputs_consumed c"

lemma answered_trans:
  "answered j outs c c1 \<Longrightarrow> answered j outs' c1 c2 \<Longrightarrow> answered j outs' c c2"
  by (simp add: answered_def)

lemma register_answers_result:
  "j < length (tc_outputs c) \<Longrightarrow> length (tc_registered c) = length (tc_outputs c) \<Longrightarrow> tc_registered c ! j = i \<Longrightarrow>
   \<exists>c'. register_answers j i as c = (True, c') \<and> answered j (tc_outputs c ! j @ as) c c'
     \<and> tc_registered c' ! j = i + length as"
proof (induction as arbitrary: i c)
  case Nil
  then show ?case by (simp add: answered_def)
next
  case (Cons a as)
  let ?c = "c\<lparr>tc_outputs := (tc_outputs c)[j := tc_outputs c ! j @ [a]], tc_registered := (tc_registered c)[j := Suc i]\<rparr>"
  have step: "register_processed_part j i a c = Inr ?c" using Cons.prems by (simp add: register_processed_part_def)
  obtain c' where c': "register_answers j (Suc i) as ?c = (True, c')" "answered j (tc_outputs ?c ! j @ as) ?c c'"
    "tc_registered c' ! j = Suc i + length as"
    using Cons.IH [of ?c "Suc i"] Cons.prems by auto
  have "answered j (tc_outputs c ! j @ a # as) c c'"
    using c'(2) Cons.prems by (simp add: answered_def nth_list_update)
  then show ?case using c' step by simp
qed

lemma register_own_result:
  "j < length (tc_outputs c) \<Longrightarrow> length (tc_registered c) = length (tc_outputs c) \<Longrightarrow> tc_registered c ! j = i \<Longrightarrow>
   \<exists>c'. register_own j [i..<length (tc_inputs c ! j)] c = Inr c'
     \<and> answered j (tc_outputs c ! j @ map (own_part (tc_deltas c)) (drop i (tc_inputs c ! j))) c c'"
proof (induction "length (tc_inputs c ! j) - i" arbitrary: i c)
  case 0
  then show ?case by (intro exI [of _ c]) (simp add: answered_def)
next
  case (Suc d)
  let ?own = "own_part (tc_deltas c) (tc_inputs c ! j ! i)"
  let ?pid = "tc_peers c ! j"
  let ?c1 = "c\<lparr>tc_outputs := (tc_outputs c)[j := tc_outputs c ! j @ [?own]], tc_registered := (tc_registered c)[j := Suc i]\<rparr>"
  let ?c = "?c1\<lparr>tc_failures := dict_set ?pid (case dict_get (tc_failures c) ?pid of None \<Rightarrow> 1 | Some n \<Rightarrow> Suc n) (tc_failures c),
    tc_failed_size := tc_failed_size c + length ?own\<rparr>"
  have i: "i < length (tc_inputs c ! j)" using Suc.hyps(2) by simp
  have step: "register_processed_part j i ?own c = Inr ?c1" using Suc.prems by (simp add: register_processed_part_def)
  have d: "d = length (tc_inputs ?c ! j) - Suc i" using Suc.hyps(2) by simp
  have p: "j < length (tc_outputs ?c)" "length (tc_registered ?c) = length (tc_outputs ?c)" "tc_registered ?c ! j = Suc i"
    using Suc.prems by simp_all
  obtain c' where c': "register_own j [Suc i..<length (tc_inputs ?c ! j)] ?c = Inr c'"
    "answered j (tc_outputs ?c ! j @ map (own_part (tc_deltas ?c)) (drop (Suc i) (tc_inputs ?c ! j))) ?c c'"
    using Suc.hyps(1) [OF d p] by blast
  have "answered j (tc_outputs c ! j @ map (own_part (tc_deltas c)) (drop i (tc_inputs c ! j))) c c'"
    using c'(2) Suc.prems i by (simp add: answered_def nth_list_update Cons_nth_drop_Suc [symmetric])
  then show ?case using c'(1) step i by (simp add: upt_conv_Cons Let_def)
qed

text \<open>The answers of a peer, made up for by our own parts.\<close>

definition delivered :: "bool \<Rightarrow> part list \<Rightarrow> real list list \<Rightarrow> real list list" where
  "delivered deltas inputs as = as @ map (own_part deltas) (drop (length as) inputs)"

definition fresh_for :: "nat \<Rightarrow> container \<Rightarrow> bool" where
  "fresh_for j c \<longleftrightarrow> j < length (tc_outputs c) \<and> length (tc_registered c) = length (tc_outputs c)
     \<and> tc_registered c ! j = 0 \<and> tc_outputs c ! j = [] \<and> tc_by_peer c ! j = length (tc_inputs c ! j)"

lemma failed_reducer_result:
  assumes "fresh_for j c" "answered j as c c1" "tc_registered c1 ! j = length as"
  shows "\<exists>c'. register_failed_reducer j reason c1 = Inr c' \<and> answered j (delivered (tc_deltas c) (tc_inputs c ! j) as) c c'"
proof -
  let ?c = "c1\<lparr>tc_reasons := dict_set (tc_peers c1 ! j) reason (tc_reasons c1)\<rparr>"
  have "j < length (tc_outputs ?c)" "length (tc_registered ?c) = length (tc_outputs ?c)" "tc_registered ?c ! j = length as"
    "tc_outputs ?c ! j = as" "tc_inputs ?c = tc_inputs c" "tc_deltas ?c = tc_deltas c"
    "tc_registered c1 ! j = length as" "tc_by_peer c1 ! j = length (tc_inputs ?c ! j)"
    using assms by (simp_all add: fresh_for_def answered_def)
  note facts = this
  obtain c' where c': "register_own j [length as..<length (tc_inputs ?c ! j)] ?c = Inr c'"
    "answered j (delivered (tc_deltas c) (tc_inputs c ! j) as) ?c c'"
    using register_own_result [OF facts(1-3)] facts(4-6) by (auto simp: delivered_def)
  have "answered j as c ?c" using assms(2) by (simp add: answered_def)
  then have "answered j (delivered (tc_deltas c) (tc_inputs c ! j) as) c c'" using c'(2) by (rule answered_trans)
  moreover have "register_failed_reducer j reason c1 = Inr c'"
    using c'(1) unfolding register_failed_reducer_def facts(7,8) .
  ultimately show ?thesis by blast
qed

lemma communicate_with_result:
  assumes "fresh_for j c"
  shows "\<exists>c'. communicate_with j outcome c = Inr c' \<and> answered j (delivered (tc_deltas c) (tc_inputs c ! j) (fst outcome)) c c'"
proof -
  let ?as = "fst outcome"
  obtain c1 where c1: "register_answers j 0 ?as c = (True, c1)" "answered j ?as c c1" "tc_registered c1 ! j = length ?as"
    using register_answers_result [of j c 0 ?as] assms by (auto simp: fresh_for_def)
  have "answered j (delivered (tc_deltas c) (tc_inputs c ! j) ?as) c c1" if "length ?as = tc_by_peer c1 ! j"
    using that c1(2) assms by (simp add: delivered_def answered_def fresh_for_def)
  then show ?thesis
    using failed_reducer_result [OF assms c1(2,3)] c1(1)
    by (cases "snd outcome") (auto simp: communicate_with_def)
qed

lemma communicate_all_result:
  "distinct js \<Longrightarrow> \<forall>j \<in> set js. fresh_for j c \<Longrightarrow>
   \<exists>c'. communicate_all outcomes js c = Inr c'
     \<and> (\<forall>j \<in> set js. tc_outputs c' ! j = delivered (tc_deltas c) (tc_inputs c ! j) (fst (outcomes j)))
     \<and> (\<forall>j. j \<notin> set js \<longrightarrow> tc_outputs c' ! j = tc_outputs c ! j)
     \<and> length (tc_outputs c') = length (tc_outputs c)
     \<and> tc_tensors c' = tc_tensors c \<and> tc_by_peer c' = tc_by_peer c \<and> tc_by_tensor c' = tc_by_tensor c
     \<and> tc_outputs_consumed c' = tc_outputs_consumed c"
proof (induction js arbitrary: c)
  case (Cons j js)
  have j: "fresh_for j c" "j \<notin> set js" using Cons.prems by auto
  obtain c1 where c1: "communicate_with j (outcomes j) c = Inr c1"
    "answered j (delivered (tc_deltas c) (tc_inputs c ! j) (fst (outcomes j))) c c1"
    using communicate_with_result [OF j(1)] by blast
  have "\<forall>k \<in> set js. fresh_for k c1"
    using Cons.prems(2) c1(2) j(2) by (auto simp: fresh_for_def answered_def nth_list_update)
  then show ?case
    using Cons.IH [of c1] Cons.prems(1) c1 j by (fastforce simp: answered_def fresh_for_def nth_list_update)
qed simp

section \<open>A round\<close>

text \<open>The answers have the sizes of the parts; a reducer may send fewer answers, or more.\<close>

definition fits :: "part list \<Rightarrow> real list list \<Rightarrow> bool" where
  "fits inputs as \<longleftrightarrow> map length (take (length inputs) as) = take (length as) (map (length \<circ> fst) inputs)"

lemma length_own_part [simp]: "length (own_part deltas p) = length (fst p)"
  by (simp add: own_part_def)

lemma delivered_sizes:
  assumes "fits inputs as"
  shows "map length (take (length inputs) (delivered deltas inputs as)) = map (length \<circ> fst) inputs"
proof (cases "length inputs \<le> length as")
  case True
  then show ?thesis using assms by (simp add: delivered_def fits_def)
next
  case False
  then have "map length as = take (length as) (map (length \<circ> fst) inputs)" using assms by (simp add: fits_def)
  then have "map length (delivered deltas inputs as) = map (length \<circ> fst) inputs"
    using append_take_drop_id [of "length as" "map (length \<circ> fst) inputs"]
    by (simp add: delivered_def comp_def drop_map flip: append_take_drop_id [of "length as" "map (length \<circ> fst) inputs"])
  then show ?thesis by (metis length_map order_refl take_all)
qed

lemma map_concat_cong: "(\<And>x. x \<in> set xs \<Longrightarrow> map f (g x) = map h (k x)) \<Longrightarrow> map f (concat (map g xs)) = map h (concat (map k xs))"
  by (induction xs) auto

text \<open>Whatever the streams of the reducers do, one after the other in any order, every part is answered, and the output
  tensors have the shapes of the tensors and hold the answers in order: where a stream failed, our own parts, or no
  difference, stand for the answers it did not give.\<close>

lemma round_rebuilds:
  assumes "fractions \<noteq> []" "\<forall>x \<in> set fractions. 0 \<le> x" "0 < sum_list fractions" "cuttable part_bytes tensors"
    and new: "container_new tensors fractions peers part_bytes deltas = Inr c"
    and js: "distinct js" "set js \<subseteq> {..<length fractions}" "\<forall>j < length fractions. j \<in> set js \<or> tc_inputs c ! j = []"
    and fits: "\<forall>j \<in> set js. fits (tc_inputs c ! j) (fst (outcomes j))"
  shows "\<exists>c' ts. communicate_all outcomes js c = Inr c' \<and> iterate_output_tensors c' = Inr (ts, True)
    \<and> map length ts = map (length \<circ> fst) tensors
    \<and> concat ts = concat (concat (map (\<lambda>j. take (length (tc_inputs c ! j)) (delivered deltas (tc_inputs c ! j) (fst (outcomes j))))
                      [0..<length fractions]))"
proof -
  let ?g = "length fractions"
  let ?answers = "\<lambda>j. take (length (tc_inputs c ! j)) (delivered deltas (tc_inputs c ! j) (fst (outcomes j)))"
  obtain pss ks where pss: "map (\<lambda>ps. concat (map fst ps)) pss = map fst tensors"
    and ks: "length ks = length (concat pss)" "sorted ks" "\<forall>k \<in> set ks. k < ?g"
    and c: "c = \<lparr>tc_tensors = map fst tensors, tc_peers = peers, tc_deltas = deltas,
       tc_inputs = map (of_peer ks (concat pss)) [0..<?g],
       tc_outputs = replicate ?g [], tc_inputs_consumed = replicate ?g False,
       tc_registered = replicate ?g 0, tc_outputs_consumed = False, tc_failures = [], tc_reasons = [],
       tc_failed_size = 0, tc_by_tensor = map length pss,
       tc_by_peer = map length (map (of_peer ks (concat pss)) [0..<?g]), tc_finished = False\<rparr>"
    by (rule container_new_result [OF assms(1-4), of peers deltas]) (use new in simp)
  have inputs: "concat (tc_inputs c) = concat pss" "tc_inputs c = map (\<lambda>j. tc_inputs c ! j) [0..<?g]"
    using of_peer_concat [OF ks(2,1,3)] by (simp_all add: c)
  have "\<forall>j \<in> set js. fresh_for j c" using js(2) by (auto simp: fresh_for_def c)
  then obtain c' where c': "communicate_all outcomes js c = Inr c'"
    "\<forall>j \<in> set js. tc_outputs c' ! j = delivered (tc_deltas c) (tc_inputs c ! j) (fst (outcomes j))"
    "\<forall>j. j \<notin> set js \<longrightarrow> tc_outputs c' ! j = tc_outputs c ! j" "length (tc_outputs c') = length (tc_outputs c)"
    "tc_tensors c' = tc_tensors c" "tc_by_peer c' = tc_by_peer c" "tc_by_tensor c' = tc_by_tensor c"
    "tc_outputs_consumed c' = tc_outputs_consumed c"
    using communicate_all_result [OF js(1)] by blast
  have by_peer: "tc_by_peer c' ! j = length (tc_inputs c ! j)" if "j < ?g" for j using that c'(6) by (simp add: c)
  have sizes: "map length (?answers j) = map (length \<circ> fst) (tc_inputs c ! j)" if "j < ?g" for j
    using that js(3) fits delivered_sizes by fastforce
  have queue: "take (tc_by_peer c' ! j) (tc_outputs c' ! j) = ?answers j" if "j < ?g" for j
    using that js(3) by_peer [OF that] c'(2,3) by (cases "j \<in> set js") (auto simp: c)
  let ?outs = "concat (map (\<lambda>j. take (tc_by_peer c' ! j) (tc_outputs c' ! j)) [0..<length (tc_by_peer c')])"
  have outs: "?outs = concat (map ?answers [0..<?g])"
    using queue c'(6) by (intro arg_cong [where f = concat] map_cong) (auto simp: c)
  have "map length ?outs = map (length \<circ> fst) (concat (map (\<lambda>j. tc_inputs c ! j) [0..<?g]))"
    unfolding outs by (rule map_concat_cong) (simp add: sizes)
  also have "\<dots> = map (length \<circ> fst) (concat pss)" using inputs by simp
  also have "\<dots> = map length (concat (map (map fst) pss))" by (simp add: map_concat comp_def)
  finally have sz: "map length ?outs = map length (concat (map (map fst) pss))" .
  have "tc_by_peer c' ! j \<le> length (tc_outputs c' ! j)" if "j < ?g" for j
    using arg_cong [OF queue [OF that], of length] arg_cong [OF sizes [OF that], of length] by_peer [OF that] by simp
  then obtain ts where ts: "iterate_output_tensors c' = Inr (ts, True)" "concat ts = concat ?outs"
    "map length ts = map length (tc_tensors c')"
    by (atomize_elim, intro iterate_full_queues [OF _ _ _ refl sz]) (use c' arg_cong [OF pss, of "map length"] in \<open>simp_all add: c comp_def\<close>)
  have "map length (tc_tensors c') = map (length \<circ> fst) tensors" unfolding c'(5) by (simp add: c)
  then show ?thesis using c'(1) ts unfolding outs by metis
qed

text \<open>If no reducer answers, the deltas are 0: the peer keeps its tensors.\<close>

lemma zero_deltas: "concat (delivered True inputs []) = replicate (sum_list (map (length \<circ> fst) inputs)) 0"
  by (induction inputs) (simp_all add: delivered_def own_part_def replicate_add)

end
