(* ===== verification/AllReduceRounds.thy ===== *)
theory AllReduceRounds
  imports AllReduce
begin

text \<open>
  The reducer against its specification: the answer to a part is the weighted average of what the senders sent for it,
  in any order, with senders banned at any time; the reducer ends when the senders that are left have sent all parts.
  And what it does not survive: a part of the wrong size, a cancelled waiter, the loss of all senders.
\<close>

section \<open>What the senders sent\<close>

fun sent_by :: "nat \<Rightarrow> round_event \<Rightarrow> (real list \<times> real) list" where
  "sent_by s (Adds u p w) = (if u = s then [(p, w)] else [])"
| "sent_by s (Refuses u p w) = []"
| "sent_by s (Bans u) = []"

definition sent :: "nat \<Rightarrow> round_event list \<Rightarrow> (real list \<times> real) list" where
  "sent s es = concat (map (sent_by s) es)"

lemma sent_simps [simp]:
  "sent s [] = []" "sent s (es @ [Adds u p w]) = (if u = s then sent s es @ [(p, w)] else sent s es)"
  "sent s (es @ [Bans u]) = sent s es"
  by (simp_all add: sent_def)

text \<open>A part of one value stands for all values of the part.\<close>

definition value_at :: "nat \<Rightarrow> real list \<Rightarrow> real" where
  "value_at x p = (if length p = 1 then hd p else p ! x)"

text \<open>A sum over the senders that sent part \<open>i\<close>.\<close>

definition total_of :: "(real list \<times> real \<Rightarrow> real) \<Rightarrow> nat \<Rightarrow> round_event list \<Rightarrow> nat \<Rightarrow> real" where
  "total_of f n es i = (\<Sum>s<n. if i < length (sent s es) then f (sent s es ! i) else 0)"

abbreviation weight_sum :: "nat \<Rightarrow> round_event list \<Rightarrow> nat \<Rightarrow> real" where
  "weight_sum \<equiv> total_of snd"

abbreviation value_sum :: "nat \<Rightarrow> nat \<Rightarrow> round_event list \<Rightarrow> nat \<Rightarrow> real" where
  "value_sum x \<equiv> total_of (\<lambda>(p, w). w * value_at x p)"

definition average_of :: "nat list \<Rightarrow> nat \<Rightarrow> round_event list \<Rightarrow> nat \<Rightarrow> real list option" where
  "average_of sizes n es i =
     (if weight_sum n es i = 0 then None else Some (map (\<lambda>x. value_sum x n es i / weight_sum n es i) [0..<sizes ! i]))"

lemma total_of_add:
  assumes "s < n" "length (sent s es) = k"
  shows "total_of f n (es @ [Adds s p w]) k = total_of f n es k + f (p, w)"
proof -
  have s: "s \<in> {..<n}" using assms(1) by simp
  have "(\<Sum>u \<in> {..<n} - {s}. if k < length (sent u (es @ [Adds s p w])) then f (sent u (es @ [Adds s p w]) ! k) else 0)
      = (\<Sum>u \<in> {..<n} - {s}. if k < length (sent u es) then f (sent u es ! k) else 0)"
    by (rule sum.cong) auto
  then show ?thesis using assms(2) by (simp add: total_of_def sum.remove [OF _ s] nth_append)
qed

lemma total_of_other:
  "length (sent s es) \<noteq> i \<Longrightarrow> total_of f n (es @ [Adds s p w]) i = total_of f n es i"
  unfolding total_of_def by (rule sum.cong) (auto simp: nth_append)

lemma total_of_ban [simp]: "total_of f n (es @ [Bans s]) i = total_of f n es i"
  unfolding total_of_def by (rule sum.cong) auto

lemma total_of_none: "\<forall>s < n. length (sent s es) \<le> i \<Longrightarrow> total_of f n es i = 0"
  unfolding total_of_def by (rule sum.neutral) auto

lemma average_of_other:
  "length (sent s es) \<noteq> i \<Longrightarrow> average_of sizes n (es @ [Adds s p w]) i = average_of sizes n es i"
  by (simp add: average_of_def total_of_other)

lemma average_of_ban [simp]: "average_of sizes n (es @ [Bans s]) i = average_of sizes n es i"
  by (simp add: average_of_def)

section \<open>The invariant\<close>

text \<open>A sender in good standing has sent the current part or waits to; a banned one stays where it was.\<close>

definition in_phase :: "nat \<Rightarrow> nat \<Rightarrow> nat option \<Rightarrow> bool" where
  "in_phase k received failed = (case failed of None \<Rightarrow> received = k \<or> received = Suc k | Some m \<Rightarrow> m = received \<and> m \<le> Suc k)"

definition bookkeeping :: "nat list \<Rightarrow> nat \<Rightarrow> round_event list \<Rightarrow> reducer \<Rightarrow> bool" where
  "bookkeeping sizes n es r \<longleftrightarrow> rd_sizes r = sizes \<and> rd_senders r = n
     \<and> length (rd_received r) = n \<and> length (rd_failed_after r) = n
     \<and> (\<forall>s < n. rd_received r ! s = length (sent s es))
     \<and> (\<forall>i < length (rd_results r). rd_results r ! i = average_of sizes n es i
          \<and> (\<forall>s < n. rd_failed_after r ! s = None \<longrightarrow> i < length (sent s es)))"

definition collecting :: "nat list \<Rightarrow> nat \<Rightarrow> round_event list \<Rightarrow> nat \<Rightarrow> reducer \<Rightarrow> bool" where
  "collecting sizes n es k r \<longleftrightarrow> bookkeeping sizes n es r \<and> \<not> rd_finished r \<and> rd_current r = int k \<and> k < length sizes
     \<and> rd_future r = Pending \<and> length (rd_results r) = k
     \<and> (\<forall>s < n. in_phase k (rd_received r ! s) (rd_failed_after r ! s))
     \<and> rd_accumulated_from r = card {s. s < n \<and> rd_received r ! s = Suc k}
     \<and> rd_num_current r = card {s. s < n \<and> (rd_received r ! s = Suc k \<or> rd_failed_after r ! s = None)}
     \<and> rd_accumulator r = map (\<lambda>x. value_sum x n es k) [0..<sizes ! k] \<and> rd_denominator r = weight_sum n es k"

definition round_inv :: "nat list \<Rightarrow> nat \<Rightarrow> round_event list \<Rightarrow> reducer \<Rightarrow> bool" where
  "round_inv sizes n es r \<longleftrightarrow>
     (if rd_finished r then bookkeeping sizes n es r \<and> length (rd_results r) = length sizes
      else (\<exists>k. collecting sizes n es k r) \<and> (rd_accumulated_from r < rd_num_current r \<or> rd_num_current r = 0))"

lemma in_phase_le: "in_phase k m f \<Longrightarrow> m \<le> Suc k"
  by (auto simp: in_phase_def split: option.splits)

lemma collecting_count:
  assumes "collecting sizes n es k r"
  shows "rd_accumulated_from r \<le> rd_num_current r"
    and "rd_accumulated_from r = rd_num_current r \<longleftrightarrow> (\<forall>s < n. rd_failed_after r ! s = None \<longrightarrow> rd_received r ! s = Suc k)"
proof -
  let ?A = "{s. s < n \<and> rd_received r ! s = Suc k}"
  let ?N = "{s. s < n \<and> (rd_received r ! s = Suc k \<or> rd_failed_after r ! s = None)}"
  have eq: "rd_accumulated_from r = card ?A" "rd_num_current r = card ?N" using assms by (simp_all add: collecting_def)
  have sub: "?A \<subseteq> ?N" by blast
  have fin: "finite ?N" by simp
  show "rd_accumulated_from r \<le> rd_num_current r" unfolding eq by (rule card_mono [OF fin sub])
  have "card ?A = card ?N \<longleftrightarrow> ?A = ?N" by (rule iffI [OF card_subset_eq [OF fin sub] arg_cong [where f = card]])
  also have "\<dots> \<longleftrightarrow> (\<forall>s < n. rd_failed_after r ! s = None \<longrightarrow> rd_received r ! s = Suc k)" by blast
  finally show "rd_accumulated_from r = rd_num_current r \<longleftrightarrow> (\<forall>s < n. rd_failed_after r ! s = None \<longrightarrow> rd_received r ! s = Suc k)"
    unfolding eq .
qed

text \<open>The start of the next part.\<close>

lemma next_part_collecting:
  assumes "bookkeeping sizes n es r" "\<not> rd_finished r" "rd_current r = int k - 1" "k < length sizes" "length (rd_results r) = k"
    "rd_accumulated_from r = rd_num_current r \<or> k = 0"
    and phase: "\<forall>s < n. case rd_failed_after r ! s of None \<Rightarrow> rd_received r ! s = k | Some m \<Rightarrow> m = rd_received r ! s \<and> m \<le> k"
  shows "\<exists>r'. rd_reset r = (None, r') \<and> collecting sizes n es k r' \<and> rd_accumulated_from r' = 0 \<and> \<not> rd_finished r'"
proof -
  let ?r = "r\<lparr>rd_current := int k, rd_accumulated_from := 0, rd_future := Pending,
    rd_num_current := length (filter (still_sends k) (rd_failed_after r)),
    rd_accumulator := replicate (sizes ! k) 0, rd_denominator := 0\<rparr>"
  have sizes: "rd_sizes r = sizes" "length (rd_failed_after r) = n" using assms(1) by (simp_all add: bookkeeping_def)
  have le: "rd_received r ! s \<le> k" if "s < n" for s using phase that by (auto split: option.splits)
  have sent: "length (sent s es) \<le> k" if "s < n" for s using le [OF that] assms(1) that by (simp add: bookkeeping_def)
  have none: "{s. s < n \<and> rd_received r ! s = Suc k} = {}" using le by fastforce
  have still: "still_sends k (rd_failed_after r ! s) \<longleftrightarrow> rd_failed_after r ! s = None" if "s < n" for s
    using phase that by (auto simp: still_sends_def split: option.splits)
  have "length (filter (still_sends k) (rd_failed_after r)) = card {s. s < n \<and> rd_failed_after r ! s = None}"
    unfolding length_filter_conv_card sizes by (rule arg_cong [where f = card]) (use still in auto)
  also have "{s. s < n \<and> rd_failed_after r ! s = None} = {s. s < n \<and> (rd_received r ! s = Suc k \<or> rd_failed_after r ! s = None)}"
    using none by auto
  finally have num: "length (filter (still_sends k) (rd_failed_after r))
      = card {s. s < n \<and> (rd_received r ! s = Suc k \<or> rd_failed_after r ! s = None)}" .
  have "in_phase k (rd_received r ! s) (rd_failed_after r ! s)" if "s < n" for s
    using phase that by (auto simp: in_phase_def split: option.splits)
  moreover have "bookkeeping sizes n es ?r" using assms(1) by (simp add: bookkeeping_def)
  moreover have "replicate (sizes ! k) 0 = map (\<lambda>x. value_sum x n es k) [0..<sizes ! k]"
    using sent by (simp add: total_of_none map_replicate_const)
  moreover have "0 = weight_sum n es k" using sent by (simp add: total_of_none)
  ultimately have "collecting sizes n es k ?r"
    using assms(2,4,5) none num by (simp add: collecting_def)
  moreover have "rd_reset r = (None, ?r)"
    using assms(3,4,6) sizes by (auto simp: rd_reset_def Let_def)
  ultimately show ?thesis using assms(2) by simp
qed

lemma last_part_reset:
  assumes "int (length (rd_sizes r)) - 1 \<le> rd_current r" "rd_accumulated_from r = rd_num_current r \<or> rd_current r = -1"
  shows "rd_reset r = (None, rd_finalize r)"
  using assms by (simp add: rd_reset_def)

lemma bookkeeping_finalize [simp]: "bookkeeping sizes n es (rd_finalize r) = bookkeeping sizes n es r"
  by (simp add: bookkeeping_def rd_finalize_def)

lemma rd_finalize_simps [simp]: "rd_finished (rd_finalize r)" "rd_results (rd_finalize r) = rd_results r"
  by (simp_all add: rd_finalize_def)

lemma reducer_new_inv: "\<exists>r. reducer_new sizes n = (None, r) \<and> round_inv sizes n [] r"
proof -
  let ?r = "\<lparr>rd_sizes = sizes, rd_senders = n, rd_current = -1, rd_accumulated_from = 0, rd_accumulator = [],
       rd_denominator = 0, rd_future = Pending, rd_received = replicate n 0,
       rd_failed_after = replicate n None, rd_num_current = n, rd_finished = False, rd_results = []\<rparr>"
  have b: "bookkeeping sizes n [] ?r" by (simp add: bookkeeping_def)
  show ?thesis
  proof (cases "sizes = []")
    case True
    then have "rd_reset ?r = (None, rd_finalize ?r)" by (intro last_part_reset) simp_all
    then show ?thesis using b True by (simp add: reducer_new_def round_inv_def)
  next
    case False
    have "\<exists>r'. rd_reset ?r = (None, r') \<and> collecting sizes n [] 0 r' \<and> rd_accumulated_from r' = 0 \<and> \<not> rd_finished r'"
      by (rule next_part_collecting [OF b]) (use False in simp_all)
    then obtain r' where "rd_reset ?r = (None, r')" "collecting sizes n [] 0 r'" "rd_accumulated_from r' = 0"
      "\<not> rd_finished r'"
      by blast
    then show ?thesis by (intro exI [of _ r']) (auto simp: reducer_new_def round_inv_def)
  qed
qed

text \<open>The end of a part: its average, and the next part or the end.\<close>

lemma check_finished_inv:
  assumes c: "collecting sizes n es k r"
  shows "\<exists>r'. rd_check_finished r = (None, r') \<and> round_inv sizes n es r'"
proof (cases "rd_accumulated_from r = rd_num_current r")
  case False
  then have lt: "rd_accumulated_from r < rd_num_current r" using collecting_count(1) [OF c] by simp
  then have "rd_check_finished r = (None, r)" by (simp add: rd_check_finished_def)
  moreover have "round_inv sizes n es r" using c lt by (auto simp: round_inv_def collecting_def)
  ultimately show ?thesis by blast
next
  case True
  let ?avg = "if rd_denominator r = 0 then None else Some (map (\<lambda>x. x / rd_denominator r) (rd_accumulator r))"
  let ?r = "r\<lparr>rd_accumulator := map (\<lambda>x. x / rd_denominator r) (rd_accumulator r), rd_future := Resolved,
    rd_results := rd_results r @ [?avg]\<rparr>"
  have f: "rd_future r = Pending" "rd_current r = int k" "k < length sizes" "length (rd_results r) = k" "\<not> rd_finished r"
    "rd_sizes r = sizes" "bookkeeping sizes n es r"
    using c by (simp_all add: collecting_def bookkeeping_def)
  have all: "\<forall>s < n. rd_failed_after r ! s = None \<longrightarrow> rd_received r ! s = Suc k" using True collecting_count(2) [OF c] by simp
  have avg: "?avg = average_of sizes n es k" using c by (simp add: collecting_def average_of_def comp_def)
  have sent: "\<forall>s < n. rd_failed_after r ! s = None \<longrightarrow> k < length (sent s es)"
    using all f(7) by (auto simp: bookkeeping_def)
  have b: "bookkeeping sizes n es ?r"
    using f(4,7) sent avg by (auto simp: bookkeeping_def nth_append less_Suc_eq)
  have check: "rd_check_finished r = rd_reset ?r" using True f(1) by (simp add: rd_check_finished_def Let_def)
  show ?thesis
  proof (cases "Suc k = length sizes")
    case last: True
    have "rd_reset ?r = (None, rd_finalize ?r)" by (rule last_part_reset) (use True last f in simp_all)
    then show ?thesis using check b f(4) last by (simp add: round_inv_def)
  next
    case more: False
    have phase: "\<forall>s < n. case rd_failed_after ?r ! s of None \<Rightarrow> rd_received ?r ! s = Suc k
        | Some m \<Rightarrow> m = rd_received ?r ! s \<and> m \<le> Suc k"
      using all c by (auto simp: collecting_def in_phase_def split: option.splits)
    have "\<exists>r'. rd_reset ?r = (None, r') \<and> collecting sizes n es (Suc k) r' \<and> rd_accumulated_from r' = 0 \<and> \<not> rd_finished r'"
      by (rule next_part_collecting [OF b _ _ _ _ _ phase]) (use f True more in simp_all)
    then obtain r' where "rd_reset ?r = (None, r')" "collecting sizes n es (Suc k) r'" "rd_accumulated_from r' = 0"
      "\<not> rd_finished r'"
      by blast
    then show ?thesis unfolding check by (intro exI [of _ r']) (auto simp: round_inv_def)
  qed
qed

lemma add_weighted_sizes:
  assumes "length part = length acc \<or> length part = 1"
  shows "add_weighted w part acc = Inr (map (\<lambda>x. acc ! x + w * value_at x part) [0..<length acc])"
proof (cases "length part = length acc")
  case True
  then show ?thesis
    by (auto simp: add_weighted_def value_at_def intro!: nth_equalityI) (metis One_nat_def hd_conv_nth less_one list.size(3) not_less0)
next
  case False
  then show ?thesis using assms by (auto simp: add_weighted_def value_at_def intro!: nth_equalityI)
qed

lemma add_weighted_InrD:
  "add_weighted w part acc = Inr acc' \<Longrightarrow> length part = length acc \<or> length part = 1"
  by (auto simp: add_weighted_def split: if_splits)

text \<open>The reducer with a part of a sender added.\<close>

definition with_part :: "nat \<Rightarrow> real list \<Rightarrow> real \<Rightarrow> reducer \<Rightarrow> reducer" where
  "with_part s part w r = r\<lparr>rd_received := (rd_received r)[s := Suc (rd_received r ! s)],
     rd_accumulator := map (\<lambda>x. rd_accumulator r ! x + w * value_at x part) [0..<length (rd_accumulator r)],
     rd_accumulated_from := Suc (rd_accumulated_from r), rd_denominator := rd_denominator r + w\<rparr>"

lemma accumulate_AddedD:
  assumes "accumulate_part s i part w r = Added r'"
  shows "s < rd_senders r" "i < length (rd_sizes r)" "rd_failed_after r ! s = None" "rd_current r = int i" "\<not> rd_finished r"
    "length part = length (rd_accumulator r) \<or> length part = 1" "rd_check_finished (with_part s part w r) = (None, r')"
proof -
  obtain acc where "s < rd_senders r \<and> i < length (rd_sizes r) \<and> rd_failed_after r ! s = None \<and> rd_current r = int i
      \<and> \<not> rd_finished r" and acc: "add_weighted w part (rd_accumulator r) = Inr acc"
    and check: "rd_check_finished (r\<lparr>rd_received := (rd_received r)[s := Suc (rd_received r ! s)], rd_accumulator := acc,
       rd_accumulated_from := Suc (rd_accumulated_from r), rd_denominator := rd_denominator r + w\<rparr>) = (None, r')"
    using assms by (auto simp: accumulate_part_def Let_def split: if_splits sum.splits prod.splits option.splits)
  then show "s < rd_senders r" "i < length (rd_sizes r)" "rd_failed_after r ! s = None" "rd_current r = int i" "\<not> rd_finished r"
    by simp_all
  show len: "length part = length (rd_accumulator r) \<or> length part = 1" by (rule add_weighted_InrD [OF acc])
  show "rd_check_finished (with_part s part w r) = (None, r')"
    using check acc add_weighted_sizes [OF len, of w] by (simp add: with_part_def)
qed

lemma accumulate_wanted:
  assumes "s < rd_senders r" "i < length (rd_sizes r)" "rd_failed_after r ! s = None" "rd_current r = int i" "\<not> rd_finished r"
    "length part = length (rd_accumulator r) \<or> length part = 1"
  shows "accumulate_part s i part w r = (case rd_check_finished (with_part s part w r) of
     (Some e, r3) \<Rightarrow> Refused e r3 | (None, r3) \<Rightarrow> Added r3)"
  using assms(1-5) add_weighted_sizes [OF assms(6), of w] by (simp add: accumulate_part_def with_part_def Let_def)

lemma collecting_with_part:
  assumes c: "collecting sizes n es k r" and s: "s < n" "rd_failed_after r ! s = None" "rd_received r ! s = k"
  shows "collecting sizes n (es @ [Adds s part w]) k (with_part s part w r)"
proof -
  let ?r = "with_part s part w r"
  let ?es = "es @ [Adds s part w]"
  have b: "bookkeeping sizes n es r" and len: "length (rd_received r) = n" "length (sent s es) = k" "length (rd_results r) = k"
    using c s by (auto simp: collecting_def bookkeeping_def)
  have old: "average_of sizes n ?es i = average_of sizes n es i" if "i < k" for i
    using that len(2) by (simp add: average_of_other)
  have b': "bookkeeping sizes n ?es ?r"
    using b len s old by (auto simp: bookkeeping_def with_part_def nth_list_update)
  have A: "{u. u < n \<and> rd_received ?r ! u = Suc k} = insert s {u. u < n \<and> rd_received r ! u = Suc k}"
    using s len by (auto simp: with_part_def nth_list_update)
  have N: "{u. u < n \<and> (rd_received ?r ! u = Suc k \<or> rd_failed_after ?r ! u = None)}
      = {u. u < n \<and> (rd_received r ! u = Suc k \<or> rd_failed_after r ! u = None)}"
    using s len by (auto simp: with_part_def nth_list_update)
  have "card {u. u < n \<and> rd_received ?r ! u = Suc k} = Suc (rd_accumulated_from r)"
    using c s unfolding A by (subst card_insert_disjoint) (auto simp: collecting_def)
  moreover have "card {u. u < n \<and> (rd_received ?r ! u = Suc k \<or> rd_failed_after ?r ! u = None)} = rd_num_current r"
    using c unfolding N by (simp add: collecting_def)
  moreover have "\<forall>u < n. in_phase k (rd_received ?r ! u) (rd_failed_after ?r ! u)"
    using c s len by (auto simp: collecting_def with_part_def nth_list_update in_phase_def)
  moreover have "rd_accumulator ?r = map (\<lambda>x. value_sum x n ?es k) [0..<sizes ! k]"
    using c total_of_add [OF s(1) len(2)] by (simp add: collecting_def with_part_def)
  moreover have "rd_denominator ?r = weight_sum n ?es k"
    using c total_of_add [OF s(1) len(2)] by (simp add: collecting_def with_part_def)
  ultimately show ?thesis using c b' by (simp add: collecting_def with_part_def)
qed

lemma adds_inv:
  assumes "round_inv sizes n es r" "accumulate_part s (rd_received r ! s) part w r = Added r'"
  shows "round_inv sizes n (es @ [Adds s part w]) r'"
proof -
  note d = accumulate_AddedD [OF assms(2)]
  obtain k where c: "collecting sizes n es k r" using assms(1) d(5) by (auto simp: round_inv_def)
  have s: "s < n" "rd_received r ! s = k" using c d(1,4) by (simp_all add: collecting_def bookkeeping_def)
  show ?thesis using check_finished_inv [OF collecting_with_part [OF c s(1) d(3) s(2), of part w]] d(7) by auto
qed

section \<open>Banned senders\<close>

definition with_ban :: "nat \<Rightarrow> reducer \<Rightarrow> reducer" where
  "with_ban s r = r\<lparr>rd_failed_after := (rd_failed_after r)[s := Some (rd_received r ! s)],
     rd_num_current := (if rd_current r = int (rd_received r ! s) then rd_num_current r - 1 else rd_num_current r)\<rparr>"

lemma bookkeeping_with_ban:
  "bookkeeping sizes n es r \<Longrightarrow> s < n \<Longrightarrow> bookkeeping sizes n (es @ [Bans s]) (with_ban s r)"
  by (auto simp: bookkeeping_def with_ban_def nth_list_update)

lemma collecting_with_ban:
  assumes c: "collecting sizes n es k r" and s: "s < n" "rd_failed_after r ! s = None"
  shows "collecting sizes n (es @ [Bans s]) k (with_ban s r)"
proof -
  let ?r = "with_ban s r"
  have len: "length (rd_failed_after r) = n" "rd_received r ! s = k \<or> rd_received r ! s = Suc k" "rd_current r = int k"
    using c s by (auto simp: collecting_def bookkeeping_def in_phase_def)
  let ?N = "\<lambda>r. {u. u < n \<and> (rd_received r ! u = Suc k \<or> rd_failed_after r ! u = None)}"
  have "card (?N ?r) = rd_num_current ?r"
  proof (cases "rd_received r ! s = k")
    case True
    then have "?N ?r = ?N r - {s}" using s len by (auto simp: with_ban_def nth_list_update)
    moreover have "s \<in> ?N r" using s by simp
    ultimately have "card (?N ?r) = card (?N r) - 1" by (simp add: card_Diff_singleton)
    then show ?thesis using c True len by (simp add: collecting_def with_ban_def)
  next
    case False
    then have "?N ?r = ?N r" using s len by (auto simp: with_ban_def nth_list_update)
    then show ?thesis using c False len by (simp add: collecting_def with_ban_def)
  qed
  moreover have "\<forall>u < n. in_phase k (rd_received ?r ! u) (rd_failed_after ?r ! u)"
    using c s len by (auto simp: collecting_def with_ban_def nth_list_update in_phase_def)
  moreover have "bookkeeping sizes n (es @ [Bans s]) ?r"
    using c s by (intro bookkeeping_with_ban) (simp_all add: collecting_def)
  ultimately show ?thesis using c by (simp add: collecting_def with_ban_def)
qed

lemma on_sender_failed_cases:
  "on_sender_failed s r =
     (if \<not> rd_finished r \<and> rd_current r = int (rd_received r ! s) then rd_check_finished (with_ban s r)
      else (None, r\<lparr>rd_failed_after := (rd_failed_after r)[s := Some (rd_received r ! s)]\<rparr>))"
  by (simp add: on_sender_failed_def with_ban_def Let_def)

lemma bans_inv:
  assumes inv: "round_inv sizes n es r" and s: "s < rd_senders r" "rd_failed_after r ! s = None"
    and step: "on_sender_failed s r = (e, r')"
  shows "round_inv sizes n (es @ [Bans s]) r'"
proof (cases "rd_finished r")
  case True
  then have "bookkeeping sizes n es r" "length (rd_results r) = length sizes" using inv by (simp_all add: round_inv_def)
  then have "bookkeeping sizes n (es @ [Bans s]) r'" "rd_finished r'" "rd_results r' = rd_results r"
    using step s True by (auto simp: on_sender_failed_cases bookkeeping_def nth_list_update split: if_splits)
  then show ?thesis using \<open>length (rd_results r) = length sizes\<close> by (simp add: round_inv_def)
next
  case False
  then obtain k where c: "collecting sizes n es k r" and more: "rd_accumulated_from r < rd_num_current r \<or> rd_num_current r = 0"
    using inv by (auto simp: round_inv_def)
  have n: "s < n" using c s by (simp add: collecting_def bookkeeping_def)
  note ban = collecting_with_ban [OF c n s(2)]
  show ?thesis
  proof (cases "rd_current r = int (rd_received r ! s)")
    case True
    then have "on_sender_failed s r = rd_check_finished (with_ban s r)" using False by (simp add: on_sender_failed_cases)
    then show ?thesis using check_finished_inv [OF ban] step by auto
  next
    case other: False
    then have "r' = with_ban s r" using False step by (auto simp: on_sender_failed_cases with_ban_def intro!: reducer.equality)
    then show ?thesis using ban False other more by (auto simp: round_inv_def with_ban_def)
  qed
qed

text \<open>A run in which no part is refused.\<close>

definition none_refused :: "round_event list \<Rightarrow> bool" where
  "none_refused es = list_all (\<lambda>e. case e of Refuses s p w \<Rightarrow> False | _ \<Rightarrow> True) es"

lemma run_inv:
  "rd_run r0 es r \<Longrightarrow> none_refused es \<Longrightarrow> round_inv sizes n [] r0 \<Longrightarrow> round_inv sizes n es r"
proof (induction rule: rd_run.induct)
  case (rd_more r es r1 e r2)
  have inv: "round_inv sizes n es r1" and e: "\<nexists>s p w. e = Refuses s p w"
    using rd_more by (auto simp: none_refused_def)
  show ?case using rd_more.hyps(2) inv e by (cases rule: rd_step.cases) (auto intro: adds_inv bans_inv)
qed simp

lemma reachable_inv:
  assumes "rd_run (snd (reducer_new sizes n)) es r" "none_refused es"
  shows "round_inv sizes n es r"
  using assms run_inv [OF assms] reducer_new_inv [of sizes n] by auto

text \<open>What a reducer answers to a part is the weighted average of what the senders sent for it, whoever is banned and
  whenever; every sender that is not banned has sent the part; and the reducer is finished when all parts are answered.\<close>

lemma round_averages:
  assumes "rd_run (snd (reducer_new sizes n)) es r" "none_refused es"
  shows "(\<forall>i < length (rd_results r). rd_results r ! i = average_of sizes n es i
           \<and> (\<forall>s < n. rd_failed_after r ! s = None \<longrightarrow> i < length (sent s es)))
    \<and> (rd_finished r \<longleftrightarrow> length (rd_results r) = length sizes)"
proof (cases "rd_finished r")
  case True
  then show ?thesis using reachable_inv [OF assms] by (simp add: round_inv_def bookkeeping_def)
next
  case False
  then obtain k where "collecting sizes n es k r" using reachable_inv [OF assms] by (auto simp: round_inv_def)
  then show ?thesis using False by (simp add: collecting_def bookkeeping_def)
qed

text \<open>Until it is finished, the reducer wants the part of some sender, unless all are banned; it takes it when it comes.\<close>

lemma reducer_progress:
  assumes "rd_run (snd (reducer_new sizes n)) es r" "none_refused es" "\<not> rd_finished r" "\<exists>s < n. rd_failed_after r ! s = None"
  obtains s where "s < n" "rd_failed_after r ! s = None" "length (sent s es) = length (rd_results r)"
    "length (rd_results r) < length sizes"
    "\<And>part w. length part = sizes ! length (rd_results r) \<Longrightarrow> \<exists>r'. rd_step r (Adds s part w) r'"
proof -
  obtain k where c: "collecting sizes n es k r" and more: "rd_accumulated_from r < rd_num_current r \<or> rd_num_current r = 0"
    using reachable_inv [OF assms(1,2)] assms(3) by (auto simp: round_inv_def)
  have "rd_num_current r \<noteq> 0" using c assms(4) by (auto simp: collecting_def)
  then have "rd_accumulated_from r \<noteq> rd_num_current r" using more by simp
  then obtain s where s: "s < n" "rd_failed_after r ! s = None" "rd_received r ! s \<noteq> Suc k"
    using collecting_count(2) [OF c] by blast
  have k: "rd_received r ! s = k" "length (rd_results r) = k" "k < length sizes"
    using c s by (auto simp: collecting_def in_phase_def)
  have "\<exists>r'. rd_step r (Adds s part w) r'" if "length part = sizes ! k" for part w
  proof -
    obtain r' where r': "rd_check_finished (with_part s part w r) = (None, r')"
      using check_finished_inv [OF collecting_with_part [OF c s(1,2) k(1), of part w]] by auto
    have "accumulate_part s k part w r = (case rd_check_finished (with_part s part w r) of
        (Some e, r3) \<Rightarrow> Refused e r3 | (None, r3) \<Rightarrow> Added r3)"
      by (rule accumulate_wanted) (use c s k that assms(3) in \<open>simp_all add: collecting_def bookkeeping_def\<close>)
    then show ?thesis using r' k(1) by (auto intro: adds)
  qed
  moreover have "length (sent s es) = k" using c s k by (auto simp: collecting_def bookkeeping_def)
  ultimately show ?thesis using that [OF s(1,2)] k by simp
qed

text \<open>When every sender that is not banned has sent all its parts, and there is one that has, the reducer is finished.\<close>

lemma round_finishes:
  assumes "rd_run (snd (reducer_new sizes n)) es r" "none_refused es"
    and "\<forall>s < n. rd_failed_after r ! s = None \<longrightarrow> length (sent s es) = length sizes"
    and "\<exists>s < n. length (sent s es) = length sizes"
  shows "rd_finished r"
proof (rule ccontr)
  assume open_round: "\<not> rd_finished r"
  then obtain k where c: "collecting sizes n es k r" and more: "rd_accumulated_from r < rd_num_current r \<or> rd_num_current r = 0"
    using reachable_inv [OF assms(1,2)] by (auto simp: round_inv_def)
  obtain s where s: "s < n" "length (sent s es) = length sizes" using assms(4) by blast
  have "length sizes \<le> Suc k" "k < length sizes"
    using c s in_phase_le [of k "rd_received r ! s" "rd_failed_after r ! s"] by (auto simp: collecting_def bookkeeping_def)
  then have len: "length sizes = Suc k" by simp
  then have "s \<in> {s. s < n \<and> (rd_received r ! s = Suc k \<or> rd_failed_after r ! s = None)}"
    using c s by (simp add: collecting_def bookkeeping_def)
  then have "rd_num_current r \<noteq> 0" using c by (auto simp: collecting_def)
  moreover have "rd_accumulated_from r = rd_num_current r"
    unfolding collecting_count(2) [OF c] using assms(3) len c by (simp add: collecting_def bookkeeping_def)
  ultimately show False using more by simp
qed

section \<open>What stops a reducer\<close>

text \<open>The waiter's cancellation reaches the future of the part, so nobody can set it.\<close>

lemma check_finished_cancelled:
  "rd_future r = CancelledFuture \<Longrightarrow> \<not> rd_finished r \<Longrightarrow> rd_check_finished r = (e, r') \<Longrightarrow>
   rd_future r' = CancelledFuture \<and> \<not> rd_finished r' \<and> rd_results r' = rd_results r"
  by (auto simp: rd_check_finished_def Let_def split: if_splits)

lemma accumulate_cancelled:
  assumes "rd_future r = CancelledFuture" "\<not> rd_finished r"
    and "accumulate_part s i part w r = Added r' \<or> accumulate_part s i part w r = Refused e r'"
  shows "rd_future r' = CancelledFuture \<and> \<not> rd_finished r' \<and> rd_results r' = rd_results r"
  using assms
  by (auto simp: accumulate_part_def Let_def split: if_splits sum.splits prod.splits option.splits
      dest!: check_finished_cancelled [rotated 2])

lemma step_cancelled:
  assumes "rd_step r ev r'" "rd_future r = CancelledFuture" "\<not> rd_finished r"
  shows "rd_future r' = CancelledFuture \<and> \<not> rd_finished r' \<and> rd_results r' = rd_results r"
  using assms(1)
proof (cases rule: rd_step.cases)
  case (bans s e)
  then show ?thesis
    using assms(2,3) check_finished_cancelled [of "with_ban s r" e r']
    by (auto simp: on_sender_failed_cases with_ban_def split: if_splits)
qed (use assms(2,3) accumulate_cancelled in blast)+

lemma run_cancelled:
  "rd_run r es r' \<Longrightarrow> rd_future r = CancelledFuture \<Longrightarrow> \<not> rd_finished r \<Longrightarrow>
   rd_future r' = CancelledFuture \<and> \<not> rd_finished r' \<and> rd_results r' = rd_results r"
  by (induction rule: rd_run.induct) (use step_cancelled in metis)+

text \<open>Cancelling the task that waits for the average of a part, as the runner does when the stream of a sender ends
  early, cancels the future of all senders: no later step of any sender answers this part or a later one.\<close>

lemma cancelled_waiter_blocks:
  assumes "rd_run (snd (reducer_new sizes n)) es r" "none_refused es" "\<not> rd_finished r"
    and "rd_run (cancel_waiter r) es' r'"
  shows "\<not> rd_finished r' \<and> rd_results r' = rd_results r \<and> length (rd_results r') < length sizes"
proof -
  obtain k where c: "collecting sizes n es k r" using reachable_inv [OF assms(1,2)] assms(3) by (auto simp: round_inv_def)
  then have "rd_future (cancel_waiter r) = CancelledFuture" "\<not> rd_finished (cancel_waiter r)"
    "rd_results (cancel_waiter r) = rd_results r" "length (rd_results r) < length sizes"
    by (simp_all add: cancel_waiter_def collecting_def)
  then show ?thesis using run_cancelled [OF assms(4)] by simp
qed

text \<open>The senders whose part is wanted; when one more part is counted than they can send, the current part stays open.\<close>

definition wanted :: "reducer \<Rightarrow> nat set" where
  "wanted r = {s. s < rd_senders r \<and> rd_failed_after r ! s = None \<and> rd_current r = int (rd_received r ! s)}"

definition starved :: "reducer \<Rightarrow> bool" where
  "starved r \<longleftrightarrow> \<not> rd_finished r \<and> length (rd_received r) = rd_senders r \<and> length (rd_failed_after r) = rd_senders r
     \<and> (\<forall>s < rd_senders r. rd_failed_after r ! s = None \<longrightarrow> rd_current r \<le> int (rd_received r ! s))
     \<and> rd_accumulated_from r + card (wanted r) < rd_num_current r"

lemma finite_wanted [simp]: "finite (wanted r)"
  by (simp add: wanted_def)

lemma starved_check: "starved r \<Longrightarrow> rd_check_finished r = (None, r)"
  by (simp add: starved_def rd_check_finished_def)

lemma starved_loses:
  assumes "starved r" "s \<in> wanted r" "wanted r' = wanted r - {s}" "rd_finished r' = rd_finished r"
    "rd_senders r' = rd_senders r" "length (rd_received r') = rd_senders r" "length (rd_failed_after r') = rd_senders r"
    "\<forall>u < rd_senders r. rd_failed_after r' ! u = None \<longrightarrow> rd_current r' \<le> int (rd_received r' ! u)"
    "rd_accumulated_from r' + rd_num_current r \<le> rd_accumulated_from r + rd_num_current r' + 1"
  shows "starved r'"
proof -
  have "card (wanted r) = Suc (card (wanted r'))" using card_Suc_Diff1 [of "wanted r" s] assms(2,3) by simp
  moreover have "rd_accumulated_from r + card (wanted r) < rd_num_current r" using assms(1) by (simp add: starved_def)
  ultimately have "rd_accumulated_from r' + card (wanted r') < rd_num_current r'" using assms(9) by linarith
  then show ?thesis using assms(1,4-8) by (simp add: starved_def)
qed

lemma starved_adds:
  assumes "starved r" "accumulate_part s (rd_received r ! s) part w r = Added r'"
  shows "starved r' \<and> rd_results r' = rd_results r"
proof -
  note d = accumulate_AddedD [OF assms(2)]
  let ?r = "with_part s part w r"
  have len: "length (rd_received r) = rd_senders r" "length (rd_failed_after r) = rd_senders r"
    using assms(1) by (simp_all add: starved_def)
  have "starved ?r"
  proof (rule starved_loses [OF assms(1)])
    show "s \<in> wanted r" using d by (simp add: wanted_def)
    show "wanted ?r = wanted r - {s}" using d len by (auto simp: wanted_def with_part_def nth_list_update split: if_splits)
    show "\<forall>u < rd_senders r. rd_failed_after ?r ! u = None \<longrightarrow> rd_current ?r \<le> int (rd_received ?r ! u)"
      using assms(1) d len by (auto simp: starved_def with_part_def nth_list_update)
  qed (use len in \<open>simp_all add: with_part_def\<close>)
  then have "r' = ?r" using starved_check d(7) by simp
  then show ?thesis using \<open>starved ?r\<close> by (simp add: with_part_def)
qed

lemma starved_received:
  assumes "starved r" "s < rd_senders r"
  shows "starved (r\<lparr>rd_received := (rd_received r)[s := Suc (rd_received r ! s)]\<rparr>)" (is "starved ?r")
proof -
  have len: "length (rd_received r) = rd_senders r" using assms(1) by (simp add: starved_def)
  have "wanted ?r \<subseteq> wanted r"
    using assms len by (fastforce simp: starved_def wanted_def nth_list_update split: if_splits)
  then have "card (wanted ?r) \<le> card (wanted r)" by (intro card_mono) simp_all
  then show ?thesis using assms len by (auto simp: starved_def nth_list_update)
qed

lemma starved_refuses:
  assumes "starved r" "accumulate_part s (rd_received r ! s) part w r = Refused e r'"
  shows "starved r' \<and> rd_results r' = rd_results r"
proof (cases "s < rd_senders r \<and> rd_received r ! s < length (rd_sizes r)")
  case True
  let ?r = "r\<lparr>rd_received := (rd_received r)[s := Suc (rd_received r ! s)]\<rparr>"
  have "r' = ?r"
  proof (cases "s \<in> wanted r")
    case s: True
    then have "card (wanted r) \<noteq> 0" by auto
    moreover have "rd_accumulated_from r + card (wanted r) < rd_num_current r" using assms(1) by (simp add: starved_def)
    ultimately have "Suc (rd_accumulated_from r) < rd_num_current r" by linarith
    then have "rd_check_finished (?r\<lparr>rd_accumulator := acc, rd_accumulated_from := Suc (rd_accumulated_from r),
        rd_denominator := w'\<rparr>) = (None, ?r\<lparr>rd_accumulator := acc, rd_accumulated_from := Suc (rd_accumulated_from r),
        rd_denominator := w'\<rparr>)" for acc w'
      by (simp add: rd_check_finished_def)
    then show ?thesis using assms(2) True s
      by (auto simp: accumulate_part_def wanted_def Let_def split: if_splits sum.splits)
  next
    case False
    then show ?thesis using assms(2) True
      by (auto simp: accumulate_part_def wanted_def Let_def split: if_splits)
  qed
  then show ?thesis using starved_received [OF assms(1)] True by simp
qed (use assms in \<open>auto simp: accumulate_part_def split: if_splits\<close>)

lemma starved_bans:
  assumes "starved r" "s < rd_senders r" "rd_failed_after r ! s = None" "on_sender_failed s r = (e, r')"
  shows "starved r' \<and> rd_results r' = rd_results r"
proof (cases "rd_current r = int (rd_received r ! s)")
  case True
  let ?r = "with_ban s r"
  have s: "s \<in> wanted r" using True assms(2,3) by (simp add: wanted_def)
  have num: "rd_accumulated_from r < rd_num_current r" using assms(1) by (simp add: starved_def)
  have len: "length (rd_received r) = rd_senders r" "length (rd_failed_after r) = rd_senders r"
    using assms(1) by (simp_all add: starved_def)
  have "starved ?r"
  proof (rule starved_loses [OF assms(1) s])
    show "wanted ?r = wanted r - {s}" using len assms(2) by (auto simp: wanted_def with_ban_def nth_list_update split: if_splits)
    show "\<forall>u < rd_senders r. rd_failed_after ?r ! u = None \<longrightarrow> rd_current ?r \<le> int (rd_received ?r ! u)"
      using assms(1,2) len by (auto simp: starved_def with_ban_def nth_list_update split: if_splits)
  qed (use len num in \<open>auto simp: with_ban_def\<close>)
  moreover have "on_sender_failed s r = rd_check_finished ?r"
    using True assms(1) by (simp add: on_sender_failed_cases starved_def)
  ultimately show ?thesis using assms(4) starved_check [of ?r] by (auto simp: with_ban_def)
next
  case False
  let ?r = "r\<lparr>rd_failed_after := (rd_failed_after r)[s := Some (rd_received r ! s)]\<rparr>"
  have len: "length (rd_failed_after r) = rd_senders r" using assms(1) by (simp add: starved_def)
  have "wanted ?r = wanted r" using False len assms(2) by (auto simp: wanted_def nth_list_update split: if_splits)
  then have "starved ?r" using assms(1,2) len by (auto simp: starved_def nth_list_update split: if_splits)
  moreover have "r' = ?r" using assms(4) False by (simp add: on_sender_failed_cases)
  ultimately show ?thesis by simp
qed

lemma step_starved: "rd_step r ev r' \<Longrightarrow> starved r \<Longrightarrow> starved r' \<and> rd_results r' = rd_results r"
  by (cases rule: rd_step.cases) (auto dest: starved_adds starved_refuses starved_bans)

lemma run_starved: "rd_run r es r' \<Longrightarrow> starved r \<Longrightarrow> starved r' \<and> rd_results r' = rd_results r"
  by (induction rule: rd_run.induct) (auto dest: step_starved)

lemma collecting_phase:
  assumes "collecting sizes n es k r" "s < n" "rd_failed_after r ! s = None"
  shows "rd_received r ! s = k \<or> rd_received r ! s = Suc k"
proof -
  have "in_phase k (rd_received r ! s) (rd_failed_after r ! s)" using assms(1,2) by (simp add: collecting_def)
  then show ?thesis using assms(3) by (simp add: in_phase_def)
qed

lemma collecting_wanted:
  assumes "collecting sizes n es k r"
  shows "rd_num_current r = rd_accumulated_from r + card (wanted r)"
proof -
  let ?A = "{s. s < n \<and> rd_received r ! s = Suc k}"
  have num: "rd_accumulated_from r = card ?A"
    "rd_num_current r = card {s. s < n \<and> (rd_received r ! s = Suc k \<or> rd_failed_after r ! s = None)}"
    using assms by (simp_all add: collecting_def)
  have w: "wanted r = {s. s < n \<and> rd_failed_after r ! s = None \<and> rd_received r ! s = k}"
    using assms by (auto simp: collecting_def bookkeeping_def wanted_def)
  have "{s. s < n \<and> (rd_received r ! s = Suc k \<or> rd_failed_after r ! s = None)} = ?A \<union> wanted r"
    unfolding w by (auto dest: collecting_phase [OF assms])
  moreover have "?A \<inter> wanted r = {}" unfolding w by auto
  ultimately show ?thesis using card_Un_disjoint [of ?A "wanted r"] num by simp
qed

text \<open>A part of the wrong size is counted as received before it is refused, so the reducer still waits for it when its
  sender is banned: no later step of any sender answers this part or a later one.\<close>

lemma refused_part_blocks:
  assumes "rd_run (snd (reducer_new sizes n)) es r" "none_refused es" "\<not> rd_finished r"
    and s: "s < n" "rd_failed_after r ! s = None" "length (sent s es) = length (rd_results r)"
    and "rd_step r (Refuses s part w) r1" "rd_run r1 es' r'"
  shows "\<not> rd_finished r' \<and> rd_results r' = rd_results r \<and> length (rd_results r') < length sizes"
proof -
  obtain k where c: "collecting sizes n es k r" using reachable_inv [OF assms(1,2)] assms(3) by (auto simp: round_inv_def)
  have b: "bookkeeping sizes n es r" and k: "length (rd_results r) = k" "k < length sizes" "rd_current r = int k"
    using c by (simp_all add: collecting_def)
  then have recv: "rd_received r ! s = k" and len: "length (rd_received r) = n" "length (rd_failed_after r) = n"
    "rd_senders r = n" "rd_sizes r = sizes"
    using s by (simp_all add: bookkeeping_def)
  let ?r = "r\<lparr>rd_received := (rd_received r)[s := Suc (rd_received r ! s)]\<rparr>"
  obtain e where "accumulate_part s k part w r = Refused e r1" using assms(7) recv by (auto elim: rd_stepE)
  moreover obtain r3 where "rd_check_finished (with_part s part w r) = (None, r3)"
    using check_finished_inv [OF collecting_with_part [OF c s(1,2) recv, of part w]] by auto
  ultimately have wrong: "\<not> (length part = length (rd_accumulator r) \<or> length part = 1)"
    using accumulate_wanted [of s r k part w] s k len assms(3) by fastforce
  then have "r1 = ?r"
    using \<open>accumulate_part s k part w r = Refused e r1\<close> s k len recv assms(3)
    by (simp add: accumulate_part_def add_weighted_def Let_def)
  moreover have "starved ?r"
  proof -
    have w: "wanted ?r = wanted r - {s}" "s \<in> wanted r"
      using s k len recv by (auto simp: wanted_def nth_list_update split: if_splits)
    then have "Suc (card (wanted ?r)) = card (wanted r)" using card_Suc_Diff1 [of "wanted r" s] by simp
    moreover have "\<forall>u < n. rd_failed_after r ! u = None \<longrightarrow> k \<le> rd_received r ! u"
      using collecting_phase [OF c] by fastforce
    ultimately show ?thesis using collecting_wanted [OF c] len k assms(3) recv s(1) by (auto simp: starved_def nth_list_update)
  qed
  ultimately show ?thesis using run_starved [OF assms(8)] k by (simp add: starved_def)
qed

text \<open>When all senders are banned before the last part, nobody moves the reducer on.\<close>

definition deserted :: "reducer \<Rightarrow> bool" where
  "deserted r \<longleftrightarrow> \<not> rd_finished r \<and> (\<forall>s < rd_senders r. rd_failed_after r ! s \<noteq> None)"

lemma step_deserted:
  assumes "rd_step r ev r'" "deserted r"
  shows "deserted r' \<and> rd_results r' = rd_results r"
  using assms(1)
proof (cases rule: rd_step.cases)
  case (adds s part w)
  have "s < rd_senders r" "rd_failed_after r ! s = None" by (rule accumulate_AddedD [OF adds(2)])+
  then show ?thesis using assms(2) by (auto simp: deserted_def)
next
  case (refuses s part w e)
  then show ?thesis using assms(2) by (auto simp: accumulate_part_def deserted_def Let_def split: if_splits)
next
  case (bans s e)
  then show ?thesis using assms(2) by (auto simp: deserted_def)
qed

lemma run_deserted: "rd_run r es r' \<Longrightarrow> deserted r \<Longrightarrow> deserted r' \<and> rd_results r' = rd_results r"
  by (induction rule: rd_run.induct) (auto dest: step_deserted)

section \<open>Playing a round\<close>

fun do_event :: "reducer \<Rightarrow> round_event \<Rightarrow> reducer option" where
  "do_event r (Adds s part w) = (case accumulate_part s (rd_received r ! s) part w r of Added r' \<Rightarrow> Some r' | _ \<Rightarrow> None)"
| "do_event r (Refuses s part w) = (case accumulate_part s (rd_received r ! s) part w r of Refused e r' \<Rightarrow> Some r' | _ \<Rightarrow> None)"
| "do_event r (Bans s) = (if s < rd_senders r \<and> rd_failed_after r ! s = None then Some (snd (on_sender_failed s r)) else None)"

fun play :: "reducer \<Rightarrow> round_event list \<Rightarrow> reducer option" where
  "play r [] = Some r"
| "play r (e # es) = (case do_event r e of None \<Rightarrow> None | Some r1 \<Rightarrow> play r1 es)"

lemma do_event_step: "do_event r e = Some r' \<longleftrightarrow> rd_step r e r'"
  by (cases e) (auto intro: rd_step.intros elim!: rd_stepE split: arrival.splits if_splits intro!: bans [OF _ _ prod.collapse [symmetric]])

lemma play_append: "play r (es @ [e]) = (case play r es of None \<Rightarrow> None | Some r1 \<Rightarrow> do_event r1 e)"
  by (induction es arbitrary: r) (auto split: option.splits)

lemma play_run: "play r es = Some r' \<longleftrightarrow> rd_run r es r'"
proof (induction es arbitrary: r' rule: rev_induct)
  case Nil
  show ?case by (auto intro: rd_start elim: rd_run.cases)
next
  case (snoc e es)
  have "rd_run r (es @ [e]) r' \<longleftrightarrow> (\<exists>r1. rd_run r es r1 \<and> rd_step r1 e r')"
    by (auto intro: rd_more elim: rd_run.cases)
  moreover have "play r (es @ [e]) = Some r' \<longleftrightarrow> (\<exists>r1. play r es = Some r1 \<and> do_event r1 e = Some r')"
    by (auto simp: play_append split: option.splits)
  ultimately show ?case by (simp add: snoc do_event_step)
qed

end
