(* ===== verification/AllReduceGroup.thy ===== *)
theory AllReduceGroup
  imports AllReduceRebuild AllReduceRounds
begin

text \<open>
  The group: peers with tensors of the same shapes cut them alike, so the parts the senders send under one number are
  the same places of their tensors, and what every peer rebuilds is the average of all tensors less its own.
\<close>

section \<open>The same cut at every peer\<close>

lemma place_all_cong:
  "map (length \<circ> fst) ps = map (length \<circ> fst) qs \<Longrightarrow> place_all pv k start ps = place_all pv k start qs"
proof (induction ps arbitrary: qs k start)
  case (Cons p ps)
  then obtain q qs' where qs: "qs = q # qs'" "length (fst p) = length (fst q)" "map (length \<circ> fst) ps = map (length \<circ> fst) qs'"
    by (cases qs) (auto simp: comp_def)
  have "place_all pv k1 st ps = place_all pv k1 st qs'" for k1 st by (rule Cons.IH [OF qs(3)])
  then show ?case by (auto simp: qs(1,2) split: sum.split prod.split)
qed simp

lemma map_of_peer: "map f (of_peer js ps j) = map snd (filter (\<lambda>w. fst w = j) (zip js (map f ps)))"
proof -
  have "filter (\<lambda>w. fst w = j) (zip js (map f ps)) = map (apsnd f) (filter (\<lambda>w. fst w = j) (zip js ps))"
    by (simp add: zip_map2 filter_map comp_def case_prod_unfold apsnd_def map_prod_def)
  then show ?thesis by (simp add: of_peer_def comp_def)
qed

lemma of_peer_cong: "map f ps = map f qs \<Longrightarrow> map f (of_peer js ps j) = map f (of_peer js qs j)"
  by (simp add: map_of_peer)

definition shape_of :: "(real list \<times> real) list \<Rightarrow> (nat \<times> real) list" where
  "shape_of tensors = map (\<lambda>(xs, vb). (length xs, vb)) tensors"

lemma split_lengths_of_shape:
  "shape_of tensors = shape_of tensors' \<Longrightarrow>
   map (map length) (map (\<lambda>(xs, vb). split_parts (f vb) xs) tensors)
     = map (map length) (map (\<lambda>(xs, vb). split_parts (f vb) xs) tensors')"
proof (induction tensors arbitrary: tensors')
  case (Cons t tensors)
  then obtain xs vb ys rest where t: "t = (xs, vb)" "tensors' = (ys, vb) # rest" "length xs = length ys"
    "shape_of tensors = shape_of rest"
    by (cases t; cases tensors') (auto simp: shape_of_def)
  then show ?case using Cons.IH [OF t(4)] split_parts_lengths [OF t(3)] by simp
qed (simp add: shape_of_def)

lemma numel_of_shape: "sum_list (map (length \<circ> fst) tensors) = sum_list (map fst (shape_of tensors))"
  by (simp add: shape_of_def comp_def case_prod_unfold)

lemma same_cut:
  assumes fr: "fractions \<noteq> []" "\<forall>x \<in> set fractions. 0 \<le> x" "0 < sum_list fractions"
    and cut: "cuttable part_bytes tensors" "cuttable part_bytes tensors'" and shape: "shape_of tensors = shape_of tensors'"
    and new: "container_new tensors fractions peers part_bytes deltas = Inr c"
      "container_new tensors' fractions peers' part_bytes deltas' = Inr c'"
  shows "map (map (length \<circ> fst)) (tc_inputs c) = map (map (length \<circ> fst)) (tc_inputs c')"
proof -
  let ?pv = "pivots fractions (sum_list (map fst (shape_of tensors)))"
  let ?n = "\<lambda>vb. nat \<lfloor>part_bytes / vb\<rfloor>"
  obtain pss js where pss: "map (map fst) pss = map (\<lambda>(xs, vb). split_parts (?n vb) xs) tensors"
    and js: "place_all ?pv 0 0 (concat pss) = Inr js"
    and c: "tc_inputs c = map (of_peer js (concat pss)) [0..<length fractions]"
    by (rule container_new_result [OF fr cut(1), of peers deltas]) (use new(1) in \<open>simp add: numel_of_shape\<close>)
  obtain qss ks where qss: "map (map fst) qss = map (\<lambda>(xs, vb). split_parts (?n vb) xs) tensors'"
    and ks: "place_all ?pv 0 0 (concat qss) = Inr ks"
    and c': "tc_inputs c' = map (of_peer ks (concat qss)) [0..<length fractions]"
    by (rule container_new_result [OF fr cut(2), of peers' deltas']) (use new(2) in \<open>simp add: numel_of_shape shape\<close>)
  have "map (map length) (map (map fst) pss) = map (map length) (map (map fst) qss)"
    unfolding pss qss by (rule split_lengths_of_shape [OF shape])
  then have "concat (map (map (length \<circ> fst)) pss) = concat (map (map (length \<circ> fst)) qss)" by simp
  then have len: "map (length \<circ> fst) (concat pss) = map (length \<circ> fst) (concat qss)" by (simp add: map_concat)
  then have "js = ks" using place_all_cong [OF len, of ?pv 0 0] js ks by simp
  then have "map (length \<circ> fst) (of_peer js (concat pss) j) = map (length \<circ> fst) (of_peer ks (concat qss) j)" for j
    using of_peer_cong [OF len] by simp
  then show ?thesis unfolding c c' map_map by (intro map_cong refl) (simp only: comp_apply)
qed

section \<open>The average less one's own\<close>

definition mean_at :: "nat \<Rightarrow> (nat \<Rightarrow> real) \<Rightarrow> (nat \<Rightarrow> real list) \<Rightarrow> nat \<Rightarrow> real" where
  "mean_at n w xs x = (\<Sum>s<n. w s * xs s ! x) / (\<Sum>s<n. w s)"

definition delta_from_mean :: "nat \<Rightarrow> (nat \<Rightarrow> real) \<Rightarrow> (nat \<Rightarrow> real list) \<Rightarrow> real list \<Rightarrow> real list" where
  "delta_from_mean n w xs own = map (\<lambda>x. mean_at n w xs x - own ! x) [0..<length own]"

lemma mean_at_cong: "(\<And>s. s < n \<Longrightarrow> xs s ! x = ys s ! y) \<Longrightarrow> mean_at n w xs x = mean_at n w ys y"
  unfolding mean_at_def by (intro arg_cong2 [where f = divide] sum.cong refl) simp

lemma delta_from_mean_append:
  assumes "\<And>s. s < n \<Longrightarrow> length (as s) = length a"
  shows "delta_from_mean n w (\<lambda>s. as s @ bs s) (a @ b) = delta_from_mean n w as a @ delta_from_mean n w bs b"
proof (rule nth_equalityI)
  fix x assume x: "x < length (delta_from_mean n w (\<lambda>s. as s @ bs s) (a @ b))"
  show "delta_from_mean n w (\<lambda>s. as s @ bs s) (a @ b) ! x = (delta_from_mean n w as a @ delta_from_mean n w bs b) ! x"
  proof (cases "x < length a")
    case True
    have "mean_at n w (\<lambda>s. as s @ bs s) x = mean_at n w as x"
      by (rule mean_at_cong) (simp add: assms True nth_append)
    then show ?thesis using True by (simp add: delta_from_mean_def nth_append)
  next
    case False
    have "mean_at n w (\<lambda>s. as s @ bs s) x = mean_at n w bs (x - length a)"
      by (rule mean_at_cong) (simp add: assms False nth_append)
    moreover have "x - length a < length b" using False x by (simp add: delta_from_mean_def)
    ultimately show ?thesis using False x by (simp add: delta_from_mean_def nth_append)
  qed
qed (simp add: delta_from_mean_def)

lemma delta_from_mean_cong:
  "(\<And>s. s < n \<Longrightarrow> xs s = ys s) \<Longrightarrow> delta_from_mean n w xs own = delta_from_mean n w ys own"
  unfolding delta_from_mean_def by (intro map_cong refl arg_cong2 [where f = minus] mean_at_cong) simp

lemma delta_from_mean_concat:
  "(\<And>s. s < n \<Longrightarrow> map length (xss s) = map length own) \<Longrightarrow>
   concat (map (\<lambda>i. delta_from_mean n w (\<lambda>s. xss s ! i) (own ! i)) [0..<length own])
     = delta_from_mean n w (\<lambda>s. concat (xss s)) (concat own)"
proof (induction own arbitrary: xss)
  case Nil
  then show ?case by (simp add: delta_from_mean_def)
next
  case (Cons a own)
  have hd: "xss s = hd (xss s) # tl (xss s)" "length (hd (xss s)) = length a" "map length (tl (xss s)) = map length own" if "s < n" for s
    using Cons.prems [OF that] by (cases "xss s"; simp)+
  have "[0..<length (a # own)] = 0 # map Suc [0..<length own]" by (simp add: upt_conv_Cons map_Suc_upt del: upt_Suc)
  then have "concat (map (\<lambda>i. delta_from_mean n w (\<lambda>s. xss s ! i) ((a # own) ! i)) [0..<length (a # own)])
      = delta_from_mean n w (\<lambda>s. xss s ! 0) a
        @ concat (map (\<lambda>i. delta_from_mean n w (\<lambda>s. xss s ! Suc i) (own ! i)) [0..<length own])"
    by (simp add: comp_def)
  also have "delta_from_mean n w (\<lambda>s. xss s ! 0) a = delta_from_mean n w (\<lambda>s. hd (xss s)) a"
    by (rule delta_from_mean_cong) (metis hd(1) nth_Cons_0)
  also have "map (\<lambda>i. delta_from_mean n w (\<lambda>s. xss s ! Suc i) (own ! i)) [0..<length own]
      = map (\<lambda>i. delta_from_mean n w (\<lambda>s. tl (xss s) ! i) (own ! i)) [0..<length own]"
    by (intro map_cong refl delta_from_mean_cong) (metis hd(1) nth_Cons_Suc)
  also have "concat \<dots> = delta_from_mean n w (\<lambda>s. concat (tl (xss s))) (concat own)" by (rule Cons.IH) (rule hd(3))
  also have "delta_from_mean n w (\<lambda>s. hd (xss s)) a @ \<dots>
      = delta_from_mean n w (\<lambda>s. hd (xss s) @ concat (tl (xss s))) (a @ concat own)"
    by (rule delta_from_mean_append [symmetric]) (rule hd(2))
  also have "\<dots> = delta_from_mean n w (\<lambda>s. concat (xss s)) (concat (a # own))"
    unfolding concat.simps by (rule delta_from_mean_cong) (metis hd(1) concat.simps(2))
  finally show ?case .
qed

section \<open>A round without failures\<close>

text \<open>What reducer and peer make of an average: its difference to the own part.\<close>

definition answers_for :: "part list \<Rightarrow> real list option list \<Rightarrow> real list list" where
  "answers_for inputs results = map2 (\<lambda>avg q. map2 (-) (the avg) (fst q)) results inputs"

lemma average_of_all:
  assumes sent: "\<forall>s < n. sent s es = map (\<lambda>q. (fst q, w s)) (inputs s)"
    and same: "\<forall>s < n. map (length \<circ> fst) (inputs s) = sizes" and i: "i < length sizes" and W: "(\<Sum>s<n. w s) \<noteq> 0"
  shows "average_of sizes n es i = Some (map (mean_at n w (\<lambda>s. fst (inputs s ! i))) [0..<sizes ! i])"
proof -
  have len: "length (inputs s) = length sizes" if "s < n" for s using same that by (metis length_map)
  have size: "length (fst (inputs s ! i)) = sizes ! i" if "s < n" for s
    using same that i len [OF that] by (metis comp_apply nth_map)
  have weights: "weight_sum n es i = (\<Sum>s<n. w s)"
    unfolding total_of_def by (rule sum.cong) (simp_all add: sent len i)
  have "value_sum x n es i = (\<Sum>s<n. w s * fst (inputs s ! i) ! x)" if "x < sizes ! i" for x
    unfolding total_of_def
  proof (rule sum.cong [OF refl])
    fix s assume "s \<in> {..<n}"
    then have s: "s < n" by simp
    have "value_at x (fst (inputs s ! i)) = fst (inputs s ! i) ! x"
      using size [OF s] that by (cases "fst (inputs s ! i)") (auto simp: value_at_def)
    then show "(if i < length (sent s es) then (case sent s es ! i of (p, w) \<Rightarrow> w * value_at x p) else 0) = w s * fst (inputs s ! i) ! x"
      using sent s i len [OF s] by simp
  qed
  then show ?thesis using W by (auto simp: average_of_def weights mean_at_def)
qed

lemma answers_are_deltas:
  assumes "length results = length inputs" "map (length \<circ> fst) inputs = sizes"
    and "\<forall>i < length sizes. results ! i = Some (map (mean_at n w (\<lambda>s. xss s ! i)) [0..<sizes ! i])"
  shows "answers_for inputs results = map (\<lambda>i. delta_from_mean n w (\<lambda>s. xss s ! i) (map fst inputs ! i)) [0..<length inputs]"
proof (rule nth_equalityI)
  fix i assume "i < length (answers_for inputs results)"
  then have i: "i < length inputs" using assms(1) by (simp add: answers_for_def)
  then have "sizes ! i = length (fst (inputs ! i))" using assms(2) by auto
  moreover have "results ! i = Some (map (mean_at n w (\<lambda>s. xss s ! i)) [0..<sizes ! i])"
    using assms(2,3) i by (metis length_map)
  ultimately show "answers_for inputs results ! i
      = map (\<lambda>i. delta_from_mean n w (\<lambda>s. xss s ! i) (map fst inputs ! i)) [0..<length inputs] ! i"
    using i assms(1) by (auto simp: answers_for_def delta_from_mean_def intro!: nth_equalityI)
qed (use assms(1) in \<open>simp add: answers_for_def\<close>)

text \<open>One reducer's answers: every part against the average of the senders' parts.\<close>

lemma reducer_answers:
  assumes run: "rd_run (snd (reducer_new sizes n)) es r" "none_refused es"
    and sent: "\<forall>s < n. sent s es = map (\<lambda>q. (fst q, w s)) (inputs s)"
    and same: "\<forall>s < n. map (length \<circ> fst) (inputs s) = sizes" and W: "(\<Sum>s<n. w s) \<noteq> 0" and p: "p < n"
  shows "answers_for (inputs p) (rd_results r)
    = map (\<lambda>i. delta_from_mean n w (\<lambda>s. map fst (inputs s) ! i) (map fst (inputs p) ! i)) [0..<length (inputs p)]"
proof -
  have len: "length (inputs s) = length sizes" if "s < n" for s using same that by (metis length_map)
  have all: "\<forall>s < n. length (sent s es) = length sizes" using sent len by simp
  have "rd_finished r" by (rule round_finishes [OF run]) (use all p in auto)
  then have res: "length (rd_results r) = length sizes"
    "\<forall>i < length (rd_results r). rd_results r ! i = average_of sizes n es i"
    using round_averages [OF run] by auto
  show ?thesis
  proof (rule answers_are_deltas)
    show "length (rd_results r) = length (inputs p)" using res(1) len [OF p] by simp
    show "map (length \<circ> fst) (inputs p) = sizes" using same p by simp
    show "\<forall>i < length sizes. rd_results r ! i = Some (map (mean_at n w (\<lambda>s. map fst (inputs s) ! i)) [0..<sizes ! i])"
    proof (intro allI impI)
      fix i assume i: "i < length sizes"
      have "rd_results r ! i = Some (map (mean_at n w (\<lambda>s. fst (inputs s ! i))) [0..<sizes ! i])"
        using res i average_of_all [OF sent same i W] by simp
      also have "mean_at n w (\<lambda>s. fst (inputs s ! i)) x = mean_at n w (\<lambda>s. map fst (inputs s) ! i) x" for x
        by (rule mean_at_cong) (use i len in simp)
      then have "map (mean_at n w (\<lambda>s. fst (inputs s ! i))) [0..<sizes ! i]
          = map (mean_at n w (\<lambda>s. map fst (inputs s) ! i)) [0..<sizes ! i]"
        by simp
      finally show "rd_results r ! i = Some (map (mean_at n w (\<lambda>s. map fst (inputs s) ! i)) [0..<sizes ! i])" .
    qed
  qed
qed

lemma fits_same_sizes: "map length as = map (length \<circ> fst) inputs \<Longrightarrow> fits inputs as"
proof -
  assume a: "map length as = map (length \<circ> fst) inputs"
  then have len: "length as = length inputs" by (metis length_map)
  show ?thesis unfolding fits_def using a len by simp
qed

lemma delivered_all: "length as = length inputs \<Longrightarrow> take (length inputs) (delivered deltas inputs as) = as"
  by (simp add: delivered_def)

lemma concat_map_concat_map: "concat (map (\<lambda>j. concat (f j)) xs) = concat (concat (map f xs))"
  by (induction xs) simp_all

text \<open>The values of a peer's tensors, one after the other.\<close>

definition flat :: "(real list \<times> real) list \<Rightarrow> real list" where
  "flat tensors = concat (map fst tensors)"

lemma all_reduce_round:
  fixes n g :: nat and tensors :: "nat \<Rightarrow> (real list \<times> real) list" and c :: "nat \<Rightarrow> container"
  assumes fr: "fractions \<noteq> []" "\<forall>x \<in> set fractions. 0 \<le> x" "0 < sum_list fractions"
    and cut: "\<forall>s < n. cuttable part_bytes (tensors s)" and shape: "\<forall>s < n. shape_of (tensors s) = shape"
    and new: "\<forall>s < n. container_new (tensors s) fractions peers part_bytes True = Inr (c s)"
    and W: "(\<Sum>s<n. w s) \<noteq> 0" and p: "p < n"
    and run: "\<forall>j < length fractions. rd_run (snd (reducer_new (map (length \<circ> fst) (tc_inputs (c p) ! j)) n)) (es j) (r j)
      \<and> none_refused (es j) \<and> (\<forall>s < n. sent s (es j) = map (\<lambda>q. (fst q, w s)) (tc_inputs (c s) ! j))"
    and js: "distinct js" "set js \<subseteq> {..<length fractions}" "\<forall>j < length fractions. j \<in> set js \<or> tc_inputs (c p) ! j = []"
  shows "\<exists>c' ts. communicate_all (\<lambda>j. (answers_for (tc_inputs (c p) ! j) (rd_results (r j)), None)) js (c p) = Inr c'
    \<and> iterate_output_tensors c' = Inr (ts, True) \<and> map length ts = map (length \<circ> fst) (tensors p)
    \<and> concat ts = delta_from_mean n w (\<lambda>s. flat (tensors s)) (flat (tensors p))"
proof -
  let ?g = "length fractions"
  let ?in = "\<lambda>s j. tc_inputs (c s) ! j"
  let ?vals = "\<lambda>s. map (map fst) (tc_inputs (c s))"
  let ?as = "\<lambda>j. answers_for (?in p j) (rd_results (r j))"
  have parts: "length (tc_inputs (c s)) = ?g" "concat (concat (?vals s)) = flat (tensors s)" if "s < n" for s
    using container_parts [OF fr, of part_bytes "tensors s" peers True] cut new that by (auto simp: flat_def map_concat)
  have cut_alike: "map (map (length \<circ> fst)) (tc_inputs (c s)) = map (map (length \<circ> fst)) (tc_inputs (c p))" if "s < n" for s
    by (rule same_cut [OF fr, of part_bytes "tensors s" "tensors p"]) (use cut shape new p that in auto)
  have same: "map (length \<circ> fst) (?in s j) = map (length \<circ> fst) (?in p j)" if "s < n" "j < ?g" for s j
    using cut_alike [OF that(1)] parts(1) p that by (metis nth_map)
  have ans: "?as j = map (\<lambda>i. delta_from_mean n w (\<lambda>s. ?vals s ! j ! i) (?vals p ! j ! i)) [0..<length (?vals p ! j)]"
    if j: "j < ?g" for j
  proof -
    have "?as j = map (\<lambda>i. delta_from_mean n w (\<lambda>s. map fst (?in s j) ! i) (map fst (?in p j) ! i)) [0..<length (?in p j)]"
      by (rule reducer_answers [where es = "es j"]) (use run W p j same in blast)+
    also have "\<dots> = map (\<lambda>i. delta_from_mean n w (\<lambda>s. ?vals s ! j ! i) (?vals p ! j ! i)) [0..<length (?vals p ! j)]"
      using j parts(1) [OF p] by (auto intro!: map_cong delta_from_mean_cong simp: parts(1))
    finally show ?thesis .
  qed
  have lens: "map length (?vals s ! j) = map length (?vals p ! j)" if "s < n" "j < ?g" for s j
    using same [OF that] that parts(1) p by simp
  have concat_ans: "concat (?as j) = delta_from_mean n w (\<lambda>s. map concat (?vals s) ! j) (map concat (?vals p) ! j)"
    if j: "j < ?g" for j
  proof -
    have "concat (?as j) = delta_from_mean n w (\<lambda>s. concat (?vals s ! j)) (concat (?vals p ! j))"
      unfolding ans [OF j] by (rule delta_from_mean_concat) (rule lens [OF _ j])
    also have "\<dots> = delta_from_mean n w (\<lambda>s. map concat (?vals s) ! j) (map concat (?vals p) ! j)"
      using j parts(1) [OF p] by (auto intro: delta_from_mean_cong simp: parts(1))
    finally show ?thesis .
  qed
  have sizes: "map length (?as j) = map (length \<circ> fst) (?in p j)" if "j < ?g" for j
    unfolding ans [OF that] using that parts(1) [OF p]
    by (auto simp: delta_from_mean_def comp_def intro!: nth_equalityI)
  have "length (map concat (?vals s)) = length (map concat (?vals p))
      \<and> map length (map concat (?vals s)) = map length (map concat (?vals p))" if "s < n" for s
  proof -
    have "map (sum_list \<circ> map length) (?vals s) = map (sum_list \<circ> map length) (?vals p)"
      using arg_cong [OF cut_alike [OF that], of "map sum_list"] by (simp add: comp_def)
    then show ?thesis using parts(1) that p by (simp add: length_concat comp_def)
  qed
  then have "delta_from_mean n w (\<lambda>s. concat (map concat (?vals s))) (concat (map concat (?vals p)))
      = concat (map (\<lambda>j. delta_from_mean n w (\<lambda>s. map concat (?vals s) ! j) (map concat (?vals p) ! j))
          [0..<length (map concat (?vals p))])"
    by (intro delta_from_mean_concat [symmetric]) blast
  also have "\<dots> = concat (map (\<lambda>j. concat (?as j)) [0..<?g])"
    using parts(1) [OF p] concat_ans by (intro arg_cong [where f = concat] map_cong) auto
  also have "\<dots> = concat (concat (map ?as [0..<?g]))" by (rule concat_map_concat_map)
  finally have whole: "concat (concat (map ?as [0..<?g])) = delta_from_mean n w (\<lambda>s. concat (map concat (?vals s))) (concat (map concat (?vals p)))"
    by simp
  have taken: "map (\<lambda>j. take (length (?in p j)) (delivered True (?in p j) (?as j))) [0..<?g] = map ?as [0..<?g]"
    by (intro map_cong refl delivered_all) (metis atLeastLessThan_iff length_map set_upt sizes)
  have cut_p: "cuttable part_bytes (tensors p)" and new_p: "container_new (tensors p) fractions peers part_bytes True = Inr (c p)"
    using cut new p by blast+
  have fit: "\<forall>j \<in> set js. fits (?in p j) (fst ((\<lambda>j. (?as j, None :: failure_reason option)) j))"
    using js(2) sizes by (auto intro: fits_same_sizes)
  obtain c' ts where res: "communicate_all (\<lambda>j. (?as j, None)) js (c p) = Inr c'" "iterate_output_tensors c' = Inr (ts, True)"
    "map length ts = map (length \<circ> fst) (tensors p)"
    "concat ts = concat (concat (map (\<lambda>j. take (length (?in p j)) (delivered True (?in p j) (?as j))) [0..<?g]))"
    using round_rebuilds [OF fr cut_p new_p js fit] by auto
  have "concat ts = delta_from_mean n w (\<lambda>s. concat (map concat (?vals s))) (concat (map concat (?vals p)))"
    unfolding res(4) taken whole ..
  also have "\<dots> = delta_from_mean n w (\<lambda>s. flat (tensors s)) (flat (tensors p))"
    unfolding concat_map_concat parts(2) [OF p] by (rule delta_from_mean_cong) (rule parts(2))
  finally show ?thesis using res by blast
qed

end
