(* ===== verification/AllReduceDemo.thy ===== *)
theory AllReduceDemo
  imports AllReduceGroup
begin

text \<open>
  The properties of the all-reduce, each at a concrete round: two peers with two values each, parts of one value, and
  rounds of one reducer with a banned sender, a refused part and a cancelled waiter.
\<close>

section \<open>Two peers\<close>

lemmas container_eval = container_new_def Let_def tensor_parts_def part_size_values_def pivots_def split_parts.simps
  overlaps.simps place_def of_peer_def upt_rec

lemmas reducer_eval = reducer_new_def rd_reset_def rd_finalize_def still_sends_def rd_check_finished_def
  add_weighted_def accumulate_part_def on_sender_failed_def cancel_waiter_def Let_def

definition demo_tensors :: "nat \<Rightarrow> (real list \<times> real) list" where
  "demo_tensors s = [(if s = 0 then [1, 2] else [3, 6], 4)]"

definition demo_weight :: "nat \<Rightarrow> real" where
  "demo_weight s = (if s = 0 then 3 else 1)"

definition demo_container :: "nat \<Rightarrow> container" where
  "demo_container s = projr (container_new (demo_tensors s) [1/2, 1/2] [''a'', ''b''] 4 True)"

definition demo_inputs :: "nat \<Rightarrow> part list list" where
  "demo_inputs s = [[([if s = 0 then 1 else 3], 0, 0, 1)], [([if s = 0 then 2 else 6], 0, 1, 1)]]"

definition demo_events :: "nat \<Rightarrow> round_event list" where
  "demo_events j = [Adds 1 [if j = 0 then 3 else 6] 1, Adds 0 [if j = 0 then 1 else 2] 3]"

definition demo_reducer :: "nat \<Rightarrow> reducer" where
  "demo_reducer j = the (play (snd (reducer_new [1] 2)) (demo_events j))"

lemma demo_container_new:
  "container_new (demo_tensors s) [1/2, 1/2] [''a'', ''b''] 4 True = Inr (demo_container s)"
  by (simp add: container_eval demo_container_def demo_tensors_def numeral_2_eq_2 del: upt_Suc)

lemma demo_container_inputs: "tc_inputs (demo_container s) = demo_inputs s"
  by (simp add: container_eval demo_container_def demo_inputs_def demo_tensors_def numeral_2_eq_2 del: upt_Suc)

lemma demo_reducer_run: "rd_run (snd (reducer_new [1] 2)) (demo_events j) (demo_reducer j)"
proof -
  have "play (snd (reducer_new [1] 2)) (demo_events j) = Some (demo_reducer j)"
    by (simp add: reducer_eval demo_reducer_def demo_events_def numeral_2_eq_2)
  then show ?thesis by (simp add: play_run)
qed

lemma less_two: "(\<forall>s < (2::nat). P s) \<longleftrightarrow> P 0 \<and> P 1"
  by (auto simp: less_2_cases_iff)

section \<open>The group\<close>

text \<open>C35. In a round without failures every peer rebuilds, in the shapes of its tensors, the weighted average of all
  senders' tensors less its own, whoever averages which part and in whatever order the parts and the answers come.\<close>

theorem all_reduce_averages:
  assumes "fractions \<noteq> []" "\<forall>x \<in> set fractions. 0 \<le> x" "0 < sum_list fractions"
    and "\<forall>s < n. cuttable part_bytes (tensors s)" "\<forall>s < n. shape_of (tensors s) = shape"
    and "\<forall>s < n. container_new (tensors s) fractions peers part_bytes True = Inr (c s)"
    and "(\<Sum>s<n. w s) \<noteq> 0" "p < n"
    and "\<forall>j < length fractions. rd_run (snd (reducer_new (map (length \<circ> fst) (tc_inputs (c p) ! j)) n)) (es j) (r j)
      \<and> none_refused (es j) \<and> (\<forall>s < n. sent s (es j) = map (\<lambda>q. (fst q, w s)) (tc_inputs (c s) ! j))"
    and "distinct js" "set js \<subseteq> {..<length fractions}" "\<forall>j < length fractions. j \<in> set js \<or> tc_inputs (c p) ! j = []"
  shows "\<exists>c' ts. communicate_all (\<lambda>j. (answers_for (tc_inputs (c p) ! j) (rd_results (r j)), None)) js (c p) = Inr c'
    \<and> iterate_output_tensors c' = Inr (ts, True) \<and> map length ts = map (length \<circ> fst) (tensors p)
    \<and> concat ts = map (\<lambda>x. (\<Sum>s<n. w s * flat (tensors s) ! x) / (\<Sum>s<n. w s) - flat (tensors p) ! x)
        [0..<length (flat (tensors p))]"
  using all_reduce_round [OF assms] unfolding delta_from_mean_def mean_at_def .

lemma all_reduce_averages_witness:
  "\<exists>c' ts. communicate_all (\<lambda>j. (answers_for (tc_inputs (demo_container 0) ! j) (rd_results (demo_reducer j)), None)) [1, 0]
      (demo_container 0) = Inr c'
    \<and> iterate_output_tensors c' = Inr (ts, True) \<and> map length ts = [2] \<and> concat ts = [1/2, 1]"
proof -
  have run: "\<forall>j < length [1/2, 1/2 :: real]. rd_run (snd (reducer_new (map (length \<circ> fst) (tc_inputs (demo_container 0) ! j)) 2))
        (demo_events j) (demo_reducer j)
      \<and> none_refused (demo_events j)
      \<and> (\<forall>s < 2. sent s (demo_events j) = map (\<lambda>q. (fst q, demo_weight s)) (tc_inputs (demo_container s) ! j))"
  proof (intro allI impI)
    fix j assume "j < length [1/2, 1/2 :: real]"
    then have "j = 0 \<or> j = 1" by auto
    then show "rd_run (snd (reducer_new (map (length \<circ> fst) (tc_inputs (demo_container 0) ! j)) 2)) (demo_events j) (demo_reducer j)
      \<and> none_refused (demo_events j)
      \<and> (\<forall>s < 2. sent s (demo_events j) = map (\<lambda>q. (fst q, demo_weight s)) (tc_inputs (demo_container s) ! j))"
      using demo_reducer_run [of 0] demo_reducer_run [of 1]
      by (auto simp: demo_container_inputs demo_inputs_def none_refused_def sent_def demo_events_def demo_weight_def less_two)
  qed
  have new: "\<forall>s < 2. container_new (demo_tensors s) [1/2, 1/2] [''a'', ''b''] 4 True = Inr (demo_container s)"
    by (simp add: demo_container_new)
  show ?thesis
    using all_reduce_averages [of "[1/2, 1/2]" 2 4 demo_tensors "[(2, 4)]" "[''a'', ''b'']" demo_container demo_weight 0
        demo_events demo_reducer "[1, 0]", OF _ _ _ _ _ new _ _ run]
    by (auto simp: cuttable_def shape_of_def demo_tensors_def demo_weight_def flat_def less_two
        numeral_2_eq_2 less_Suc_eq upt_rec)
qed

section \<open>The rebuilt tensors\<close>



section \<open>The reducer\<close>

text \<open>C37. What a reducer answers to a part is the weighted average of what the senders sent for it, whoever is banned and
  whenever; every sender that is not banned has sent the part; and the reducer is finished when all parts are answered.\<close>

theorem reducer_averages_parts:
  assumes "rd_run (snd (reducer_new sizes n)) es r" "none_refused es"
  shows "(\<forall>i < length (rd_results r). rd_results r ! i = average_of sizes n es i
           \<and> (\<forall>s < n. rd_failed_after r ! s = None \<longrightarrow> i < length (sent s es)))
    \<and> (rd_finished r \<longleftrightarrow> length (rd_results r) = length sizes)"
  by (rule round_averages [OF assms])

text \<open>Two senders; the first one is banned after its first part.\<close>

definition ban_events :: "round_event list" where
  "ban_events = [Adds 0 [1, 2] 1, Adds 1 [3, 4] 1, Bans 0, Adds 1 [5] 2]"

definition ban_reducer :: reducer where
  "ban_reducer = the (play (snd (reducer_new [2, 1] 2)) ban_events)"

lemma ban_reducer_run: "rd_run (snd (reducer_new [2, 1] 2)) ban_events ban_reducer" "none_refused ban_events"
proof -
  have "play (snd (reducer_new [2, 1] 2)) ban_events = Some ban_reducer"
    by (simp add: reducer_eval ban_reducer_def ban_events_def numeral_2_eq_2)
  then show "rd_run (snd (reducer_new [2, 1] 2)) ban_events ban_reducer" by (simp add: play_run)
qed (simp add: none_refused_def ban_events_def)

lemma ban_reducer_fields: "rd_results ban_reducer = [Some [2, 3], Some [5]]" "rd_failed_after ban_reducer = [Some 1, None]"
  by (simp_all add: reducer_eval ban_reducer_def ban_events_def numeral_2_eq_2)

lemma reducer_averages_parts_witness:
  "average_of [2, 1] 2 ban_events 0 = Some [2, 3] \<and> average_of [2, 1] 2 ban_events 1 = Some [5] \<and> rd_finished ban_reducer"
  using reducer_averages_parts [OF ban_reducer_run] by (simp add: ban_reducer_fields less_Suc_eq all_conj_distrib)



section \<open>What stops a reducer\<close>

text \<open>C39. Cancelling the task that waits for the average of a part, as the runner does when the stream of a sender ends
  early, cancels the future of all senders: no later step of any sender answers this part or a later one.\<close>

theorem cancelled_waiter_blocks_reducer:
  assumes "rd_run (snd (reducer_new sizes n)) es r" "none_refused es" "\<not> rd_finished r"
    and "rd_run (cancel_waiter r) es' r'"
  shows "\<not> rd_finished r' \<and> rd_results r' = rd_results r \<and> length (rd_results r') < length sizes"
  by (rule cancelled_waiter_blocks [OF assms])

text \<open>The first of two senders has sent its part and waits; it is cancelled and banned, then the second one sends.\<close>

definition waiting_reducer :: reducer where
  "waiting_reducer = the (play (snd (reducer_new [2] 2)) [Adds 0 [1, 2] 1])"

lemma waiting_reducer_run: "rd_run (snd (reducer_new [2] 2)) [Adds 0 [1, 2] 1] waiting_reducer"
proof -
  have "play (snd (reducer_new [2] 2)) [Adds 0 [1, 2] 1] = Some waiting_reducer"
    by (simp add: reducer_eval waiting_reducer_def numeral_2_eq_2)
  then show ?thesis unfolding play_run .
qed

lemma cancelled_waiter_blocks_reducer_witness:
  "\<exists>r'. rd_run (cancel_waiter waiting_reducer) [Bans 0, Refuses 1 [3, 4] 1] r' \<and> \<not> rd_finished r' \<and> rd_results r' = []"
proof -
  let ?r = "the (play (cancel_waiter waiting_reducer) [Bans 0, Refuses 1 [3, 4] 1])"
  have "play (cancel_waiter waiting_reducer) [Bans 0, Refuses 1 [3, 4] 1] = Some ?r"
    by (simp add: reducer_eval waiting_reducer_def numeral_2_eq_2)
  then have run: "rd_run (cancel_waiter waiting_reducer) [Bans 0, Refuses 1 [3, 4] 1] ?r" unfolding play_run .
  have "\<not> rd_finished waiting_reducer" "rd_results waiting_reducer = []"
    by (simp_all add: reducer_eval waiting_reducer_def numeral_2_eq_2)
  then have "\<not> rd_finished ?r \<and> rd_results ?r = []"
    using cancelled_waiter_blocks_reducer [OF waiting_reducer_run _ _ run] by (simp add: none_refused_def)
  then show ?thesis using run by blast
qed

text \<open>C40. A part of the wrong size is counted as received before it is refused, so the reducer still waits for it when its
  sender is banned: no later step of any sender answers this part or a later one.\<close>

theorem refused_part_blocks_reducer:
  assumes "rd_run (snd (reducer_new sizes n)) es r" "none_refused es" "\<not> rd_finished r"
    and "s < n" "rd_failed_after r ! s = None" "length (sent s es) = length (rd_results r)"
    and "rd_step r (Refuses s part w) r1" "rd_run r1 es' r'"
  shows "\<not> rd_finished r' \<and> rd_results r' = rd_results r \<and> length (rd_results r') < length sizes"
  by (rule refused_part_blocks [OF assms])

text \<open>The second sender's part has three values for two; it is banned.\<close>

lemma refused_part_blocks_reducer_witness:
  "\<exists>r1 r'. rd_step waiting_reducer (Refuses 1 [3, 4, 5] 1) r1 \<and> rd_run r1 [Bans 1] r' \<and> \<not> rd_finished r' \<and> rd_results r' = []"
proof -
  let ?r1 = "the (do_event waiting_reducer (Refuses 1 [3, 4, 5] 1))"
  let ?r = "the (play ?r1 [Bans 1])"
  have w: "\<not> rd_finished waiting_reducer" "rd_results waiting_reducer = []" "rd_failed_after waiting_reducer ! 1 = None"
    by (simp_all add: reducer_eval waiting_reducer_def numeral_2_eq_2)
  have "do_event waiting_reducer (Refuses 1 [3, 4, 5] 1) = Some ?r1" "play ?r1 [Bans 1] = Some ?r"
    by (simp_all add: reducer_eval waiting_reducer_def numeral_2_eq_2)
  then have run: "rd_step waiting_reducer (Refuses 1 [3, 4, 5] 1) ?r1" "rd_run ?r1 [Bans 1] ?r"
    unfolding play_run do_event_step by blast+
  have "\<not> rd_finished ?r \<and> rd_results ?r = []"
    using refused_part_blocks_reducer [OF waiting_reducer_run _ w(1) _ w(3) _ run] w(2)
    by (simp add: none_refused_def sent_def)
  then show ?thesis using run by blast
qed

text \<open>With one of two parts averaged, the only sender is banned: the reducer stays as it is.\<close>

lemma deserted_demo:
  "\<exists>r. rd_run (snd (reducer_new [1, 1] 1)) [Bans 0] r \<and> deserted r"
proof -
  let ?r = "the (play (snd (reducer_new [1, 1] 1)) [Bans 0])"
  have "play (snd (reducer_new [1, 1] 1)) [Bans 0] = Some ?r" "deserted ?r"
    by (simp_all add: reducer_eval deserted_def)
  then show ?thesis unfolding play_run by blast
qed

end
